(* ===== verification/Prelude.thy ===== *)
theory Prelude
  imports Main "HOL-Library.AList" "HOL-Library.Signed_Division"
begin

text \<open>
  Shared vocabulary of the development: Go panics as values, Go maps as association
  lists, a few facts on lists that several components use, and the collections the
  component theories add their rewrite rules to.

  Conventions. A Go \<open>string\<close> or \<open>[]byte\<close> is an Isabelle \<open>string\<close> (a list of 8-bit
  characters). A Go \<open>int\<close> counter is an Isabelle \<open>int\<close>; fixed-width values whose
  wrap-around matters are words. Where the code can panic on an input that reaches it, the
  panic is the left summand of the result. An index that stays in range by an invariant of
  the component is a plain list index, and that invariant is proved.
\<close>

named_theorems thr_simps \<open>what a well-formed throttle is\<close>
named_theorems cl_simps \<open>how a client begins a request\<close>
named_theorems stream_simps \<open>what a stream writer holds and has written\<close>

subsection \<open>Panics\<close>

datatype go_panic =
    IndexOutOfRange
  | SliceOutOfRange
  | NilDereference
  | DivideByZero
  | TypeAssertion
  | ExplicitPanic string

type_synonym 'a go = "go_panic + 'a"

definition go_bind :: "'a go \<Rightarrow> ('a \<Rightarrow> 'b go) \<Rightarrow> 'b go" where
  "go_bind m f = (case m of Inl p \<Rightarrow> Inl p | Inr x \<Rightarrow> f x)"

definition no_panic :: "'a go \<Rightarrow> bool" where
  "no_panic m = (case m of Inl _ \<Rightarrow> False | Inr _ \<Rightarrow> True)"

lemma go_bind_simps [simp]:
  "go_bind (Inl p) f = Inl p"
  "go_bind (Inr x) f = f x"
  by (simp_all add: go_bind_def)

lemma no_panic_simps [simp]:
  "no_panic (Inl p) = False"
  "no_panic (Inr x) = True"
  by (simp_all add: no_panic_def)

lemma no_panic_bind:
  "no_panic m \<Longrightarrow> (\<And>x. m = Inr x \<Longrightarrow> no_panic (f x)) \<Longrightarrow> no_panic (go_bind m f)"
  by (cases m) auto

lemma no_panic_iff: "no_panic m \<longleftrightarrow> (\<exists>x. m = Inr x)"
  by (cases m) auto

text \<open>A slice expression \<open>xs[a:b]\<close>: it panics unless \<open>0 \<le> a \<le> b \<le> len(xs)\<close>.\<close>

definition go_slice :: "'a list \<Rightarrow> nat \<Rightarrow> nat \<Rightarrow> 'a list go" where
  "go_slice xs a b =
     (if a \<le> b \<and> b \<le> length xs then Inr (take (b - a) (drop a xs)) else Inl SliceOutOfRange)"

definition go_index :: "'a list \<Rightarrow> nat \<Rightarrow> 'a go" where
  "go_index xs i = (if i < length xs then Inr (xs ! i) else Inl IndexOutOfRange)"

lemma go_slice_ok [simp]:
  "a \<le> b \<Longrightarrow> b \<le> length xs \<Longrightarrow> go_slice xs a b = Inr (take (b - a) (drop a xs))"
  by (simp add: go_slice_def)

lemma go_slice_bad: "\<not> (a \<le> b \<and> b \<le> length xs) \<Longrightarrow> go_slice xs a b = Inl SliceOutOfRange"
  by (auto simp: go_slice_def)

lemma go_index_ok [simp]: "i < length xs \<Longrightarrow> go_index xs i = Inr (xs ! i)"
  by (simp add: go_index_def)

subsection \<open>Go maps\<close>

text \<open>
  A Go map is an association list with distinct keys. \<open>m[k]\<close> on a missing key gives the
  zero value. Iteration order is the list's order; every fact proved about an iteration
  holds for any order.
\<close>

type_synonym ('k, 'v) gomap = "('k \<times> 'v) list"

abbreviation gm_wf :: "('k, 'v) gomap \<Rightarrow> bool" where
  "gm_wf m \<equiv> distinct (map fst m)"

definition gm_get :: "'v \<Rightarrow> ('k, 'v) gomap \<Rightarrow> 'k \<Rightarrow> 'v" where
  "gm_get zero m k = (case map_of m k of None \<Rightarrow> zero | Some v \<Rightarrow> v)"

definition gm_set :: "('k, 'v) gomap \<Rightarrow> 'k \<Rightarrow> 'v \<Rightarrow> ('k, 'v) gomap" where
  "gm_set m k v = AList.update k v m"

definition gm_delete :: "('k, 'v) gomap \<Rightarrow> 'k \<Rightarrow> ('k, 'v) gomap" where
  "gm_delete m k = AList.delete k m"

text \<open>The statement \<open>m[k] += v\<close> on a map of integers.\<close>

definition gm_add :: "('k, int) gomap \<Rightarrow> 'k \<Rightarrow> int \<Rightarrow> ('k, int) gomap" where
  "gm_add m k v = gm_set m k (gm_get 0 m k + v)"

lemma gm_get_Nil [simp]: "gm_get z [] k = z"
  by (simp add: gm_get_def)

lemma map_of_gm_set: "map_of (gm_set m k v) = (map_of m)(k \<mapsto> v)"
  by (simp add: gm_set_def update_conv')

lemma map_of_gm_delete: "map_of (gm_delete m k) = (map_of m)(k := None)"
  by (simp add: gm_delete_def delete_conv')

lemma gm_get_set [simp]: "gm_get z (gm_set m k v) k' = (if k' = k then v else gm_get z m k')"
  by (simp add: gm_get_def map_of_gm_set)

lemma gm_get_delete [simp]: "gm_get z (gm_delete m k) k' = (if k' = k then z else gm_get z m k')"
  by (simp add: gm_get_def map_of_gm_delete)

lemma gm_get_add [simp]:
  "gm_get 0 (gm_add m k v) k' = (if k' = k then gm_get 0 m k + v else gm_get 0 m k')"
  by (simp add: gm_add_def)

lemma gm_wf_set [simp]: "gm_wf m \<Longrightarrow> gm_wf (gm_set m k v)"
  by (simp add: gm_set_def distinct_update)

lemma gm_wf_delete [simp]: "gm_wf m \<Longrightarrow> gm_wf (gm_delete m k)"
  by (simp add: gm_delete_def distinct_delete)

lemma gm_wf_add [simp]: "gm_wf m \<Longrightarrow> gm_wf (gm_add m k v)"
  by (simp add: gm_add_def)

lemma gm_get_mem: "gm_wf m \<Longrightarrow> (k, v) \<in> set m \<Longrightarrow> gm_get z m k = v"
  by (simp add: gm_get_def)

lemma gm_get_in_vals: "gm_get z m k \<noteq> z \<Longrightarrow> gm_get z m k \<in> snd ` set m"
  by (force simp: gm_get_def dest: map_of_SomeD split: option.splits)

subsection \<open>Integer division\<close>

text \<open>Go's \<open>/\<close> and \<open>%\<close> on \<open>int\<close> truncate: \<open>sdiv\<close> and \<open>smod\<close> of the library.\<close>

lemma sdiv_nonneg [simp]: "0 \<le> (a::int) \<Longrightarrow> 0 < b \<Longrightarrow> a sdiv b = a div b"
  by (cases "a = 0") (simp_all add: signed_divide_int_def)

lemma smod_nonneg [simp]: "0 \<le> (a::int) \<Longrightarrow> 0 < b \<Longrightarrow> a smod b = a mod b"
  by (cases "a = 0") (simp_all add: signed_modulo_int_def minus_div_mult_eq_mod)

lemma int_le_div_iff: "0 < (c::int) \<Longrightarrow> b \<le> a div c \<longleftrightarrow> b * c \<le> a"
proof -
  assume c: "0 < c"
  then have "(a + - b * c) div c = - b + a div c" by (subst div_mult_self1) auto
  with pos_imp_zdiv_nonneg_iff [OF c, of "a + - b * c"] show ?thesis by auto
qed

lemma int_div_less_iff: "0 < (c::int) \<Longrightarrow> a div c < b \<longleftrightarrow> a < b * c"
  using int_le_div_iff [of c b a] by linarith

subsection \<open>Lists\<close>

lemma nth_in_range_update: "i < length xs \<Longrightarrow> xs[i := x] ! j = (if j = i then x else xs ! j)"
  by simp

lemma list_all_update: "list_all P xs \<Longrightarrow> P x \<Longrightarrow> list_all P (xs[i := x])"
  by (auto simp: list_all_iff dest!: set_update_subset_insert [THEN subsetD])

text \<open>Iterating a function over a list of inputs, with the results collected.\<close>

fun run_list :: "('s \<Rightarrow> 'i \<Rightarrow> 'o \<times> 's) \<Rightarrow> 's \<Rightarrow> 'i list \<Rightarrow> 'o list \<times> 's" where
  "run_list f s [] = ([], s)"
| "run_list f s (x # xs) =
     (let (o1, s1) = f s x; (os, s2) = run_list f s1 xs in (o1 # os, s2))"

lemma run_list_append:
  "run_list f s (xs @ ys) =
     (let (os1, s1) = run_list f s xs; (os2, s2) = run_list f s1 ys in (os1 @ os2, s2))"
  by (induction xs arbitrary: s) (auto simp: Let_def split: prod.splits)

lemma run_list_inv:
  assumes "P s" and "\<And>s x. P s \<Longrightarrow> x \<in> set xs \<Longrightarrow> P (snd (f s x))"
  shows "P (snd (run_list f s xs))"
  using assms
proof (induction xs arbitrary: s)
  case (Cons x xs)
  then have "P (snd (f s x))" by simp
  with Cons show ?case by (simp add: split_beta Let_def)
qed simp

end
