(* ===== verification/Float64.thy ===== *)
theory Float64
  imports Complex_Main "HOL-Library.Log_Nat"
begin

text \<open>
  The double-precision arithmetic the code uses: a finite \<open>float64\<close> is the rational it
  denotes, \<open>fl\<close> rounds a rational to the nearest number with a 53-bit significand, ties
  to even, and an operation is the exact operation followed by \<open>fl\<close>. Overflow to infinity
  and subnormal numbers are left out: the code's values are integers below \<open>2 ^ 63\<close> and
  their quotients.

  The main fact, \<open>trunc_fdiv\<close>, is that truncating the rounded quotient of two integers
  gives the integer quotient when the numerator is below \<open>2 ^ 53\<close>.
\<close>

type_synonym f64 = rat

definition exponent :: "rat \<Rightarrow> int" where
  "exponent x =
     (let (n, d) = quotient_of x; e = bitlen n - bitlen d
      in if 2 powi e \<le> x then e else e - 1)"

definition round_even :: "rat \<Rightarrow> int" where
  "round_even y =
     (let f = \<lfloor>y\<rfloor>; r = y - of_int f
      in if r < 1 / 2 then f else if r > 1 / 2 then f + 1 else if even f then f else f + 1)"

definition fl_pos :: "rat \<Rightarrow> f64" where
  "fl_pos x = (let u = 2 powi (exponent x - 52) in of_int (round_even (x / u)) * u)"

definition fl :: "rat \<Rightarrow> f64" where
  "fl x = (if x = 0 then 0 else if x < 0 then - fl_pos (- x) else fl_pos x)"

text \<open>Conversion from an integer, multiplication, division and \<open>int(x)\<close>, which truncates.\<close>

definition f_of_int :: "int \<Rightarrow> f64" where
  "f_of_int n = fl (of_int n)"

definition fmul :: "f64 \<Rightarrow> f64 \<Rightarrow> f64" where
  "fmul x y = fl (x * y)"

definition fdiv :: "f64 \<Rightarrow> f64 \<Rightarrow> f64" where
  "fdiv x y = fl (x / y)"

definition f_trunc :: "f64 \<Rightarrow> int" where
  "f_trunc x = (if x < 0 then - \<lfloor>- x\<rfloor> else \<lfloor>x\<rfloor>)"

subsection \<open>The exponent\<close>

lemma bitlen_le_power: "0 < n \<Longrightarrow> (2::rat) powi (bitlen n - 1) \<le> of_int n"
proof -
  assume n: "0 < n"
  then have "2 ^ nat (bitlen n - 1) \<le> n" by (rule bitlen_bounds [THEN conjunct1])
  then have "(of_int (2 ^ nat (bitlen n - 1)) :: rat) \<le> of_int n"
    by (simp only: of_int_le_iff)
  moreover from n have "0 < bitlen n" using bitlen_eq_zero_iff [of n] bitlen_nonneg [of n] by linarith
  ultimately show ?thesis by (simp add: power_int_def)
qed

lemma less_bitlen_power: "0 < n \<Longrightarrow> of_int n < (2::rat) powi (bitlen n)"
proof -
  assume n: "0 < n"
  then have "n < 2 ^ nat (bitlen n)" by (rule bitlen_bounds [THEN conjunct2])
  then have "(of_int n :: rat) < of_int (2 ^ nat (bitlen n))"
    by (simp only: of_int_less_iff)
  moreover from n have "0 < bitlen n" using bitlen_eq_zero_iff [of n] bitlen_nonneg [of n] by linarith
  ultimately show ?thesis by (simp add: power_int_def)
qed

lemma exponent_bounds:
  assumes x: "0 < x"
  shows "2 powi (exponent x) \<le> x" and "x < 2 powi (exponent x + 1)"
proof -
  obtain n d where q: "quotient_of x = (n, d)" by force
  have d: "0 < d" using q by (rule quotient_of_denom_pos)
  have xe: "x = of_int n / of_int d" using q by (rule quotient_of_div)
  with x d have n: "0 < n" by (simp add: zero_less_divide_iff)
  let ?e = "bitlen n - bitlen d"
  have up: "x < 2 powi (?e + 1)"
  proof -
    have "x < 2 powi (bitlen n) / 2 powi (bitlen d - 1)"
      unfolding xe using less_bitlen_power [OF n] bitlen_le_power [OF d] d n
      by (intro frac_less) auto
    also have "\<dots> = 2 powi (?e + 1)"
      by (simp add: power_int_diff power_int_add)
    finally show ?thesis .
  qed
  have low: "2 powi (?e - 1) \<le> x"
  proof -
    have "2 powi (?e - 1) = 2 powi (bitlen n - 1) / (2::rat) powi (bitlen d)"
      by (simp add: power_int_diff)
    also have "\<dots> \<le> x"
      unfolding xe using less_bitlen_power [OF d] bitlen_le_power [OF n] d n
      by (intro frac_le) auto
    finally show ?thesis .
  qed
  show "2 powi (exponent x) \<le> x" and "x < 2 powi (exponent x + 1)"
    using up low by (auto simp: exponent_def q Let_def)
qed

subsection \<open>Rounding\<close>

lemma round_even_error: "\<bar>of_int (round_even y) - y\<bar> \<le> 1 / 2"
proof -
  have "of_int \<lfloor>y\<rfloor> \<le> y" and "y < of_int \<lfloor>y\<rfloor> + 1" by linarith+
  then have "y - of_int \<lfloor>y\<rfloor> < 1" and "0 \<le> y - of_int \<lfloor>y\<rfloor>" by linarith+
  then show ?thesis unfolding round_even_def Let_def by (simp add: abs_le_iff field_simps)
qed

lemma round_even_of_int: "round_even (of_int k) = k"
  by (simp add: round_even_def)

lemma fl_pos_error:
  assumes "0 < x"
  shows "\<bar>fl_pos x - x\<bar> \<le> x / 2 ^ 53"
proof -
  let ?u = "(2::rat) powi (exponent x - 52)"
  have u: "0 < ?u" by simp
  have "fl_pos x - x = (of_int (round_even (x / ?u)) - x / ?u) * ?u"
    by (simp add: fl_pos_def Let_def left_diff_distrib)
  then have "\<bar>fl_pos x - x\<bar> = \<bar>of_int (round_even (x / ?u)) - x / ?u\<bar> * ?u"
    using u by (simp add: abs_mult)
  also have "\<dots> \<le> 1 / 2 * ?u"
    using round_even_error u by (intro mult_right_mono) auto
  also have "\<dots> = 2 powi (exponent x) / 2 ^ 53"
    by (simp add: power_int_diff)
  also have "\<dots> \<le> x / 2 ^ 53"
    using exponent_bounds(1) [OF assms] by (intro divide_right_mono) auto
  finally show ?thesis .
qed

lemma fl_pos_of_int:
  assumes k: "0 < k" "k \<le> 2 ^ 53"
  shows "fl_pos (of_int k) = of_int k"
proof -
  let ?x = "of_int k :: rat" and ?e = "exponent (of_int k)"
  let ?u = "(2::rat) powi (?e - 52)"
  have x: "0 < ?x" using k by simp
  have u: "?u \<noteq> 0" by simp
  have "\<exists>m. ?x / ?u = of_int m"
  proof (cases "?e \<le> 52")
    case True
    have "?u * 2 powi (52 - ?e) = 1"
      by (simp flip: power_int_add)
    then have "?x / ?u = ?x * 2 powi (52 - ?e)"
      by (simp add: field_simps)
    also have "\<dots> = of_int (k * 2 ^ nat (52 - ?e))"
      using True by (simp add: power_int_def)
    finally show ?thesis ..
  next
    case False
    have "2 powi ?e \<le> (2::rat) ^ 53"
    proof -
      have "of_int k \<le> (of_int (2 ^ 53) :: rat)" using k(2) by (simp only: of_int_le_iff)
      with exponent_bounds(1) [OF x] show ?thesis by simp
    qed
    then have "(2::rat) powi ?e \<le> 2 powi 53" by simp
    then have "?e \<le> 53" using power_int_strict_increasing [of 53 ?e "2::rat"] by force
    with False have e: "?e = 53" by simp
    with exponent_bounds(1) [OF x] have "(of_int (2 ^ 53) :: rat) \<le> of_int k" by simp
    then have "2 ^ 53 \<le> k" by (simp only: of_int_le_iff)
    with k have "k = 2 ^ 53" by simp
    with e have "?x / ?u = of_int (2 ^ 52)" by simp
    then show ?thesis ..
  qed
  then obtain m where m: "?x / ?u = of_int m" ..
  then have "fl_pos ?x = of_int m * ?u"
    by (simp add: fl_pos_def Let_def round_even_of_int)
  also have "\<dots> = ?x" using m u by (simp flip: m)
  finally show ?thesis .
qed

lemma fl_of_int: "0 \<le> k \<Longrightarrow> k \<le> 2 ^ 53 \<Longrightarrow> fl (of_int k) = of_int k"
  by (auto simp: fl_def fl_pos_of_int)

lemma f_of_int_exact: "0 \<le> k \<Longrightarrow> k \<le> 2 ^ 53 \<Longrightarrow> f_of_int k = of_int k"
  by (simp add: f_of_int_def fl_of_int)

lemma fl_nonneg: "0 \<le> x \<Longrightarrow> 0 \<le> fl x"
proof (cases "x = 0")
  case False
  assume "0 \<le> x"
  with False have x: "0 < x" by simp
  have "x / 2 ^ 53 \<le> x" using x by (simp add: field_simps)
  with fl_pos_error [OF x] have "0 \<le> fl_pos x" by linarith
  with x show ?thesis by (simp add: fl_def)
qed (simp add: fl_def)

subsection \<open>Truncated quotients\<close>

lemma floor_fl_ratio:
  assumes p: "0 \<le> p" "p < 2 ^ 53" and q: "0 < q"
  shows "\<lfloor>fl (of_int p / of_int q)\<rfloor> = p div q"
proof (cases "p = 0")
  case False
  let ?x = "of_int p / of_int q :: rat" and ?k = "p div q" and ?r = "p mod q"
  have p0: "0 < p" using False p by simp
  then have x: "0 < ?x" using q by simp
  have qr: "(0::rat) < of_int q" using q by simp
  have split: "?x = of_int ?k + of_int ?r / of_int q"
  proof -
    have "(of_int p :: rat) = of_int (?k * q + ?r)" by (simp only: div_mult_mod_eq)
    also have "\<dots> = of_int ?k * of_int q + of_int ?r" by (simp only: of_int_add of_int_mult)
    finally have "?x = (of_int ?k * of_int q + of_int ?r) / of_int q" by (rule arg_cong)
    then show ?thesis using qr by (simp add: add_divide_distrib)
  qed
  have small: "?x / 2 ^ 53 < 1 / of_int q"
  proof -
    have "(of_int p :: rat) < of_int (2 ^ 53)" using p(2) by (simp only: of_int_less_iff)
    then have "of_int p / 2 ^ 53 < (1::rat)" by simp
    then have "(of_int p / 2 ^ 53) / of_int q < (1::rat) / of_int q"
      using qr by (rule divide_strict_right_mono)
    then show ?thesis by (simp add: mult.commute)
  qed
  have flx: "fl ?x = fl_pos ?x" using p0 q by (simp add: fl_def divide_less_0_iff)
  have err: "\<bar>fl ?x - ?x\<bar> < 1 / of_int q"
    using fl_pos_error [OF x] small flx by linarith
  have r: "0 \<le> ?r" "?r \<le> q - 1" using q by simp_all
  have low: "of_int ?k \<le> fl ?x"
  proof (cases "?r = 0")
    case True
    have "?k \<le> p" using p q zdiv_mono2 [of p 1 q] by simp
    then have "fl (of_int ?k) = of_int ?k"
      using p q by (intro fl_of_int) (auto simp: pos_imp_zdiv_nonneg_iff)
    with True split show ?thesis by simp
  next
    case False
    with r have "1 \<le> ?r" by simp
    then have "(1::rat) / of_int q \<le> of_int ?r / of_int q"
      using qr by (intro divide_right_mono) auto
    with err split show ?thesis by linarith
  qed
  have up: "fl ?x < of_int ?k + 1"
  proof -
    have "(of_int ?r :: rat) \<le> of_int (q - 1)" using r(2) by (simp only: of_int_le_iff)
    then have "(of_int ?r :: rat) / of_int q \<le> of_int (q - 1) / of_int q"
      using qr by (intro divide_right_mono) auto
    also have "\<dots> = 1 - 1 / of_int q" using qr by (simp add: diff_divide_distrib)
    finally show ?thesis using err split by linarith
  qed
  from low up show ?thesis by (intro floor_unique) auto
qed (simp add: fl_def)

lemma trunc_fdiv:
  assumes "0 \<le> p" "p < 2 ^ 53" "0 < q" "q \<le> 2 ^ 53"
  shows "f_trunc (fdiv (of_int p) (f_of_int q)) = p div q"
proof -
  have "0 \<le> fl (of_int p / of_int q)" using assms by (intro fl_nonneg) simp
  then have "f_trunc (fdiv (of_int p) (of_int q)) = \<lfloor>fl (of_int p / of_int q)\<rfloor>"
    by (simp add: f_trunc_def fdiv_def)
  with floor_fl_ratio [of p q] assms show ?thesis by (simp add: f_of_int_exact)
qed

subsection \<open>Printing with two decimals\<close>

text \<open>\<open>%.2f\<close>: the exact value rounded to hundredths, ties to even. The digits are given by a decimal
  printer \<open>dec\<close> of integers.\<close>

definition fixed2 :: "(int \<Rightarrow> string) \<Rightarrow> f64 \<Rightarrow> string" where
  "fixed2 dec x =
     (let n = round_even (abs x * 100); r = n mod 100
      in (if x < 0 then ''-'' else []) @ dec (n div 100) @ ''.''
         @ (if r < 10 then ''0'' else []) @ dec r)"

end
