(* ===== verification/GoStrings.thy ===== *)
theory GoStrings
  imports Prelude
begin

text \<open>
  The functions of Go's \<open>strings\<close> and \<open>strconv\<close> packages the code calls, on ASCII bytes:
  splitting and joining at a one-byte separator, trimming a cut set, searching, decimal
  conversion with the 64-bit range check of \<open>strconv.Atoi\<close>.
\<close>

subsection \<open>Split, Join, Trim\<close>

fun go_split :: "char \<Rightarrow> string \<Rightarrow> string list" where
  "go_split sep [] = [[]]"
| "go_split sep (c # cs) =
     (if c = sep then [] # go_split sep cs
      else (c # hd (go_split sep cs)) # tl (go_split sep cs))"

fun go_join :: "string \<Rightarrow> string list \<Rightarrow> string" where
  "go_join sep [] = []"
| "go_join sep [x] = x"
| "go_join sep (x # y # xs) = x @ sep @ go_join sep (y # xs)"

definition go_trim_left :: "string \<Rightarrow> string \<Rightarrow> string" where
  "go_trim_left cutset s = dropWhile (\<lambda>c. c \<in> set cutset) s"

definition go_trim :: "string \<Rightarrow> string \<Rightarrow> string" where
  "go_trim cutset s = rev (go_trim_left cutset (rev (go_trim_left cutset s)))"

text \<open>The cut set \<open>"\r\n\t "\<close> used all over the code.\<close>

definition blanks :: string where
  "blanks = [CHR 0x0D, CHR 0x0A, CHR 0x09, CHR '' '']"

lemma go_split_not_Nil [simp]: "go_split sep s \<noteq> []"
  by (cases s) auto

lemma go_split_no_sep: "x \<in> set (go_split sep s) \<Longrightarrow> sep \<notin> set x"
proof (induction s arbitrary: x)
  case (Cons c cs)
  obtain y ys where "go_split sep cs = y # ys" by (cases "go_split sep cs") auto
  with Cons show ?case by (auto split: if_splits)
qed simp

lemma go_join_Cons: "xs \<noteq> [] \<Longrightarrow> go_join sep (x # xs) = x @ sep @ go_join sep xs"
  by (cases xs) auto

lemma go_join_split: "go_join [sep] (go_split sep s) = s"
proof (induction s)
  case (Cons c cs)
  obtain y ys where "go_split sep cs = y # ys" by (cases "go_split sep cs") auto
  with Cons show ?case by (cases ys) (auto simp: go_join_Cons)
qed simp

lemma go_split_plain: "sep \<notin> set s \<Longrightarrow> go_split sep s = [s]"
  by (induction s) auto

lemma go_split_append: "sep \<notin> set s \<Longrightarrow> go_split sep (s @ sep # r) = s # go_split sep r"
  by (induction s) auto

lemma go_split_join:
  "xs \<noteq> [] \<Longrightarrow> \<forall>x \<in> set xs. sep \<notin> set x \<Longrightarrow> go_split sep (go_join [sep] xs) = xs"
  by (induction "[sep]" xs rule: go_join.induct) (auto simp: go_split_plain go_split_append)

lemma length_go_split: "length (go_split sep s) = Suc (length (filter ((=) sep) s))"
proof (induction s)
  case (Cons c cs)
  obtain y ys where "go_split sep cs = y # ys" by (cases "go_split sep cs") auto
  with Cons show ?case by auto
qed simp

lemma go_trim_left_id: "(s \<noteq> [] \<Longrightarrow> hd s \<notin> set cutset) \<Longrightarrow> go_trim_left cutset s = s"
  by (cases s) (auto simp: go_trim_left_def)

lemma go_trim_id:
  "(s \<noteq> [] \<Longrightarrow> hd s \<notin> set cutset \<and> last s \<notin> set cutset) \<Longrightarrow> go_trim cutset s = s"
  by (cases "s = []") (simp_all add: go_trim_def go_trim_left_id hd_rev, simp add: go_trim_left_def)

lemma go_trim_none: "set s \<inter> set cutset = {} \<Longrightarrow> go_trim cutset s = s"
  by (rule go_trim_id) (use hd_in_set last_in_set in blast)

subsection \<open>Searching and case\<close>

fun has_prefix :: "string \<Rightarrow> string \<Rightarrow> bool" where
  "has_prefix s [] = True"
| "has_prefix [] (p # ps) = False"
| "has_prefix (c # cs) (p # ps) = (c = p \<and> has_prefix cs ps)"

fun go_index_of :: "string \<Rightarrow> string \<Rightarrow> nat option" where
  "go_index_of [] p = (if p = [] then Some 0 else None)"
| "go_index_of (c # cs) p =
     (if has_prefix (c # cs) p then Some 0 else map_option Suc (go_index_of cs p))"

definition go_contains :: "string \<Rightarrow> string \<Rightarrow> bool" where
  "go_contains s p = (go_index_of s p \<noteq> None)"

definition to_lower_char :: "char \<Rightarrow> char" where
  "to_lower_char c =
     (let n = of_char c :: nat in if 65 \<le> n \<and> n \<le> 90 then char_of (n + 32) else c)"

definition to_lower :: "string \<Rightarrow> string" where
  "to_lower s = map to_lower_char s"

definition equal_fold :: "string \<Rightarrow> string \<Rightarrow> bool" where
  "equal_fold a b = (to_lower a = to_lower b)"

lemma has_prefix_iff: "has_prefix s p \<longleftrightarrow> (\<exists>r. s = p @ r)"
  by (induction s p rule: has_prefix.induct) auto

lemma go_index_of_Some: "go_index_of s p = Some i \<Longrightarrow> \<exists>r. s = take i s @ p @ r \<and> i \<le> length s"
proof (induction s arbitrary: i)
  case (Cons c cs)
  then show ?case by (cases i) (auto simp: has_prefix_iff split: if_splits)
qed (auto split: if_splits)

lemma go_index_of_bound: "go_index_of s p = Some i \<Longrightarrow> i + length p \<le> length s"
  by (drule go_index_of_Some) (metis add.assoc append_assoc length_append length_take min.absorb2
      le_add1)

subsection \<open>Decimal numbers\<close>

definition digit_val :: "char \<Rightarrow> nat option" where
  "digit_val c =
     (let n = of_char c :: nat in if 48 \<le> n \<and> n \<le> 57 then Some (n - 48) else None)"

fun digits_val :: "string \<Rightarrow> nat \<Rightarrow> nat option" where
  "digits_val [] acc = Some acc"
| "digits_val (c # cs) acc =
     (case digit_val c of None \<Rightarrow> None | Some d \<Rightarrow> digits_val cs (10 * acc + d))"

abbreviation max_int64 :: int where "max_int64 \<equiv> 9223372036854775807"
abbreviation min_int64 :: int where "min_int64 \<equiv> - 9223372036854775808"

text \<open>
  \<open>strconv.Atoi\<close>: the value and whether the error is nil. A syntax error gives 0, a value
  out of range gives the nearest bound.
\<close>

definition atoi :: "string \<Rightarrow> int \<times> bool" where
  "atoi s =
     (let (neg, ds) = (case s of [] \<Rightarrow> (False, [])
                       | c # cs \<Rightarrow> if c = CHR ''-'' then (True, cs)
                                   else if c = CHR ''+'' then (False, cs) else (False, s))
      in if ds = [] then (0, False)
         else case digits_val ds 0 of
           None \<Rightarrow> (0, False)
         | Some n \<Rightarrow>
             (let v = (if neg then - int n else int n)
              in if v > max_int64 then (max_int64, False)
                 else if v < min_int64 then (min_int64, False) else (v, True)))"

fun nat_digits :: "nat \<Rightarrow> string" where
  "nat_digits n =
     (if n < 10 then [char_of (48 + n)] else nat_digits (n div 10) @ [char_of (48 + n mod 10)])"

declare nat_digits.simps [simp del]

definition itoa :: "int \<Rightarrow> string" where
  "itoa v = (if v < 0 then CHR ''-'' # nat_digits (nat (- v)) else nat_digits (nat v))"

lemma digit_val_digit [simp]: "d < 10 \<Longrightarrow> digit_val (char_of (48 + d)) = Some d"
  by (simp add: digit_val_def)

lemma digits_val_append:
  "digits_val (xs @ ys) acc =
     (case digits_val xs acc of None \<Rightarrow> None | Some a \<Rightarrow> digits_val ys a)"
  by (induction xs acc rule: digits_val.induct) (auto split: option.splits)

lemma digits_val_nat_digits: "digits_val (nat_digits n) 0 = Some n"
proof (induction n rule: nat_digits.induct)
  case (1 n)
  show ?case
  proof (cases "n < 10")
    case True
    then show ?thesis by (subst nat_digits.simps) simp
  next
    case False
    with 1 show ?thesis by (subst nat_digits.simps) (simp add: digits_val_append)
  qed
qed

lemma nat_digits_not_Nil [simp]: "nat_digits n \<noteq> []"
  by (subst nat_digits.simps) simp

lemma nat_digits_chars: "c \<in> set (nat_digits n) \<Longrightarrow> \<exists>d < (10::nat). c = char_of (48 + d)"
proof (induction n rule: nat_digits.induct)
  case (1 n)
  show ?case
  proof (cases "n < 10")
    case True
    with 1 show ?thesis by (subst (asm) (2) nat_digits.simps) auto
  next
    case False
    with 1(2) have "c \<in> set (nat_digits (n div 10)) \<or> c = char_of (48 + n mod 10)"
      by (subst (asm) nat_digits.simps) auto
    moreover have "n mod 10 < 10" by simp
    ultimately show ?thesis using 1(1) False by blast
  qed
qed

lemma nat_digits_no_char:
  "(of_char c :: nat) < 48 \<or> 57 < (of_char c :: nat) \<Longrightarrow> c \<notin> set (nat_digits n)"
  by (auto dest!: nat_digits_chars)

lemma atoi_itoa: "min_int64 \<le> v \<Longrightarrow> v \<le> max_int64 \<Longrightarrow> atoi (itoa v) = (v, True)"
proof -
  assume v: "min_int64 \<le> v" "v \<le> max_int64"
  have minus: "CHR ''-'' \<notin> set (nat_digits n)" "CHR ''+'' \<notin> set (nat_digits n)" for n
    by (rule nat_digits_no_char, simp)+
  show ?thesis
  proof (cases "v < 0")
    case True
    with v show ?thesis by (simp add: itoa_def atoi_def digits_val_nat_digits)
  next
    case False
    obtain c cs where n: "nat_digits (nat v) = c # cs" by (cases "nat_digits (nat v)") auto
    then have "c \<noteq> CHR ''-''" "c \<noteq> CHR ''+''" using minus [of "nat v"] by auto
    with False v n digits_val_nat_digits [of "nat v"] show ?thesis
      by (simp add: itoa_def atoi_def)
  qed
qed

lemma atoi_range: "min_int64 \<le> fst (atoi s) \<and> fst (atoi s) \<le> max_int64"
  by (auto simp: atoi_def Let_def split: list.splits option.splits prod.splits)

end
