(* ===== verification/Throttle.thy ===== *)
theory Throttle
  imports Prelude Float64 GoStrings
begin

text \<open>
  The sliding-window throttle of \<open>gosol/solana_proxy/client/throttle\<close>: \<open>throttle.go\<close>
  (the data and \<open>MakeCustom\<close>, \<open>AddLimiter\<close>), \<open>stats.go\<close> (accounting, the amount used by a
  limiter, the score and the cached status) and \<open>GetLimitsLeft\<close> of \<open>status.go\<close>.

  A throttle keeps a ring of windows of \<open>stats_window_size_seconds\<close> seconds each; the slot at
  \<open>stats_pos\<close> is the current one. The abstract view, \<open>recent\<close>, lists the windows newest first.
\<close>

subsection \<open>Data\<close>

datatype limiter_type = L_REQUESTS | L_REQUESTS_PER_FN | L_DATA_RECEIVED

record limiter =
  limiter_t :: limiter_type
  maximum :: int
  in_time_windows :: int

record tstat =
  tstat_requests :: int
  tstat_by_fn :: "(string, int) gomap"
  tstat_data :: int

definition empty_tstat :: tstat where
  "empty_tstat = \<lparr>tstat_requests = 0, tstat_by_fn = [], tstat_data = 0\<rparr>"

record throttle =
  limiters :: "limiter list"
  stats_pos :: int
  stats :: "tstat list"
  stats_window_size_seconds :: int
  score_modifier :: int
  status_score :: int
  status_throttled :: bool
  status_capacity_used :: int

record throttle_score =
  Score :: int
  Throttled :: bool
  CapacityUsed :: int

subsection \<open>Construction\<close>

definition MakeCustom :: "int \<Rightarrow> int \<Rightarrow> int \<Rightarrow> throttle go" where
  "MakeCustom now window_count window_size_seconds =
     (if window_count < 0 then Inl (ExplicitPanic ''makeslice: len out of range'')
      else if window_size_seconds = 0 \<or> window_count = 0 then Inl DivideByZero
      else Inr \<lparr>limiters = [],
                stats_pos = (now sdiv window_size_seconds) smod window_count,
                stats = replicate (nat window_count) empty_tstat,
                stats_window_size_seconds = window_size_seconds,
                score_modifier = 0, status_score = 0, status_throttled = False,
                status_capacity_used = 0\<rparr>)"

definition Make :: "int \<Rightarrow> throttle go" where
  "Make now = MakeCustom now 120 1"

definition AddLimiter :: "throttle \<Rightarrow> limiter_type \<Rightarrow> int \<Rightarrow> int \<Rightarrow> throttle" where
  "AddLimiter this t limit time_seconds =
     (let tw = time_seconds sdiv stats_window_size_seconds this
      in this\<lparr>limiters := limiters this @
                [\<lparr>limiter_t = t, maximum = limit, in_time_windows = tw\<rparr>]\<rparr>)"

definition SetScoreModifier :: "throttle \<Rightarrow> int \<Rightarrow> throttle" where
  "SetScoreModifier this m = this\<lparr>score_modifier := m\<rparr>"

subsection \<open>The amount a limiter has used\<close>

definition ring_back :: "tstat list \<Rightarrow> int \<Rightarrow> int" where
  "ring_back sts pos = (if pos - 1 < 0 then int (length sts) - 1 else pos - 1)"

fun sum_windows :: "(tstat \<Rightarrow> int) \<Rightarrow> tstat list \<Rightarrow> nat \<Rightarrow> int \<Rightarrow> int \<Rightarrow> int" where
  "sum_windows f sts 0 pos amt = amt"
| "sum_windows f sts (Suc i) pos amt =
     sum_windows f sts i (ring_back sts pos) (amt + f (sts ! nat pos))"

definition merge_counts :: "(string, int) gomap \<Rightarrow> (string, int) gomap \<Rightarrow> (string, int) gomap" where
  "merge_counts m tmp = fold (\<lambda>(k, v) acc. gm_add acc k v) m tmp"

fun fn_windows ::
  "tstat list \<Rightarrow> nat \<Rightarrow> int \<Rightarrow> (string, int) gomap \<Rightarrow> (string, int) gomap" where
  "fn_windows sts 0 pos tmp = tmp"
| "fn_windows sts (Suc i) pos tmp =
     fn_windows sts i (ring_back sts pos) (merge_counts (tstat_by_fn (sts ! nat pos)) tmp)"

definition max_count :: "(string, int) gomap \<Rightarrow> int" where
  "max_count tmp = fold (\<lambda>(_, v) amt. if amt < v then v else amt) tmp 0"

definition amount_used :: "throttle \<Rightarrow> limiter \<Rightarrow> int" where
  "amount_used this l =
     (let n = nat (in_time_windows l)
      in case limiter_t l of
           L_REQUESTS \<Rightarrow> sum_windows tstat_requests (stats this) n (stats_pos this) 0
         | L_DATA_RECEIVED \<Rightarrow> sum_windows tstat_data (stats this) n (stats_pos this) 0
         | L_REQUESTS_PER_FN \<Rightarrow> max_count (fn_windows (stats this) n (stats_pos this) []))"

definition percentage_used :: "int \<Rightarrow> int \<Rightarrow> int" where
  "percentage_used amt limit =
     (if amt \<ge> limit then 10000
      else f_trunc (fdiv (fmul (f_of_int amt) 10000) (f_of_int limit)))"

definition getThrottleStatus :: "throttle \<Rightarrow> limiter \<Rightarrow> int \<times> int" where
  "getThrottleStatus this l =
     (let amt = amount_used this l in (amt, percentage_used amt (maximum l)))"

subsection \<open>The score and its cached copy\<close>

definition getThrottleScore :: "throttle \<Rightarrow> throttle_score" where
  "getThrottleScore this =
     (if limiters this = [] then
        \<lparr>Score = sum_windows (\<lambda>s. tstat_requests s + tstat_data s sdiv 10000)
                   (stats this) 10 (stats_pos this) 0 + score_modifier this,
         Throttled = False, CapacityUsed = 0\<rparr>
      else
        (let score = fold (\<lambda>l s. let tmp = snd (getThrottleStatus this l)
                                 in if tmp > s then tmp else s) (limiters this) 0
         in \<lparr>Score = score + score_modifier this, Throttled = (score \<ge> 10000),
             CapacityUsed = score\<rparr>))"

definition refresh_status :: "throttle \<Rightarrow> throttle" where
  "refresh_status this =
     (let tmp = getThrottleScore this
      in this\<lparr>status_throttled := Throttled tmp, status_score := Score tmp,
              status_capacity_used := CapacityUsed tmp\<rparr>)"

definition GetThrottleScore :: "throttle \<Rightarrow> throttle_score" where
  "GetThrottleScore this =
     \<lparr>Score = status_score this, Throttled = status_throttled this,
      CapacityUsed = status_capacity_used this\<rparr>"

subsection \<open>Accounting\<close>

definition OnRequest :: "throttle \<Rightarrow> string \<Rightarrow> bool \<times> throttle" where
  "OnRequest this function_name =
     (if status_throttled this then (False, this)
      else
        (let p = nat (stats_pos this); s = stats this ! p;
             s' = s\<lparr>tstat_requests := tstat_requests s + 1,
                    tstat_by_fn := gm_add (tstat_by_fn s) function_name 1\<rparr>
         in (True, refresh_status (this\<lparr>stats := (stats this)[p := s']\<rparr>))))"

definition OnReceive :: "throttle \<Rightarrow> int \<Rightarrow> throttle" where
  "OnReceive this data_bytes =
     (let p = nat (stats_pos this); s = stats this ! p
      in this\<lparr>stats := (stats this)[p := s\<lparr>tstat_data := tstat_data s + data_bytes\<rparr>]\<rparr>)"

definition OnMaintenance :: "throttle \<Rightarrow> int \<Rightarrow> throttle" where
  "OnMaintenance this ts =
     (let new_pos = (ts sdiv stats_window_size_seconds this) smod int (length (stats this))
      in if new_pos = stats_pos this then this
         else refresh_status
                (this\<lparr>stats_pos := new_pos, stats := (stats this)[nat new_pos := empty_tstat]\<rparr>))"

subsection \<open>What is left\<close>

record limits_left =
  left_reqs :: int
  left_reqs_fn :: int
  left_data_rec :: int
  left_capacity :: int

definition limits_step :: "throttle \<Rightarrow> limiter \<Rightarrow> limits_left \<Rightarrow> limits_left" where
  "limits_step this v acc =
     (let (amt_used, cap_used) = getThrottleStatus this v;
          amt_left = (if maximum v - amt_used < 0 then 0 else maximum v - amt_used);
          acc1 = (if limiter_t v = L_REQUESTS \<and> amt_left < left_reqs acc
                  then acc\<lparr>left_reqs := amt_left\<rparr> else acc);
          acc2 = (if limiter_t v = L_REQUESTS_PER_FN \<and> amt_left < left_reqs_fn acc1
                  then acc1\<lparr>left_reqs_fn := amt_left\<rparr> else acc1);
          acc3 = (if limiter_t v = L_DATA_RECEIVED \<and> amt_left < left_data_rec acc2
                  then acc2\<lparr>left_data_rec := amt_left\<rparr> else acc2)
      in if cap_used > left_capacity acc3 then acc3\<lparr>left_capacity := cap_used\<rparr> else acc3)"

definition GetLimitsLeft :: "throttle \<Rightarrow> int \<times> int \<times> int \<times> int" where
  "GetLimitsLeft this =
     (if Throttled (GetThrottleScore this) then (0, 0, 0, 10000)
      else
        (let g = 1024 * 1024 * 1024;
             acc = fold (limits_step this) (limiters this)
                     \<lparr>left_reqs = g, left_reqs_fn = g, left_data_rec = g, left_capacity = 0\<rparr>;
             cap = (if left_capacity acc > 10000 then 10000 else left_capacity acc)
         in (left_reqs acc, left_reqs_fn acc, left_data_rec acc, cap)))"

subsection \<open>The ring read as a list of windows\<close>

text \<open>\<open>recent sts k pos\<close>: the last \<open>k\<close> windows, newest first.\<close>

fun recent :: "tstat list \<Rightarrow> nat \<Rightarrow> int \<Rightarrow> tstat list" where
  "recent sts 0 pos = []"
| "recent sts (Suc k) pos = sts ! nat pos # recent sts k (ring_back sts pos)"

definition ring_ok :: "throttle \<Rightarrow> bool" where
  "ring_ok t \<longleftrightarrow> 0 \<le> stats_pos t \<and> stats_pos t < int (length (stats t)) \<and>
     0 < stats_window_size_seconds t \<and> (\<forall>s \<in> set (stats t). gm_wf (tstat_by_fn s))"

lemma ring_okD:
  assumes "ring_ok t"
  shows "0 \<le> stats_pos t" "stats_pos t < int (length (stats t))"
    "0 < stats_window_size_seconds t" "0 < length (stats t)"
    "nat (stats_pos t) < length (stats t)"
  using assms by (auto simp: ring_ok_def)

lemma ring_back_mod:
  assumes "0 \<le> pos" "pos < int (length sts)"
  shows "ring_back sts pos = (pos - 1) mod int (length sts)"
proof (cases "pos = 0")
  case True
  have "(- 1) mod int (length sts) = int (length sts) - 1"
    using assms by (intro zmod_minus1) linarith
  with True show ?thesis by (simp add: ring_back_def)
next
  case False
  with assms show ?thesis by (simp add: ring_back_def)
qed

lemma ring_back_range:
  assumes "0 \<le> pos" "pos < int (length sts)"
  shows "0 \<le> ring_back sts pos" "ring_back sts pos < int (length sts)"
  using assms by (auto simp: ring_back_def)

lemma recent_eq:
  assumes "0 \<le> pos" "pos < int (length sts)"
  shows "recent sts k pos = map (\<lambda>i. sts ! nat ((pos - int i) mod int (length sts))) [0..<k]"
  using assms
proof (induction k arbitrary: pos)
  case (Suc k)
  let ?n = "int (length sts)"
  have shift: "(ring_back sts pos - int i) mod ?n = (pos - int (Suc i)) mod ?n" for i
    using Suc.prems by (simp add: ring_back_mod mod_diff_left_eq algebra_simps)
  have "recent sts (Suc k) pos =
      sts ! nat pos # map (\<lambda>i. sts ! nat ((pos - int (Suc i)) mod ?n)) [0..<k]"
    using Suc.IH [OF ring_back_range [OF Suc.prems]] by (simp add: shift)
  also have "\<dots> = map (\<lambda>i. sts ! nat ((pos - int i) mod ?n)) [0..<Suc k]"
    using Suc.prems by (simp add: upt_conv_Cons map_Suc_upt [symmetric] comp_def
        del: upt_Suc map_Suc_upt)
  finally show ?case .
qed simp

lemma length_recent [simp]: "length (recent sts k pos) = k"
  by (induction k arbitrary: pos) auto

lemma sum_windows_recent: "sum_windows f sts k pos amt = amt + sum_list (map f (recent sts k pos))"
  by (induction k arbitrary: pos amt) auto

lemma gm_wf_merge_counts: "gm_wf tmp \<Longrightarrow> gm_wf (merge_counts m tmp)"
  unfolding merge_counts_def by (induction m arbitrary: tmp) auto

lemma gm_get_merge_counts:
  "gm_wf m \<Longrightarrow> gm_get 0 (merge_counts m tmp) f = gm_get 0 tmp f + gm_get 0 m f"
  unfolding merge_counts_def
proof (induction m arbitrary: tmp)
  case (Cons kv m)
  obtain k v where kv: "kv = (k, v)" by force
  with Cons.prems have "gm_get 0 m k = 0"
    by (force simp: gm_get_def split: option.splits dest: map_of_SomeD)
  then have "gm_get 0 ((k, v) # m) f = (if f = k then v else gm_get 0 m f)" for f
    by (simp add: gm_get_def)
  with Cons kv \<open>gm_get 0 m k = 0\<close> show ?case by simp
qed simp

lemma gm_wf_fn_windows: "gm_wf tmp \<Longrightarrow> gm_wf (fn_windows sts k pos tmp)"
  by (induction k arbitrary: pos tmp) (auto simp: gm_wf_merge_counts)

lemma gm_get_fn_windows:
  assumes "\<forall>s \<in> set sts. gm_wf (tstat_by_fn s)" "0 \<le> pos" "pos < int (length sts)"
  shows "gm_get 0 (fn_windows sts k pos tmp) f =
     gm_get 0 tmp f + sum_list (map (\<lambda>s. gm_get 0 (tstat_by_fn s) f) (recent sts k pos))"
  using assms(2,3)
proof (induction k arbitrary: pos tmp)
  case (Suc k)
  have "sts ! nat pos \<in> set sts" using Suc.prems by simp
  with assms(1) have "gm_wf (tstat_by_fn (sts ! nat pos))" by blast
  with Suc.IH [OF ring_back_range [OF Suc.prems]] show ?case
    by (simp add: gm_get_merge_counts)
qed simp

text \<open>A loop that keeps the largest value seen computes a maximum.\<close>

lemma fold_keep_max:
  fixes f :: "'a \<Rightarrow> int"
  shows "fold (\<lambda>x acc. if acc < f x then f x else acc) xs a = Max (insert a (f ` set xs))"
proof -
  have "fold (\<lambda>x acc. if acc < f x then f x else acc) xs a = fold max (map f xs) a"
    by (induction xs arbitrary: a) (auto simp: max_def)
  also have "\<dots> = Max (set (a # map f xs))" by (rule Max.set_eq_fold [symmetric])
  finally show ?thesis by simp
qed

lemma max_count_Max: "max_count m = Max (insert 0 (snd ` set m))"
  using fold_keep_max [of snd m 0] by (simp add: max_count_def case_prod_beta')

lemma max_count_nonneg: "0 \<le> max_count m"
  by (simp add: max_count_Max)

lemma gm_get_le_max_count: "gm_get 0 m k \<le> max_count m"
proof (cases "gm_get 0 m k = 0")
  case False
  then have "gm_get 0 m k \<in> snd ` set m" by (rule gm_get_in_vals)
  then show ?thesis by (simp add: max_count_Max)
qed (simp add: max_count_nonneg)

lemma max_count_le:
  assumes "gm_wf m" "\<And>k. gm_get 0 m k \<le> b" "0 \<le> b"
  shows "max_count m \<le> b"
  using assms(2,3) gm_get_mem [OF assms(1), of _ _ 0] by (force simp: max_count_Max)

end
