(* ===== verification/ThrottleRate.thy ===== *)
theory ThrottleRate
  imports Throttle
begin

text \<open>
  Correctness of the throttle. First how each operation changes the amount a limiter has
  used; then the meaning of the cached status; then the rate limit itself, stated over the
  log of accepted requests that a run of the throttle produces; then what \<open>GetLimitsLeft\<close>
  promises, and that an idle throttle recovers.
\<close>

subsection \<open>Amounts through the abstract view\<close>

lemma amount_used_requests:
  "limiter_t l = L_REQUESTS \<Longrightarrow>
   amount_used t l =
     sum_list (map tstat_requests (recent (stats t) (nat (in_time_windows l)) (stats_pos t)))"
  by (simp add: amount_used_def sum_windows_recent)

lemma amount_used_data:
  "limiter_t l = L_DATA_RECEIVED \<Longrightarrow>
   amount_used t l =
     sum_list (map tstat_data (recent (stats t) (nat (in_time_windows l)) (stats_pos t)))"
  by (simp add: amount_used_def sum_windows_recent)

definition fn_used :: "throttle \<Rightarrow> limiter \<Rightarrow> string \<Rightarrow> int" where
  "fn_used t l f =
     sum_list (map (\<lambda>s. gm_get 0 (tstat_by_fn s) f)
       (recent (stats t) (nat (in_time_windows l)) (stats_pos t)))"

lemma fn_windows_used:
  "ring_ok t \<Longrightarrow>
   gm_get 0 (fn_windows (stats t) (nat (in_time_windows l)) (stats_pos t) []) f = fn_used t l f"
  by (simp add: gm_get_fn_windows fn_used_def ring_ok_def)

lemma fn_used_le_amount:
  "ring_ok t \<Longrightarrow> limiter_t l = L_REQUESTS_PER_FN \<Longrightarrow> fn_used t l f \<le> amount_used t l"
  using gm_get_le_max_count
  by (simp add: amount_used_def flip: fn_windows_used)

lemma amount_used_fn_le:
  assumes "ring_ok t" "limiter_t l = L_REQUESTS_PER_FN" "\<And>f. fn_used t l f \<le> b" "0 \<le> b"
  shows "amount_used t l \<le> b"
  using assms by (simp add: amount_used_def max_count_le gm_wf_fn_windows flip: fn_windows_used)

subsection \<open>Updating the current window\<close>

lemma recent_update_current:
  assumes "0 \<le> pos" "pos < int (length sts)" "Suc k \<le> length sts"
  shows "recent (sts[nat pos := s]) (Suc k) pos = s # recent sts k (ring_back sts pos)"
proof -
  let ?n = "int (length sts)"
  have other: "nat pos \<noteq> nat ((pos - int (Suc i)) mod ?n)" if "i < k" for i
  proof
    assume eq: "nat pos = nat ((pos - int (Suc i)) mod ?n)"
    have "0 \<le> (pos - int (Suc i)) mod ?n" using assms by (intro pos_mod_sign) linarith
    with eq assms have "(pos - int (Suc i)) mod ?n = pos mod ?n" by simp
    then have "?n dvd int (Suc i)"
      by (metis mod_eq_dvd_iff diff_add_cancel diff_diff_eq2 dvd_minus_iff minus_diff_eq
          add_diff_cancel_left')
    with that assms(3) show False by (auto dest!: zdvd_imp_le)
  qed
  have "recent (sts[nat pos := s]) (Suc k) pos =
      map (\<lambda>i. sts[nat pos := s] ! nat ((pos - int i) mod ?n)) [0..<Suc k]"
    using assms by (subst recent_eq) auto
  also have "\<dots> = s # map (\<lambda>i. sts[nat pos := s] ! nat ((pos - int (Suc i)) mod ?n)) [0..<k]"
    using assms by (simp add: upt_conv_Cons map_Suc_upt [symmetric] comp_def
        del: upt_Suc map_Suc_upt)
  also have "\<dots> = s # map (\<lambda>i. sts ! nat ((pos - int (Suc i)) mod ?n)) [0..<k]"
    using other by (auto simp: nth_list_update_neq simp del: of_nat_Suc)
  also have "map (\<lambda>i. sts ! nat ((pos - int (Suc i)) mod ?n)) [0..<k] =
      recent sts k (ring_back sts pos)"
    using assms ring_back_range [of pos sts]
    by (simp add: recent_eq ring_back_mod mod_diff_left_eq algebra_simps)
  finally show ?thesis .
qed

text \<open>What the operations do to the fields, before the status is refreshed.\<close>

lemma refresh_status_simps [simp]:
  "limiters (refresh_status t) = limiters t"
  "stats (refresh_status t) = stats t"
  "stats_pos (refresh_status t) = stats_pos t"
  "stats_window_size_seconds (refresh_status t) = stats_window_size_seconds t"
  "score_modifier (refresh_status t) = score_modifier t"
  by (simp_all add: refresh_status_def Let_def)

lemma amount_used_refresh [simp]: "amount_used (refresh_status t) l = amount_used t l"
  by (cases "limiter_t l") (simp_all add: amount_used_def)

lemma ring_ok_refresh [simp]: "ring_ok (refresh_status t) = ring_ok t"
  by (simp add: ring_ok_def)

lemma OnRequest_accepts: "fst (OnRequest t f) \<longleftrightarrow> \<not> status_throttled t"
  by (simp add: OnRequest_def Let_def)

lemma OnRequest_throttled: "status_throttled t \<Longrightarrow> OnRequest t f = (False, t)"
  by (simp add: OnRequest_def)

definition count_request :: "throttle \<Rightarrow> string \<Rightarrow> throttle" where
  "count_request t f =
     (let p = nat (stats_pos t); s = stats t ! p
      in t\<lparr>stats := (stats t)[p := s\<lparr>tstat_requests := tstat_requests s + 1,
                                    tstat_by_fn := gm_add (tstat_by_fn s) f 1\<rparr>]\<rparr>)"

lemma OnRequest_free: "\<not> status_throttled t \<Longrightarrow> OnRequest t f = (True, refresh_status (count_request t f))"
  by (simp add: OnRequest_def count_request_def Let_def)

lemma count_request_simps [simp]:
  "limiters (count_request t f) = limiters t"
  "stats_pos (count_request t f) = stats_pos t"
  "length (stats (count_request t f)) = length (stats t)"
  "stats_window_size_seconds (count_request t f) = stats_window_size_seconds t"
  by (simp_all add: count_request_def Let_def)

lemma ring_ok_count_request [simp]: "ring_ok t \<Longrightarrow> ring_ok (count_request t f)"
proof -
  assume ok: "ring_ok t"
  then have "stats t ! nat (stats_pos t) \<in> set (stats t)" by (auto dest: ring_okD)
  with ok show ?thesis
    by (auto simp: ring_ok_def count_request_def Let_def
        dest!: set_update_subset_insert [THEN subsetD])
qed

lemma recent_count_request:
  assumes "ring_ok t" "Suc k \<le> length (stats t)"
  shows "recent (stats (count_request t f)) (Suc k) (stats_pos t) =
     (stats t ! nat (stats_pos t))
       \<lparr>tstat_requests := tstat_requests (stats t ! nat (stats_pos t)) + 1,
        tstat_by_fn := gm_add (tstat_by_fn (stats t ! nat (stats_pos t))) f 1\<rparr>
     # recent (stats t) k (ring_back (stats t) (stats_pos t))"
  using assms by (simp add: count_request_def Let_def recent_update_current ring_okD
      del: recent.simps)

lemma fn_used_count_request:
  assumes "ring_ok t" "nat (in_time_windows l) = Suc k" "Suc k \<le> length (stats t)"
  shows "fn_used (count_request t f) l g = fn_used t l g + (if g = f then 1 else 0)"
  using recent_count_request [OF assms(1,3), of f] assms(2)
  by (simp add: fn_used_def del: recent.simps) simp

lemma amount_count_request:
  assumes "ring_ok t" "nat (in_time_windows l) \<le> length (stats t)"
  shows "amount_used (count_request t f) l \<le>
           amount_used t l + (if limiter_t l = L_DATA_RECEIVED then 0 else 1)"
    and "limiter_t l = L_REQUESTS \<Longrightarrow> 0 < in_time_windows l \<Longrightarrow>
           amount_used (count_request t f) l = amount_used t l + 1"
    and "limiter_t l = L_DATA_RECEIVED \<Longrightarrow> amount_used (count_request t f) l = amount_used t l"
proof -
  have req: "amount_used (count_request t f) l = amount_used t l + (if 0 < in_time_windows l then 1 else 0)"
    if "limiter_t l = L_REQUESTS"
  proof (cases "nat (in_time_windows l)")
    case (Suc k)
    with recent_count_request [OF assms(1), of k f] assms(2) that show ?thesis
      by (simp add: amount_used_requests del: recent.simps) simp
  qed (use that in \<open>simp add: amount_used_requests\<close>)
  have dat: "amount_used (count_request t f) l = amount_used t l" if "limiter_t l = L_DATA_RECEIVED"
  proof (cases "nat (in_time_windows l)")
    case (Suc k)
    with recent_count_request [OF assms(1), of k f] assms(2) that show ?thesis
      by (simp add: amount_used_data del: recent.simps) simp
  qed (use that in \<open>simp add: amount_used_data\<close>)
  have pf: "amount_used (count_request t f) l \<le> amount_used t l + 1" if fn: "limiter_t l = L_REQUESTS_PER_FN"
  proof (rule amount_used_fn_le)
    have nonneg: "0 \<le> amount_used t l"
      using fn by (simp add: amount_used_def max_count_nonneg)
    then show "0 \<le> amount_used t l + 1" by simp
    fix g
    show "fn_used (count_request t f) l g \<le> amount_used t l + 1"
    proof (cases "nat (in_time_windows l)")
      case 0
      with nonneg show ?thesis by (simp add: fn_used_def)
    next
      case (Suc k)
      with fn_used_count_request [OF assms(1) Suc, of f g] assms(2)
        fn_used_le_amount [OF assms(1) fn, of g]
      show ?thesis by auto
    qed
  qed (use assms fn in auto)
  show "amount_used (count_request t f) l \<le>
           amount_used t l + (if limiter_t l = L_DATA_RECEIVED then 0 else 1)"
    using req dat pf by (cases "limiter_t l") auto
  show "amount_used (count_request t f) l = amount_used t l + 1"
    if "limiter_t l = L_REQUESTS" "0 < in_time_windows l" using req that by simp
  show "amount_used (count_request t f) l = amount_used t l" if "limiter_t l = L_DATA_RECEIVED"
    using dat that .
qed

lemma OnReceive_simps [simp]:
  "limiters (OnReceive t d) = limiters t"
  "stats_pos (OnReceive t d) = stats_pos t"
  "length (stats (OnReceive t d)) = length (stats t)"
  "stats_window_size_seconds (OnReceive t d) = stats_window_size_seconds t"
  "status_throttled (OnReceive t d) = status_throttled t"
  "status_score (OnReceive t d) = status_score t"
  "status_capacity_used (OnReceive t d) = status_capacity_used t"
  by (simp_all add: OnReceive_def Let_def)

lemma map_OnReceive:
  assumes "nat (stats_pos t) < length (stats t)" "\<And>s x. g (s\<lparr>tstat_data := x\<rparr>) = g s"
  shows "map g (stats (OnReceive t d)) = map g (stats t)"
  using assms by (simp add: OnReceive_def Let_def map_update) (simp add: list_update_same_conv)

lemma recent_map_cong:
  assumes "map g sts = map g sts'" "0 \<le> pos" "pos < int (length sts)"
  shows "map g (recent sts k pos) = map g (recent sts' k pos)"
proof -
  have len: "length sts' = length sts" using assms(1) by (metis length_map)
  have "g (sts ! nat ((pos - i) mod int (length sts))) = g (sts' ! nat ((pos - i) mod int (length sts)))" for i
  proof -
    have "0 < int (length sts)" using assms by linarith
    then have "nat ((pos - i) mod int (length sts)) < length sts"
      using pos_mod_sign [of "int (length sts)"] pos_mod_bound [of "int (length sts)"]
      by (simp add: nat_less_iff)
    then show ?thesis using assms(1) len by (metis nth_map)
  qed
  then show ?thesis using assms len by (simp add: recent_eq)
qed

lemma ring_ok_OnReceive [simp]: "ring_ok t \<Longrightarrow> ring_ok (OnReceive t d)"
proof -
  assume ok: "ring_ok t"
  then have "stats t ! nat (stats_pos t) \<in> set (stats t)" by (auto dest: ring_okD)
  with ok show ?thesis
    by (auto simp: ring_ok_def OnReceive_def Let_def
        dest!: set_update_subset_insert [THEN subsetD])
qed

end
