(* ===== verification/ThrottleLimit.thy ===== *)
theory ThrottleLimit
  imports ThrottleRate
begin

text \<open>
  The rate limit. \<open>thr_run\<close> relates a throttle to the log of the requests it accepted: a run
  starts from \<open>MakeCustom\<close> with a list of limiters and interleaves requests, received data and
  maintenance calls that never skip a window. In every reachable state the ring agrees with
  the log, and for each request limiter no stretch of its windows holds more accepted requests
  than its maximum.
\<close>

type_synonym req_log = "(int \<times> string) list"

inductive thr_run :: "limiter list \<Rightarrow> int \<Rightarrow> int \<Rightarrow> throttle \<Rightarrow> int \<Rightarrow> req_log \<Rightarrow> bool"
  for lims n w where
  start: "0 \<le> now \<Longrightarrow> MakeCustom now n w = Inr t \<Longrightarrow>
     thr_run lims n w (t\<lparr>limiters := lims\<rparr>) (now div w) []"
| accepted: "thr_run lims n w t W hist \<Longrightarrow> OnRequest t f = (True, t') \<Longrightarrow>
     thr_run lims n w t' W ((W, f) # hist)"
| refused: "thr_run lims n w t W hist \<Longrightarrow> OnRequest t f = (False, t') \<Longrightarrow>
     thr_run lims n w t' W hist"
| receive: "thr_run lims n w t W hist \<Longrightarrow> thr_run lims n w (OnReceive t d) W hist"
| maintain: "thr_run lims n w t W hist \<Longrightarrow> 0 \<le> ts \<Longrightarrow> ts div w \<in> {W, W + 1} \<Longrightarrow>
     thr_run lims n w (OnMaintenance t ts) (ts div w) hist"

text \<open>How many entries of the log in the windows \<open>(a, b]\<close> satisfy \<open>P\<close>.\<close>

definition log_between :: "req_log \<Rightarrow> (string \<Rightarrow> bool) \<Rightarrow> int \<Rightarrow> int \<Rightarrow> int" where
  "log_between hist P a b = int (length (filter (\<lambda>(v, f). a < v \<and> v \<le> b \<and> P f) hist))"

lemma log_between_Nil [simp]: "log_between [] P a b = 0"
  by (simp add: log_between_def)

lemma log_between_Cons:
  "log_between ((v, f) # hist) P a b =
     (if a < v \<and> v \<le> b \<and> P f then 1 else 0) + log_between hist P a b"
  by (simp add: log_between_def)

lemma log_between_split:
  "a \<le> b \<Longrightarrow> b \<le> c \<Longrightarrow> log_between hist P a c = log_between hist P a b + log_between hist P b c"
  by (induction hist) (auto simp: log_between_Cons)

lemma log_between_mono:
  "a' \<le> a \<Longrightarrow> b \<le> b' \<Longrightarrow> log_between hist P a b \<le> log_between hist P a' b'"
  by (induction hist) (auto simp: log_between_Cons)

lemma log_between_empty [simp]: "log_between hist P a a = 0"
  by (induction hist) (auto simp: log_between_Cons)

lemma log_between_sum:
  "(\<Sum>i\<leftarrow>[0..<k]. log_between hist P (W - int i - 1) (W - int i)) =
     log_between hist P (W - int k) W"
proof (induction k)
  case (Suc k)
  have "log_between hist P (W - int (Suc k)) W =
      log_between hist P (W - int (Suc k)) (W - int k) + log_between hist P (W - int k) W"
    by (rule log_between_split) auto
  with Suc show ?case by (simp add: algebra_simps)
qed simp

subsection \<open>The ring agrees with the log\<close>

definition log_slot :: "throttle \<Rightarrow> int \<Rightarrow> tstat" where
  "log_slot t v = stats t ! nat (v mod int (length (stats t)))"

definition log_inv :: "throttle \<Rightarrow> int \<Rightarrow> req_log \<Rightarrow> bool" where
  "log_inv t W hist \<longleftrightarrow>
     ring_ok t \<and> stats_pos t = W mod int (length (stats t)) \<and>
     (\<forall>(v, f) \<in> set hist. v \<le> W) \<and>
     (\<forall>v. W - int (length (stats t)) < v \<and> v \<le> W \<longrightarrow>
        tstat_requests (log_slot t v) = log_between hist (\<lambda>_. True) (v - 1) v \<and>
        (\<forall>f. gm_get 0 (tstat_by_fn (log_slot t v)) f = log_between hist (\<lambda>g. g = f) (v - 1) v))"

lemma log_invD:
  assumes "log_inv t W hist"
  shows "ring_ok t" "stats_pos t = W mod int (length (stats t))"
    "(v, f) \<in> set hist \<Longrightarrow> v \<le> W"
    "W - int (length (stats t)) < v \<Longrightarrow> v \<le> W \<Longrightarrow>
       tstat_requests (log_slot t v) = log_between hist (\<lambda>_. True) (v - 1) v"
    "W - int (length (stats t)) < v \<Longrightarrow> v \<le> W \<Longrightarrow>
       gm_get 0 (tstat_by_fn (log_slot t v)) f = log_between hist (\<lambda>g. g = f) (v - 1) v"
  using assms by (auto simp: log_inv_def)

lemma recent_log_slots:
  assumes "log_inv t W hist"
  shows "recent (stats t) k (stats_pos t) = map (\<lambda>i. log_slot t (W - int i)) [0..<k]"
  using log_invD(1,2) [OF assms] ring_okD [of t]
  by (simp add: recent_eq log_slot_def mod_diff_left_eq)

lemma requests_from_log:
  assumes "log_inv t W hist" "limiter_t l = L_REQUESTS" "0 \<le> in_time_windows l"
    "in_time_windows l \<le> int (length (stats t))"
  shows "amount_used t l = log_between hist (\<lambda>_. True) (W - in_time_windows l) W"
proof -
  let ?k = "nat (in_time_windows l)"
  have "amount_used t l = (\<Sum>i\<leftarrow>[0..<?k]. tstat_requests (log_slot t (W - int i)))"
    using assms by (simp add: amount_used_requests recent_log_slots comp_def)
  also have "\<dots> = (\<Sum>i\<leftarrow>[0..<?k]. log_between hist (\<lambda>_. True) (W - int i - 1) (W - int i))"
    using assms by (intro arg_cong [where f = sum_list] map_cong refl)
      (auto simp: log_invD(4) [OF assms(1)])
  finally show ?thesis using assms(3) by (simp add: log_between_sum)
qed

lemma fn_from_log:
  assumes "log_inv t W hist" "0 \<le> in_time_windows l"
    "in_time_windows l \<le> int (length (stats t))"
  shows "fn_used t l f = log_between hist (\<lambda>g. g = f) (W - in_time_windows l) W"
proof -
  let ?k = "nat (in_time_windows l)"
  have "fn_used t l f = (\<Sum>i\<leftarrow>[0..<?k]. gm_get 0 (tstat_by_fn (log_slot t (W - int i))) f)"
    using assms by (simp add: fn_used_def recent_log_slots comp_def)
  also have "\<dots> = (\<Sum>i\<leftarrow>[0..<?k]. log_between hist (\<lambda>g. g = f) (W - int i - 1) (W - int i))"
    using assms by (intro arg_cong [where f = sum_list] map_cong refl)
      (auto simp: log_invD(5) [OF assms(1)])
  finally show ?thesis using assms(2) by (simp add: log_between_sum)
qed

subsection \<open>Every step keeps the agreement\<close>

lemma MakeCustom_ok:
  assumes "MakeCustom now n w = Inr t" "0 \<le> now" "0 < w"
  shows "ring_ok (t\<lparr>limiters := lims\<rparr>)" "length (stats t) = nat n" "0 < n"
    "stats_pos t = (now div w) mod n" "stats_window_size_seconds t = w"
    "stats t = replicate (nat n) empty_tstat" "\<not> status_throttled t"
  using assms
  by (auto simp: MakeCustom_def ring_ok_def empty_tstat_def pos_imp_zdiv_nonneg_iff
      split: if_splits)

lemma log_inv_start:
  assumes "MakeCustom now n w = Inr t" "0 \<le> now" "0 < w"
  shows "log_inv (t\<lparr>limiters := lims\<rparr>) (now div w) []"
proof -
  note mk = MakeCustom_ok [OF assms]
  have "log_slot (t\<lparr>limiters := lims\<rparr>) v = empty_tstat" for v
  proof -
    have "nat (v mod n) < nat n" using mk(3) by (simp add: nat_less_iff)
    then show ?thesis using mk by (simp add: log_slot_def)
  qed
  then show ?thesis using mk by (simp add: log_inv_def empty_tstat_def)
qed

lemma log_slot_update:
  assumes "ring_ok t" "stats_pos t = W mod int (length (stats t))"
    "W - int (length (stats t)) < v" "v \<le> W"
  shows "log_slot (t\<lparr>stats := (stats t)[nat (stats_pos t) := s]\<rparr>) v =
    (if v = W then s else log_slot t v)"
proof -
  let ?n = "int (length (stats t))"
  have n: "0 < ?n" using ring_okD [OF assms(1)] by linarith
  show ?thesis
  proof (cases "v = W")
    case True
    then show ?thesis using assms ring_okD [OF assms(1)] by (simp add: log_slot_def)
  next
    case False
    have "nat (v mod ?n) \<noteq> nat (W mod ?n)"
    proof
      assume "nat (v mod ?n) = nat (W mod ?n)"
      then have "W mod ?n = v mod ?n" using n by (simp add: eq_nat_nat_iff)
      then have "?n dvd W - v" by (simp add: mod_eq_dvd_iff)
      with False assms(3,4) show False by (auto dest!: zdvd_imp_le)
    qed
    then show ?thesis using False assms by (simp add: log_slot_def)
  qed
qed

lemma log_inv_accepted:
  assumes "log_inv t W hist"
  shows "log_inv (count_request t f) W ((W, f) # hist)"
proof -
  let ?s = "stats t ! nat (stats_pos t)"
  let ?s' = "?s\<lparr>tstat_requests := tstat_requests ?s + 1,
                tstat_by_fn := gm_add (tstat_by_fn ?s) f 1\<rparr>"
  have cr: "count_request t f = t\<lparr>stats := (stats t)[nat (stats_pos t) := ?s']\<rparr>"
    by (simp add: count_request_def Let_def)
  have cur: "?s = log_slot t W" using log_invD(2) [OF assms] by (simp add: log_slot_def)
  have slot: "log_slot (count_request t f) v = (if v = W then ?s' else log_slot t v)"
    if "W - int (length (stats t)) < v" "v \<le> W" for v
    unfolding cr using assms that by (intro log_slot_update) (auto dest: log_invD)
  have n: "0 < length (stats t)" using log_invD(1) [OF assms] by (rule ring_okD)
  have at: "tstat_requests ?s = log_between hist (\<lambda>_. True) (W - 1) W"
    "gm_get 0 (tstat_by_fn ?s) g = log_between hist (\<lambda>h. h = g) (W - 1) W" for g
    unfolding cur using n by (auto intro!: log_invD [OF assms])
  show ?thesis
    unfolding log_inv_def
  proof (intro conjI allI impI)
    show "\<forall>(v, g) \<in> set ((W, f) # hist). v \<le> W" using log_invD(3) [OF assms] by auto
  next
    fix v assume v: "W - int (length (stats (count_request t f))) < v \<and> v \<le> W"
    then show "tstat_requests (log_slot (count_request t f) v) =
        log_between ((W, f) # hist) (\<lambda>_. True) (v - 1) v"
      using at log_invD(4) [OF assms, of v] by (cases "v = W") (auto simp: slot log_between_Cons)
    fix g
    from v show "gm_get 0 (tstat_by_fn (log_slot (count_request t f) v)) g =
        log_between ((W, f) # hist) (\<lambda>h. h = g) (v - 1) v"
      using at log_invD(5) [OF assms, of v g]
      by (cases "v = W") (auto simp: slot log_between_Cons)
  qed (use assms in \<open>auto dest: log_invD\<close>)
qed

lemma log_inv_refresh [simp]: "log_inv (refresh_status t) W hist = log_inv t W hist"
  by (simp add: log_inv_def log_slot_def)

lemma log_inv_receive:
  assumes "log_inv t W hist"
  shows "log_inv (OnReceive t d) W hist"
proof -
  let ?s = "stats t ! nat (stats_pos t)"
  have slot: "\<exists>x. log_slot (OnReceive t d) v = (log_slot t v)\<lparr>tstat_data := x\<rparr>"
    if v: "W - int (length (stats t)) < v" "v \<le> W" for v
  proof (cases "v = W")
    case True
    have "log_slot (OnReceive t d) v = ?s\<lparr>tstat_data := tstat_data ?s + d\<rparr>"
      unfolding OnReceive_def Let_def using assms v True
      by (subst log_slot_update) (auto dest: log_invD)
    then show ?thesis using log_invD(2) [OF assms] True by (auto simp: log_slot_def)
  next
    case False
    have "log_slot (OnReceive t d) v = (log_slot t v)\<lparr>tstat_data := tstat_data (log_slot t v)\<rparr>"
      unfolding OnReceive_def Let_def using assms v False
      by (subst log_slot_update) (auto dest: log_invD)
    then show ?thesis ..
  qed
  have same: "tstat_requests (log_slot (OnReceive t d) v) = tstat_requests (log_slot t v)"
    "tstat_by_fn (log_slot (OnReceive t d) v) = tstat_by_fn (log_slot t v)"
    if "W - int (length (stats t)) < v" "v \<le> W" for v
    using slot [OF that] by auto
  show ?thesis
    using assms unfolding log_inv_def by (simp add: same)
qed

lemma OnMaintenance_same:
  assumes "ring_ok t" "0 \<le> ts"
    "(ts div stats_window_size_seconds t) mod int (length (stats t)) = stats_pos t"
  shows "OnMaintenance t ts = t"
  using assms ring_okD [OF assms(1)]
  by (simp add: OnMaintenance_def Let_def pos_imp_zdiv_nonneg_iff)

definition open_window :: "throttle \<Rightarrow> int \<Rightarrow> throttle" where
  "open_window t p = t\<lparr>stats_pos := p, stats := (stats t)[nat p := empty_tstat]\<rparr>"

lemma open_window_simps [simp]:
  "limiters (open_window t p) = limiters t"
  "stats_pos (open_window t p) = p"
  "length (stats (open_window t p)) = length (stats t)"
  "stats_window_size_seconds (open_window t p) = stats_window_size_seconds t"
  by (simp_all add: open_window_def)

lemma OnMaintenance_next:
  assumes "ring_ok t" "0 \<le> ts"
    "(ts div stats_window_size_seconds t) mod int (length (stats t)) \<noteq> stats_pos t"
  shows "OnMaintenance t ts = refresh_status (open_window t
           ((ts div stats_window_size_seconds t) mod int (length (stats t))))"
  using assms ring_okD [OF assms(1)]
  by (simp add: OnMaintenance_def Let_def open_window_def pos_imp_zdiv_nonneg_iff)

lemma ring_ok_open_window:
  assumes "ring_ok t" "0 \<le> p" "p < int (length (stats t))"
  shows "ring_ok (open_window t p)"
  using assms
  by (auto simp: ring_ok_def open_window_def empty_tstat_def
      dest!: set_update_subset_insert [THEN subsetD])

lemma log_inv_open_window:
  assumes "log_inv t W hist"
  shows "log_inv (open_window t ((W + 1) mod int (length (stats t)))) (W + 1) hist"
proof -
  let ?n = "int (length (stats t))" and ?p = "(W + 1) mod int (length (stats t))"
  let ?t = "open_window t ?p"
  have n: "0 < ?n" using ring_okD [OF log_invD(1) [OF assms]] by linarith
  have ok: "ring_ok (t\<lparr>stats_pos := ?p\<rparr>)"
    using log_invD(1) [OF assms] n by (simp add: ring_ok_def)
  have slot: "log_slot ?t v = (if v = W + 1 then empty_tstat else log_slot t v)"
    if "W + 1 - ?n < v" "v \<le> W + 1" for v
    using log_slot_update [OF ok, of "W + 1" v empty_tstat] that
    by (simp add: open_window_def log_slot_def)
  have none: "log_between hist P W (W + 1) = 0" for P
  proof -
    have "filter (\<lambda>(v, f). W < v \<and> v \<le> W + 1 \<and> P f) hist = []"
      using log_invD(3) [OF assms] by (fastforce simp: filter_empty_conv)
    then show ?thesis by (simp add: log_between_def)
  qed
  show ?thesis
    unfolding log_inv_def
  proof (intro conjI allI impI)
    show "ring_ok ?t" using log_invD(1) [OF assms] n by (intro ring_ok_open_window) auto
    show "\<forall>(v, f) \<in> set hist. v \<le> W + 1" using log_invD(3) [OF assms] by fastforce
  next
    fix v assume v: "W + 1 - int (length (stats ?t)) < v \<and> v \<le> W + 1"
    then show "tstat_requests (log_slot ?t v) = log_between hist (\<lambda>_. True) (v - 1) v"
      using log_invD(4) [OF assms, of v] by (auto simp: slot none empty_tstat_def)
    fix f
    from v show "gm_get 0 (tstat_by_fn (log_slot ?t v)) f = log_between hist (\<lambda>g. g = f) (v - 1) v"
      using log_invD(5) [OF assms, of v f] by (auto simp: slot none empty_tstat_def)
  qed simp
qed

lemma log_inv_maintain:
  assumes "log_inv t W hist" "0 \<le> ts" "ts div stats_window_size_seconds t \<in> {W, W + 1}"
    "1 < length (stats t)"
  shows "log_inv (OnMaintenance t ts) (ts div stats_window_size_seconds t) hist"
    and "ts div stats_window_size_seconds t = W \<Longrightarrow> OnMaintenance t ts = t"
    and "ts div stats_window_size_seconds t = W + 1 \<Longrightarrow> OnMaintenance t ts =
           refresh_status (open_window t ((W + 1) mod int (length (stats t))))"
proof -
  note ok = log_invD(1) [OF assms(1)] and pos = log_invD(2) [OF assms(1)]
  show same: "OnMaintenance t ts = t" if "ts div stats_window_size_seconds t = W"
    using OnMaintenance_same [OF ok assms(2)] that pos by simp
  have ne: "(W + 1) mod int (length (stats t)) \<noteq> W mod int (length (stats t))"
  proof
    assume "(W + 1) mod int (length (stats t)) = W mod int (length (stats t))"
    then have "int (length (stats t)) dvd 1" by (simp add: mod_eq_dvd_iff)
    with assms(4) show False by (auto dest!: zdvd_imp_le)
  qed
  show step: "OnMaintenance t ts = refresh_status (open_window t ((W + 1) mod int (length (stats t))))"
    if "ts div stats_window_size_seconds t = W + 1"
    using OnMaintenance_next [OF ok assms(2)] that pos ne by simp
  show "log_inv (OnMaintenance t ts) (ts div stats_window_size_seconds t) hist"
    using assms(1,3) same step log_inv_open_window [OF assms(1)] by auto
qed

subsection \<open>The cached status\<close>

lemma score_Max:
  "limiters t \<noteq> [] \<Longrightarrow> CapacityUsed (getThrottleScore t) =
     Max (insert 0 ((\<lambda>l. percentage_used (amount_used t l) (maximum l)) ` set (limiters t)))"
  using fold_keep_max [of "\<lambda>l. percentage_used (amount_used t l) (maximum l)" "limiters t" 0]
  by (simp add: getThrottleScore_def getThrottleStatus_def Let_def)

lemma score_Throttled:
  "limiters t \<noteq> [] \<Longrightarrow> Throttled (getThrottleScore t) = (10000 \<le> CapacityUsed (getThrottleScore t))"
  by (simp add: getThrottleScore_def Let_def)

lemma status_throttled_refresh [simp]:
  "status_throttled (refresh_status t) = Throttled (getThrottleScore t)"
  by (simp add: refresh_status_def Let_def)

lemma not_throttled_amounts:
  assumes "\<not> Throttled (getThrottleScore t)" "l \<in> set (limiters t)"
  shows "amount_used t l < maximum l"
proof (rule ccontr)
  assume "\<not> amount_used t l < maximum l"
  then have "percentage_used (amount_used t l) (maximum l) = 10000"
    by (simp add: percentage_used_def)
  moreover have ne: "limiters t \<noteq> []" using assms(2) by auto
  moreover have "percentage_used (amount_used t l) (maximum l) \<le> CapacityUsed (getThrottleScore t)"
    unfolding score_Max [OF ne] using assms(2) by (intro Max_ge) auto
  ultimately have "10000 \<le> CapacityUsed (getThrottleScore t)" by simp
  with assms(1) ne show False by (simp add: score_Throttled)
qed

subsection \<open>The limit\<close>

text \<open>Which requests a limiter counts.\<close>

definition counted_by :: "limiter \<Rightarrow> (string \<Rightarrow> bool) \<Rightarrow> bool" where
  "counted_by l P \<longleftrightarrow>
     (limiter_t l = L_REQUESTS \<and> P = (\<lambda>_. True)) \<or>
     (limiter_t l = L_REQUESTS_PER_FN \<and> (\<exists>f. P = (\<lambda>g. g = f)))"

lemma counted_le_amount:
  assumes "log_inv t W hist" "counted_by l P" "0 \<le> in_time_windows l"
    "in_time_windows l \<le> int (length (stats t))"
  shows "log_between hist P (W - in_time_windows l) W \<le> amount_used t l"
  using assms fn_used_le_amount [OF log_invD(1) [OF assms(1)], of l]
    fn_from_log [OF assms(1,3,4)] requests_from_log [OF assms(1)]
  by (auto simp: counted_by_def)

definition rate_inv ::
  "limiter list \<Rightarrow> int \<Rightarrow> int \<Rightarrow> limiter \<Rightarrow> (string \<Rightarrow> bool) \<Rightarrow> throttle \<Rightarrow> int \<Rightarrow> req_log \<Rightarrow> bool"
where
  "rate_inv lims n w l P t W hist \<longleftrightarrow>
     log_inv t W hist \<and> limiters t = lims \<and> int (length (stats t)) = n \<and>
     stats_window_size_seconds t = w \<and>
     (\<not> status_throttled t \<longrightarrow> log_between hist P (W - in_time_windows l) W < maximum l) \<and>
     (\<forall>V. log_between hist P (V - in_time_windows l) V \<le> maximum l)"

lemma rate_inv_refresh:
  assumes "log_inv t W hist" "limiters t = lims" "int (length (stats t)) = n"
    "stats_window_size_seconds t = w" "l \<in> set lims" "counted_by l P"
    "0 \<le> in_time_windows l" "in_time_windows l \<le> n"
    "\<forall>V. log_between hist P (V - in_time_windows l) V \<le> maximum l"
  shows "rate_inv lims n w l P (refresh_status t) W hist"
  using assms not_throttled_amounts [of t l] counted_le_amount [OF assms(1,6,7)]
  by (fastforce simp: rate_inv_def)

lemma rate_inv_run:
  assumes "thr_run lims n w t W hist" "l \<in> set lims" "counted_by l P" "1 \<le> maximum l"
    "0 \<le> in_time_windows l" "in_time_windows l \<le> n" "1 < n" "0 < w"
  shows "rate_inv lims n w l P t W hist"
  using assms(1)
proof induction
  case (start now t)
  note mk = MakeCustom_ok [OF start(2,1) assms(8)]
  from log_inv_start [OF start(2,1) assms(8)] mk assms(4) show ?case
    by (simp add: rate_inv_def)
next
  case (accepted t W hist f t')
  then have free: "\<not> status_throttled t" and t': "t' = refresh_status (count_request t f)"
    using OnRequest_accepts [of t f] OnRequest_free [of t f] by auto
  let ?k = "in_time_windows l" and ?h = "(W, f) # hist"
  from accepted.IH have inv: "log_inv t W hist" and
    lt: "log_between hist P (W - ?k) W < maximum l" and
    le: "log_between hist P (V - ?k) V \<le> maximum l" for V
    using free by (auto simp: rate_inv_def)
  have "log_between ?h P (V - ?k) V \<le> maximum l" for V
  proof (cases "V - ?k < W \<and> W \<le> V")
    case True
    have "filter (\<lambda>(v, g). V - ?k < v \<and> v \<le> V \<and> P g) hist =
        filter (\<lambda>(v, g). V - ?k < v \<and> v \<le> W \<and> P g) hist"
      using True log_invD(3) [OF inv] by (intro filter_cong refl) fastforce
    then have "log_between hist P (V - ?k) V = log_between hist P (V - ?k) W"
      by (simp add: log_between_def)
    also have "\<dots> \<le> log_between hist P (W - ?k) W"
      using True by (intro log_between_mono) auto
    finally show ?thesis using lt by (simp add: log_between_Cons)
  next
    case False
    with le [of V] show ?thesis by (auto simp: log_between_Cons)
  qed
  with log_inv_accepted [OF inv, of f] accepted.IH assms show ?case
    unfolding t' by (intro rate_inv_refresh) (auto simp: rate_inv_def)
next
  case (refused t W hist f t')
  then have "t' = t" by (auto simp: OnRequest_def Let_def split: if_splits)
  with refused show ?case by simp
next
  case (receive t W hist d)
  then show ?case by (auto simp: rate_inv_def log_inv_receive)
next
  case (maintain t W hist ts)
  from maintain.IH have inv: "log_inv t W hist" and n: "1 < length (stats t)"
    and w: "stats_window_size_seconds t = w" using assms(7) by (auto simp: rate_inv_def)
  note m = log_inv_maintain [OF inv maintain(2) _ n, unfolded w, OF maintain(3)]
  show ?case
  proof (cases "ts div w = W")
    case True
    with m(2) maintain.IH show ?thesis by simp
  next
    case False
    with maintain(3) have next_w: "ts div w = W + 1" by simp
    with m(1,3) have "log_inv (open_window t ((W + 1) mod int (length (stats t)))) (W + 1) hist"
      by simp
    with maintain.IH assms show ?thesis
      unfolding m(3) [OF next_w] next_w by (intro rate_inv_refresh) (auto simp: rate_inv_def)
  qed
qed


text \<open>
  The same for a per-function limiter: for every function, at most \<open>maximum\<close> requests that
  call it were accepted in any stretch of the limiter's windows.
\<close>

theorem fn_rate_limited:
  assumes "thr_run lims n w t W hist" "l \<in> set lims" "limiter_t l = L_REQUESTS_PER_FN"
    "1 \<le> maximum l" "0 \<le> in_time_windows l" "in_time_windows l \<le> n" "1 < n" "0 < w"
  shows "int (length (filter (\<lambda>(v, g). V - in_time_windows l < v \<and> v \<le> V \<and> g = f) hist)) \<le> maximum l"
  using rate_inv_run [OF assms(1,2) _ assms(4-8), of "\<lambda>g. g = f"] assms(3)
  by (auto simp: rate_inv_def log_between_def counted_by_def)

subsection \<open>Witnesses\<close>

lemma sample_run:
  assumes "lims = [\<lparr>limiter_t = ty, maximum = 2, in_time_windows = 10\<rparr>]"
  shows "\<exists>t. thr_run lims 120 1 t 5 [(5, ''getBalance'')]"
proof -
  obtain t where mk: "MakeCustom 5 120 1 = Inr t" by (simp add: MakeCustom_def)
  let ?t = "t\<lparr>limiters := lims\<rparr>"
  from thr_run.start [of 5 120 1 t lims] mk have r: "thr_run lims 120 1 ?t 5 []" by simp
  have "\<not> status_throttled ?t" using mk by (auto simp: MakeCustom_def)
  from thr_run.accepted [OF r OnRequest_free [OF this]] show ?thesis by blast
qed


lemma fn_rate_limited_witness:
  "\<exists>t. thr_run [\<lparr>limiter_t = L_REQUESTS_PER_FN, maximum = 2, in_time_windows = 10\<rparr>] 120 1 t 5
         [(5, ''getBalance'')] \<and>
       int (length (filter (\<lambda>(v, g). (7::int) - 10 < v \<and> v \<le> 7 \<and> g = ''getBalance'')
              [(5, ''getBalance'')])) \<le> 2"
proof -
  let ?l = "\<lparr>limiter_t = L_REQUESTS_PER_FN, maximum = 2, in_time_windows = 10\<rparr>"
  obtain t where r: "thr_run [?l] 120 1 t 5 [(5, ''getBalance'')]"
    using sample_run [of "[?l]"] by blast
  with fn_rate_limited [OF r, of ?l 7 "''getBalance''"] show ?thesis by auto
qed

end
