(* ===== verification/ThrottleScore.thy ===== *)
theory ThrottleScore
  imports ThrottleLimit
begin

text \<open>
  What the score means when the counters are in the range where the code's floating-point
  percentage is exact (limits below \<open>2 ^ 53 / 10000\<close>): a throttle is exhausted exactly when
  some limiter has reached its maximum. Then the promise of \<open>GetLimitsLeft\<close> and the recovery
  of an idle throttle.
\<close>

subsection \<open>Well-formed throttles\<close>

definition counts_nonneg :: "throttle \<Rightarrow> bool" where
  "counts_nonneg t \<longleftrightarrow> (\<forall>s \<in> set (stats t). 0 \<le> tstat_requests s \<and> 0 \<le> tstat_data s)"

definition limits_exact :: "throttle \<Rightarrow> bool" where
  "limits_exact t \<longleftrightarrow> (\<forall>l \<in> set (limiters t). 1 \<le> maximum l \<and> maximum l \<le> 900719925474)"

definition windows_fit :: "throttle \<Rightarrow> bool" where
  "windows_fit t \<longleftrightarrow> (\<forall>l \<in> set (limiters t). in_time_windows l \<le> int (length (stats t)))"

definition thr_ok :: "throttle \<Rightarrow> bool" where
  "thr_ok t \<longleftrightarrow> ring_ok t \<and> counts_nonneg t \<and> limits_exact t \<and> windows_fit t"

declare thr_ok_def [thr_simps] limits_exact_def [thr_simps]

lemma recent_subset: "ring_ok t \<Longrightarrow> set (recent (stats t) k (stats_pos t)) \<subseteq> set (stats t)"
proof -
  assume ok: "ring_ok t"
  let ?n = "int (length (stats t))"
  have "nat ((stats_pos t - int i) mod ?n) < length (stats t)" for i
    using ring_okD [OF ok] pos_mod_sign [of ?n] pos_mod_bound [of ?n] by (simp add: nat_less_iff)
  then show ?thesis using ring_okD [OF ok] by (auto simp: recent_eq)
qed

lemma amount_used_nonneg:
  assumes "ring_ok t" "counts_nonneg t"
  shows "0 \<le> amount_used t l"
proof -
  have "\<forall>s \<in> set (recent (stats t) k (stats_pos t)). 0 \<le> tstat_requests s \<and> 0 \<le> tstat_data s" for k
    using recent_subset [OF assms(1), of k] assms(2) by (auto simp: counts_nonneg_def)
  then show ?thesis
    by (cases "limiter_t l")
      (auto simp: amount_used_def sum_windows_recent max_count_nonneg intro!: sum_list_nonneg)
qed

lemma counts_nonneg_count_request: "ring_ok t \<Longrightarrow> counts_nonneg t \<Longrightarrow> counts_nonneg (count_request t f)"
proof -
  assume ok: "ring_ok t" and nn: "counts_nonneg t"
  then have "stats t ! nat (stats_pos t) \<in> set (stats t)" by (auto dest: ring_okD)
  with nn show ?thesis
    by (auto simp: counts_nonneg_def count_request_def Let_def
        dest!: set_update_subset_insert [THEN subsetD])
qed

lemma thr_ok_count_request: "thr_ok t \<Longrightarrow> thr_ok (refresh_status (count_request t f))"
  by (simp add: thr_simps windows_fit_def counts_nonneg_count_request
      counts_nonneg_def [of "refresh_status _"] flip: counts_nonneg_def)

lemma thr_ok_OnRequest: "thr_ok t \<Longrightarrow> thr_ok (snd (OnRequest t f))"
  by (cases "status_throttled t")
    (simp_all add: OnRequest_throttled OnRequest_free thr_ok_count_request)

lemma thr_ok_OnReceive:
  assumes "thr_ok t" "0 \<le> d"
  shows "thr_ok (OnReceive t d)"
proof -
  have "stats t ! nat (stats_pos t) \<in> set (stats t)"
    using assms by (auto simp: thr_ok_def dest: ring_okD)
  with assms have "counts_nonneg (OnReceive t d)"
    by (auto simp: thr_ok_def counts_nonneg_def OnReceive_def Let_def
        dest!: set_update_subset_insert [THEN subsetD])
  with assms show ?thesis by (simp add: thr_simps windows_fit_def)
qed

lemma thr_ok_OnMaintenance:
  assumes "thr_ok t" "0 \<le> ts"
  shows "thr_ok (OnMaintenance t ts)"
proof -
  let ?p = "(ts div stats_window_size_seconds t) mod int (length (stats t))"
  have ok: "ring_ok t" and n: "0 < int (length (stats t))"
    using assms(1) ring_okD by (auto simp: thr_ok_def)
  have "thr_ok (refresh_status (open_window t ?p))"
  proof -
    have "counts_nonneg (open_window t ?p)"
      using assms(1) by (auto simp: thr_ok_def counts_nonneg_def open_window_def empty_tstat_def
          dest!: set_update_subset_insert [THEN subsetD])
    moreover have "ring_ok (open_window t ?p)" using ok n by (intro ring_ok_open_window) auto
    ultimately show ?thesis
      using assms(1) by (simp add: thr_simps windows_fit_def
          counts_nonneg_def [of "refresh_status _"] flip: counts_nonneg_def)
  qed
  with OnMaintenance_same [OF ok assms(2)] OnMaintenance_next [OF ok assms(2)] assms(1)
  show ?thesis by (cases "?p = stats_pos t") simp_all
qed

subsection \<open>The percentage and the score\<close>

lemma percentage_used_exact:
  assumes "0 \<le> amt" "amt < limit" "limit \<le> 900719925474"
  shows "percentage_used amt limit = amt * 10000 div limit" "percentage_used amt limit < 10000"
proof -
  have "fmul (f_of_int amt) 10000 = of_int (amt * 10000)"
    using assms fl_of_int [of "amt * 10000"] by (simp add: fmul_def f_of_int_exact)
  then show eq: "percentage_used amt limit = amt * 10000 div limit"
    using assms trunc_fdiv [of "amt * 10000" limit] by (simp add: percentage_used_def)
  have "amt * 10000 < 10000 * limit" using assms by simp
  then show "percentage_used amt limit < 10000"
    unfolding eq using assms by (subst int_div_less_iff) auto
qed

lemma percentage_used_cases:
  assumes "0 \<le> amt" "1 \<le> limit" "limit \<le> 900719925474"
  shows "percentage_used amt limit = min 10000 (amt * 10000 div limit)"
proof (cases "amt < limit")
  case True
  with percentage_used_exact [OF assms(1) True assms(3)] show ?thesis by simp
next
  case False
  then have "10000 * limit \<le> amt * 10000" by simp
  then have "10000 \<le> amt * 10000 div limit"
    using assms(2) by (subst int_le_div_iff) auto
  with False show ?thesis by (simp add: percentage_used_def)
qed

lemma score_of_limits_core:
  assumes "thr_ok t" "limiters t \<noteq> []"
  shows "CapacityUsed (getThrottleScore t) =
      Max (insert 0 ((\<lambda>l. min 10000 (amount_used t l * 10000 div maximum l)) ` set (limiters t)))
    \<and> Score (getThrottleScore t) = CapacityUsed (getThrottleScore t) + score_modifier t
    \<and> (Throttled (getThrottleScore t) \<longleftrightarrow> (\<exists>l \<in> set (limiters t). maximum l \<le> amount_used t l))"
proof (intro conjI)
  have nn: "0 \<le> amount_used t l" for l
    using assms by (intro amount_used_nonneg) (auto simp: thr_ok_def)
  have pct: "percentage_used (amount_used t l) (maximum l) =
      min 10000 (amount_used t l * 10000 div maximum l)" if "l \<in> set (limiters t)" for l
    using assms that nn by (intro percentage_used_cases) (auto simp: thr_simps)
  show "CapacityUsed (getThrottleScore t) =
      Max (insert 0 ((\<lambda>l. min 10000 (amount_used t l * 10000 div maximum l)) ` set (limiters t)))"
    unfolding score_Max [OF assms(2)] by (simp add: pct cong: image_cong)
  show "Score (getThrottleScore t) = CapacityUsed (getThrottleScore t) + score_modifier t"
    using assms(2) by (simp add: getThrottleScore_def Let_def)
  show "Throttled (getThrottleScore t) \<longleftrightarrow> (\<exists>l \<in> set (limiters t). maximum l \<le> amount_used t l)"
  proof
    assume "Throttled (getThrottleScore t)"
    then have "10000 \<le> CapacityUsed (getThrottleScore t)" using assms(2) by (simp add: score_Throttled)
    then obtain l where l: "l \<in> set (limiters t)"
      "10000 \<le> percentage_used (amount_used t l) (maximum l)"
      unfolding score_Max [OF assms(2)] by (auto simp: Max_ge_iff)
    have "\<not> amount_used t l < maximum l"
      using percentage_used_exact(2) [OF nn [of l], of "maximum l"] l assms(1)
      by (auto simp: thr_simps)
    with l(1) show "\<exists>l \<in> set (limiters t). maximum l \<le> amount_used t l"
      by (intro bexI [of _ l]) simp_all
  next
    assume "\<exists>l \<in> set (limiters t). maximum l \<le> amount_used t l"
    with not_throttled_amounts [of t] show "Throttled (getThrottleScore t)" by fastforce
  qed
qed

text \<open>
  C2. The score. For a well-formed throttle with limiters: the capacity used is the largest of
  the limiters' percentages (in hundredths, cut off at 10000), the score is that plus the
  modifier, and the throttle is exhausted exactly when some limiter has reached its maximum.
\<close>

theorem score_of_limits:
  assumes "thr_ok t" "limiters t \<noteq> []"
  shows "CapacityUsed (getThrottleScore t) =
      Max (insert 0 ((\<lambda>l. min 10000 (amount_used t l * 10000 div maximum l)) ` set (limiters t)))
    \<and> Score (getThrottleScore t) = CapacityUsed (getThrottleScore t) + score_modifier t
    \<and> (Throttled (getThrottleScore t) \<longleftrightarrow> (\<exists>l \<in> set (limiters t). maximum l \<le> amount_used t l))"
  using assms by (rule score_of_limits_core)

lemma not_throttled_if_below:
  assumes "thr_ok t" "\<forall>l \<in> set (limiters t). amount_used t l < maximum l"
  shows "\<not> Throttled (getThrottleScore t)"
proof (cases "limiters t = []")
  case True
  then show ?thesis by (simp add: getThrottleScore_def)
next
  case False
  have "percentage_used (amount_used t l) (maximum l) < 10000" if "l \<in> set (limiters t)" for l
    using assms that amount_used_nonneg [of t l] percentage_used_exact(2)
    by (auto simp: thr_simps)
  then show ?thesis
    using False by (simp add: score_Throttled score_Max Max_ge_iff not_le)
qed

subsection \<open>The promise of GetLimitsLeft\<close>

lemma limits_step_mono:
  "left_reqs (limits_step t l acc) \<le> left_reqs acc"
  "left_reqs_fn (limits_step t l acc) \<le> left_reqs_fn acc"
  "left_data_rec (limits_step t l acc) \<le> left_data_rec acc"
  by (simp_all add: limits_step_def Let_def split: prod.split)

lemma limits_fold_mono:
  "left_reqs (fold (limits_step t) ls acc) \<le> left_reqs acc"
  "left_reqs_fn (fold (limits_step t) ls acc) \<le> left_reqs_fn acc"
  "left_data_rec (fold (limits_step t) ls acc) \<le> left_data_rec acc"
  by (induction ls arbitrary: acc)
    (auto intro: order_trans [OF _ limits_step_mono(1)] order_trans [OF _ limits_step_mono(2)]
      order_trans [OF _ limits_step_mono(3)])

lemma limits_step_bound:
  "limiter_t l = L_REQUESTS \<Longrightarrow> left_reqs (limits_step t l acc) \<le> max 0 (maximum l - amount_used t l)"
  "limiter_t l = L_REQUESTS_PER_FN \<Longrightarrow>
     left_reqs_fn (limits_step t l acc) \<le> max 0 (maximum l - amount_used t l)"
  "limiter_t l = L_DATA_RECEIVED \<Longrightarrow>
     left_data_rec (limits_step t l acc) \<le> max 0 (maximum l - amount_used t l)"
  by (auto simp: limits_step_def getThrottleStatus_def Let_def split: prod.split)

lemma limits_fold_bound:
  assumes "l \<in> set ls"
  shows "limiter_t l = L_REQUESTS \<Longrightarrow>
      left_reqs (fold (limits_step t) ls acc) \<le> max 0 (maximum l - amount_used t l)"
    and "limiter_t l = L_REQUESTS_PER_FN \<Longrightarrow>
      left_reqs_fn (fold (limits_step t) ls acc) \<le> max 0 (maximum l - amount_used t l)"
    and "limiter_t l = L_DATA_RECEIVED \<Longrightarrow>
      left_data_rec (fold (limits_step t) ls acc) \<le> max 0 (maximum l - amount_used t l)"
proof -
  obtain ys zs where ls: "ls = ys @ l # zs" using assms by (auto dest: split_list)
  let ?a = "limits_step t l (fold (limits_step t) ys acc)"
  show "limiter_t l = L_REQUESTS \<Longrightarrow>
      left_reqs (fold (limits_step t) ls acc) \<le> max 0 (maximum l - amount_used t l)"
    using limits_fold_mono(1) [of t zs ?a] limits_step_bound(1) [of l t "fold (limits_step t) ys acc"]
    unfolding ls by (simp del: le_max_iff_disj)
  show "limiter_t l = L_REQUESTS_PER_FN \<Longrightarrow>
      left_reqs_fn (fold (limits_step t) ls acc) \<le> max 0 (maximum l - amount_used t l)"
    using limits_fold_mono(2) [of t zs ?a] limits_step_bound(2) [of l t "fold (limits_step t) ys acc"]
    unfolding ls by (simp del: le_max_iff_disj)
  show "limiter_t l = L_DATA_RECEIVED \<Longrightarrow>
      left_data_rec (fold (limits_step t) ls acc) \<le> max 0 (maximum l - amount_used t l)"
    using limits_fold_mono(3) [of t zs ?a] limits_step_bound(3) [of l t "fold (limits_step t) ys acc"]
    unfolding ls by (simp del: le_max_iff_disj)
qed

text \<open>Room for \<open>j\<close> more requests, whatever functions they call.\<close>

definition room_for :: "throttle \<Rightarrow> nat \<Rightarrow> bool" where
  "room_for t j \<longleftrightarrow> (\<forall>l \<in> set (limiters t).
     if limiter_t l = L_DATA_RECEIVED then amount_used t l < maximum l
     else amount_used t l + int j \<le> maximum l)"

lemma room_for_request:
  assumes "thr_ok t" "room_for t (Suc j)"
  shows "room_for (refresh_status (count_request t f)) j"
proof -
  have "amount_used (count_request t f) l \<le>
      amount_used t l + (if limiter_t l = L_DATA_RECEIVED then 0 else 1)" if "l \<in> set (limiters t)" for l
    using assms(1) that by (intro amount_count_request(1)) (auto simp: thr_ok_def windows_fit_def)
  with assms(2) show ?thesis by (fastforce simp: room_for_def)
qed

lemma room_not_throttled: "thr_ok t \<Longrightarrow> room_for t (Suc j) \<Longrightarrow> \<not> Throttled (getThrottleScore t)"
  by (rule not_throttled_if_below) (auto simp: room_for_def split: if_splits)

lemma getThrottleScore_refresh: "getThrottleScore (refresh_status t) = getThrottleScore t"
  by (simp add: getThrottleScore_def getThrottleStatus_def)

lemma status_capacity_refresh:
  "status_capacity_used (refresh_status t) = CapacityUsed (getThrottleScore t)"
  by (simp add: refresh_status_def Let_def)

lemma room_run:
  assumes "thr_ok t" "room_for t (length fs)" "fs \<noteq> [] \<Longrightarrow> \<not> status_throttled t"
  shows "fst (run_list OnRequest t fs) = replicate (length fs) True"
  using assms
proof (induction fs arbitrary: t)
  case (Cons f fs)
  let ?t = "refresh_status (count_request t f)"
  have ok: "thr_ok ?t" and room: "room_for ?t (length fs)"
    using Cons.prems by (auto intro: thr_ok_count_request room_for_request)
  have "fs \<noteq> [] \<Longrightarrow> \<not> status_throttled ?t"
    using ok room room_not_throttled [of ?t "length fs - 1"] by (simp add: getThrottleScore_refresh)
  from Cons.IH [OF ok room this] Cons.prems(3) show ?case
    by (simp add: OnRequest_free split_beta Let_def)
qed simp

lemma room_from_limits_left:
  assumes "GetLimitsLeft t = (a, b, c, d)" "\<not> status_throttled t" "0 < c" "0 < j"
    "int j \<le> a" "int j \<le> b"
  shows "room_for t j"
proof -
  let ?g = "1024 * 1024 * 1024"
  let ?acc = "fold (limits_step t) (limiters t)
    \<lparr>left_reqs = ?g, left_reqs_fn = ?g, left_data_rec = ?g, left_capacity = 0\<rparr>"
  have "a = left_reqs ?acc" "b = left_reqs_fn ?acc" "c = left_data_rec ?acc"
    using assms(1,2) by (auto simp: GetLimitsLeft_def GetThrottleScore_def Let_def)
  with assms(3-6) have *: "int j \<le> left_reqs ?acc" "int j \<le> left_reqs_fn ?acc" "0 < left_data_rec ?acc"
    by simp_all
  show ?thesis
    unfolding room_for_def
  proof
    fix l assume l: "l \<in> set (limiters t)"
    show "if limiter_t l = L_DATA_RECEIVED then amount_used t l < maximum l
      else amount_used t l + int j \<le> maximum l"
    proof (cases "limiter_t l")
      case L_REQUESTS
      with limits_fold_bound(1) [OF l] have "left_reqs ?acc \<le> max 0 (maximum l - amount_used t l)" .
      with * L_REQUESTS assms(4) show ?thesis by (simp add: max_def split: if_splits)
    next
      case L_REQUESTS_PER_FN
      with limits_fold_bound(2) [OF l] have "left_reqs_fn ?acc \<le> max 0 (maximum l - amount_used t l)" .
      with * L_REQUESTS_PER_FN assms(4) show ?thesis by (simp add: max_def split: if_splits)
    next
      case L_DATA_RECEIVED
      with limits_fold_bound(3) [OF l] have "left_data_rec ?acc \<le> max 0 (maximum l - amount_used t l)" .
      with * L_DATA_RECEIVED show ?thesis by (simp add: max_def split: if_splits)
    qed
  qed
qed


subsection \<open>Recovery\<close>

text \<open>The last \<open>j\<close> windows are empty.\<close>

definition idle_for :: "throttle \<Rightarrow> nat \<Rightarrow> bool" where
  "idle_for t j \<longleftrightarrow> recent (stats t) j (stats_pos t) = replicate j empty_tstat"

lemma idle_amount:
  assumes "ring_ok t" "idle_for t k" "nat (in_time_windows l) \<le> k"
  shows "amount_used t l = 0"
proof -
  let ?j = "nat (in_time_windows l)"
  have "recent (stats t) ?j (stats_pos t) = take ?j (recent (stats t) k (stats_pos t))"
    using ring_okD [OF assms(1)] assms(3) by (simp add: recent_eq take_map)
  also have "\<dots> = replicate ?j empty_tstat"
    using assms(2,3) by (simp add: idle_for_def)
  finally have r: "recent (stats t) ?j (stats_pos t) = replicate ?j empty_tstat" .
  show ?thesis
  proof (cases "limiter_t l")
    case L_REQUESTS_PER_FN
    then have "amount_used t l \<le> 0"
      using assms(1) by (intro amount_used_fn_le)
        (simp_all add: fn_used_def r empty_tstat_def sum_list_replicate)
    with L_REQUESTS_PER_FN show ?thesis by (simp add: amount_used_def max_count_nonneg antisym)
  qed (simp_all add: amount_used_requests amount_used_data r empty_tstat_def sum_list_replicate)
qed

lemma idle_open_window:
  assumes "ring_ok t" "idle_for t j" "Suc j \<le> length (stats t)"
    "stats_pos t = W mod int (length (stats t))"
  shows "idle_for (open_window t ((W + 1) mod int (length (stats t)))) (Suc j)"
proof -
  let ?n = "int (length (stats t))"
  let ?p = "(W + 1) mod ?n"
  have p: "0 \<le> ?p" "?p < ?n" using ring_okD [OF assms(1)] by simp_all
  then have "ring_back (stats t) ?p = stats_pos t"
    using assms(4) by (simp add: ring_back_mod mod_diff_left_eq)
  with recent_update_current [OF p assms(3), of empty_tstat] assms(2) show ?thesis
    by (simp add: idle_for_def open_window_def del: recent.simps)
qed

lemma idle_refresh [simp]: "idle_for (refresh_status t) j = idle_for t j"
  by (simp add: idle_for_def)

lemma idle_run:
  assumes "thr_ok t" "stats_pos t = W mod int (length (stats t))" "1 < length (stats t)" "0 \<le> W"
    "length tss \<le> length (stats t)"
    "\<forall>i < length tss. tss ! i div stats_window_size_seconds t = W + 1 + int i"
  shows "let u = fold (\<lambda>ts t. OnMaintenance t ts) tss t in
     thr_ok u \<and> idle_for u (length tss) \<and> length (stats u) = length (stats t) \<and>
     limiters u = limiters t \<and> stats_window_size_seconds u = stats_window_size_seconds t \<and>
     stats_pos u = (W + int (length tss)) mod int (length (stats t)) \<and>
     (tss \<noteq> [] \<longrightarrow> status_throttled u = Throttled (getThrottleScore u) \<and>
        status_capacity_used u = CapacityUsed (getThrottleScore u))"
  using assms(5,6)
proof (induction tss rule: rev_induct)
  case Nil
  then show ?case using assms by (simp add: idle_for_def)
next
  case (snoc ts tss)
  let ?u = "fold (\<lambda>ts t. OnMaintenance t ts) tss t" and ?n = "int (length (stats t))"
  let ?V = "W + int (length tss)"
  have pre: "\<forall>i < length tss. tss ! i div stats_window_size_seconds t = W + 1 + int i"
  proof (intro allI impI)
    fix i assume "i < length tss"
    with snoc.prems(2) show "tss ! i div stats_window_size_seconds t = W + 1 + int i"
      by (auto simp: nth_append dest: spec [of _ i])
  qed
  have IH: "thr_ok ?u" "idle_for ?u (length tss)" "length (stats ?u) = length (stats t)"
     "limiters ?u = limiters t" "stats_window_size_seconds ?u = stats_window_size_seconds t"
     "stats_pos ?u = ?V mod ?n"
    using snoc.IH [OF _ pre] snoc.prems(1) by (simp_all add: Let_def)
  have "(tss @ [ts]) ! length tss div stats_window_size_seconds t = W + 1 + int (length tss)"
    using snoc.prems(2) by (metis length_append_singleton lessI)
  then have div: "ts div stats_window_size_seconds ?u = ?V + 1" by (simp add: IH(5))
  have w: "0 < stats_window_size_seconds ?u" using IH(1) ring_okD by (auto simp: thr_ok_def)
  have ts: "0 \<le> ts"
    using div assms(4) pos_imp_zdiv_nonneg_iff [OF w, of ts] by linarith
  have ne: "(?V + 1) mod ?n \<noteq> stats_pos ?u"
  proof
    assume "(?V + 1) mod ?n = stats_pos ?u"
    then have "(?V + 1) mod ?n = ?V mod ?n" by (simp add: IH(6))
    then have "?n dvd 1" by (simp add: mod_eq_dvd_iff)
    then show False using assms(3) by simp
  qed
  have step: "OnMaintenance ?u ts = refresh_status (open_window ?u ((?V + 1) mod ?n))"
    using OnMaintenance_next [of ?u ts] IH ts ne div by (simp add: thr_ok_def)
  have "idle_for (open_window ?u ((?V + 1) mod ?n)) (Suc (length tss))"
    using idle_open_window [of ?u "length tss" ?V] IH snoc.prems by (simp add: thr_ok_def)
  with thr_ok_OnMaintenance [OF IH(1) ts] IH show ?case
    by (simp add: step Let_def getThrottleScore_refresh status_capacity_refresh algebra_simps)
qed

text \<open>
  C4. An idle throttle recovers. However exhausted a throttle is, once its maintenance has
  opened as many consecutive windows as its limiters look back and nothing was counted in
  them, the published capacity is back to 0 and the next request is accepted.
\<close>

theorem idle_throttle_recovers:
  assumes "thr_ok t" "stats_pos t = W mod int (length (stats t))" "1 < length (stats t)" "0 \<le> W"
    "tss \<noteq> []" "length tss \<le> length (stats t)"
    "\<forall>i < length tss. tss ! i div stats_window_size_seconds t = W + 1 + int i"
    "\<forall>l \<in> set (limiters t). in_time_windows l \<le> int (length tss)"
  shows "fst (OnRequest (fold (\<lambda>ts t. OnMaintenance t ts) tss t) f)
    \<and> CapacityUsed (GetThrottleScore (fold (\<lambda>ts t. OnMaintenance t ts) tss t)) = 0"
proof -
  let ?u = "fold (\<lambda>ts t. OnMaintenance t ts) tss t"
  note run = idle_run [OF assms(1-4,6,7), unfolded Let_def]
  have zero: "amount_used ?u l = 0" if "l \<in> set (limiters ?u)" for l
    using run assms(8) that by (intro idle_amount [of _ "length tss"]) (auto simp: thr_ok_def)
  have pos: "1 \<le> maximum l" if "l \<in> set (limiters ?u)" for l
    using run that by (auto simp: thr_simps)
  have "\<not> Throttled (getThrottleScore ?u)"
    using run zero pos by (intro not_throttled_if_below) force+
  moreover have "CapacityUsed (getThrottleScore ?u) = 0"
  proof (cases "limiters ?u = []")
    case False
    then have "CapacityUsed (getThrottleScore ?u) = Max (insert 0 ((\<lambda>l. 0) ` set (limiters ?u)))"
      using score_of_limits_core [of ?u] run zero by (simp cong: image_cong)
    with False show ?thesis by (simp add: image_constant_conv)
  qed (simp add: getThrottleScore_def)
  ultimately show ?thesis using run assms(5) by (simp add: OnRequest_accepts GetThrottleScore_def)
qed

subsection \<open>Witnesses\<close>

definition sample_throttle :: "int \<Rightarrow> throttle" where
  "sample_throttle reqs =
     \<lparr>limiters = [\<lparr>limiter_t = L_REQUESTS, maximum = 2, in_time_windows = 2\<rparr>],
      stats_pos = 2,
      stats = [empty_tstat, empty_tstat, empty_tstat\<lparr>tstat_requests := reqs\<rparr>],
      stats_window_size_seconds = 1, score_modifier = 0,
      status_score = 0, status_throttled = (2 \<le> reqs), status_capacity_used = 0\<rparr>"

lemma sample_throttle_ok: "0 \<le> r \<Longrightarrow> thr_ok (sample_throttle r)"
  by (auto simp: sample_throttle_def thr_ok_def ring_ok_def counts_nonneg_def limits_exact_def
      windows_fit_def empty_tstat_def)

lemma score_of_limits_witness:
  "Throttled (getThrottleScore (sample_throttle 2)) \<and>
   CapacityUsed (getThrottleScore (sample_throttle 2)) = 10000"
  using score_of_limits [OF sample_throttle_ok, of 2]
  by (simp add: sample_throttle_def amount_used_def eval_nat_numeral ring_back_def empty_tstat_def)


lemma idle_throttle_recovers_witness:
  "\<not> fst (OnRequest (sample_throttle 2) ''getSlot'') \<and>
   fst (OnRequest (fold (\<lambda>ts t. OnMaintenance t ts) [3, 4] (sample_throttle 2)) ''getSlot'')"
proof -
  have "\<forall>i < length [3, 4 :: int].
      [3, 4] ! i div stats_window_size_seconds (sample_throttle 2) = 2 + 1 + int i"
    by (auto simp: sample_throttle_def less_Suc_eq numeral_2_eq_2)
  from idle_throttle_recovers [OF sample_throttle_ok _ _ _ _ _ this, of "''getSlot''"]
  show ?thesis by (simp add: sample_throttle_def OnRequest_accepts)
qed

end
