(* ===== verification/ThrottleGroup.thy ===== *)
theory ThrottleGroup
  imports ThrottleScore
begin

text \<open>
  \<open>ThrottleGoup\<close> of \<open>client/throttle/group.go\<close>: several throttles that admit a request
  together. The interface the scheduler and the client use is the locale \<open>request_gate\<close>;
  a single throttle and a group both provide it.
\<close>

subsection \<open>The gate interface\<close>

locale request_gate =
  fixes exhausted :: "'s \<Rightarrow> bool"
    and admit :: "'s \<Rightarrow> string \<Rightarrow> bool \<times> 's"
  assumes refuses: "exhausted s \<Longrightarrow> admit s f = (False, s)"
    and accepts: "\<not> exhausted s \<Longrightarrow> fst (admit s f)"
begin

lemma admit_iff: "fst (admit s f) \<longleftrightarrow> \<not> exhausted s"
  using refuses [of s f] accepts [of s f] by (cases "exhausted s") auto

lemma refused_unchanged: "\<not> fst (admit s f) \<Longrightarrow> snd (admit s f) = s"
  using refuses [of s f] accepts [of s f] by (cases "exhausted s") auto

text \<open>Once a gate refuses, it refuses everything until something other than a request happens.\<close>

lemma exhausted_run:
  "exhausted s \<Longrightarrow> run_list admit s fs = (replicate (length fs) False, s)"
  by (induction fs) (simp_all add: refuses)

lemma accepted_prefix:
  "\<exists>j \<le> length fs. fst (run_list admit s fs) = replicate j True @ replicate (length fs - j) False"
proof (induction fs arbitrary: s)
  case (Cons f fs)
  show ?case
  proof (cases "exhausted s")
    case True
    with exhausted_run [of s "f # fs"] show ?thesis by (intro exI [of _ 0]) simp
  next
    case False
    from Cons.IH [of "snd (admit s f)"] obtain j where "j \<le> length fs"
      "fst (run_list admit (snd (admit s f)) fs) = replicate j True @ replicate (length fs - j) False"
      by blast
    with False accepts [of s f] show ?thesis
      by (intro exI [of _ "Suc j"]) (simp add: split_beta Let_def)
  qed
qed simp

end

interpretation single: request_gate status_throttled OnRequest
  by unfold_locales (simp_all add: OnRequest_throttled OnRequest_accepts)

subsection \<open>The operations of a group\<close>

type_synonym group = "throttle list"

fun group_request_loop :: "group \<Rightarrow> string \<Rightarrow> bool \<times> group" where
  "group_request_loop [] f = (True, [])"
| "group_request_loop (t # ts) f =
     (let (ok, t') = OnRequest t f
      in if \<not> ok then (False, t' # ts)
         else let (r, ts') = group_request_loop ts f in (r, t' # ts'))"

definition group_OnRequest :: "group \<Rightarrow> string \<Rightarrow> bool \<times> group" where
  "group_OnRequest this f =
     (if \<exists>t \<in> set this. status_throttled t then (False, this) else group_request_loop this f)"

definition group_OnReceive :: "group \<Rightarrow> int \<Rightarrow> group" where
  "group_OnReceive this d = map (\<lambda>t. OnReceive t d) this"

definition group_OnMaintenance :: "group \<Rightarrow> int \<Rightarrow> group" where
  "group_OnMaintenance this ts = map (\<lambda>t. OnMaintenance t ts) this"

definition group_GetThrottleScore :: "group \<Rightarrow> throttle_score" where
  "group_GetThrottleScore this =
     fold (\<lambda>t ret. let tmp = GetThrottleScore t
             in \<lparr>Score = (if Score tmp > Score ret then Score tmp else Score ret),
                 Throttled = (Throttled ret \<or> Throttled tmp),
                 CapacityUsed = (if CapacityUsed tmp > CapacityUsed ret then CapacityUsed tmp
                                 else CapacityUsed ret)\<rparr>)
       this \<lparr>Score = min_int64, Throttled = False, CapacityUsed = 0\<rparr>"

definition group_GetLimitsLeft :: "group \<Rightarrow> int \<times> int \<times> int \<times> int" where
  "group_GetLimitsLeft this =
     fold (\<lambda>t (a, b, c, d). let (a2, b2, c2, d2) = GetLimitsLeft t
             in (if a2 < a then a2 else a, if b2 < b then b2 else b,
                 if c2 < c then c2 else c, if d2 > d then d2 else d))
       this (max_int64, max_int64, max_int64, 0)"

definition group_SetScoreModifier :: "group \<Rightarrow> int \<Rightarrow> group" where
  "group_SetScoreModifier this m = map (\<lambda>t. SetScoreModifier t m) this"

subsection \<open>Lemmas\<close>

lemma group_request_loop_ok:
  "\<forall>t \<in> set ts. \<not> status_throttled t \<Longrightarrow>
   group_request_loop ts f = (True, map (\<lambda>t. snd (OnRequest t f)) ts)"
  by (induction ts) (simp_all add: OnRequest_free)

interpretation grp: request_gate "\<lambda>ts. \<exists>t \<in> set ts. status_throttled t" group_OnRequest
  by unfold_locales (auto simp: group_OnRequest_def group_request_loop_ok)

lemma group_score_fields:
  "Throttled (group_GetThrottleScore ts) \<longleftrightarrow> (\<exists>t \<in> set ts. status_throttled t)"
  "Score (group_GetThrottleScore ts) = Max (insert min_int64 (status_score ` set ts))"
  "CapacityUsed (group_GetThrottleScore ts) = Max (insert 0 (status_capacity_used ` set ts))"
proof -
  let ?step = "\<lambda>t ret. let tmp = GetThrottleScore t
             in \<lparr>Score = (if Score tmp > Score ret then Score tmp else Score ret),
                 Throttled = (Throttled ret \<or> Throttled tmp),
                 CapacityUsed = (if CapacityUsed tmp > CapacityUsed ret then CapacityUsed tmp
                                 else CapacityUsed ret)\<rparr>"
  have "Throttled (fold ?step ts r) \<longleftrightarrow> Throttled r \<or> (\<exists>t \<in> set ts. status_throttled t)" for r
    by (induction ts arbitrary: r) (auto simp: Let_def GetThrottleScore_def)
  then show "Throttled (group_GetThrottleScore ts) \<longleftrightarrow> (\<exists>t \<in> set ts. status_throttled t)"
    by (simp add: group_GetThrottleScore_def)
  have "Score (fold ?step ts r) =
      fold (\<lambda>t acc. if acc < status_score t then status_score t else acc) ts (Score r)" for r
    by (induction ts arbitrary: r) (simp_all add: Let_def GetThrottleScore_def)
  then show "Score (group_GetThrottleScore ts) = Max (insert min_int64 (status_score ` set ts))"
    by (simp add: group_GetThrottleScore_def fold_keep_max)
  have "CapacityUsed (fold ?step ts r) =
      fold (\<lambda>t acc. if acc < status_capacity_used t then status_capacity_used t else acc) ts
        (CapacityUsed r)" for r
    by (induction ts arbitrary: r) (simp_all add: Let_def GetThrottleScore_def)
  then show "CapacityUsed (group_GetThrottleScore ts) = Max (insert 0 (status_capacity_used ` set ts))"
    by (simp add: group_GetThrottleScore_def fold_keep_max)
qed

lemma group_request_atomic_core:
  "group_OnRequest ts f =
     (if Throttled (group_GetThrottleScore ts) then (False, ts)
      else (True, map (\<lambda>t. snd (OnRequest t f)) ts))"
  using grp.refuses [of ts f] by (auto simp: group_score_fields group_OnRequest_def group_request_loop_ok)

text \<open>
  A group is one gate. Its score is exhausted exactly when one of its throttles is; an
  exhausted group refuses and counts the request nowhere; otherwise it accepts and every
  throttle counts the request.
\<close>

theorem group_request_atomic:
  "group_OnRequest ts f =
     (if Throttled (group_GetThrottleScore ts) then (False, ts)
      else (True, map (\<lambda>t. snd (OnRequest t f)) ts))"
  by (rule group_request_atomic_core)

subsection \<open>Limits left in a group\<close>

lemma group_limits_fold:
  fixes ts acc
  defines "step \<equiv> \<lambda>t (a, b, c, d). let (a2, b2, c2, d2) = GetLimitsLeft t
             in (if a2 < a then a2 else a, if b2 < b then b2 else b,
                 if c2 < c then c2 else c, if d2 > d then d2 else (d::int))"
  assumes "fold step ts acc = (a, b, c, d)" "acc = (a0, b0, c0, d0)"
  shows "a \<le> a0 \<and> b \<le> b0 \<and> c \<le> c0 \<and>
    (\<forall>t \<in> set ts. \<exists>a' b' c' d'. GetLimitsLeft t = (a', b', c', d') \<and> a \<le> a' \<and> b \<le> b' \<and> c \<le> c')"
  using assms(2,3)
proof (induction ts arbitrary: acc a0 b0 c0 d0)
  case Nil
  then show ?case by simp
next
  case (Cons t ts)
  obtain a2 b2 c2 d2 where g: "GetLimitsLeft t = (a2, b2, c2, d2)" by (metis prod_cases4)
  from Cons.prems have run: "fold step ts (step t acc) = (a, b, c, d)" by simp
  have acc: "step t acc = (if a2 < a0 then a2 else a0, if b2 < b0 then b2 else b0,
      if c2 < c0 then c2 else c0, if d2 > d0 then d2 else d0)"
    using Cons.prems(2) g by (simp add: step_def)
  from Cons.IH [OF run acc] show ?case by (auto simp: g split: if_splits)
qed

lemma group_limits_members:
  assumes "group_GetLimitsLeft ts = (a, b, c, d)" "t \<in> set ts"
  shows "\<exists>a' b' c' d'. GetLimitsLeft t = (a', b', c', d') \<and> a \<le> a' \<and> b \<le> b' \<and> c \<le> c'"
  using group_limits_fold [OF assms(1) [unfolded group_GetLimitsLeft_def] refl] assms(2) by blast

lemma group_room_run:
  assumes "\<forall>t \<in> set ts. thr_ok t \<and> room_for t (length fs) \<and> (fs \<noteq> [] \<longrightarrow> \<not> status_throttled t)"
  shows "fst (run_list group_OnRequest ts fs) = replicate (length fs) True"
  using assms
proof (induction fs arbitrary: ts)
  case (Cons f fs)
  let ?ts = "map (\<lambda>t. refresh_status (count_request t f)) ts"
  have step: "group_OnRequest ts f = (True, ?ts)"
    using Cons.prems by (simp add: group_OnRequest_def group_request_loop_ok OnRequest_free)
  have "thr_ok t \<and> room_for t (length fs) \<and> (fs \<noteq> [] \<longrightarrow> \<not> status_throttled t)" if t: "t \<in> set ?ts" for t
  proof -
    from t obtain u where u: "u \<in> set ts" "t = refresh_status (count_request u f)" by auto
    with Cons.prems have ok: "thr_ok t" and room: "room_for t (length fs)"
      by (auto intro: thr_ok_count_request room_for_request)
    then show ?thesis
      using u(2) room_not_throttled [of t "length fs - 1"]
      by (simp add: getThrottleScore_refresh)
  qed
  with Cons.IH [of ?ts] show ?case by (simp add: step split_beta Let_def)
qed simp

text \<open>
  The limits a group reports are kept. If a group of well-formed throttles says \<open>a\<close> requests
  and \<open>b\<close> per function are left, and some data, then the next \<open>min a b\<close> requests are all
  accepted by the group.
\<close>

theorem group_limits_left_truthful:
  assumes "\<forall>t \<in> set ts. thr_ok t" "group_GetLimitsLeft ts = (a, b, c, d)" "0 < c"
    "int (length fs) \<le> a" "int (length fs) \<le> b"
  shows "fst (run_list group_OnRequest ts fs) = replicate (length fs) True"
proof (cases "fs = []")
  case False
  show ?thesis
  proof (rule group_room_run, intro ballI conjI impI)
    fix t assume t: "t \<in> set ts"
    with assms(1) show "thr_ok t" by blast
    from group_limits_members [OF assms(2) t] obtain a' b' c' d'
      where g: "GetLimitsLeft t = (a', b', c', d')" "a \<le> a'" "b \<le> b'" "c \<le> c'" by blast
    with assms(3) show free: "\<not> status_throttled t"
      by (auto simp: GetLimitsLeft_def GetThrottleScore_def)
    from g assms False show "room_for t (length fs)"
      by (intro room_from_limits_left [OF g(1) free]) auto
  qed
qed simp

lemma group_limits_left_truthful_witness:
  "fst (run_list group_OnRequest [sample_throttle 0, sample_throttle 1] [''getSlot'']) = [True]"
proof -
  have g: "group_GetLimitsLeft [sample_throttle 0, sample_throttle 1] =
      (1, 1073741824, 1073741824, 5000)" by code_simp
  have ok: "\<forall>t \<in> set [sample_throttle 0, sample_throttle 1]. thr_ok t"
    by (simp add: sample_throttle_ok)
  from group_limits_left_truthful [OF ok g, of "[''getSlot'']"] show ?thesis by simp
qed

end
