(* ===== verification/ThrottleConfig.thy ===== *)
theory ThrottleConfig
  imports ThrottleGroup
begin

text \<open>
  Throttles from their configuration string: \<open>client/throttle/read_config.go\<close>. The string is a
  list \<open>type,limit,seconds;...\<close>; limiters that agree on the window layout \<open>tw\<close> share a
  throttle.
\<close>

subsection \<open>The layout of the windows\<close>

record tw =
  time_window_size :: int
  time_window_count :: int

text \<open>\<open>for i := start; i < end; i++\<close>: the first divisor of \<open>stat_time\<close>.\<close>

function window_search :: "int \<Rightarrow> int \<Rightarrow> int \<Rightarrow> int option go" where
  "window_search stat_time i stop =
     (if i < stop then
        (if i = 0 then Inl DivideByZero
         else if stat_time smod i = 0 then Inr (Some i)
         else window_search stat_time (i + 1) stop)
      else Inr None)"
  by auto
termination by (relation "measure (\<lambda>(t, i, e). nat (e - i))") auto

declare window_search.simps [simp del]

definition warn_time :: string where
  "warn_time = ''Warning: throttling time >120s and not divisible by 10, may be suboptimal. Consider changing it''"

definition get_timewindow_len :: "int \<Rightarrow> (tw \<times> string list) go" where
  "get_timewindow_len stat_time =
     (if stat_time \<le> 120 then
        Inr (\<lparr>time_window_size = 1, time_window_count = 120\<rparr>, [])
      else if stat_time \<le> 1200 \<and> stat_time smod 10 = 0 then
        Inr (\<lparr>time_window_size = 10, time_window_count = 120\<rparr>, [])
      else
        (let logs = (if stat_time \<le> 1200 then [warn_time] else [])
         in go_bind (window_search stat_time (stat_time sdiv 100) (stat_time sdiv 200)) (\<lambda>r.
           case r of
             Some i \<Rightarrow> Inr (\<lparr>time_window_size = i, time_window_count = stat_time sdiv i\<rparr>, logs)
           | None \<Rightarrow>
               Inr (\<lparr>time_window_size = stat_time sdiv 120, time_window_count = 125\<rparr>,
                    logs @ [''Warning: throttling time can't be sliced into windows, consider using ''
                            @ itoa ((stat_time sdiv 120 + 1) * 120) @ '' instead of '' @ itoa stat_time]))))"

subsection \<open>Reading the configuration\<close>

type_synonym throttles = "(tw, throttle) gomap"

definition get_thr :: "int \<Rightarrow> throttles \<Rightarrow> int \<Rightarrow> (tw \<times> throttles \<times> string list) go" where
  "get_thr now tws throttle_time =
     go_bind (get_timewindow_len throttle_time) (\<lambda>(k, logs).
       case map_of tws k of
         Some t \<Rightarrow> Inr (k, tws, logs)
       | None \<Rightarrow>
           go_bind (MakeCustom now (time_window_count k) (time_window_size k)) (\<lambda>t.
             Inr (k, gm_set tws k t, logs)))"

text \<open>\<open>fmt.Sprint\<close> of a slice of strings.\<close>

definition sprint_strings :: "string list \<Rightarrow> string" where
  "sprint_strings v = ''['' @ go_join '' '' v @ '']''"

definition limiter_of_letter :: "string \<Rightarrow> limiter_type option" where
  "limiter_of_letter s =
     (if s = ''r'' then Some L_REQUESTS
      else if s = ''f'' then Some L_REQUESTS_PER_FN
      else if s = ''d'' then Some L_DATA_RECEIVED else None)"

definition log_limiter :: "limiter_type \<Rightarrow> int \<Rightarrow> int \<Rightarrow> string" where
  "log_limiter ty t_limit t_time =
     (case ty of
        L_REQUESTS \<Rightarrow> ''Throttling requests '' @ itoa t_limit @ ''/'' @ itoa t_time @ ''seconds''
      | L_REQUESTS_PER_FN \<Rightarrow> ''Throttling requests for single function '' @ itoa t_limit @ ''/''
          @ itoa t_time @ ''seconds''
      | L_DATA_RECEIVED \<Rightarrow> ''Throttling data received '' @ itoa t_limit @ ''bytes/'' @ itoa t_time
          @ ''seconds'')"

text \<open>One entry: an error message ends the loop, otherwise the throttles are updated.\<close>

definition config_entry ::
  "int \<Rightarrow> string \<Rightarrow> throttles \<times> string list \<Rightarrow> (string list + throttles \<times> string list) go" where
  "config_entry now entry st =
     (let (tws, logs0) = st;
          logs = logs0 @ [''Processing throttle config: '' @ entry];
          v0 = go_split (CHR '','') entry
      in if length v0 < 3 then
           Inr (Inl (logs @ [''Error configuring throttling:'' @ sprint_strings v0 @
                     ''...  needs to have 3 parameters: type,limit,time_seconds'']))
         else
           (let v = map (go_trim blanks) v0
            in case limiter_of_letter (v ! 0) of
                 None \<Rightarrow> Inr (Inl (logs @ [''Error configuring throttling:'' @ sprint_strings v @
                     ''... type needs to be [r]equests, [f]unctions, [d]ata received'']))
               | Some ty \<Rightarrow>
                   (let t_limit = fst (atoi (v ! 1)); t_time = fst (atoi (v ! 2))
                    in go_bind (get_thr now tws t_time) (\<lambda>(k, tws1, logs1).
                         if t_limit \<le> 0 then
                           Inr (Inl (logs @ logs1 @ [''Error configuring throttling:'' @ itoa t_limit @
                             ''... limit needs to be > 0'']))
                         else if t_time \<le> 0 then
                           Inr (Inl (logs @ logs1 @ [''Error configuring throttling:'' @ itoa t_time @
                             ''... time needs to be > 0'']))
                         else
                           (case map_of tws1 k of
                              None \<Rightarrow> Inl NilDereference
                            | Some thr \<Rightarrow>
                                Inr (Inr (gm_set tws1 k (AddLimiter thr ty t_limit t_time),
                                          logs @ logs1 @ [log_limiter ty t_limit t_time])))))))"

fun config_entries ::
  "int \<Rightarrow> string list \<Rightarrow> throttles \<times> string list \<Rightarrow> (string list + throttles \<times> string list) go" where
  "config_entries now [] st = Inr (Inr st)"
| "config_entries now (e # es) st =
     go_bind (config_entry now e st) (\<lambda>r.
       case r of Inl logs \<Rightarrow> Inr (Inl logs) | Inr st' \<Rightarrow> config_entries now es st')"

text \<open>The result is the throttles (none on an error) and the log.\<close>

definition MakeFromConfig :: "int \<Rightarrow> string \<Rightarrow> (group \<times> string list) go" where
  "MakeFromConfig now config =
     go_bind (config_entries now (go_split (CHR '';'') config) ([], [])) (\<lambda>r.
       case r of
         Inl logs \<Rightarrow> Inr ([], logs)
       | Inr (tws, logs) \<Rightarrow> Inr (map snd tws, logs))"

definition MakeForPublic :: "int \<Rightarrow> (group \<times> string list) go" where
  "MakeForPublic now =
     go_bind (Make now) (\<lambda>t0.
       let t1 = AddLimiter t0 L_REQUESTS 70 10;
           t2 = AddLimiter t1 L_REQUESTS_PER_FN 20 10;
           t3 = AddLimiter t2 L_DATA_RECEIVED (75 * 1000 * 1000) 30
       in Inr ([t3], [''Adding standard throttle for public nodes'']))"

subsection \<open>The layout is sound\<close>

lemma window_search_none: "stop \<le> i \<Longrightarrow> window_search t i stop = Inr None"
  by (subst window_search.simps) simp

text \<open>The search loop starts at \<open>t / 100\<close> and stops at \<open>t / 200\<close>: it never runs.\<close>

lemma timewindow_cases:
  "get_timewindow_len t = Inr (k, logs) \<Longrightarrow>
     (t \<le> 120 \<and> k = \<lparr>time_window_size = 1, time_window_count = 120\<rparr>)
   \<or> (120 < t \<and> t \<le> 1200 \<and> 10 dvd t \<and> k = \<lparr>time_window_size = 10, time_window_count = 120\<rparr>)
   \<or> (120 < t \<and> \<not> (t \<le> 1200 \<and> 10 dvd t) \<and>
        k = \<lparr>time_window_size = t div 120, time_window_count = 125\<rparr>)"
  by (auto simp: get_timewindow_len_def window_search_none Let_def dvd_eq_mod_eq_0
      zdiv_mono2 split: if_splits)

lemma timewindow_no_panic: "\<exists>k logs. get_timewindow_len t = Inr (k, logs)"
  by (simp add: get_timewindow_len_def window_search_none Let_def zdiv_mono2)

definition tw_ok :: "tw \<Rightarrow> bool" where
  "tw_ok k \<longleftrightarrow> 1 \<le> time_window_size k \<and> (time_window_count k = 120 \<or> time_window_count k = 125)"

lemma timewindow_ok: "get_timewindow_len t = Inr (k, logs) \<Longrightarrow> tw_ok k"
  by (auto dest!: timewindow_cases simp: tw_ok_def)

text \<open>The times whose windows fit into the ring that is built for them.\<close>

definition time_fits :: "int \<Rightarrow> bool" where
  "time_fits t \<longleftrightarrow> t \<le> 120 \<or> (t \<le> 1200 \<and> 10 dvd t) \<or> t div (t div 120) \<le> 125"

lemma time_fits_iff:
  assumes "get_timewindow_len t = Inr (k, logs)" "1 \<le> t"
  shows "t div time_window_size k \<le> time_window_count k \<longleftrightarrow> time_fits t"
    and "1 \<le> t div time_window_size k"
proof -
  have "t div 10 \<le> 120" if "t \<le> 1200" using that by linarith
  moreover have pos: "1 \<le> t div 120" if "120 < t" using that by linarith
  moreover have "1 \<le> t div (t div 120)" if "120 < t"
  proof -
    have "t div 120 \<le> t" using that by linarith
    with pos [OF that] show ?thesis by (subst int_le_div_iff) auto
  qed
  ultimately show "t div time_window_size k \<le> time_window_count k \<longleftrightarrow> time_fits t"
    "1 \<le> t div time_window_size k"
    using timewindow_cases [OF assms(1)] assms(2) by (auto simp: time_fits_def)
qed

subsection \<open>What a configuration means\<close>

text \<open>An entry as the limiter type, the limit and the time it asks for.\<close>

definition parse_entry :: "string \<Rightarrow> (limiter_type \<times> int \<times> int) option" where
  "parse_entry e =
     (let v = map (go_trim blanks) (go_split (CHR '','') e)
      in if length v < 3 then None
         else case limiter_of_letter (v ! 0) of
                None \<Rightarrow> None
              | Some ty \<Rightarrow>
                  (let l = fst (atoi (v ! 1)); t = fst (atoi (v ! 2))
                   in if l \<le> 0 \<or> t \<le> 0 then None else Some (ty, l, t)))"

definition layout :: "int \<Rightarrow> tw" where
  "layout t =
     (if t \<le> 120 then \<lparr>time_window_size = 1, time_window_count = 120\<rparr>
      else if t \<le> 1200 \<and> 10 dvd t then \<lparr>time_window_size = 10, time_window_count = 120\<rparr>
      else \<lparr>time_window_size = t div 120, time_window_count = 125\<rparr>)"

definition limiter_for :: "limiter_type \<times> int \<times> int \<Rightarrow> limiter" where
  "limiter_for e = (case e of (ty, l, t) \<Rightarrow>
     \<lparr>limiter_t = ty, maximum = l, in_time_windows = t div time_window_size (layout t)\<rparr>)"

definition base_throttle :: "int \<Rightarrow> tw \<Rightarrow> throttle" where
  "base_throttle now k =
     \<lparr>limiters = [], stats_pos = (now sdiv time_window_size k) smod time_window_count k,
      stats = replicate (nat (time_window_count k)) empty_tstat,
      stats_window_size_seconds = time_window_size k, score_modifier = 0, status_score = 0,
      status_throttled = False, status_capacity_used = 0\<rparr>"

definition throttle_for :: "int \<Rightarrow> (limiter_type \<times> int \<times> int) list \<Rightarrow> tw \<Rightarrow> throttle" where
  "throttle_for now ents k = (base_throttle now k)
     \<lparr>limiters := map limiter_for (filter (\<lambda>(_, _, t). layout t = k) ents)\<rparr>"

definition built :: "int \<Rightarrow> (limiter_type \<times> int \<times> int) list \<Rightarrow> throttles \<Rightarrow> bool" where
  "built now ents tws \<longleftrightarrow> gm_wf tws \<and> (\<forall>k. map_of tws k =
     (if k \<in> (\<lambda>(_, _, t). layout t) ` set ents then Some (throttle_for now ents k) else None))"

lemma layout_eq: "get_timewindow_len t = Inr (k, logs) \<Longrightarrow> k = layout t"
  by (drule timewindow_cases) (auto simp: layout_def)

lemma tw_ok_layout: "tw_ok (layout t)"
  using timewindow_no_panic [of t] timewindow_ok layout_eq by metis

lemma layout_fits:
  assumes "1 \<le> t"
  shows "t div time_window_size (layout t) \<le> time_window_count (layout t) \<longleftrightarrow> time_fits t"
    and "1 \<le> t div time_window_size (layout t)"
  using timewindow_no_panic [of t] time_fits_iff [OF _ assms] layout_eq [of t] by auto

lemma MakeCustom_layout:
  "tw_ok k \<Longrightarrow> MakeCustom now (time_window_count k) (time_window_size k) = Inr (base_throttle now k)"
  by (auto simp: MakeCustom_def base_throttle_def tw_ok_def)

lemma get_thr_built:
  assumes "built now ents tws"
  shows "\<exists>tws1 logs. get_thr now tws t = Inr (layout t, tws1, logs) \<and> gm_wf tws1 \<and>
    map_of tws1 = (map_of tws)(layout t \<mapsto> throttle_for now ents (layout t))"
proof -
  obtain k logs where k: "get_timewindow_len t = Inr (k, logs)" using timewindow_no_panic by blast
  have kl: "k = layout t" by (rule layout_eq [OF k])
  show ?thesis
  proof (cases "map_of tws k")
    case None
    then have "k \<notin> (\<lambda>(_, _, t). layout t) ` set ents"
      using assms unfolding built_def by (metis option.simps(3))
    then have "\<not> (case e of (_, _, t) \<Rightarrow> layout t = k)" if "e \<in> set ents" for e
      using that by force
    then have "filter (\<lambda>(_, _, t). layout t = k) ents = []"
      by (simp add: filter_empty_conv)
    then have base: "throttle_for now ents k = base_throttle now k"
      by (simp add: throttle_for_def base_throttle_def)
    have "get_thr now tws t = Inr (k, gm_set tws k (base_throttle now k), logs)"
      using None MakeCustom_layout [OF tw_ok_layout, of now t]
      by (simp add: get_thr_def k flip: kl)
    with assms base show ?thesis
      by (auto simp: built_def map_of_gm_set simp flip: kl)
  next
    case (Some thr)
    with assms have "thr = throttle_for now ents k" by (auto simp: built_def split: if_splits)
    with Some assms show ?thesis
      by (auto simp: get_thr_def k built_def fun_upd_idem simp flip: kl)
  qed
qed

lemma AddLimiter_for:
  assumes "1 \<le> t"
  shows "AddLimiter (throttle_for now ents (layout t)) ty l t = throttle_for now (ents @ [(ty, l, t)]) (layout t)"
  using tw_ok_layout [of t] assms
  by (simp add: AddLimiter_def throttle_for_def base_throttle_def limiter_for_def tw_ok_def)

lemma throttle_for_other:
  "layout t \<noteq> k \<Longrightarrow> throttle_for now (ents @ [(ty, l, t)]) k = throttle_for now ents k"
  by (simp add: throttle_for_def)

lemma config_entry_built:
  assumes "built now ents tws"
  shows "case parse_entry e of
      None \<Rightarrow> \<exists>logs'. config_entry now e (tws, logs) = Inr (Inl logs')
    | Some p \<Rightarrow> \<exists>tws' logs'. config_entry now e (tws, logs) = Inr (Inr (tws', logs')) \<and>
        built now (ents @ [p]) tws'"
proof (cases "length (go_split (CHR '','') e) < 3")
  case True
  then show ?thesis by (simp add: parse_entry_def config_entry_def)
next
  case long: False
  let ?v = "map (go_trim blanks) (go_split (CHR '','') e)"
  let ?l = "fst (atoi (?v ! 1))" and ?t = "fst (atoi (?v ! 2))"
  show ?thesis
  proof (cases "limiter_of_letter (?v ! 0)")
    case None
    with long show ?thesis by (simp add: parse_entry_def config_entry_def Let_def)
  next
    case (Some ty)
    from get_thr_built [OF assms, of ?t] obtain tws1 logs1 where
      thr: "get_thr now tws ?t = Inr (layout ?t, tws1, logs1)" and wf: "gm_wf tws1" and
      m1: "map_of tws1 = (map_of tws)(layout ?t \<mapsto> throttle_for now ents (layout ?t))" by blast
    show ?thesis
    proof (cases "?l \<le> 0 \<or> ?t \<le> 0")
      case True
      with long Some thr show ?thesis
        by (auto simp: parse_entry_def config_entry_def Let_def)
    next
      case False
      let ?tws2 = "gm_set tws1 (layout ?t) (throttle_for now (ents @ [(ty, ?l, ?t)]) (layout ?t))"
      have p: "parse_entry e = Some (ty, ?l, ?t)"
        using long Some False by (simp add: parse_entry_def Let_def)
      have "\<exists>logs'. config_entry now e (tws, logs) = Inr (Inr (?tws2, logs'))"
        using long Some False thr m1 AddLimiter_for [of ?t now ents ty ?l]
        by (simp add: config_entry_def Let_def)
      moreover have "built now (ents @ [(ty, ?l, ?t)]) ?tws2"
        using assms wf m1 by (auto simp: built_def map_of_gm_set throttle_for_other)
      ultimately show ?thesis by (auto simp: p)
    qed
  qed
qed

lemma config_entries_built:
  assumes "built now ents tws"
  shows "case those (map parse_entry es) of
      None \<Rightarrow> \<exists>logs'. config_entries now es (tws, logs) = Inr (Inl logs')
    | Some ps \<Rightarrow> \<exists>tws' logs'. config_entries now es (tws, logs) = Inr (Inr (tws', logs')) \<and>
        built now (ents @ ps) tws'"
  using assms
proof (induction es arbitrary: ents tws logs)
  case (Cons e es)
  note entry = config_entry_built [OF Cons.prems, of e logs]
  show ?case
  proof (cases "parse_entry e")
    case None
    with entry show ?thesis by auto
  next
    case (Some p)
    with entry obtain tws' logs' where
      step: "config_entry now e (tws, logs) = Inr (Inr (tws', logs'))" and
      b: "built now (ents @ [p]) tws'" by auto
    from Cons.IH [OF b, of logs'] Some step show ?thesis
      by (cases "those (map parse_entry es)") auto
  qed
qed simp

lemma built_Nil: "built now [] []"
  by (simp add: built_def)

lemma built_set:
  assumes "built now ents tws"
  shows "snd ` set tws = (\<lambda>(_, _, t). throttle_for now ents (layout t)) ` set ents"
proof -
  have "snd ` set tws = ran (map_of tws)"
    using assms by (simp add: built_def ran_distinct)
  also have "\<dots> = (\<lambda>(_, _, t). throttle_for now ents (layout t)) ` set ents"
    using assms by (force simp: built_def ran_def split: if_splits)
  finally show ?thesis .
qed

lemma config_meaning_core:
  "\<exists>ts logs. MakeFromConfig now cfg = Inr (ts, logs) \<and>
     (case those (map parse_entry (go_split (CHR '';'') cfg)) of
        None \<Rightarrow> ts = []
      | Some ents \<Rightarrow> set ts = (\<lambda>(_, _, t). throttle_for now ents (layout t)) ` set ents)"
  using config_entries_built [OF built_Nil, where es = "go_split (CHR '';'') cfg" and now = now and logs = "[]"]
  by (cases "those (map parse_entry (go_split (CHR '';'') cfg))")
    (auto simp: MakeFromConfig_def built_set)


lemma those_member: "those (map f xs) = Some ys \<Longrightarrow> y \<in> set ys \<Longrightarrow> \<exists>x \<in> set xs. f x = Some y"
  by (induction xs arbitrary: ys) (auto split: option.splits)

lemma parse_entry_pos: "parse_entry e = Some (ty, l, t) \<Longrightarrow> 1 \<le> l \<and> 1 \<le> t"
  by (auto simp: parse_entry_def Let_def split: if_splits option.splits)

lemma throttle_for_ok:
  assumes "0 \<le> now" "tw_ok k"
  shows "ring_ok (throttle_for now ents k)" "counts_nonneg (throttle_for now ents k)"
  using assms
  by (auto simp: ring_ok_def counts_nonneg_def throttle_for_def base_throttle_def tw_ok_def
      empty_tstat_def pos_imp_zdiv_nonneg_iff)

text \<open>
  A configuration gives well-formed throttles: if every entry is well formed, asks for a time
  whose windows fit its ring, and stays below the bound under which the percentages are exact,
  then every throttle satisfies the invariant all the throttle properties rest on.
\<close>

theorem config_throttles_ok:
  assumes "MakeFromConfig now cfg = Inr (ts, logs)" "0 \<le> now" "t \<in> set ts"
    "those (map parse_entry (go_split (CHR '';'') cfg)) = Some ents"
    "\<forall>(_, l, time) \<in> set ents. l \<le> 900719925474 \<and> time_fits time"
  shows "thr_ok t \<and> limiters t \<noteq> [] \<and> (\<forall>l \<in> set (limiters t). 1 \<le> in_time_windows l)"
proof -
  from config_meaning_core [of now cfg] assms(1,4)
  have "set ts = (\<lambda>(_, _, t). throttle_for now ents (layout t)) ` set ents" by auto
  with assms(3) obtain ty0 l0 t0 where t: "t = throttle_for now ents (layout t0)"
    and t0: "(ty0, l0, t0) \<in> set ents" by auto
  have ent: "1 \<le> l \<and> l \<le> 900719925474 \<and> 1 \<le> time \<and> time_fits time"
    if e: "(ty, l, time) \<in> set ents" for ty l time
    using those_member [OF assms(4) e] parse_entry_pos assms(5) e by fastforce
  have lims: "\<exists>ty l time. (ty, l, time) \<in> set ents \<and> layout time = layout t0 \<and>
      x = limiter_for (ty, l, time)" if x: "x \<in> set (limiters t)" for x
    using x by (auto simp: t throttle_for_def)
  have len: "int (length (stats t)) = time_window_count (layout t0)"
    using tw_ok_layout [of t0] by (auto simp: t throttle_for_def base_throttle_def tw_ok_def)
  have per: "1 \<le> maximum x \<and> maximum x \<le> 900719925474 \<and> 1 \<le> in_time_windows x \<and>
      in_time_windows x \<le> int (length (stats t))" if "x \<in> set (limiters t)" for x
  proof -
    from lims [OF that] obtain ty l time where x: "(ty, l, time) \<in> set ents"
      "layout time = layout t0" "x = limiter_for (ty, l, time)" by blast
    with ent [OF x(1)] layout_fits [of time] len show ?thesis by (auto simp: limiter_for_def)
  qed
  have "limiters t \<noteq> []"
    using t0 by (auto simp: t throttle_for_def filter_empty_conv)
  with per throttle_for_ok [OF assms(2) tw_ok_layout] show ?thesis
    by (auto simp: thr_simps windows_fit_def t)
qed

text \<open>
  A time whose windows do not fit the ring is counted twice. A limiter of 2 requests in 239
  seconds gets 239 windows of one second on a ring of 125: a single request uses it up.
\<close>

theorem config_time_overlap:
  "case MakeFromConfig 0 ''r,2,239'' of
     Inr ([t], _) \<Rightarrow> map in_time_windows (limiters t) = [239] \<and> length (stats t) = 125 \<and>
       status_throttled (snd (OnRequest t ''getSlot''))
   | _ \<Rightarrow> False"
  by code_simp

lemma config_throttles_ok_witness:
  "\<exists>t logs. MakeFromConfig 7 ''r, 90,12;f,33,12'' = Inr ([t], logs) \<and> thr_ok t"
proof -
  let ?cfg = "''r, 90,12;f,33,12''"
  have ents: "those (map parse_entry (go_split (CHR '';'') ?cfg)) =
      Some [(L_REQUESTS, 90, 12), (L_REQUESTS_PER_FN, 33, 12)]" by code_simp
  have "case MakeFromConfig 7 ?cfg of Inr (ts, _) \<Rightarrow> length ts = 1 | _ \<Rightarrow> False" by code_simp
  then obtain ts logs where ts: "MakeFromConfig 7 ?cfg = Inr (ts, logs)" "length ts = 1"
    by (auto split: sum.splits)
  then obtain t where t: "MakeFromConfig 7 ?cfg = Inr ([t], logs)"
    by (auto simp: length_Suc_conv)
  from config_throttles_ok [OF t _ _ ents, of t] t show ?thesis by (auto simp: time_fits_def)
qed

end
