(* ===== verification/GoJson.thy ===== *)
theory GoJson
  imports GoStrings
begin

text \<open>
  The part of \<open>encoding/json\<close> the code uses: a decoder of JSON values in which numbers stay
  literals (\<open>UseNumber\<close>), the decoding of one string field of a struct, the key \<open>result\<close> of a
  decoded map, and the encoding of a string. Strings are bytes; a byte above 127 is copied as
  it is (the code's inputs are UTF-8). The decoder's nesting limit of 10000 is not modelled.
\<close>

datatype json =
    JNull
  | JBool bool
  | JNum string
  | JStr string
  | JArr "json list"
  | JObj "(string \<times> json) list"

definition is_space :: "char \<Rightarrow> bool" where
  "is_space c \<longleftrightarrow> c = CHR '' '' \<or> c = CHR 0x09 \<or> c = CHR 0x0A \<or> c = CHR 0x0D"

definition skip_ws :: "string \<Rightarrow> string" where
  "skip_ws s = dropWhile is_space s"

definition is_digit :: "char \<Rightarrow> bool" where
  "is_digit c \<longleftrightarrow> digit_val c \<noteq> None"

subsection \<open>Literals\<close>

definition hex_val :: "char \<Rightarrow> nat option" where
  "hex_val c =
     (let n = of_char c :: nat
      in if 48 \<le> n \<and> n \<le> 57 then Some (n - 48)
         else if 97 \<le> n \<and> n \<le> 102 then Some (n - 87)
         else if 65 \<le> n \<and> n \<le> 70 then Some (n - 55) else None)"

definition hex4 :: "string \<Rightarrow> nat option" where
  "hex4 s = (case map hex_val s of
       [Some a, Some b, Some c, Some d] \<Rightarrow> Some (((a * 16 + b) * 16 + c) * 16 + d)
     | _ \<Rightarrow> None)"

definition utf8 :: "nat \<Rightarrow> string" where
  "utf8 r =
     (if r < 128 then [char_of r]
      else if r < 2048 then [char_of (192 + r div 64), char_of (128 + r mod 64)]
      else if 55296 \<le> r \<and> r < 57344 then [CHR 0xEF, CHR 0xBF, CHR 0xBD]
      else if r < 65536 then
        [char_of (224 + r div 4096), char_of (128 + r div 64 mod 64), char_of (128 + r mod 64)]
      else [char_of (240 + r div 262144), char_of (128 + r div 4096 mod 64),
            char_of (128 + r div 64 mod 64), char_of (128 + r mod 64)])"

text \<open>The body of a string literal after the opening quote: decoded bytes and the rest.\<close>

definition simple_escape :: "char \<Rightarrow> char option" where
  "simple_escape c =
     (if c = CHR 0x22 then Some c else if c = CHR 0x5C then Some c else if c = CHR ''/'' then Some c
      else if c = CHR ''b'' then Some (CHR 0x08) else if c = CHR ''f'' then Some (CHR 0x0C)
      else if c = CHR ''n'' then Some (CHR 0x0A) else if c = CHR ''r'' then Some (CHR 0x0D)
      else if c = CHR ''t'' then Some (CHR 0x09) else None)"

definition surrogates :: "nat \<Rightarrow> nat \<Rightarrow> nat option" where
  "surrogates r r2 =
     (if 55296 \<le> r \<and> r < 56320 \<and> 56320 \<le> r2 \<and> r2 < 57344
      then Some (65536 + (r - 55296) * 1024 + (r2 - 56320)) else None)"

fun parse_string :: "nat \<Rightarrow> string \<Rightarrow> (string \<times> string) option" where
  "parse_string 0 s = None"
| "parse_string (Suc n) s =
     (case s of
        [] \<Rightarrow> None
      | c # cs \<Rightarrow>
          if c = CHR 0x22 then Some ([], cs)
          else if of_char c < (32::nat) then None
          else if c = CHR 0x5C then
            (case cs of
               [] \<Rightarrow> None
             | e # es \<Rightarrow>
                 if e = CHR ''u'' then
                   (case hex4 (take 4 es) of
                      None \<Rightarrow> None
                    | Some r \<Rightarrow>
                        (let es1 = drop 4 es;
                             pair = (if take 2 es1 = [CHR 0x5C, CHR ''u'']
                                     then case hex4 (take 4 (drop 2 es1)) of
                                            None \<Rightarrow> None | Some r2 \<Rightarrow> surrogates r r2
                                     else None)
                         in case pair of
                              Some p \<Rightarrow> map_option (\<lambda>(t, rest). (utf8 p @ t, rest))
                                          (parse_string n (drop 6 es1))
                            | None \<Rightarrow> map_option (\<lambda>(t, rest). (utf8 r @ t, rest))
                                          (parse_string n es1)))
                 else
                   (case simple_escape e of
                      None \<Rightarrow> None
                    | Some x \<Rightarrow> map_option (\<lambda>(t, rest). (x # t, rest)) (parse_string n es)))
          else map_option (\<lambda>(t, rest). (c # t, rest)) (parse_string n cs))"

text \<open>A number literal: the longest prefix of the JSON grammar, kept as text.\<close>

definition parse_number :: "string \<Rightarrow> (string \<times> string) option" where
  "parse_number s =
     (let (sign, s1) = (case s of c # cs \<Rightarrow> if c = CHR ''-'' then ([c], cs) else ([], s) | [] \<Rightarrow> ([], []));
          ip = (if take 1 s1 = ''0'' then ''0'' else takeWhile is_digit s1);
          s2 = drop (length ip) s1
      in if ip = [] then None
         else
           (let (fp, s3) = (case s2 of
                  c # cs \<Rightarrow> if c = CHR ''.'' then (let d = takeWhile is_digit cs in (c # d, drop (length d) cs))
                           else ([], s2)
                | [] \<Rightarrow> ([], []))
            in if length fp = 1 then None
               else
                 (case s3 of
                    [] \<Rightarrow> Some (sign @ ip @ fp, [])
                  | e # es \<Rightarrow>
                      if e = CHR ''e'' \<or> e = CHR ''E'' then
                        (let (sg, es1) = (case es of
                               c # cs \<Rightarrow> if c = CHR ''+'' \<or> c = CHR ''-'' then ([c], cs) else ([], es)
                             | [] \<Rightarrow> ([], []));
                             d = takeWhile is_digit es1
                         in if d = [] then None
                            else Some (sign @ ip @ fp @ [e] @ sg @ d, drop (length d) es1))
                      else Some (sign @ ip @ fp, s3))))"

subsection \<open>Values\<close>

text \<open>
  \<open>parse_value n\<close> reads one value; \<open>parse_items\<close> and \<open>parse_members\<close> read the inside of an array
  or object after its first bracket. The fuel counts calls; the length of the text bounds them.
\<close>

fun parse_value :: "nat \<Rightarrow> string \<Rightarrow> (json \<times> string) option"
and parse_items :: "nat \<Rightarrow> string \<Rightarrow> (json list \<times> string) option"
and parse_members :: "nat \<Rightarrow> string \<Rightarrow> ((string \<times> json) list \<times> string) option" where
  "parse_value 0 s = None"
| "parse_value (Suc n) s =
     (case skip_ws s of
        [] \<Rightarrow> None
      | c # cs \<Rightarrow>
          if c = CHR ''{'' then
            (case skip_ws cs of
               [] \<Rightarrow> None
             | d # ds \<Rightarrow> if d = CHR ''}'' then Some (JObj [], ds)
                        else map_option (\<lambda>(m, r). (JObj m, r)) (parse_members n cs))
          else if c = CHR ''['' then
            (case skip_ws cs of
               [] \<Rightarrow> None
             | d # ds \<Rightarrow> if d = CHR '']'' then Some (JArr [], ds)
                        else map_option (\<lambda>(m, r). (JArr m, r)) (parse_items n cs))
          else if c = CHR 0x22 then
            map_option (\<lambda>(t, r). (JStr t, r)) (parse_string (Suc (length cs)) cs)
          else if has_prefix (c # cs) ''null'' then Some (JNull, drop 3 cs)
          else if has_prefix (c # cs) ''true'' then Some (JBool True, drop 3 cs)
          else if has_prefix (c # cs) ''false'' then Some (JBool False, drop 4 cs)
          else map_option (\<lambda>(t, r). (JNum t, r)) (parse_number (c # cs)))"
| "parse_items 0 s = None"
| "parse_items (Suc n) s =
     (case parse_value n s of
        None \<Rightarrow> None
      | Some (v, r) \<Rightarrow>
          (case skip_ws r of
             [] \<Rightarrow> None
           | d # ds \<Rightarrow>
               if d = CHR '']'' then Some ([v], ds)
               else if d = CHR '','' then map_option (\<lambda>(vs, r'). (v # vs, r')) (parse_items n ds)
               else None))"
| "parse_members 0 s = None"
| "parse_members (Suc n) s =
     (case skip_ws s of
        [] \<Rightarrow> None
      | q # qs \<Rightarrow>
          if q \<noteq> CHR 0x22 then None
          else
            (case parse_string (Suc (length qs)) qs of
               None \<Rightarrow> None
             | Some (k, r) \<Rightarrow>
                 (case skip_ws r of
                    [] \<Rightarrow> None
                  | d # ds \<Rightarrow>
                      if d \<noteq> CHR '':'' then None
                      else
                        (case parse_value n ds of
                           None \<Rightarrow> None
                         | Some (v, r2) \<Rightarrow>
                             (case skip_ws r2 of
                                [] \<Rightarrow> None
                              | e # es \<Rightarrow>
                                  if e = CHR ''}'' then Some ([(k, v)], es)
                                  else if e = CHR '','' then
                                    map_option (\<lambda>(kvs, r'). ((k, v) # kvs, r')) (parse_members n es)
                                  else None)))))"

text \<open>\<open>Decoder.Decode\<close> reads the first value and ignores what follows it; \<open>Unmarshal\<close> needs the
  whole text to be one value.\<close>

definition decode_first :: "string \<Rightarrow> json option" where
  "decode_first s = map_option fst (parse_value (Suc (2 * length s)) s)"

definition json_unmarshal :: "string \<Rightarrow> json option" where
  "json_unmarshal s =
     (case parse_value (Suc (2 * length s)) s of
        None \<Rightarrow> None
      | Some (v, r) \<Rightarrow> if skip_ws r = [] then Some v else None)"

subsection \<open>What the code does with a decoded value\<close>

text \<open>\<open>r["result"]\<close> of a map filled by the decoder; a missing key and \<open>null\<close> both give \<open>nil\<close>.\<close>

definition decode_result :: "string \<Rightarrow> json option" where
  "decode_result s =
     (case decode_first s of
        Some (JObj kvs) \<Rightarrow>
          (case map_of (rev kvs) ''result'' of
             None \<Rightarrow> None | Some JNull \<Rightarrow> None | Some v \<Rightarrow> Some v)
      | _ \<Rightarrow> None)"

text \<open>Filling a string field of a struct: value and whether a type error was seen.\<close>

definition fill_string :: "string \<Rightarrow> (string \<times> json) list \<Rightarrow> string \<times> bool \<Rightarrow> string \<times> bool" where
  "fill_string name kvs st =
     fold (\<lambda>(k, v) (x, bad).
       if equal_fold k name then
         (case v of JStr t \<Rightarrow> (t, bad) | JNull \<Rightarrow> (x, bad) | _ \<Rightarrow> (x, True))
       else (x, bad)) kvs st"

text \<open>Encoding of a string (with the HTML-safe escapes of \<open>json.Marshal\<close>).\<close>

definition hex_digit :: "nat \<Rightarrow> char" where
  "hex_digit d = (if d < 10 then char_of (48 + d) else char_of (87 + d))"

definition json_escape_char :: "char \<Rightarrow> string" where
  "json_escape_char c =
     (let n = of_char c :: nat
      in if c = CHR 0x22 \<or> c = CHR 0x5C then [CHR 0x5C, c]
         else if c = CHR 0x0A then [CHR 0x5C, CHR ''n'']
         else if c = CHR 0x0D then [CHR 0x5C, CHR ''r'']
         else if c = CHR 0x09 then [CHR 0x5C, CHR ''t'']
         else if n < 32 \<or> c = CHR ''<'' \<or> c = CHR ''>'' \<or> c = CHR ''&'' then
           [CHR 0x5C, CHR ''u'', CHR ''0'', CHR ''0'', hex_digit (n div 16), hex_digit (n mod 16)]
         else [c])"

definition quote :: string where "quote = [CHR 0x22]"

definition json_string :: "string \<Rightarrow> string" where
  "json_string s = quote @ concat (map json_escape_char s) @ quote"

subsection \<open>An encoded string decodes to itself\<close>

lemma hex_digit_cases: "d < 16 \<Longrightarrow> d \<in> {0,1,2,3,4,5,6,7,8,9,10,11,12,13,14,15::nat}"
  by (simp, presburger)

lemma hex_val_digit: "d < 16 \<Longrightarrow> hex_val (hex_digit d) = Some d"
  by (drule hex_digit_cases) (auto simp: hex_val_def hex_digit_def Let_def)

lemma parse_string_escape:
  assumes "parse_string n r = Some (t, rest)"
  shows "parse_string (Suc n) (json_escape_char c @ r) = Some (c # t, rest)"
proof -
  let ?m = "of_char c :: nat"
  have c: "c = char_of ?m" by simp
  have small: "?m < 128 \<Longrightarrow> utf8 ?m = [c]" by (simp add: utf8_def)
  show ?thesis
  proof (cases "c = CHR 0x22 \<or> c = CHR 0x5C \<or> c = CHR 0x0A \<or> c = CHR 0x0D \<or> c = CHR 0x09")
    case True
    with assms show ?thesis by (auto simp: json_escape_char_def simple_escape_def)
  next
    case plain: False
    show ?thesis
    proof (cases "?m < 32 \<or> c = CHR ''<'' \<or> c = CHR ''>'' \<or> c = CHR ''&''")
      case True
      then have m: "?m < 128" by auto
      then have h: "hex4 [CHR ''0'', CHR ''0'', hex_digit (?m div 16), hex_digit (?m mod 16)] = Some ?m"
        by (simp add: hex4_def hex_val_digit) (simp add: hex_val_def)
      have none: "(case hex4 (take 4 (drop 2 r)) of None \<Rightarrow> None | Some r2 \<Rightarrow> surrogates ?m r2) = None"
        using m by (auto simp: surrogates_def split: option.split)
      have esc: "json_escape_char c = [CHR 0x5C, CHR ''u'', CHR ''0'', CHR ''0'',
          hex_digit (?m div 16), hex_digit (?m mod 16)]"
        using True plain by (simp add: json_escape_char_def Let_def)
      show ?thesis
        using assms unfolding esc by (simp add: h none small [OF m] Let_def)
    next
      case False
      with plain assms show ?thesis by (simp add: json_escape_char_def Let_def)
    qed
  qed
qed

lemma parse_string_mono:
  "parse_string n s = Some x \<Longrightarrow> n \<le> m \<Longrightarrow> parse_string m s = Some x"
proof (induction n arbitrary: m s x)
  case (Suc n)
  then obtain k where m: "m = Suc k" "n \<le> k" by (cases m) auto
  show ?case
    using Suc.prems(1) Suc.IH [OF _ m(2)] unfolding m
    by (auto simp: Let_def split: list.splits if_splits option.splits)
qed simp

lemma parse_string_escaped:
  "parse_string (Suc (length s)) (concat (map json_escape_char s) @ CHR 0x22 # rest) = Some (s, rest)"
proof (induction s)
  case (Cons c s)
  from parse_string_escape [OF Cons.IH, of c] show ?case by (simp del: parse_string.simps)
qed simp

lemma length_json_escape: "1 \<le> length (json_escape_char c)"
  by (simp add: json_escape_char_def Let_def)

lemma parse_json_string:
  "parse_value (Suc n) (json_string s @ rest) = Some (JStr s, rest)"
proof -
  let ?b = "concat (map json_escape_char s)"
  have "length s \<le> length ?b"
  proof (induction s)
    case (Cons a s)
    with length_json_escape [of a] show ?case by simp
  qed simp
  then have "parse_string (Suc (length (?b @ CHR 0x22 # rest))) (?b @ CHR 0x22 # rest) = Some (s, rest)"
    by (intro parse_string_mono [OF parse_string_escaped]) simp
  then show ?thesis
    by (simp add: json_string_def quote_def skip_ws_def is_space_def del: parse_string.simps)
qed

end
