(* ===== verification/Client.thy ===== *)
theory Client
  imports ThrottleConfig GoJson "HOL-Library.Word"
begin

text \<open>
  The Solana node client of \<open>gosol/solana_proxy/client\<close>: \<open>client.go\<close>, \<open>request_basic.go\<close>,
  \<open>stats.go\<close>, \<open>maintenance.go\<close> and \<open>last_error.go\<close>. The remote node and the clock are the
  parameter \<open>net\<close>: \<open>answer\<close> gives what \<open>http.Client.Do\<close> and reading the body return for a posted
  request, \<open>url_ok\<close> says whether \<open>http.NewRequest\<close> can parse an endpoint.
\<close>

subsection \<open>Data\<close>

record cstat =
  st_error_req :: int
  st_error_resp :: int
  st_error_resp_read :: int
  st_error_json_decode :: int
  st_error_json_marshal :: int
  st_done :: int
  st_ns_total :: "64 word"
  st_by_fn :: "(string, int) gomap"
  st_bytes_received :: int
  st_bytes_sent :: int

definition empty_cstat :: cstat where
  "empty_cstat = \<lparr>st_error_req = 0, st_error_resp = 0, st_error_resp_read = 0,
     st_error_json_decode = 0, st_error_json_marshal = 0, st_done = 0, st_ns_total = 0,
     st_by_fn = [], st_bytes_received = 0, st_bytes_sent = 0\<rparr>"

record last_error =
  le_str :: string
  le_details :: string
  le_call :: string
  le_call_ts :: int
  le_counter :: int

type_synonym http_header = "(string \<times> string list) list"

record solclient =
  cl_id :: int
  endpoint :: string
  header :: "http_header option"
  is_public_node :: bool
  available_block_first :: int
  available_block_first_ts :: int
  available_block_last :: int
  available_block_last_ts :: int
  is_disabled :: bool
  is_paused :: bool
  is_paused_comment :: string
  stat_running :: int
  stat_total :: cstat
  stat_last_60 :: "cstat list"
  stat_last_60_pos :: int
  version_major :: int
  version_minor :: int
  version :: string
  version_ts :: int
  serial_no :: "64 word"
  attr :: int
  throttle_grp :: group
  probe_time :: int
  probe_log :: string
  cl_last_error :: last_error

record solclientinfo =
  ID :: int
  Endpoint :: string
  Is_public_node :: bool
  Available_block_first :: int
  Available_block_first_ts :: int
  Available_block_last :: int
  Available_block_last_ts :: int
  Is_disabled :: bool
  Is_throttled :: bool
  Is_paused :: bool
  Attr :: int
  info_Score :: int

datatype response_type = R_OK | R_ERROR | R_THROTTLED

text \<open>What comes back over HTTP: a response or none, and an error or none. \<open>body_err\<close> is the
  error of reading the body.\<close>

record http_resp =
  status_code :: int
  status_line :: string
  resp_header :: http_header
  body_data :: string
  body_err :: "string option"

record http_result =
  hr_resp :: "http_resp option"
  hr_err :: "string option"

record net =
  start_ns :: int
  done_ns :: int
  now_ms :: int
  url_ok :: "string \<Rightarrow> bool"
  answer :: "string \<Rightarrow> http_result"

subsection \<open>Setters and the info snapshot\<close>

definition SetAttr :: "solclient \<Rightarrow> int \<Rightarrow> solclient" where
  "SetAttr this attrs = this\<lparr>attr := attrs\<rparr>"

definition SetPaused :: "solclient \<Rightarrow> bool \<Rightarrow> string \<Rightarrow> solclient" where
  "SetPaused this paused cmt =
     (let c = this\<lparr>is_paused := paused\<rparr>
      in if is_paused c then c\<lparr>is_paused_comment := cmt\<rparr> else c)"

definition GetEndpoint :: "solclient \<Rightarrow> string" where
  "GetEndpoint this = endpoint this"

definition GetInfo :: "solclient \<Rightarrow> solclientinfo" where
  "GetInfo this =
     (let tmp = group_GetThrottleScore (throttle_grp this)
      in \<lparr>ID = cl_id this, Endpoint = endpoint this, Is_public_node = is_public_node this,
          Available_block_first = available_block_first this,
          Available_block_first_ts = available_block_first_ts this,
          Available_block_last = available_block_last this,
          Available_block_last_ts = available_block_last_ts this,
          Is_disabled = is_disabled this, Is_throttled = Throttled tmp,
          Is_paused = is_paused this, Attr = attr this, info_Score = Score tmp\<rparr>)"

definition GetThrottleLimitsLeft :: "solclient \<Rightarrow> int \<times> int \<times> int \<times> int" where
  "GetThrottleLimitsLeft this = group_GetLimitsLeft (throttle_grp this)"

subsection \<open>Errors\<close>

definition isHTTPError :: "int \<Rightarrow> http_result \<Rightarrow> string \<Rightarrow> last_error option" where
  "isHTTPError now r post =
     (if (case hr_resp r of None \<Rightarrow> False | Some p \<Rightarrow> status_code p = 200) \<and> hr_err r = None then None
      else
        (let t1 = (case hr_resp r of None \<Rightarrow> [''No response from host''] | Some _ \<Rightarrow> []);
             t2 = (case hr_err r of None \<Rightarrow> t1 | Some e \<Rightarrow> t1 @ [''Error: '' @ e]);
             t3 = (case hr_resp r of None \<Rightarrow> t2
                   | Some p \<Rightarrow> if status_code p \<noteq> 200 then t2 @ [''HTTP: '' @ status_line p] else t2);
             d1 = (case hr_resp r of None \<Rightarrow> []
                   | Some p \<Rightarrow> if resp_header p = [] then []
                       else ''Response Headers:''
                         # map (\<lambda>(k, v). k @ '': '' @ go_join '', '' v) (resp_header p) @ ['''']);
             d2 = (case hr_resp r of None \<Rightarrow> d1 @ [''Body: -'']
                   | Some p \<Rightarrow> d1 @ [''Body:'' @ [CHR 0x0A] @ body_data p])
         in Some \<lparr>le_str = go_join [CHR 0x0A] t3, le_details = go_join [CHR 0x0A] d2,
                  le_call = post, le_call_ts = now sdiv 1000, le_counter = - 1\<rparr>))"

definition isGenericError :: "int \<Rightarrow> string option \<Rightarrow> string \<Rightarrow> last_error option" where
  "isGenericError now err post =
     (case err of None \<Rightarrow> None
      | Some e \<Rightarrow> Some \<lparr>le_str = e, le_details = ''-'', le_call = post,
                        le_call_ts = now sdiv 1000, le_counter = - 1\<rparr>)"

subsection \<open>One request\<close>

text \<open>The counters are kept twice: for all time and for the current second.\<close>

definition bump :: "(cstat \<Rightarrow> cstat) \<Rightarrow> solclient \<Rightarrow> solclient" where
  "bump f this =
     (let p = nat (stat_last_60_pos this)
      in this\<lparr>stat_total := f (stat_total this),
              stat_last_60 := (stat_last_60 this)[p := f (stat_last_60 this ! p)]\<rparr>)"

definition count_call :: "string \<Rightarrow> cstat \<Rightarrow> cstat" where
  "count_call method s = s\<lparr>st_done := st_done s + 1, st_by_fn := gm_add (st_by_fn s) method 1\<rparr>"

text \<open>The first critical section of \<open>RequestForward\<close> and \<open>RequestBasic\<close>.\<close>

definition begin_request :: "string \<Rightarrow> solclient \<Rightarrow> bool \<times> solclient" where
  "begin_request method this =
     (if Throttled (group_GetThrottleScore (throttle_grp this)) then (False, this)
      else
        (let c1 = this\<lparr>throttle_grp := snd (group_OnRequest (throttle_grp this) method)\<rparr>;
             c2 = bump (count_call method) c1
         in (True, c2\<lparr>serial_no := serial_no c2 + 1, stat_running := stat_running c2 + 1\<rparr>)))"

definition stop_running :: "solclient \<Rightarrow> solclient" where
  "stop_running this = this\<lparr>stat_running := stat_running this - 1\<rparr>"

definition set_last_error :: "last_error \<Rightarrow> solclient \<Rightarrow> solclient" where
  "set_last_error e this =
     this\<lparr>cl_last_error := e\<lparr>le_counter := le_counter (cl_last_error this) + 1\<rparr>\<rparr>"

definition add_traffic :: "int \<Rightarrow> int \<Rightarrow> int \<Rightarrow> cstat \<Rightarrow> cstat" where
  "add_traffic took received sent s =
     s\<lparr>st_ns_total := st_ns_total s + word_of_int took,
       st_bytes_received := st_bytes_received s + received,
       st_bytes_sent := st_bytes_sent s + sent\<rparr>"

text \<open>\<open>_docall\<close>: no body means an error that has been accounted for.\<close>

definition docall :: "net \<Rightarrow> string \<Rightarrow> solclient \<Rightarrow> (string option \<times> solclient) go" where
  "docall w post this =
     (if \<not> url_ok w (endpoint this) then
        (if header this \<noteq> None then Inl NilDereference
         else Inr (None, stop_running (bump (\<lambda>s. s\<lparr>st_error_req := st_error_req s + 1\<rparr>) this)))
      else
        (let r = answer w post
         in case isHTTPError (done_ns w) r post of
              Some e \<Rightarrow> Inr (None, stop_running
                (bump (\<lambda>s. s\<lparr>st_error_resp := st_error_resp s + 1\<rparr>) (set_last_error e this)))
            | None \<Rightarrow>
                (case hr_resp r of
                   None \<Rightarrow> Inl NilDereference
                 | Some resp \<Rightarrow>
                     (case isGenericError (done_ns w) (body_err resp) post of
                        Some e \<Rightarrow> Inr (None, stop_running
                          (bump (\<lambda>s. s\<lparr>st_error_resp_read := st_error_resp_read s + 1\<rparr>)
                            (set_last_error e this)))
                      | None \<Rightarrow>
                          (let t = (done_ns w - start_ns w) sdiv 1000;
                               took = (if t < 0 then 0 else t);
                               n = int (length (body_data resp));
                               c1 = stop_running (bump (add_traffic took n (int (length post))) this)
                           in Inr (Some (body_data resp),
                                   c1\<lparr>throttle_grp := group_OnReceive (throttle_grp c1) n\<rparr>))))))"

text \<open>The \<open>method\<close> field of a posted body: \<open>None\<close> when \<open>Unmarshal\<close> reports an error.\<close>

definition request_method :: "string \<Rightarrow> string option" where
  "request_method body =
     (case json_unmarshal body of
        None \<Rightarrow> None
      | Some JNull \<Rightarrow> Some []
      | Some (JObj kvs) \<Rightarrow>
          (let (m, bad) = fill_string ''method'' kvs ([], False) in if bad then None else Some m)
      | Some _ \<Rightarrow> None)"

definition err_body :: "string \<Rightarrow> string" where
  "err_body msg = ''{'' @ json_string ''error'' @ '':'' @ json_string msg @ ''}''"

definition RequestForward :: "net \<Rightarrow> string \<Rightarrow> solclient \<Rightarrow> (response_type \<times> string option \<times> solclient) go" where
  "RequestForward w body this =
     (case request_method body of
        None \<Rightarrow> Inr (R_ERROR, Some (err_body ''json unmarshall error''), this)
      | Some m \<Rightarrow>
          (let method = (if m = [] then ''?'' else m);
               (ok, c1) = begin_request method this
           in if \<not> ok then Inr (R_THROTTLED, None, c1)
              else go_bind (docall w body c1) (\<lambda>(resp, c2).
                case resp of
                  None \<Rightarrow> Inr (R_ERROR, Some (err_body ''nil response from docall''), c2)
                | Some b \<Rightarrow> Inr (R_OK, Some b, c2))))"

text \<open>The payload of \<open>RequestBasic\<close>: \<open>json.Marshal\<close> writes the keys of a map in order. It does
  not fail on strings, so the branch that counts a marshalling error is never taken.\<close>

definition request_serial :: "net \<Rightarrow> solclient \<Rightarrow> string" where
  "request_serial w c =
     (if is_public_node c then ''PUB'' else ''PRIV'') @ ''/'' @ itoa (uint (serial_no c)) @ ''/''
     @ itoa (start_ns w)"

definition request_payload :: "string \<Rightarrow> string \<Rightarrow> string \<Rightarrow> string" where
  "request_payload serial method params =
     (let post = ''{'' @ json_string ''id'' @ '':'' @ json_string serial @ '',''
            @ json_string ''jsonrpc'' @ '':'' @ json_string ''2.0'' @ '',''
            @ json_string ''method'' @ '':'' @ json_string method @ ''}''
      in if params \<noteq> [] then
           butlast post @ '','' @ json_string ''params'' @ '':'' @ params @ ''}''
         else post)"

definition RequestBasic :: "net \<Rightarrow> string list \<Rightarrow> solclient \<Rightarrow> (string option \<times> response_type \<times> solclient) go" where
  "RequestBasic w method_param this =
     (if method_param = [] then Inl IndexOutOfRange
      else if length method_param > 2 then Inl (ExplicitPanic ''Too many parameters!'')
      else
        (let method = method_param ! 0;
             params = (if length method_param = 2 then method_param ! 1 else []);
             (ok, c1) = begin_request method this
         in if \<not> ok then Inr (None, R_THROTTLED, c1)
            else
              (let serial = request_serial w c1
               in go_bind (docall w (request_payload serial method params) c1) (\<lambda>(resp, c2).
                    case resp of
                      None \<Rightarrow> Inr (None, R_ERROR, c2)
                    | Some b \<Rightarrow>
                        if \<not> go_contains b serial then
                          Inr (None, R_ERROR, bump (\<lambda>s. s\<lparr>st_error_resp := st_error_resp s + 1\<rparr>) c2)
                        else Inr (Some b, R_OK, c2)))))"

end
