(* ===== verification/ClientRequests.thy ===== *)
theory ClientRequests
  imports Client
begin

text \<open>
  The rest of the client: the typed calls of \<open>request.go\<close>, the statistics of \<open>stats.go\<close> and the
  periodic work of \<open>maintenance.go\<close>. The goroutines of \<open>_maintenance\<close> are given as the functions
  they run at each tick.
\<close>

subsection \<open>Typed calls\<close>

definition intcall :: "net \<Rightarrow> string \<Rightarrow> solclient \<Rightarrow> (int \<times> response_type \<times> solclient) go" where
  "intcall w method this =
     go_bind (RequestBasic w [method] this) (\<lambda>(ret, r_type, c).
       case ret of
         None \<Rightarrow> Inr (0, r_type, c)
       | Some b \<Rightarrow>
           (case decode_result b of
              Some (JNum s) \<Rightarrow>
                (let (v, ok) = atoi s in if ok then Inr (v, r_type, c) else Inr (0, R_ERROR, c))
            | _ \<Rightarrow> Inr (0, R_ERROR, c)))"

definition GetFirstAvailableBlock :: "net \<Rightarrow> solclient \<Rightarrow> (int \<times> response_type \<times> solclient) go" where
  "GetFirstAvailableBlock w this =
     go_bind (intcall w ''getFirstAvailableBlock'' this) (\<lambda>(ret, r_type, c).
       if r_type = R_OK then
         Inr (ret, r_type, c\<lparr>available_block_first := ret, available_block_first_ts := now_ms w\<rparr>)
       else Inr (ret, r_type, c))"

definition GetLastAvailableBlock :: "net \<Rightarrow> solclient \<Rightarrow> (int \<times> response_type \<times> solclient) go" where
  "GetLastAvailableBlock w this =
     go_bind (intcall w ''getBlockHeight'' this) (\<lambda>(ret, r_type, c).
       if r_type = R_OK then
         Inr (ret, r_type, c\<lparr>available_block_last := ret, available_block_last_ts := now_ms w\<rparr>)
       else Inr (ret, r_type, c))"

text \<open>\<open>Result.Solana_core\<close> after \<open>Unmarshal\<close>; type errors are ignored and leave the field as it was.\<close>

definition solana_core :: "string \<Rightarrow> string" where
  "solana_core body =
     (case json_unmarshal body of
        Some (JObj kvs) \<Rightarrow>
          fst (fold (\<lambda>(k, v) st.
            if equal_fold k ''result'' then
              (case v of JObj inner \<Rightarrow> fill_string ''solana-core'' inner st | _ \<Rightarrow> st)
            else st) kvs ([], False))
      | _ \<Rightarrow> [])"

definition GetVersion :: "net \<Rightarrow> solclient \<Rightarrow> ((int \<times> int \<times> string \<times> response_type) \<times> solclient) go" where
  "GetVersion w this =
     go_bind (RequestBasic w [''getVersion''] this) (\<lambda>(ret, r_type, c).
       case ret of
         None \<Rightarrow> Inr ((0, 0, [], r_type), c)
       | Some b \<Rightarrow>
           (let core = solana_core b
            in if core = [] then Inr ((0, 0, [], R_ERROR), c)
               else
                 (let tmp_chunks = go_split (CHR ''.'') core
                  in go_bind (go_index tmp_chunks 0) (\<lambda>c0. go_bind (go_index tmp_chunks 1) (\<lambda>c1.
                       Inr ((fst (atoi c0), fst (atoi c1), core, R_OK),
                            c\<lparr>version := core, version_ts := now_ms w\<rparr>))))))"

definition block_params :: "string \<Rightarrow> int \<Rightarrow> string" where
  "block_params x max_version =
     (if max_version < 0 then ''['' @ x @ '']''
      else ''['' @ x @ '',{'' @ json_string ''maxSupportedTransactionVersion'' @ '':''
           @ itoa max_version @ ''}]'')"

definition old_api :: "solclient \<Rightarrow> bool" where
  "old_api this \<longleftrightarrow> version_major this = 1 \<and> version_minor this \<le> 6"

definition result_or_error :: "string \<Rightarrow> response_type" where
  "result_or_error b = (case decode_result b of None \<Rightarrow> R_ERROR | Some _ \<Rightarrow> R_OK)"

definition GetBlock :: "net \<Rightarrow> int \<Rightarrow> int \<Rightarrow> solclient \<Rightarrow> (string option \<times> response_type \<times> solclient) go" where
  "GetBlock w block max_version this =
     go_bind (RequestBasic w
         [if old_api this then ''getConfirmedBlock'' else ''getBlock'',
          block_params (itoa block) max_version] this) (\<lambda>(ret, r_type, c).
       case ret of
         None \<Rightarrow> Inr (None, r_type, c)
       | Some b \<Rightarrow> Inr (Some b, result_or_error b, c))"

text \<open>The transaction is asked for again when a Genesys node answers a short null result.\<close>

definition retry_genesys :: "string \<Rightarrow> string \<Rightarrow> bool" where
  "retry_genesys b ep \<longleftrightarrow>
     length b < 200 \<and> go_contains b (json_string ''result'' @ '':null'') \<and> go_contains ep ''genesysgo''"

definition GetTransaction ::
  "net \<Rightarrow> string \<Rightarrow> int \<Rightarrow> solclient \<Rightarrow> (string option \<times> response_type \<times> solclient) go" where
  "GetTransaction w hash max_version this =
     (let params = block_params (quote @ hash @ quote) max_version
      in go_bind (RequestBasic w
           [if old_api this then ''getConfirmedTransaction'' else ''getTransaction'', params] this)
         (\<lambda>(ret, r_type, c).
           case ret of
             None \<Rightarrow> Inr (None, r_type, c)
           | Some b \<Rightarrow>
               if retry_genesys b (endpoint c) then
                 go_bind (RequestBasic w [''getTransaction'', params] c) (\<lambda>(ret2, r_type2, c2).
                   case ret2 of
                     None \<Rightarrow> Inr (None, r_type2, c2)
                   | Some b2 \<Rightarrow> Inr (Some b2, result_or_error b2, c2))
               else Inr (Some b, result_or_error b, c)))"

definition SimpleCall ::
  "net \<Rightarrow> string \<Rightarrow> string \<Rightarrow> string \<Rightarrow> solclient \<Rightarrow> (string option \<times> response_type \<times> solclient) go" where
  "SimpleCall w method pubkey commitment this =
     RequestBasic w [method,
       if commitment \<noteq> [] then
         ''['' @ quote @ pubkey @ quote @ '','' @ quote @ commitment @ quote @ '']''
       else ''['' @ quote @ pubkey @ quote @ '']''] this"

definition GetBalance :: "net \<Rightarrow> string \<Rightarrow> string \<Rightarrow> solclient \<Rightarrow> (string option \<times> response_type \<times> solclient) go" where
  "GetBalance w pubkey commitment this = SimpleCall w ''getBalance'' pubkey commitment this"

definition GetTokenSupply :: "net \<Rightarrow> string \<Rightarrow> string \<Rightarrow> solclient \<Rightarrow> (string option \<times> response_type \<times> solclient) go" where
  "GetTokenSupply w pubkey commitment this = SimpleCall w ''getTokenSupply'' pubkey commitment this"

subsection \<open>Statistics\<close>

definition pos_back :: "int \<Rightarrow> int" where
  "pos_back p = (if p - 1 < 0 then 59 else p - 1)"

definition add_stat :: "cstat \<Rightarrow> cstat \<Rightarrow> cstat" where
  "add_stat t s =
     s\<lparr>st_done := st_done s + st_done t,
       st_error_json_decode := st_error_json_decode s + st_error_json_decode t,
       st_error_json_marshal := st_error_json_marshal s + st_error_json_marshal t,
       st_error_req := st_error_req s + st_error_req t,
       st_error_resp := st_error_resp s + st_error_resp t,
       st_error_resp_read := st_error_resp_read s + st_error_resp_read t,
       st_ns_total := st_ns_total s + st_ns_total t,
       st_by_fn := merge_counts (st_by_fn t) [],
       st_bytes_received := st_bytes_received s + st_bytes_received t,
       st_bytes_sent := st_bytes_sent s + st_bytes_sent t\<rparr>"

text \<open>Seconds are counted from the one before the current one. The per-function map is made anew
  in every round, as the code does.\<close>

fun aggr_loop :: "cstat list \<Rightarrow> nat \<Rightarrow> int \<Rightarrow> cstat \<Rightarrow> cstat" where
  "aggr_loop sts 0 pos s = s"
| "aggr_loop sts (Suc i) pos s =
     (let p = pos_back pos in aggr_loop sts i p (add_stat (sts ! nat (p mod 60)) s))"

definition statsGetAggr :: "solclient \<Rightarrow> int \<Rightarrow> cstat" where
  "statsGetAggr this seconds =
     aggr_loop (stat_last_60 this) (nat seconds) (stat_last_60_pos this) empty_cstat"

fun dead_loop :: "cstat list \<Rightarrow> nat \<Rightarrow> int \<Rightarrow> int \<times> int \<Rightarrow> int \<times> int" where
  "dead_loop sts 0 pos acc = acc"
| "dead_loop sts (Suc i) pos (reqs, errs) =
     (let s = sts ! nat pos
      in dead_loop sts i (pos_back pos)
           (reqs + st_done s,
            errs + st_error_resp s + st_error_resp_read s + st_error_json_decode s))"

definition isalive_seconds :: "int \<Rightarrow> int" where
  "isalive_seconds pt =
     (let a = pt * 2; b = (if a < 30 then 30 else a) in if b > 60 then 60 else b)"

definition statsIsDead :: "solclient \<Rightarrow> bool \<times> int \<times> int \<times> string" where
  "statsIsDead this =
     (let secs = isalive_seconds (probe_time this);
          (reqs, errs) = dead_loop (stat_last_60 this) (nat secs) (stat_last_60_pos this) (0, 0);
          dead = (probe_time this = 0 \<and> errs * 5 > reqs) \<or> (probe_time this > 0 \<and> errs * 5 \<ge> reqs)
      in (dead, reqs, errs,
          ''Health probing time '' @ itoa secs @ ''s every '' @ itoa (probe_time this)
          @ ''s, Requests: '' @ itoa reqs @ '', Errors: '' @ itoa errs))"

subsection \<open>Maintenance\<close>

text \<open>\<open>_maint_stat\<close>: the new state and whether a probing \<open>GetVersion\<close> is started.\<close>

definition maint_stat :: "int \<Rightarrow> solclient \<Rightarrow> bool \<times> solclient" where
  "maint_stat now this =
     (let c1 = this\<lparr>throttle_grp := group_OnMaintenance (throttle_grp this) now\<rparr>;
          p = now smod 60;
          c2 = c1\<lparr>stat_last_60_pos := p, stat_last_60 := (stat_last_60 c1)[nat p := empty_cstat]\<rparr>;
          (d, req_ok, req_err, lg) = statsIsDead c2
      in (req_ok + req_err < 1 \<and> probe_time c2 > 0, c2\<lparr>is_disabled := d, probe_log := lg\<rparr>))"

definition update_version :: "net \<Rightarrow> solclient \<Rightarrow> solclient go" where
  "update_version w this =
     go_bind (GetVersion w this) (\<lambda>((a, b, v, ok), c).
       if ok \<noteq> R_OK then Inr c
       else Inr (c\<lparr>version_major := a, version_minor := b, version := v\<rparr>))"

definition update_first_block :: "net \<Rightarrow> solclient \<Rightarrow> solclient go" where
  "update_first_block w this = go_bind (GetFirstAvailableBlock w this) (\<lambda>(_, _, c). Inr c)"

definition update_last_block :: "net \<Rightarrow> solclient \<Rightarrow> solclient go" where
  "update_last_block w this = go_bind (GetLastAvailableBlock w this) (\<lambda>(_, _, c). Inr c)"

text \<open>The probing goroutine's work in second \<open>now\<close>.\<close>

definition probe_tick :: "net \<Rightarrow> int \<Rightarrow> solclient \<Rightarrow> solclient go" where
  "probe_tick w now this =
     (let pt = probe_time this
      in if pt > 0 then
           go_bind (if now smod (pt * 3) = 0 then update_version w this else Inr this) (\<lambda>c1.
             go_bind (if now smod (pt * 3) = pt then update_first_block w c1 else Inr c1) (\<lambda>c2.
               if now smod (pt * 3) = pt * 2 then update_last_block w c2 else Inr c2))
         else Inr this)"

text \<open>\<open>MakeClient\<close> with the synchronous part of \<open>_maintenance\<close>; \<open>new_id\<close> is the next client number.\<close>

definition fresh_client :: "string \<Rightarrow> http_header option \<Rightarrow> bool \<Rightarrow> int \<Rightarrow> group \<Rightarrow> solclient" where
  "fresh_client ep hdr is_public pt thr =
     \<lparr>cl_id = 0, endpoint = ep, header = hdr, is_public_node = is_public,
      available_block_first = 0, available_block_first_ts = 0,
      available_block_last = 0, available_block_last_ts = 0,
      is_disabled = False, is_paused = False, is_paused_comment = [],
      stat_running = 0, stat_total = empty_cstat, stat_last_60 = replicate 60 empty_cstat,
      stat_last_60_pos = 0, version_major = 0, version_minor = 0, version = [], version_ts = 0,
      serial_no = 0, attr = 0, throttle_grp = thr, probe_time = pt, probe_log = [],
      cl_last_error = \<lparr>le_str = [], le_details = [], le_call = [], le_call_ts = 0, le_counter = 0\<rparr>\<rparr>"

definition MakeClient ::
  "net \<Rightarrow> int \<Rightarrow> int \<Rightarrow> string \<Rightarrow> http_header option \<Rightarrow> bool \<Rightarrow> int \<Rightarrow> group \<Rightarrow> (bool \<times> solclient) go" where
  "MakeClient w now new_id ep hdr is_public pt thr =
     go_bind (update_version w (fresh_client ep hdr is_public pt thr)) (\<lambda>c1.
       go_bind (update_first_block w c1) (\<lambda>c2.
         go_bind (update_last_block w c2) (\<lambda>c3.
           (let (probe, c4) = maint_stat now c3 in Inr (probe, c4\<lparr>cl_id := new_id\<rparr>)))))"

end
