(* ===== verification/ClientCorrect.thy ===== *)
theory ClientCorrect
  imports ClientRequests
begin

text \<open>
  Correctness of the client: a refused request touches nothing, a request that returns leaves
  the running counter balanced, interleaved requests are all accounted for, and the health
  verdict is a sum over the last seconds. The client is a \<open>request_gate\<close>.
\<close>

subsection \<open>Effects of the steps\<close>

definition cl_ok :: "solclient \<Rightarrow> bool" where
  "cl_ok c \<longleftrightarrow> length (stat_last_60 c) = 60 \<and> 0 \<le> stat_last_60_pos c \<and> stat_last_60_pos c < 60"

text \<open>Errors charged to a request that got no answer.\<close>

definition call_errors :: "cstat \<Rightarrow> int" where
  "call_errors s = st_error_req s + st_error_resp s + st_error_resp_read s"

definition cl_exhausted :: "solclient \<Rightarrow> bool" where
  "cl_exhausted c = Throttled (group_GetThrottleScore (throttle_grp c))"

declare begin_request_def [cl_simps] cl_exhausted_def [cl_simps]

lemma bump_simps [simp]:
  "stat_total (bump f c) = f (stat_total c)"
  "stat_running (bump f c) = stat_running c"
  "stat_last_60_pos (bump f c) = stat_last_60_pos c"
  "length (stat_last_60 (bump f c)) = length (stat_last_60 c)"
  "throttle_grp (bump f c) = throttle_grp c"
  "endpoint (bump f c) = endpoint c" "header (bump f c) = header c"
  "serial_no (bump f c) = serial_no c" "is_public_node (bump f c) = is_public_node c"
  "is_paused (bump f c) = is_paused c" "is_disabled (bump f c) = is_disabled c"
  "cl_id (bump f c) = cl_id c" "probe_time (bump f c) = probe_time c"
  by (simp_all add: bump_def Let_def)

lemma stop_running_simps [simp]:
  "stat_total (stop_running c) = stat_total c"
  "stat_running (stop_running c) = stat_running c - 1"
  "stat_last_60_pos (stop_running c) = stat_last_60_pos c"
  "stat_last_60 (stop_running c) = stat_last_60 c"
  "throttle_grp (stop_running c) = throttle_grp c"
  "endpoint (stop_running c) = endpoint c" "header (stop_running c) = header c"
  by (simp_all add: stop_running_def)

lemma set_last_error_simps [simp]:
  "stat_total (set_last_error e c) = stat_total c"
  "stat_running (set_last_error e c) = stat_running c"
  "stat_last_60_pos (set_last_error e c) = stat_last_60_pos c"
  "stat_last_60 (set_last_error e c) = stat_last_60 c"
  "throttle_grp (set_last_error e c) = throttle_grp c"
  by (simp_all add: set_last_error_def)

lemma cstat_steps [simp]:
  "st_done (count_call m s) = st_done s + 1" "call_errors (count_call m s) = call_errors s"
  "st_done (add_traffic a b d s) = st_done s" "call_errors (add_traffic a b d s) = call_errors s"
  "call_errors (s\<lparr>st_error_req := st_error_req s + 1\<rparr>) = call_errors s + 1"
  "call_errors (s\<lparr>st_error_resp := st_error_resp s + 1\<rparr>) = call_errors s + 1"
  "call_errors (s\<lparr>st_error_resp_read := st_error_resp_read s + 1\<rparr>) = call_errors s + 1"
  by (simp_all add: count_call_def add_traffic_def call_errors_def)

lemma begin_refused: "cl_exhausted c \<Longrightarrow> begin_request m c = (False, c)"
  by (simp add: cl_simps)

lemma begin_accepted:
  assumes "begin_request m c = (True, c')"
  shows "\<not> cl_exhausted c" "stat_running c' = stat_running c + 1"
    "stat_total c' = count_call m (stat_total c)"
    "endpoint c' = endpoint c" "header c' = header c"
    "throttle_grp c' = map (\<lambda>t. snd (OnRequest t m)) (throttle_grp c)"
    "cl_ok c \<Longrightarrow> cl_ok c'"
  using assms
  by (auto simp: cl_simps cl_ok_def Let_def group_request_atomic_core
      split: if_splits)

lemma begin_refused_iff: "begin_request m c = (False, c') \<longleftrightarrow> cl_exhausted c \<and> c' = c"
  by (auto simp: cl_simps Let_def)

interpretation cl_gate: request_gate cl_exhausted "\<lambda>c m. begin_request m c"
  by unfold_locales (auto simp: cl_simps Let_def)

text \<open>What \<open>docall\<close> does to the counters, on every way it returns.\<close>

lemma docall_effect:
  assumes "docall w post c = Inr (r, c')"
  shows "stat_running c' = stat_running c - 1"
    "st_done (stat_total c') = st_done (stat_total c)"
    "call_errors (stat_total c') = call_errors (stat_total c) + (if r = None then 1 else 0)"
    "cl_ok c \<Longrightarrow> cl_ok c'"
  using assms
  by (auto simp: docall_def cl_ok_def Let_def split: if_splits option.splits)

lemma docall_returns: "url_ok w (endpoint c) \<or> header c = None \<Longrightarrow> \<exists>r c'. docall w post c = Inr (r, c')"
  by (auto simp: docall_def isHTTPError_def Let_def split: option.splits)

lemma docall_panics:
  "\<not> url_ok w (endpoint c) \<Longrightarrow> header c \<noteq> None \<Longrightarrow> docall w post c = Inl NilDereference"
  by (simp add: docall_def)

lemma docall_body:
  assumes "docall w post c = Inr (Some b, c')"
  shows "\<exists>p. hr_resp (answer w post) = Some p \<and> status_code p = 200 \<and> body_data p = b \<and>
    body_err p = None \<and> hr_err (answer w post) = None"
  using assms
  by (auto simp: docall_def isHTTPError_def isGenericError_def Let_def
      split: if_splits option.splits)

subsection \<open>One request\<close>

text \<open>
  C6. \<open>RequestForward\<close>, every way it returns. A malformed body or an exhausted throttle leaves the
  client as it is; an accepted request is counted once, is charged an error exactly when it
  gives no answer, and is not left running; a body handed back as \<open>R_OK\<close> is what the node sent
  with status 200.
\<close>

theorem request_forward_accounted:
  assumes "RequestForward w body c = Inr (ty, r, c')"
  shows "(ty = R_THROTTLED \<longleftrightarrow> request_method body \<noteq> None \<and> cl_exhausted c) \<and>
    stat_running c' = stat_running c \<and>
    (if request_method body = None \<or> cl_exhausted c then c' = c
     else st_done (stat_total c') = st_done (stat_total c) + 1 \<and>
       call_errors (stat_total c') = call_errors (stat_total c) + (if ty = R_OK then 0 else 1)) \<and>
    (ty = R_OK \<longrightarrow> (\<exists>p. hr_resp (answer w body) = Some p \<and> status_code p = 200 \<and> r = Some (body_data p)))"
proof (cases "request_method body")
  case None
  with assms show ?thesis by (auto simp: RequestForward_def)
next
  case (Some m)
  let ?m = "if m = [] then ''?'' else m"
  show ?thesis
  proof (cases "cl_exhausted c")
    case True
    with Some assms show ?thesis by (auto simp: RequestForward_def begin_refused)
  next
    case False
    with begin_refused_iff obtain c1 where c1: "begin_request ?m c = (True, c1)"
      by (metis (full_types) surj_pair)
    with Some assms obtain resp where d: "docall w body c1 = Inr (resp, c')"
      and ty: "ty = (if resp = None then R_ERROR else R_OK)" and r: "resp \<noteq> None \<Longrightarrow> r = resp"
      by (cases "docall w body c1") (auto simp: RequestForward_def split: option.splits)
    note docall_effect [OF d] begin_accepted [OF c1]
    moreover have "resp = Some b \<Longrightarrow> \<exists>p. hr_resp (answer w body) = Some p \<and> status_code p = 200 \<and>
        b = body_data p" for b
      using docall_body [of w body c1 b c'] d by auto
    ultimately show ?thesis using Some False ty r by (cases resp) auto
  qed
qed

text \<open>
  \<open>RequestBasic\<close> returns for every endpoint that parses, and the same accounting holds. An
  answer it returns contains the serial number the request was sent with.
\<close>

theorem request_basic_accounted:
  assumes "url_ok w (endpoint c) \<or> header c = None" "ps = [m] \<or> ps = [m, params]"
  shows "\<exists>r ty c'. RequestBasic w ps c = Inr (r, ty, c') \<and>
    (ty = R_THROTTLED \<longleftrightarrow> cl_exhausted c) \<and> (ty = R_OK \<longleftrightarrow> r \<noteq> None) \<and>
    stat_running c' = stat_running c \<and>
    (if cl_exhausted c then c' = c
     else st_done (stat_total c') = st_done (stat_total c) + 1 \<and>
       call_errors (stat_total c') = call_errors (stat_total c) + (if ty = R_OK then 0 else 1) \<and>
       (\<forall>b. r = Some b \<longrightarrow> go_contains b (request_serial w (snd (begin_request m c)))))"
proof (cases "cl_exhausted c")
  case True
  with assms(2) show ?thesis by (auto simp: RequestBasic_def begin_refused)
next
  case False
  with begin_refused_iff obtain c1 where c1: "begin_request m c = (True, c1)"
    by (metis (full_types) surj_pair)
  let ?post = "request_payload (request_serial w c1) m (if length ps = 2 then ps ! 1 else [])"
  note b = begin_accepted [OF c1]
  from docall_returns [of w c1 ?post] assms(1) b obtain resp c2 where
    d: "docall w ?post c1 = Inr (resp, c2)" by auto
  have call: "RequestBasic w ps c = (case resp of None \<Rightarrow> Inr (None, R_ERROR, c2)
      | Some x \<Rightarrow> if \<not> go_contains x (request_serial w c1)
          then Inr (None, R_ERROR, bump (\<lambda>s. s\<lparr>st_error_resp := st_error_resp s + 1\<rparr>) c2)
          else Inr (Some x, R_OK, c2))"
    using assms(2) c1 d by (auto simp: RequestBasic_def Let_def)
  note e = docall_effect [OF d]
  show ?thesis
  proof (cases resp)
    case None
    with call e b c1 False show ?thesis by simp
  next
    case (Some x)
    with call e b c1 False show ?thesis by (cases "go_contains x (request_serial w c1)") simp_all
  qed
qed

subsection \<open>Interleaved requests\<close>

text \<open>
  \<open>cl_run c n a e m\<close>: the client reached \<open>c\<close> with \<open>n\<close> requests in flight, \<open>a\<close> answered, \<open>e\<close> failed and
  \<open>m\<close> answers that did not match their serial number. Each rule is one critical section; the
  sections of different requests interleave freely with each other and with maintenance.
\<close>

inductive cl_run :: "solclient \<Rightarrow> nat \<Rightarrow> nat \<Rightarrow> nat \<Rightarrow> nat \<Rightarrow> bool" where
  fresh: "cl_run (fresh_client ep hdr pub pt thr) 0 0 0 0"
| sent: "cl_run c n a e m \<Longrightarrow> begin_request meth c = (True, c') \<Longrightarrow> cl_run c' (Suc n) a e m"
| not_sent: "cl_run c n a e m \<Longrightarrow> begin_request meth c = (False, c') \<Longrightarrow> cl_run c' n a e m"
| answered: "cl_run c (Suc n) a e m \<Longrightarrow> docall w post c = Inr (Some b, c') \<Longrightarrow>
    cl_run c' n (Suc a) e m"
| failed: "cl_run c (Suc n) a e m \<Longrightarrow> docall w post c = Inr (None, c') \<Longrightarrow> cl_run c' n a (Suc e) m"
| mismatch: "cl_run c n a e m \<Longrightarrow>
    cl_run (bump (\<lambda>s. s\<lparr>st_error_resp := st_error_resp s + 1\<rparr>) c) n a e (Suc m)"
| tick: "cl_run c n a e m \<Longrightarrow> 0 \<le> now \<Longrightarrow> cl_run (snd (maint_stat now c)) n a e m"
| pause: "cl_run c n a e m \<Longrightarrow> cl_run (SetPaused c b cmt) n a e m"

lemma maint_stat_simps [simp]:
  "stat_running (snd (maint_stat now c)) = stat_running c"
  "stat_total (snd (maint_stat now c)) = stat_total c"
  by (simp_all add: maint_stat_def Let_def split: prod.split)

lemma cl_ok_maint: "cl_ok c \<Longrightarrow> 0 \<le> now \<Longrightarrow> cl_ok (snd (maint_stat now c))"
  by (simp add: maint_stat_def cl_ok_def Let_def split: prod.split)

lemma SetPaused_simps [simp]:
  "stat_running (SetPaused c b cmt) = stat_running c"
  "stat_total (SetPaused c b cmt) = stat_total c"
  "cl_ok (SetPaused c b cmt) = cl_ok c"
  by (simp_all add: SetPaused_def cl_ok_def Let_def)

text \<open>
  C7. No request is lost or counted twice, whatever the interleaving: the running counter is the
  number of requests in flight; the requests counted are those in flight plus those answered
  plus those failed; the errors are the failed ones plus the mismatched answers.
\<close>

theorem requests_conserved:
  assumes "cl_run c n a e m"
  shows "stat_running c = int n \<and> st_done (stat_total c) = int (n + a + e) \<and>
    call_errors (stat_total c) = int (e + m) \<and> cl_ok c"
  using assms
proof induction
  case (fresh ep hdr pub pt thr)
  then show ?case by (simp add: fresh_client_def empty_cstat_def call_errors_def cl_ok_def)
next
  case (sent c n a e m meth c')
  with begin_accepted [OF sent(2)] show ?case by simp
next
  case (not_sent c n a e m meth c')
  then show ?case by (simp add: begin_refused_iff)
next
  case (answered c n a e m w post b c')
  with docall_effect [OF answered(2)] show ?case by simp
next
  case (failed c n a e m w post c')
  with docall_effect [OF failed(2)] show ?case by simp
next
  case (tick c n a e m now)
  then show ?case by (simp add: cl_ok_maint)
next
  case (mismatch c n a e m)
  then show ?case by (simp add: cl_ok_def)
qed simp_all

subsection \<open>Health\<close>

definition window_sum :: "(cstat \<Rightarrow> int) \<Rightarrow> solclient \<Rightarrow> nat \<Rightarrow> int" where
  "window_sum f c n = (\<Sum>i < n. f (stat_last_60 c ! nat ((stat_last_60_pos c - int i) mod 60)))"

definition error_of :: "cstat \<Rightarrow> int" where
  "error_of s = st_error_resp s + st_error_resp_read s + st_error_json_decode s"

lemma pos_back_mod: "0 \<le> p \<Longrightarrow> p < 60 \<Longrightarrow> pos_back p = (p - 1) mod 60"
  by (cases "p = 0") (simp_all add: pos_back_def zmod_minus1)

lemma dead_loop_sum:
  assumes "0 \<le> p" "p < 60"
  shows "dead_loop sts n p (a, b) =
    (a + (\<Sum>i < n. st_done (sts ! nat ((p - int i) mod 60))),
     b + (\<Sum>i < n. error_of (sts ! nat ((p - int i) mod 60))))"
  using assms
proof (induction n arbitrary: p a b)
  case (Suc n)
  have shift: "(pos_back p - int i) mod 60 = (p - int (Suc i)) mod 60" for i
    using Suc.prems by (simp add: pos_back_mod mod_diff_left_eq algebra_simps)
  have "0 \<le> pos_back p" "pos_back p < 60" using Suc.prems by (auto simp: pos_back_def)
  from Suc.IH [OF this] show ?case
    using Suc.prems by (simp add: Let_def shift error_of_def sum.lessThan_Suc_shift
        del: sum.lessThan_Suc of_nat_Suc)
qed simp

lemma isalive_range: "30 \<le> isalive_seconds pt" "isalive_seconds pt \<le> 60"
  by (auto simp: isalive_seconds_def Let_def)

text \<open>The verdict of \<open>_statsIsDead\<close> over the slots of the ring, the current one included.\<close>

lemma health_verdict:
  assumes "cl_ok c"
  shows "statsIsDead c = (dead, reqs, errs, lg) \<Longrightarrow>
    reqs = window_sum st_done c (nat (isalive_seconds (probe_time c))) \<and>
    errs = window_sum error_of c (nat (isalive_seconds (probe_time c))) \<and>
    (probe_time c > 0 \<longrightarrow> (dead \<longleftrightarrow> reqs \<le> 5 * errs)) \<and>
    (probe_time c = 0 \<longrightarrow> (dead \<longleftrightarrow> reqs < 5 * errs)) \<and>
    (probe_time c < 0 \<longrightarrow> \<not> dead)"
  using assms by (auto simp: statsIsDead_def cl_ok_def Let_def dead_loop_sum window_sum_def)

lemma maint_stat_verdict:
  "is_disabled (snd (maint_stat now c)) = fst (statsIsDead (snd (maint_stat now c)))"
  by (simp add: maint_stat_def statsIsDead_def Let_def split: prod.split)

text \<open>
  A probed node that nobody used is taken out of service and asked again: when no request
  and no error is on record for the health window, maintenance disables the client and starts
  a probe.
\<close>

theorem silent_node_is_probed:
  assumes "probe_time c > 0" "0 \<le> now" "cl_ok c"
    "\<forall>i < 60. i \<noteq> nat (now mod 60) \<longrightarrow>
       st_done (stat_last_60 c ! i) = 0 \<and> error_of (stat_last_60 c ! i) = 0"
  shows "fst (maint_stat now c) \<and> is_disabled (snd (maint_stat now c))"
proof -
  let ?c = "c\<lparr>throttle_grp := group_OnMaintenance (throttle_grp c) now,
    stat_last_60_pos := now mod 60, stat_last_60 := (stat_last_60 c)[nat (now mod 60) := empty_cstat]\<rparr>"
  have ok: "cl_ok ?c" using assms(3) by (simp add: cl_ok_def)
  have zero: "st_done (stat_last_60 ?c ! nat (q mod 60)) = 0 \<and>
      error_of (stat_last_60 ?c ! nat (q mod 60)) = 0" for q
  proof -
    have "nat (q mod 60) < 60" by (simp add: nat_less_iff)
    then show ?thesis
      using assms(3,4) by (auto simp: nth_list_update cl_ok_def empty_cstat_def error_of_def)
  qed
  then have "window_sum st_done ?c n = 0" "window_sum error_of ?c n = 0" for n
    by (simp_all add: window_sum_def)
  moreover obtain d r e lg where v: "statsIsDead ?c = (d, r, e, lg)" by (metis prod_cases4)
  ultimately have "d \<and> r = 0 \<and> e = 0"
    using health_verdict [OF ok v] assms(1) by simp
  with v assms(1,2) show ?thesis by (simp add: maint_stat_def Let_def)
qed

subsection \<open>Panics\<close>

text \<open>
  A client with headers whose endpoint does not parse crashes the process: \<open>_docall\<close> uses the
  request before it looks at the error of \<open>http.NewRequest\<close>. So does every accepted request.
\<close>

theorem bad_endpoint_panics:
  assumes "\<not> url_ok w (endpoint c)" "header c \<noteq> None" "\<not> cl_exhausted c"
  shows "RequestBasic w [m] c = Inl NilDereference"
proof -
  from begin_refused_iff assms(3) obtain c1 where c1: "begin_request m c = (True, c1)"
    by (metis (full_types) surj_pair)
  with begin_accepted [OF c1] assms(1,2) show ?thesis
    by (simp add: RequestBasic_def Let_def docall_panics)
qed

text \<open>
  \<open>GetVersion\<close> trusts the node's version: once the node has answered, it panics exactly when
  the version it reports is not empty and has no dot, and otherwise it returns.
\<close>

theorem version_panic_iff:
  assumes "RequestBasic w [''getVersion''] c = Inr (r, ty, c')"
  shows "(GetVersion w c = Inl IndexOutOfRange \<longleftrightarrow>
        (\<exists>b. r = Some b \<and> solana_core b \<noteq> [] \<and> CHR ''.'' \<notin> set (solana_core b))) \<and>
    (GetVersion w c = Inl IndexOutOfRange \<or> (\<exists>v. GetVersion w c = Inr v))"
proof -
  have "\<not> 1 < length (go_split (CHR ''.'') s) \<longleftrightarrow> CHR ''.'' \<notin> set s" for s
    by (auto simp: length_go_split filter_empty_conv)
  then show ?thesis
    using assms by (auto simp: GetVersion_def go_index_def Let_def split: option.splits)
qed

subsection \<open>Witnesses\<close>

definition sample_net :: "bool \<Rightarrow> string \<Rightarrow> net" where
  "sample_net ok b = \<lparr>start_ns = 0, done_ns = 0, now_ms = 0, url_ok = \<lambda>_. ok,
     answer = \<lambda>_. \<lparr>hr_resp = Some \<lparr>status_code = 200, status_line = ''200 OK'', resp_header = [],
                                    body_data = b, body_err = None\<rparr>, hr_err = None\<rparr>\<rparr>"

definition sample_client :: solclient where
  "sample_client = fresh_client ''http://node'' (Some []) False 5 []"

lemma sample_not_exhausted: "\<not> cl_exhausted sample_client"
  by (simp add: cl_exhausted_def sample_client_def fresh_client_def group_GetThrottleScore_def)

lemma sample_cl_ok: "cl_ok sample_client"
  by (simp add: cl_ok_def sample_client_def fresh_client_def)

lemma request_forward_accounted_witness:
  "\<exists>c'. RequestForward (sample_net True ''ok'') ''{\"method\":\"getSlot\"}'' sample_client =
      Inr (R_OK, Some ''ok'', c') \<and> st_done (stat_total c') = 1 \<and> stat_running c' = 0"
proof -
  let ?b = "''{\"method\":\"getSlot\"}''"
  have m: "request_method ?b = Some ''getSlot''" by code_simp
  have "\<exists>c'. RequestForward (sample_net True ''ok'') ?b sample_client = Inr (R_OK, Some ''ok'', c')"
    using sample_not_exhausted
    by (simp add: RequestForward_def m cl_simps docall_def isHTTPError_def
        isGenericError_def sample_net_def Let_def)
  then obtain c' where c': "RequestForward (sample_net True ''ok'') ?b sample_client =
      Inr (R_OK, Some ''ok'', c')" by blast
  have z: "st_done (stat_total sample_client) = 0" "stat_running sample_client = 0"
    by (simp_all add: sample_client_def fresh_client_def empty_cstat_def)
  from request_forward_accounted [OF c'] m sample_not_exhausted z c' show ?thesis by simp
qed

lemma request_basic_accounted_witness:
  "\<exists>r ty c'. RequestBasic (sample_net True ''?'') [''getSlot''] sample_client = Inr (r, ty, c') \<and>
     ty \<noteq> R_THROTTLED \<and> st_done (stat_total c') = 1 \<and> stat_running c' = 0"
proof -
  have z: "st_done (stat_total sample_client) = 0" "stat_running sample_client = 0"
    and u: "url_ok (sample_net True ''?'') (endpoint sample_client)"
    by (simp_all add: sample_client_def fresh_client_def empty_cstat_def sample_net_def)
  from request_basic_accounted [of "sample_net True ''?''" sample_client "[''getSlot'']" "''getSlot''" "[]"]
    obtain r ty c' where "RequestBasic (sample_net True ''?'') [''getSlot''] sample_client = Inr (r, ty, c')"
      "ty \<noteq> R_THROTTLED" "st_done (stat_total c') = 1" "stat_running c' = 0"
    using z u sample_not_exhausted by auto
  then show ?thesis by blast
qed

lemma requests_conserved_witness:
  "\<exists>c. cl_run c 1 0 0 0 \<and> stat_running c = 1"
proof -
  have r: "cl_run sample_client 0 0 0 0" unfolding sample_client_def by (rule cl_run.fresh)
  from begin_refused_iff sample_not_exhausted obtain c1
    where "begin_request ''getSlot'' sample_client = (True, c1)" by (metis (full_types) surj_pair)
  from cl_run.sent [OF r this] have s: "cl_run c1 1 0 0 0" by simp
  from requests_conserved [OF s] s show ?thesis by auto
qed

lemma silent_node_is_probed_witness: "fst (maint_stat 100 sample_client)"
  using silent_node_is_probed [of sample_client 100] sample_cl_ok
  by (simp add: sample_client_def fresh_client_def empty_cstat_def error_of_def)

lemma bad_endpoint_panics_witness:
  "RequestBasic (sample_net False []) [''getSlot''] sample_client = Inl NilDereference"
  using bad_endpoint_panics [of "sample_net False []" sample_client "''getSlot''"] sample_not_exhausted
  by (simp add: sample_net_def sample_client_def fresh_client_def)

definition version_body :: string where
  "version_body = ''{\"id\":\"PRIV/1/0\",\"result\":{\"solana-core\":\"2\"}}''"

lemma version_panic_iff_witness:
  "GetVersion (sample_net True version_body) sample_client = Inl IndexOutOfRange"
proof -
  have c: "solana_core version_body = ''2''" by code_simp
  have d: "nat_digits (Suc 0) = ''1''" "nat_digits 0 = ''0''" by code_simp+
  have "go_contains version_body ''PRIV/1/0''" by code_simp
  with d have "\<exists>c'. RequestBasic (sample_net True version_body) [''getVersion''] sample_client =
      Inr (Some version_body, R_OK, c')"
    using sample_not_exhausted
    by (simp add: RequestBasic_def cl_simps docall_def isHTTPError_def
        isGenericError_def sample_net_def Let_def request_serial_def sample_client_def
        fresh_client_def bump_def itoa_def)
  with version_panic_iff c show ?thesis by fastforce
qed

end
