(* ===== verification/Scheduler.thy ===== *)
theory Scheduler
  imports ClientCorrect
begin

text \<open>
  The scheduler and the client registry: \<open>solana_proxy/scheduler.go\<close>, \<open>scheduler_pick.go\<close> and
  \<open>manager.go\<close>. Clients are shared objects: a reference names one in a store, the registry and
  each scheduler are lists of references, and a scheduler blanks the entries it has used.
\<close>

type_synonym ref = nat
type_synonym store = "ref \<Rightarrow> solclient"

subsection \<open>Registry\<close>

definition max_uint64 :: int where
  "max_uint64 = 18446744073709551615"

text \<open>One pass over the registry: \<open>add\<close> takes the place of the first client removed.\<close>

fun manage_loop :: "store \<Rightarrow> int \<Rightarrow> ref list \<Rightarrow> ref option \<times> ref list \<times> bool \<Rightarrow> ref option \<times> ref list \<times> bool" where
  "manage_loop st removeID [] acc = acc"
| "manage_loop st removeID (c # cs) (add, tmp, acted) =
     (if ID (GetInfo (st c)) = removeID then
        (case add of
           Some a \<Rightarrow> manage_loop st removeID cs (None, tmp @ [a], True)
         | None \<Rightarrow> manage_loop st removeID cs (None, tmp, True))
      else manage_loop st removeID cs (add, tmp @ [c], acted))"

definition ClientManage :: "store \<Rightarrow> ref option \<Rightarrow> int \<Rightarrow> ref list \<Rightarrow> bool \<times> ref list" where
  "ClientManage st add removeID clients =
     (case add of
        Some a \<Rightarrow>
          if removeID = max_uint64 then (True, clients @ [a])
          else (let (add', tmp, acted) = manage_loop st removeID clients (Some a, [], False)
                in (acted, case add' of Some b \<Rightarrow> tmp @ [b] | None \<Rightarrow> tmp))
      | None \<Rightarrow>
          (let (add', tmp, acted) = manage_loop st removeID clients (None, [], False)
           in (acted, case add' of Some b \<Rightarrow> tmp @ [b] | None \<Rightarrow> tmp)))"

definition ClientRegister :: "store \<Rightarrow> ref \<Rightarrow> ref list \<Rightarrow> ref list" where
  "ClientRegister st c clients = snd (ClientManage st (Some c) max_uint64 clients)"

definition ClientRemove :: "store \<Rightarrow> int \<Rightarrow> ref list \<Rightarrow> bool \<times> ref list" where
  "ClientRemove st removeID clients = ClientManage st None removeID clients"

definition min_max_step :: "store \<Rightarrow> ref \<Rightarrow> int \<times> int \<times> int \<times> int \<Rightarrow> int \<times> int \<times> int \<times> int" where
  "min_max_step st v = (\<lambda>(a, b, c, d).
     (let info = GetInfo (st v)
      in if Is_disabled info then (a, b, c, d)
         else if Is_public_node info then
           (if a = - 1 \<or> Available_block_first info > a then Available_block_first info else a, b,
            if c = - 1 \<or> Available_block_last info < c then Available_block_last info else c, d)
         else
           (a, if b = - 1 \<or> Available_block_first info > b then Available_block_first info else b,
            c, if d = - 1 \<or> Available_block_last info < d then Available_block_last info else d)))"

definition GetMinMaxBlocks :: "store \<Rightarrow> ref list \<Rightarrow> int \<times> int \<times> int \<times> int" where
  "GetMinMaxBlocks st clients = fold (min_max_step st) clients (- 1, - 1, - 1, - 1)"

subsection \<open>Scheduler\<close>

record scheduler =
  min_block_no :: int
  sch_clients :: "ref option list"
  force_public :: bool
  force_private :: bool

definition MakeScheduler :: "ref list \<Rightarrow> scheduler" where
  "MakeScheduler clients =
     \<lparr>min_block_no = - 1, sch_clients = map Some clients, force_public = False, force_private = False\<rparr>"

definition SetMinBlock :: "scheduler \<Rightarrow> int \<Rightarrow> scheduler" where
  "SetMinBlock this n = this\<lparr>min_block_no := n\<rparr>"

definition ForcePublic :: "scheduler \<Rightarrow> bool \<Rightarrow> scheduler" where
  "ForcePublic this f =
     (let s = this\<lparr>force_public := f\<rparr>
      in if force_public s \<and> force_private s then s\<lparr>force_public := False, force_private := False\<rparr> else s)"

definition ForcePrivate :: "scheduler \<Rightarrow> bool \<Rightarrow> scheduler" where
  "ForcePrivate this f =
     (let s = this\<lparr>force_private := f\<rparr>
      in if force_public s \<and> force_private s then s\<lparr>force_public := False, force_private := False\<rparr> else s)"

definition out_of_service :: "solclientinfo \<Rightarrow> bool" where
  "out_of_service info \<longleftrightarrow> Is_disabled info \<or> Is_throttled info \<or> Is_paused info"

definition filtered_out :: "scheduler \<Rightarrow> solclientinfo \<Rightarrow> bool" where
  "filtered_out this info \<longleftrightarrow>
     (Is_public_node info \<and> force_private this) \<or> (\<not> Is_public_node info \<and> force_public this) \<or>
     (min_block_no this > - 1 \<and> min_block_no this \<le> Available_block_first info)"

text \<open>The loop of \<open>_pick_next\<close>: the entries (blanked where a client is out of service), the best
  score so far and its position, with \<open>-1\<close> for none.\<close>

fun pick_loop :: "store \<Rightarrow> scheduler \<Rightarrow> int \<Rightarrow> ref option list \<Rightarrow> int \<times> int \<Rightarrow> ref option list \<times> int \<times> int" where
  "pick_loop st this num [] (mn, mp) = ([], mn, mp)"
| "pick_loop st this num (v # vs) (mn, mp) =
     (let (v', mn', mp') =
        (case v of
           None \<Rightarrow> (None, mn, mp)
         | Some r \<Rightarrow>
             (let info = GetInfo (st r)
              in if out_of_service info then (None, mn, mp)
                 else if filtered_out this info then (Some r, mn, mp)
                 else if mn = - 1 \<or> info_Score info < mn then (Some r, info_Score info, num)
                 else (Some r, mn, mp)));
        (vs', mn'', mp'') = pick_loop st this (num + 1) vs (mn', mp')
      in (v' # vs', mn'', mp''))"

definition pick_next :: "store \<Rightarrow> scheduler \<Rightarrow> ref option \<times> scheduler" where
  "pick_next st this =
     (let (cs, mn, mp) = pick_loop st this 0 (sch_clients this) (- 1, - 1)
      in if mp = - 1 then (None, this\<lparr>sch_clients := cs\<rparr>)
         else (cs ! nat mp, this\<lparr>sch_clients := cs[nat mp := None]\<rparr>))"

definition GetAnyClient :: "store \<Rightarrow> scheduler \<Rightarrow> ref option \<times> scheduler" where
  "GetAnyClient st this = pick_next st this"

definition GetPublicClient :: "store \<Rightarrow> scheduler \<Rightarrow> ref option \<times> scheduler" where
  "GetPublicClient st this =
     (if force_public this \<or> force_private this then pick_next st this
      else (let (ret, s) = pick_next st (this\<lparr>force_public := True\<rparr>)
            in (ret, s\<lparr>force_public := False\<rparr>)))"

text \<open>\<open>GetAll\<close> reads every entry: a blanked one is a nil client.\<close>

fun all_loop :: "store \<Rightarrow> scheduler \<Rightarrow> bool \<Rightarrow> bool \<Rightarrow> ref option list \<Rightarrow> ref list go" where
  "all_loop st this is_public deact [] = Inr []"
| "all_loop st this is_public deact (None # vs) = Inl NilDereference"
| "all_loop st this is_public deact (Some r # vs) =
     (let info = GetInfo (st r)
      in if out_of_service info \<and> \<not> deact then all_loop st this is_public deact vs
         else if is_public \<noteq> Is_public_node info then all_loop st this is_public deact vs
         else if min_block_no this > - 1 \<and> min_block_no this \<le> Available_block_first info
              then all_loop st this is_public deact vs
         else go_bind (all_loop st this is_public deact vs) (\<lambda>rs. Inr (r # rs)))"

definition GetAll :: "store \<Rightarrow> scheduler \<Rightarrow> bool \<Rightarrow> bool \<Rightarrow> ref list go" where
  "GetAll st this is_public include_deactivated =
     all_loop st this is_public include_deactivated (sch_clients this)"

text \<open>\<open>sort.Slice\<close> returns the entries ordered by score, in no particular order where scores are
  equal; the model takes the stable order, the properties do not depend on it.\<close>

definition GetAllSorted :: "store \<Rightarrow> scheduler \<Rightarrow> bool \<Rightarrow> bool \<Rightarrow> ref list go" where
  "GetAllSorted st this is_public include_disabled =
     go_bind (GetAll st this is_public include_disabled) (\<lambda>ret.
       Inr (sort_key (\<lambda>r. info_Score (GetInfo (st r))) ret))"

subsection \<open>The registry as a list\<close>

lemma GetInfo_simps [simp]:
  "ID (GetInfo c) = cl_id c" "Endpoint (GetInfo c) = endpoint c"
  "Is_public_node (GetInfo c) = is_public_node c" "Is_disabled (GetInfo c) = is_disabled c"
  "Is_paused (GetInfo c) = is_paused c" "Is_throttled (GetInfo c) = cl_exhausted c"
  "Available_block_first (GetInfo c) = available_block_first c"
  "Available_block_last (GetInfo c) = available_block_last c"
  "Available_block_last_ts (GetInfo c) = available_block_last_ts c"
  "info_Score (GetInfo c) = Score (group_GetThrottleScore (throttle_grp c))"
  by (simp_all add: GetInfo_def Let_def cl_exhausted_def)

lemma manage_loop_none:
  "manage_loop st i cs (None, tmp, acted) =
     (None, tmp @ filter (\<lambda>c. cl_id (st c) \<noteq> i) cs, acted \<or> (\<exists>c \<in> set cs. cl_id (st c) = i))"
  by (induction cs arbitrary: tmp acted) (auto simp: GetInfo_def Let_def)

lemma manage_loop_some:
  "manage_loop st i cs (Some a, tmp, acted) =
     (if \<exists>c \<in> set cs. cl_id (st c) = i then
        (None, tmp @ takeWhile (\<lambda>c. cl_id (st c) \<noteq> i) cs @
           a # filter (\<lambda>c. cl_id (st c) \<noteq> i) (dropWhile (\<lambda>c. cl_id (st c) \<noteq> i) cs), True)
      else (Some a, tmp @ cs, acted))"
  by (induction cs arbitrary: tmp acted) (auto simp: GetInfo_def Let_def manage_loop_none)

text \<open>
  The registry. Registering appends; removing deletes exactly the clients with that number
  and says whether there was one; replacing puts the new client where the old one was, or at
  the end when there was none, and keeps the order of the others.
\<close>

theorem client_manage_spec:
  "ClientRegister st a cs = cs @ [a] \<and>
   ClientRemove st i cs = (\<exists>c \<in> set cs. cl_id (st c) = i, filter (\<lambda>c. cl_id (st c) \<noteq> i) cs) \<and>
   ClientManage st (Some a) i cs =
     (if i = max_uint64 then (True, cs @ [a])
      else if \<exists>c \<in> set cs. cl_id (st c) = i then
        (True, takeWhile (\<lambda>c. cl_id (st c) \<noteq> i) cs @
           a # filter (\<lambda>c. cl_id (st c) \<noteq> i) (dropWhile (\<lambda>c. cl_id (st c) \<noteq> i) cs))
      else (False, cs @ [a]))"
  by (auto simp: ClientRegister_def ClientRemove_def ClientManage_def manage_loop_none manage_loop_some)

subsection \<open>What the pick loop computes\<close>

lemma ex_nat_cases: "(\<exists>i. P i) \<longleftrightarrow> P 0 \<or> (\<exists>i. P (Suc i))"
  by (metis not0_implies_Suc)

definition eligible :: "store \<Rightarrow> scheduler \<Rightarrow> ref \<Rightarrow> bool" where
  "eligible st s r \<longleftrightarrow> \<not> out_of_service (GetInfo (st r)) \<and> \<not> filtered_out s (GetInfo (st r))"

definition score_of :: "store \<Rightarrow> ref \<Rightarrow> int" where
  "score_of st r = info_Score (GetInfo (st r))"

definition blank :: "store \<Rightarrow> ref option \<Rightarrow> ref option" where
  "blank st v = (case v of None \<Rightarrow> None
     | Some r \<Rightarrow> if out_of_service (GetInfo (st r)) then None else Some r)"

fun candidates :: "store \<Rightarrow> scheduler \<Rightarrow> int \<Rightarrow> ref option list \<Rightarrow> (int \<times> int) list" where
  "candidates st s num [] = []"
| "candidates st s num (None # vs) = candidates st s (num + 1) vs"
| "candidates st s num (Some r # vs) =
     (if eligible st s r then (score_of st r, num) # candidates st s (num + 1) vs
      else candidates st s (num + 1) vs)"

definition keep_better :: "int \<times> int \<Rightarrow> int \<times> int \<Rightarrow> int \<times> int" where
  "keep_better x acc = (if fst acc = - 1 \<or> fst x < fst acc then x else acc)"

lemma pick_loop_eq:
  "pick_loop st s num vs acc = (map (blank st) vs, fold keep_better (candidates st s num vs) acc)"
proof (induction vs arbitrary: num acc)
  case (Cons v vs)
  obtain mn mp where acc: "acc = (mn, mp)" by force
  show ?case
  proof (cases v)
    case (Some r)
    with Cons show ?thesis
      by (simp add: acc blank_def eligible_def score_of_def keep_better_def Let_def)
  qed (simp add: acc Cons blank_def)
next
  case Nil
  then show ?case by (cases acc) simp
qed

lemma candidates_iff:
  "x \<in> set (candidates st s num vs) \<longleftrightarrow>
     (\<exists>i r. i < length vs \<and> vs ! i = Some r \<and> eligible st s r \<and> x = (score_of st r, num + int i))"
proof (induction vs arbitrary: num)
  case (Cons v vs)
  have split: "(\<exists>i r. i < length (v # vs) \<and> (v # vs) ! i = Some r \<and> eligible st s r \<and>
        x = (score_of st r, num + int i)) \<longleftrightarrow>
      (\<exists>r. v = Some r \<and> eligible st s r \<and> x = (score_of st r, num)) \<or>
      (\<exists>i r. i < length vs \<and> vs ! i = Some r \<and> eligible st s r \<and>
        x = (score_of st r, num + 1 + int i))"
    by (subst ex_nat_cases) (auto simp: add.assoc)
  show ?case unfolding split using Cons.IH [of "num + 1"] by (cases v) auto
qed simp

end
