(* ===== verification/SchedulerCorrect.thy ===== *)
theory SchedulerCorrect
  imports Scheduler "HOL-Library.Multiset"
begin

text \<open>
  What the scheduler promises: the client it picks is fit for the request and has the lowest
  score, no client is picked twice, so retrying ends; the two force flags; the sorted list; the
  block range of the registry.
\<close>

subsection \<open>Picking\<close>

lemma fold_keep_better_member:
  "xs \<noteq> [] \<Longrightarrow> fst acc = - 1 \<Longrightarrow> fold keep_better xs acc \<in> set xs"
proof (induction xs arbitrary: acc)
  case (Cons x xs)
  then have step: "fold keep_better (x # xs) acc = fold keep_better xs x" by (simp add: keep_better_def)
  have "fold keep_better ys y \<in> insert y (set ys)" for ys y
  proof (induction ys arbitrary: y)
    case (Cons z zs)
    from Cons.IH [of "keep_better z y"] show ?case by (auto simp: keep_better_def split: if_splits)
  qed simp
  then show ?case unfolding step by auto
qed simp

lemma fold_keep_better_min:
  assumes "\<forall>x \<in> set xs. fst x \<noteq> - 1" "fst acc \<noteq> - 1"
  shows "fst (fold keep_better xs acc) \<le> fst acc \<and> (\<forall>x \<in> set xs. fst (fold keep_better xs acc) \<le> fst x)"
  using assms
proof (induction xs arbitrary: acc)
  case (Cons x xs)
  then have "fst (keep_better x acc) \<noteq> - 1" by (simp add: keep_better_def)
  from Cons.IH [OF _ this] Cons.prems have
    le: "fst (fold keep_better xs (keep_better x acc)) \<le> fst (keep_better x acc)"
    and "\<forall>y \<in> set xs. fst (fold keep_better xs (keep_better x acc)) \<le> fst y" by auto
  moreover have "fst (keep_better x acc) \<le> fst x" "fst (keep_better x acc) \<le> fst acc"
    using Cons.prems by (auto simp: keep_better_def)
  ultimately show ?case using order_trans [OF le] by auto
qed simp

lemma blank_eligible: "eligible st s r \<Longrightarrow> blank st (Some r) = Some r"
  by (simp add: blank_def eligible_def)

lemma pick_next_cases:
  obtains (none) s' where "pick_next st s = (None, s')"
      "s' = s\<lparr>sch_clients := map (blank st) (sch_clients s)\<rparr>"
      "\<forall>r. Some r \<in> set (sch_clients s) \<longrightarrow> \<not> eligible st s r"
  | (picked) i r where "pick_next st s =
        (Some r, s\<lparr>sch_clients := (map (blank st) (sch_clients s))[i := None]\<rparr>)"
      "i < length (sch_clients s)" "sch_clients s ! i = Some r" "eligible st s r"
      "\<forall>r'. Some r' \<in> set (sch_clients s) \<longrightarrow> eligible st s r' \<longrightarrow> score_of st r' \<noteq> - 1 \<Longrightarrow>
        \<forall>r'. Some r' \<in> set (sch_clients s) \<longrightarrow> eligible st s r' \<longrightarrow> score_of st r \<le> score_of st r'"
proof (cases "candidates st s 0 (sch_clients s)")
  case Nil
  then have "\<not> eligible st s r" if "Some r \<in> set (sch_clients s)" for r
    using that candidates_iff [of _ st s 0 "sch_clients s"] by (auto simp: in_set_conv_nth)
  with Nil show ?thesis by (intro none) (auto simp: pick_next_def pick_loop_eq)
next
  case (Cons x xs)
  let ?cs = "candidates st s 0 (sch_clients s)"
  let ?b = "fold keep_better ?cs (- 1, - 1)"
  have "?b \<in> set ?cs" using Cons by (intro fold_keep_better_member) auto
  then obtain i r where ir: "i < length (sch_clients s)" "sch_clients s ! i = Some r"
    "eligible st s r" "?b = (score_of st r, int i)" by (auto simp: candidates_iff)
  have pick: "pick_next st s =
      (Some r, s\<lparr>sch_clients := (map (blank st) (sch_clients s))[i := None]\<rparr>)"
    using ir by (simp add: pick_next_def pick_loop_eq blank_eligible)
  show ?thesis
  proof (rule picked [OF pick ir(1-3)])
    assume nz: "\<forall>r'. Some r' \<in> set (sch_clients s) \<longrightarrow> eligible st s r' \<longrightarrow> score_of st r' \<noteq> - 1"
    then have all: "\<forall>y \<in> set ?cs. fst y \<noteq> - 1"
      by (auto simp: candidates_iff) (metis nth_mem)
    then have first: "?b = fold keep_better xs x" "fst x \<noteq> - 1" "\<forall>y \<in> set xs. fst y \<noteq> - 1"
      using Cons by (simp_all add: keep_better_def)
    have least: "\<forall>y \<in> set ?cs. score_of st r \<le> fst y"
      using fold_keep_better_min [OF first(3,2)] first(1) ir(4) Cons by auto
    show "\<forall>r'. Some r' \<in> set (sch_clients s) \<longrightarrow> eligible st s r' \<longrightarrow> score_of st r \<le> score_of st r'"
    proof (intro allI impI)
      fix r' assume "Some r' \<in> set (sch_clients s)" "eligible st s r'"
      then obtain j where "j < length (sch_clients s)" "sch_clients s ! j = Some r'"
        by (auto simp: in_set_conv_nth)
      with \<open>eligible st s r'\<close> have "(score_of st r', int j) \<in> set ?cs"
        by (auto simp: candidates_iff)
      with least show "score_of st r \<le> score_of st r'" by fastforce
    qed
  qed
qed

lemma pick_next_choice_core:
  "(fst (pick_next st s) = None \<longleftrightarrow> (\<forall>r. Some r \<in> set (sch_clients s) \<longrightarrow> \<not> eligible st s r)) \<and>
   (\<forall>r. fst (pick_next st s) = Some r \<longrightarrow> Some r \<in> set (sch_clients s) \<and> eligible st s r \<and>
      ((\<forall>r'. Some r' \<in> set (sch_clients s) \<longrightarrow> eligible st s r' \<longrightarrow> score_of st r' \<noteq> - 1) \<longrightarrow>
       (\<forall>r'. Some r' \<in> set (sch_clients s) \<longrightarrow> eligible st s r' \<longrightarrow> score_of st r \<le> score_of st r')))"
proof (cases rule: pick_next_cases [of st s])
  case (none s')
  then show ?thesis by simp
next
  case (picked i r)
  from picked(2,3) have "Some r \<in> set (sch_clients s)" by (metis nth_mem)
  with picked show ?thesis by auto
qed


text \<open>How many clients a scheduler still holds.\<close>

definition remaining :: "scheduler \<Rightarrow> nat" where
  "remaining s = length (filter (\<lambda>v. v \<noteq> None) (sch_clients s))"

lemma remaining_blank: "length (filter (\<lambda>v. v \<noteq> None) (map (blank st) vs)) \<le> length (filter (\<lambda>v. v \<noteq> None) vs)"
  by (induction vs) (auto simp: blank_def split: option.splits)

lemma remaining_drop:
  "i < length vs \<Longrightarrow> vs ! i \<noteq> None \<Longrightarrow>
   length (filter (\<lambda>v. v \<noteq> None) (vs[i := None])) < length (filter (\<lambda>v. v \<noteq> None) vs)"
proof (induction vs arbitrary: i)
  case (Cons v vs)
  then show ?case by (cases i) (auto split: if_splits)
qed simp

lemma pick_next_remaining:
  "remaining (snd (pick_next st s)) \<le> remaining s"
  "fst (pick_next st s) \<noteq> None \<Longrightarrow> remaining (snd (pick_next st s)) < remaining s"
proof -
  have "remaining (snd (pick_next st s)) \<le> remaining s \<and>
    (fst (pick_next st s) \<noteq> None \<longrightarrow> remaining (snd (pick_next st s)) < remaining s)"
  proof (cases rule: pick_next_cases [of st s])
    case (none s')
    then show ?thesis using remaining_blank by (simp add: remaining_def)
  next
    case (picked i r)
    then have "map (blank st) (sch_clients s) ! i \<noteq> None" by (simp add: blank_eligible)
    with remaining_drop [of i "map (blank st) (sch_clients s)"] picked(2)
      remaining_blank [of st "sch_clients s"]
    have "length (filter (\<lambda>v. v \<noteq> None) ((map (blank st) (sch_clients s))[i := None])) < remaining s"
      by (simp add: remaining_def)
    then show ?thesis using picked(1) by (simp add: remaining_def)
  qed
  then show "remaining (snd (pick_next st s)) \<le> remaining s"
    "fst (pick_next st s) \<noteq> None \<Longrightarrow> remaining (snd (pick_next st s)) < remaining s" by auto
qed

lemma pick_next_flags:
  "force_public (snd (pick_next st s)) = force_public s"
  "force_private (snd (pick_next st s)) = force_private s"
  "min_block_no (snd (pick_next st s)) = min_block_no s"
  by (cases rule: pick_next_cases [of st s]; simp)+

lemma GetPublicClient_remaining:
  "remaining (snd (GetPublicClient st s)) \<le> remaining s"
  "fst (GetPublicClient st s) \<noteq> None \<Longrightarrow> remaining (snd (GetPublicClient st s)) < remaining s"
proof -
  have r: "remaining (s\<lparr>force_public := b\<rparr>) = remaining s" for s b by (simp add: remaining_def)
  show "remaining (snd (GetPublicClient st s)) \<le> remaining s"
    using pick_next_remaining(1) [of st s] pick_next_remaining(1) [of st "s\<lparr>force_public := True\<rparr>"]
    by (simp add: GetPublicClient_def r split_beta)
  show "fst (GetPublicClient st s) \<noteq> None \<Longrightarrow> remaining (snd (GetPublicClient st s)) < remaining s"
    using pick_next_remaining(2) [of st s] pick_next_remaining(2) [of st "s\<lparr>force_public := True\<rparr>"]
    by (auto simp: GetPublicClient_def r split_beta split: if_splits)
qed

text \<open>
  The sentinel hides a good client. A score of -1 is taken for "none yet", so the client
  after one with score -1 is picked whatever its own score is.
\<close>

theorem pick_next_sentinel:
  assumes "sch_clients s = [Some a, Some b]" "eligible st s a" "eligible st s b"
    "score_of st a = - 1"
  shows "fst (pick_next st s) = Some b"
  using assms by (simp add: pick_next_def pick_loop_eq keep_better_def blank_eligible)

subsection \<open>Force flags and the public client\<close>

text \<open>
  The kind of client a caller gets. Asking for both kinds means no restriction; with a kind
  forced every client picked is of that kind; and \<open>GetPublicClient\<close> gives a public client unless
  the caller forced private ones, and leaves the flags as they were.
\<close>

theorem forced_kind:
  "(force_public (ForcePrivate (ForcePublic (MakeScheduler cs) True) True) = False \<and>
    force_private (ForcePrivate (ForcePublic (MakeScheduler cs) True) True) = False) \<and>
   (\<forall>r. fst (pick_next st s) = Some r \<longrightarrow>
      (force_public s \<longrightarrow> is_public_node (st r)) \<and> (force_private s \<longrightarrow> \<not> is_public_node (st r))) \<and>
   (\<forall>r. fst (GetPublicClient st s) = Some r \<longrightarrow> \<not> force_private s \<longrightarrow> is_public_node (st r)) \<and>
   force_public (snd (GetPublicClient st s)) = force_public s \<and>
   force_private (snd (GetPublicClient st s)) = force_private s"
proof (intro conjI allI impI)
  have kind: "(force_public u \<longrightarrow> is_public_node (st r)) \<and> (force_private u \<longrightarrow> \<not> is_public_node (st r))"
    if "fst (pick_next st u) = Some r" for u r
    using pick_next_choice_core [of st u] that
    by (auto simp: eligible_def filtered_out_def GetInfo_def Let_def)
  show "fst (pick_next st s) = Some r \<Longrightarrow> force_public s \<Longrightarrow> is_public_node (st r)"
    "fst (pick_next st s) = Some r \<Longrightarrow> force_private s \<Longrightarrow> \<not> is_public_node (st r)" for r
    using kind by auto
  show "is_public_node (st r)" if "fst (GetPublicClient st s) = Some r" "\<not> force_private s" for r
    using that kind [of s r] kind [of "s\<lparr>force_public := True\<rparr>" r]
    by (auto simp: GetPublicClient_def split: prod.splits if_splits)
  show "force_public (snd (GetPublicClient st s)) = force_public s"
    "force_private (snd (GetPublicClient st s)) = force_private s"
    using pick_next_flags [of st "s\<lparr>force_public := True\<rparr>"] pick_next_flags [of st s]
    by (auto simp: GetPublicClient_def split: prod.split)
qed (simp_all add: ForcePrivate_def ForcePublic_def MakeScheduler_def Let_def)

subsection \<open>Lists of clients\<close>

definition listed :: "store \<Rightarrow> scheduler \<Rightarrow> bool \<Rightarrow> bool \<Rightarrow> ref \<Rightarrow> bool" where
  "listed st s pub deact r \<longleftrightarrow>
     (deact \<or> \<not> out_of_service (GetInfo (st r))) \<and> is_public_node (st r) = pub \<and>
     \<not> (min_block_no s > - 1 \<and> min_block_no s \<le> available_block_first (st r))"

lemma all_loop_Some:
  "all_loop st s pub deact (map Some rs) = Inr (filter (listed st s pub deact) rs)"
  by (induction rs) (auto simp: listed_def GetInfo_def out_of_service_def Let_def)

text \<open>
  The sorted list of a fresh scheduler: exactly the clients of the kind asked for that are in
  service and have the block, each as often as in the registry, by increasing score.
\<close>

theorem get_all_sorted_spec:
  assumes "sch_clients s = map Some rs"
  shows "\<exists>out. GetAllSorted st s pub deact = Inr out \<and> mset out = mset (filter (listed st s pub deact) rs) \<and>
    sorted (map (score_of st) out)"
proof -
  have "sorted (map (score_of st) (sort_key (\<lambda>r. info_Score (GetInfo (st r))) xs))" for xs
    unfolding score_of_def by (rule sorted_sort_key)
  with assms show ?thesis by (simp add: GetAllSorted_def GetAll_def all_loop_Some)
qed

text \<open>
  After a pick the scheduler can no longer list its clients: \<open>GetAll\<close> does not skip the entry
  that was blanked and dereferences nil.
\<close>

theorem get_all_after_pick_panics:
  assumes "fst (pick_next st s) = Some r"
  shows "GetAll st (snd (pick_next st s)) pub deact = Inl NilDereference"
proof -
  have nil: "None \<in> set vs \<Longrightarrow> all_loop st u pub deact vs = Inl NilDereference" for vs u
  proof (induction vs)
    case (Cons v vs)
    then show ?case by (cases v) (auto simp: Let_def)
  qed simp
  show ?thesis
  proof (cases rule: pick_next_cases [of st s])
    case (picked i r')
    then show ?thesis by (simp add: GetAll_def nil set_update_memI)
  qed (use assms in simp)
qed

subsection \<open>The block range\<close>

definition serving :: "store \<Rightarrow> bool \<Rightarrow> ref list \<Rightarrow> ref list" where
  "serving st pub cs = filter (\<lambda>r. \<not> is_disabled (st r) \<and> is_public_node (st r) = pub) cs"

definition keep_max_block :: "int \<Rightarrow> int \<Rightarrow> int" where
  "keep_max_block x a = (if a = - 1 \<or> x > a then x else a)"

definition keep_min_block :: "int \<Rightarrow> int \<Rightarrow> int" where
  "keep_min_block x a = (if a = - 1 \<or> x < a then x else a)"

lemma min_max_fold:
  "fold (min_max_step st) cs (a, b, c, d) =
     (fold keep_max_block (map (\<lambda>r. available_block_first (st r)) (serving st True cs)) a,
      fold keep_max_block (map (\<lambda>r. available_block_first (st r)) (serving st False cs)) b,
      fold keep_min_block (map (\<lambda>r. available_block_last (st r)) (serving st True cs)) c,
      fold keep_min_block (map (\<lambda>r. available_block_last (st r)) (serving st False cs)) d)"
  by (induction cs arbitrary: a b c d)
    (auto simp: min_max_step_def serving_def keep_max_block_def keep_min_block_def GetInfo_def Let_def)

lemma fold_keep_max_block:
  assumes "\<forall>x \<in> set xs. 0 \<le> x"
  shows "fold keep_max_block xs (- 1) = (if xs = [] then - 1 else Max (set xs))"
proof -
  have fold: "fold keep_max_block ys a = fold max ys a" if "0 \<le> a" "\<forall>x \<in> set ys. 0 \<le> x" for ys a
    using that
  proof (induction ys arbitrary: a)
    case (Cons x ys)
    then have "keep_max_block x a = max x a" "0 \<le> max x a" by (auto simp: keep_max_block_def)
    with Cons show ?case by simp
  qed simp
  show ?thesis
  proof (cases xs)
    case (Cons y ys)
    with assms fold [of y ys] Max.set_eq_fold [of y ys] show ?thesis by (simp add: keep_max_block_def)
  qed simp
qed

lemma fold_keep_min_block:
  assumes "\<forall>x \<in> set xs. 0 \<le> x"
  shows "fold keep_min_block xs (- 1) = (if xs = [] then - 1 else Min (set xs))"
proof -
  have fold: "fold keep_min_block ys a = fold min ys a" if "0 \<le> a" "\<forall>x \<in> set ys. 0 \<le> x" for ys a
    using that
  proof (induction ys arbitrary: a)
    case (Cons x ys)
    then have "keep_min_block x a = min x a" "0 \<le> min x a" by (auto simp: keep_min_block_def)
    with Cons show ?case by simp
  qed simp
  show ?thesis
  proof (cases xs)
    case (Cons y ys)
    with assms fold [of y ys] Min.set_eq_fold [of y ys] show ?thesis by (simp add: keep_min_block_def)
  qed simp
qed

text \<open>
  \<open>GetMinMaxBlocks\<close>: over the clients of a kind that are not disabled, the first block that all
  of them have and the last block that all of them have; -1 when there is no such client.
\<close>

theorem block_range:
  assumes "\<forall>r \<in> set cs. 0 \<le> available_block_first (st r) \<and> 0 \<le> available_block_last (st r)"
  shows "GetMinMaxBlocks st cs =
    (let first = (\<lambda>r. available_block_first (st r)); last = (\<lambda>r. available_block_last (st r));
         most = (\<lambda>xs. if xs = [] then - 1 else Max (set xs));
         least = (\<lambda>xs. if xs = [] then - 1 else Min (set xs))
     in (most (map first (serving st True cs)), most (map first (serving st False cs)),
         least (map last (serving st True cs)), least (map last (serving st False cs))))"
  using assms
  by (simp add: GetMinMaxBlocks_def min_max_fold Let_def fold_keep_max_block fold_keep_min_block serving_def)

subsection \<open>Witnesses\<close>

definition scored_client :: "int \<Rightarrow> bool \<Rightarrow> solclient" where
  "scored_client n pub = (fresh_client ''http://node'' None pub 1
     [(sample_throttle 0)\<lparr>status_score := n\<rparr>])\<lparr>available_block_first := 5, available_block_last := 9\<rparr>"

lemma scored_info [simp]:
  "\<not> cl_exhausted (scored_client n pub)"
  "Score (group_GetThrottleScore (throttle_grp (scored_client n pub))) = (if min_int64 < n then n else min_int64)"
  "is_public_node (scored_client n pub) = pub" "\<not> is_disabled (scored_client n pub)"
  "\<not> is_paused (scored_client n pub)" "available_block_first (scored_client n pub) = 5"
  "available_block_last (scored_client n pub) = 9"
  by (simp_all add: cl_exhausted_def scored_client_def fresh_client_def group_GetThrottleScore_def
      GetThrottleScore_def sample_throttle_def Let_def)

definition two_clients :: store where
  "two_clients r = (if r = 0 then scored_client (- 1) False else scored_client 700 False)"

lemma two_clients_eligible: "eligible two_clients (MakeScheduler [0, 1]) r"
  by (simp add: eligible_def two_clients_def out_of_service_def filtered_out_def MakeScheduler_def)

lemma pick_next_sentinel_witness:
  "fst (pick_next two_clients (MakeScheduler [0, 1])) = Some 1 \<and>
   score_of two_clients 0 = - 1 \<and> score_of two_clients 1 = 700"
proof -
  have s: "score_of two_clients 0 = - 1" "score_of two_clients 1 = 700"
    by (simp_all add: score_of_def two_clients_def)
  from pick_next_sentinel [of "MakeScheduler [0, 1]" 0 1 two_clients] s two_clients_eligible
  show ?thesis by (simp add: MakeScheduler_def)
qed

lemma get_all_sorted_spec_witness:
  "\<exists>out. GetAllSorted two_clients (MakeScheduler [1, 0]) False True = Inr out \<and>
     sorted (map (score_of two_clients) out)"
  using get_all_sorted_spec [of "MakeScheduler [1, 0]" "[1, 0]" two_clients False True]
  by (auto simp: MakeScheduler_def)

lemma get_all_after_pick_panics_witness:
  "GetAll two_clients (snd (pick_next two_clients (MakeScheduler [0, 1]))) False True = Inl NilDereference"
proof -
  have "fst (pick_next two_clients (MakeScheduler [0, 1])) \<noteq> None"
    using pick_next_choice_core [of two_clients "MakeScheduler [0, 1]"] two_clients_eligible [of 0]
    by (auto simp: MakeScheduler_def)
  then obtain r where "fst (pick_next two_clients (MakeScheduler [0, 1])) = Some r" by blast
  from get_all_after_pick_panics [OF this] show ?thesis .
qed


lemma forced_kind_witness:
  "\<not> is_public_node (two_clients (the (fst (pick_next two_clients (ForcePrivate (MakeScheduler [0, 1]) True)))))"
proof -
  let ?s = "ForcePrivate (MakeScheduler [0, 1]) True"
  have e: "eligible two_clients ?s r" for r
    using two_clients_eligible [of r]
    by (simp add: eligible_def filtered_out_def ForcePrivate_def MakeScheduler_def two_clients_def)
  have "fst (pick_next two_clients ?s) \<noteq> None"
    by (cases rule: pick_next_cases [of two_clients ?s])
      (use e [of 0] in \<open>auto simp: ForcePrivate_def MakeScheduler_def\<close>)
  then obtain r where "fst (pick_next two_clients ?s) = Some r" by blast
  with forced_kind [where st = two_clients and s = ?s and cs = "[]"] show ?thesis
    by (auto simp: ForcePrivate_def MakeScheduler_def)
qed

lemma block_range_witness: "GetMinMaxBlocks two_clients [0, 1] = (- 1, 5, - 1, 9)"
  using block_range [of "[0, 1]" two_clients]
  by (simp add: two_clients_def serving_def)

end
