(* ===== verification/HealthChecker.thy ===== *)
theory HealthChecker
  imports SchedulerCorrect
begin

text \<open>
  The custom health checker, \<open>solana_proxy/custom_health_checker.go\<close>: it asks the nodes whose
  last block is old for a new one, then pauses the nodes that lag behind the best one. The
  goroutines of one check touch different clients; the model runs them in turn.
\<close>

subsection \<open>One check\<close>

record health_config =
  run_every :: int
  max_data_age_ms :: int
  max_block_lag :: int

definition age_comment :: "int \<Rightarrow> string" where
  "age_comment age_ms =
     (if age_ms < 24 * 3600 * 1000 then fixed2 itoa (fdiv (f_of_int age_ms) 1000) @ ''s''
      else ''Never updated'')"

text \<open>The refresh of the infos: new store, the infos and a status line for each of them.\<close>

fun refresh_infos ::
  "net \<Rightarrow> int \<Rightarrow> health_config \<Rightarrow> store \<Rightarrow> (ref \<times> solclientinfo) list \<Rightarrow> (store \<times> (solclientinfo \<times> string) list) go" where
  "refresh_infos w now cc st [] = Inr (st, [])"
| "refresh_infos w now cc st ((r, info) # rest) =
     (let age_ms = now - Available_block_last_ts info
      in if age_ms < max_data_age_ms cc then
           go_bind (refresh_infos w now cc st rest) (\<lambda>(st', infos). Inr (st', (info, []) # infos))
         else
           go_bind (GetLastAvailableBlock w (st r)) (\<lambda>(_, _, c).
             go_bind (refresh_infos w now cc (st(r := c)) rest) (\<lambda>(st', infos).
               Inr (st', (GetInfo c, ''(Trying refresh - '' @ age_comment age_ms @ '')'') # infos))))"

definition max_block :: "solclientinfo list \<Rightarrow> int" where
  "max_block infos = fold (\<lambda>info m. if Available_block_last info > m then Available_block_last info else m) infos 0"

definition lag_comment :: "int \<Rightarrow> health_config \<Rightarrow> solclientinfo \<Rightarrow> string" where
  "lag_comment mx cc info =
     (if mx - Available_block_last info \<le> max_block_lag cc then []
      else if Available_block_last_ts info = 0 then
        ''Paused by Custom Health Checker.'' @ [CHR 0x0A] @ ''Can't get last block''
      else ''Paused by Custom Health Checker.'' @ [CHR 0x0A] @ ''Node is lagging behind ''
           @ itoa (mx - Available_block_last info) @ '' blocks ('' @ itoa (max_block_lag cc) @ '' max)'')"

text \<open>Every client with the endpoint of \<open>info\<close> is paused or resumed.\<close>

definition pause_endpoint :: "int \<Rightarrow> health_config \<Rightarrow> ref list \<Rightarrow> solclientinfo \<Rightarrow> store \<Rightarrow> store" where
  "pause_endpoint mx cc clients info st =
     fold (\<lambda>r s. if GetEndpoint (s r) = Endpoint info
                 then s(r := SetPaused (s r) (\<not> mx - Available_block_last info \<le> max_block_lag cc)
                               (lag_comment mx cc info))
                 else s) clients st"

definition log_line :: "int \<Rightarrow> int \<Rightarrow> health_config \<Rightarrow> int \<Rightarrow> solclientinfo \<times> string \<Rightarrow> string" where
  "log_line now mx cc num p =
     (let (info, status) = p; diff = mx - Available_block_last info
      in ''Node #'' @ itoa num @ '' '' @ (if diff \<le> max_block_lag cc then ''OK     '' else ''LAGGING'')
         @ '' Score: '' @ itoa (info_Score info) @ '', Highest Block: '' @ itoa (Available_block_last info)
         @ ''/'' @ itoa mx @ '' Max ('' @ itoa diff @ '' diff) (''
         @ fixed2 itoa (fdiv (f_of_int (now - Available_block_last_ts info)) 1000) @ ''s Age) '' @ status
         @ [CHR 0x0A])"

definition run_custom_check ::
  "net \<Rightarrow> int \<Rightarrow> health_config \<Rightarrow> store \<Rightarrow> ref list \<Rightarrow> (string \<times> store) go" where
  "run_custom_check w now cc st clients =
     go_bind (refresh_infos w now cc st (map (\<lambda>r. (r, GetInfo (st r))) clients)) (\<lambda>(st1, infos).
       let mx = max_block (map fst infos)
       in Inr (concat (map (\<lambda>(num, p). log_line now mx cc num p) (zip (map int [0..<length infos]) infos)),
               fold (pause_endpoint mx cc clients) (map fst infos) st1))"

subsection \<open>Who is paused\<close>

lemma SetPaused_keeps [simp]:
  "endpoint (SetPaused c b cmt) = endpoint c" "is_paused (SetPaused c b cmt) = b"
  "available_block_last (SetPaused c b cmt) = available_block_last c"
  by (simp_all add: SetPaused_def Let_def)

lemma pause_endpoint_apply:
  "distinct clients \<Longrightarrow> pause_endpoint mx cc clients info st r =
     (if r \<in> set clients \<and> endpoint (st r) = Endpoint info
      then SetPaused (st r) (\<not> mx - Available_block_last info \<le> max_block_lag cc) (lag_comment mx cc info)
      else st r)"
  unfolding pause_endpoint_def
  by (induction clients arbitrary: st) (auto simp: GetEndpoint_def)

lemma pause_all:
  fixes infos st r
  defines "ms \<equiv> filter (\<lambda>i. Endpoint i = endpoint (st r)) infos"
  assumes "distinct clients" "r \<in> set clients"
  shows "endpoint (fold (pause_endpoint mx cc clients) infos st r) = endpoint (st r)
    \<and> available_block_last (fold (pause_endpoint mx cc clients) infos st r) = available_block_last (st r)
    \<and> is_paused (fold (pause_endpoint mx cc clients) infos st r) =
       (if ms = [] then is_paused (st r) else max_block_lag cc < mx - Available_block_last (last ms))"
  unfolding ms_def
proof (induction infos rule: rev_induct)
  case (snoc i infos)
  let ?s = "fold (pause_endpoint mx cc clients) infos st"
  have step: "fold (pause_endpoint mx cc clients) (infos @ [i]) st r =
      (if endpoint (?s r) = Endpoint i
       then SetPaused (?s r) (\<not> mx - Available_block_last i \<le> max_block_lag cc) (lag_comment mx cc i)
       else ?s r)"
    using pause_endpoint_apply [OF assms(2), of mx cc i ?s r] assms(3) by simp
  show ?case
  proof (cases "Endpoint i = endpoint (st r)")
    case True
    with snoc step show ?thesis by (simp add: not_le)
  next
    case False
    with snoc step show ?thesis by (simp add: not_le)
  qed
qed simp

text \<open>What the refresh leaves: infos of the clients, in order.\<close>

lemma refresh_infos_spec:
  assumes "refresh_infos w now cc st rs = Inr (st', infos)" "distinct (map fst rs)"
    "\<forall>(r, i) \<in> set rs. i = GetInfo (st r)"
  shows "map fst infos = map (\<lambda>(r, _). GetInfo (st' r)) rs \<and> (\<forall>r. r \<notin> fst ` set rs \<longrightarrow> st' r = st r)"
  using assms
proof (induction rs arbitrary: st st' infos)
  case (Cons p rs)
  obtain r i where p: "p = (r, i)" by force
  show ?case
  proof (cases "now - Available_block_last_ts i < max_data_age_ms cc")
    case True
    with Cons.prems(1) obtain infos' where rest: "refresh_infos w now cc st rs = Inr (st', infos')"
      "infos = (i, []) # infos'"
      by (cases "refresh_infos w now cc st rs") (auto simp: p)
    have pre: "distinct (map fst rs)" "\<forall>(r, i) \<in> set rs. i = GetInfo (st r)" using Cons.prems by auto
    from Cons.IH [OF rest(1) pre] have same: "map fst infos' = map (\<lambda>(r, _). GetInfo (st' r)) rs"
      "\<forall>q. q \<notin> fst ` set rs \<longrightarrow> st' q = st q" by auto
    moreover have "r \<notin> fst ` set rs" "i = GetInfo (st r)" using Cons.prems(2,3) p by auto
    ultimately show ?thesis using rest p by auto
  next
    case False
    with Cons.prems(1) obtain a b c infos' s where g: "GetLastAvailableBlock w (st r) = Inr (a, b, c)"
      "refresh_infos w now cc (st(r := c)) rs = Inr (st', infos')" "infos = (GetInfo c, s) # infos'"
    proof (cases "GetLastAvailableBlock w (st r)")
      case (Inl e)
      with False Cons.prems(1) show thesis by (simp add: p Let_def)
    next
      case (Inr x)
      obtain a b c where x: "x = (a, b, c)" by (metis prod_cases3)
      show thesis
      proof (cases "refresh_infos w now cc (st(r := c)) rs")
        case (Inl e)
        with Inr False Cons.prems(1) show thesis by (simp add: p Let_def x)
      next
        case rest: (Inr y)
        with Inr False Cons.prems(1) that show thesis by (cases y) (auto simp: p Let_def x)
      qed
    qed
    have pre: "distinct (map fst rs)" "\<forall>(q, i) \<in> set rs. i = GetInfo ((st(r := c)) q)"
      using Cons.prems p by (auto simp: rev_image_eqI)
    from Cons.IH [OF g(2) pre] have same: "map fst infos' = map (\<lambda>(r, _). GetInfo (st' r)) rs"
      "\<forall>q. q \<notin> fst ` set rs \<longrightarrow> st' q = (st(r := c)) q" by auto
    moreover have "r \<notin> fst ` set rs" using Cons.prems(2) p by auto
    ultimately show ?thesis using g p by auto
  qed
qed simp

lemma max_block_Max: "max_block infos = Max (insert 0 (Available_block_last ` set infos))"
  using fold_keep_max [of Available_block_last infos 0] by (simp add: max_block_def)

lemma check_pauses_laggards_aux:
  assumes "run_custom_check w now cc st clients = Inr (lg, st')" "distinct clients"
    "\<forall>r \<in> set clients. \<forall>q \<in> set clients. endpoint (st' r) = endpoint (st' q) \<longrightarrow> r = q"
    "r \<in> set clients"
  shows "is_paused (st' r) \<longleftrightarrow> max_block_lag cc <
    Max (insert 0 ((\<lambda>q. available_block_last (st' q)) ` set clients)) - available_block_last (st' r)"
proof -
  let ?rs = "map (\<lambda>r. (r, GetInfo (st r))) clients"
  from assms(1) obtain st1 infos where ref: "refresh_infos w now cc st ?rs = Inr (st1, infos)"
    and st': "st' = fold (pause_endpoint (max_block (map fst infos)) cc clients) (map fst infos) st1"
    by (cases "refresh_infos w now cc st ?rs") (auto simp: run_custom_check_def Let_def)
  have infos: "map fst infos = map (\<lambda>r. GetInfo (st1 r)) clients"
    using refresh_infos_spec [OF ref] assms(2) by (simp add: comp_def)
  let ?mx = "max_block (map fst infos)"
  have keep: "endpoint (st' q) = endpoint (st1 q)" "available_block_last (st' q) = available_block_last (st1 q)"
    if "q \<in> set clients" for q
    using pause_all [OF assms(2) that, of ?mx cc "map fst infos" st1] by (simp_all add: st')
  have "filter (\<lambda>q. endpoint (st1 q) = endpoint (st1 r)) clients = filter (\<lambda>q. q = r) clients"
    using assms(3,4) keep by (intro filter_cong refl) auto
  also have "\<dots> = [r]" using assms(2,4)
    by (induction clients) (auto simp: filter_empty_conv)
  finally have "filter (\<lambda>i. Endpoint i = endpoint (st1 r)) (map fst infos) = [GetInfo (st1 r)]"
    unfolding infos by (simp add: filter_map comp_def)
  then have "is_paused (st' r) \<longleftrightarrow> max_block_lag cc < ?mx - available_block_last (st1 r)"
    using pause_all [OF assms(2,4), of ?mx cc "map fst infos" st1] by (simp add: st')
  moreover have "?mx = Max (insert 0 ((\<lambda>q. available_block_last (st' q)) ` set clients))"
    unfolding max_block_Max infos by (simp add: image_image keep cong: image_cong)
  ultimately show ?thesis using keep(2) [OF assms(4)] by simp
qed



subsection \<open>Witnesses\<close>

definition lag_config :: health_config where
  "lag_config = \<lparr>run_every = 1, max_data_age_ms = 1000, max_block_lag = 3\<rparr>"

definition lag_client :: "nat \<Rightarrow> solclient" where
  "lag_client r = (fresh_client (if r = 0 then ''a'' else ''b'') None False 1 [])
     \<lparr>available_block_last := (if r = 0 then 100 else 90), available_block_last_ts := 5\<rparr>"

lemma lag_check:
  "\<exists>lg st'. run_custom_check w 6 lag_config lag_client [0, 1] = Inr (lg, st') \<and>
     (\<forall>q. endpoint (st' q) = endpoint (lag_client q) \<and>
          available_block_last (st' q) = available_block_last (lag_client q))"
proof -
  have "refresh_infos w 6 lag_config lag_client [(0, GetInfo (lag_client 0)), (1, GetInfo (lag_client 1))] =
      Inr (lag_client, [(GetInfo (lag_client 0), []), (GetInfo (lag_client 1), [])])"
    by (simp add: lag_config_def lag_client_def)
  then show ?thesis
    by (simp add: run_custom_check_def Let_def pause_endpoint_apply)
qed



end
