(* ===== verification/HSParams.thy ===== *)
theory HSParams
  imports GoStrings
begin

text \<open>
  Request parameters: \<open>handler_socket2/hs_params.go\<close>. A message carries a guid and a list of
  key/value pairs, with 16-bit lengths for the guid and the keys and 32-bit lengths for the
  values, little endian. Slices of the message are slice expressions that panic out of range.
\<close>

subsection \<open>Fixed-width integers\<close>

definition byte :: "nat \<Rightarrow> char" where
  "byte n = char_of n"

definition u16 :: "string \<Rightarrow> nat" where
  "u16 b = of_char (b ! 0) + 256 * of_char (b ! 1)"

definition u32 :: "string \<Rightarrow> nat" where
  "u32 b = of_char (b ! 0) + 256 * of_char (b ! 1) + 65536 * of_char (b ! 2) + 16777216 * of_char (b ! 3)"

definition put_u16 :: "nat \<Rightarrow> string" where
  "put_u16 n = [byte n, byte (n div 256)]"

definition put_u32 :: "nat \<Rightarrow> string" where
  "put_u32 n = [byte n, byte (n div 256), byte (n div 65536), byte (n div 16777216)]"

lemma length_put [simp]: "length (put_u16 n) = 2" "length (put_u32 n) = 4"
  by (simp_all add: put_u16_def put_u32_def)

lemma u16_put: "n < 65536 \<Longrightarrow> u16 (put_u16 n) = n"
  by (simp add: u16_def put_u16_def byte_def)

lemma u32_put:
  assumes "n < 4294967296"
  shows "u32 (put_u32 n) = n"
proof -
  define a b c d where "a = n mod 256" and "b = n div 256 mod 256"
    and "c = n div 256 div 256 mod 256" and "d = n div 256 div 256 div 256"
  have "n = a + 256 * (n div 256)" "n div 256 = b + 256 * (n div 256 div 256)"
    "n div 256 div 256 = c + 256 * d"
    unfolding a_def b_def c_def d_def by (simp_all only: mod_mult_div_eq)
  then have n: "n = a + 256 * (b + 256 * (c + 256 * d))" by argo
  have "d < 256" using assms unfolding d_def by (simp add: div_less_iff_less_mult)
  moreover have "n div 65536 = n div 256 div 256" "n div 16777216 = n div 256 div 256 div 256"
    by (simp_all add: div_mult2_eq [symmetric])
  ultimately have "u32 (put_u32 n) = a + 256 * b + 65536 * c + 16777216 * d"
    by (simp add: u32_def put_u32_def byte_def a_def b_def c_def d_def)
  then show ?thesis using n by simp
qed

subsection \<open>The parameter object\<close>

record hsparams =
  param :: "(string, string) gomap"
  porder :: "string list"
  fastreturn :: "string option"
  additional_resp_headers :: "string list"

definition CreateHSParams :: hsparams where
  "CreateHSParams = \<lparr>param = [], porder = [], fastreturn = None, additional_resp_headers = []\<rparr>"

definition CreateHSParamsFromMap :: "(string, string) gomap \<Rightarrow> hsparams" where
  "CreateHSParamsFromMap data =
     \<lparr>param = fold (\<lambda>(k, v) m. gm_set m k v) data [], porder = map fst data, fastreturn = None,
      additional_resp_headers = []\<rparr>"

definition Cleanup :: "hsparams \<Rightarrow> hsparams" where
  "Cleanup p = p\<lparr>fastreturn := None, param := [], porder := [], additional_resp_headers := []\<rparr>"

definition SetRespHeader :: "hsparams \<Rightarrow> string \<Rightarrow> string \<Rightarrow> hsparams" where
  "SetRespHeader p a val =
     p\<lparr>additional_resp_headers := additional_resp_headers p @ [a @ '':'' @ val @ [CHR 0x0A]]\<rparr>"

definition SetParam :: "hsparams \<Rightarrow> string \<Rightarrow> string \<Rightarrow> hsparams" where
  "SetParam p a val = p\<lparr>param := gm_set (param p) a val\<rparr>"

definition GetParam :: "hsparams \<Rightarrow> string \<Rightarrow> string \<Rightarrow> string" where
  "GetParam p a def = (case map_of (param p) a of Some val \<Rightarrow> val | None \<Rightarrow> def)"

definition GetParamsS :: "hsparams \<Rightarrow> (string, string) gomap" where
  "GetParamsS p = param p"

definition GetParamBUnsafe :: "hsparams \<Rightarrow> string \<Rightarrow> string option \<Rightarrow> string option" where
  "GetParamBUnsafe p a def = (case map_of (param p) a of Some val \<Rightarrow> Some val | None \<Rightarrow> def)"

text \<open>The separator argument is not used: the values are split at commas.\<close>

definition GetParamA :: "hsparams \<Rightarrow> string \<Rightarrow> string \<Rightarrow> string list" where
  "GetParamA p a separator =
     (case map_of (param p) a of Some val \<Rightarrow> go_split (CHR '','') val | None \<Rightarrow> [])"

definition GetParamIA :: "hsparams \<Rightarrow> string \<Rightarrow> int list" where
  "GetParamIA p a =
     (case map_of (param p) a of
        Some val \<Rightarrow> map fst (filter snd (map atoi (go_split (CHR '','') val)))
      | None \<Rightarrow> [])"

definition GetParamI :: "hsparams \<Rightarrow> string \<Rightarrow> int \<Rightarrow> int" where
  "GetParamI p a def =
     (let ps = gm_get [] (param p) a
      in if ps = [] then def
         else (let (vi, ok) = atoi ps in if ok then vi else def))"

definition getParamInfo :: "hsparams \<Rightarrow> string" where
  "getParamInfo p =
     concat (map (\<lambda>k. let v = gm_get [] (param p) k
                     in k @ ''='' @ (if length v > 500 then take 500 v @ ''...'' else v) @ ''&'')
       (porder p))"

function wbr_chunks :: "string \<Rightarrow> string" where
  "wbr_chunks s = (if s = [] then [] else take 80 s @ ''<wbr>'' @ wbr_chunks (drop 80 s))"
  by auto
termination by (relation "measure length") auto

declare wbr_chunks.simps [simp del]

definition getParamInfoHTML :: "hsparams \<Rightarrow> string" where
  "getParamInfoHTML p =
     (let d = getParamInfo p
      in if length d > 60 then
           ''<span class='' @ [CHR 0x27] @ ''tooltip'' @ [CHR 0x27] @ ''>[...] '' @ take 60 d @ ''<div>''
           @ wbr_chunks d @ ''</div></span>''
         else ''<span>'' @ d @ ''</span>'')"

definition FastReturnBNocopy :: "hsparams \<Rightarrow> string \<Rightarrow> hsparams" where
  "FastReturnBNocopy p x = p\<lparr>fastreturn := Some x\<rparr>"

subsection \<open>Reading a message\<close>

definition add_param :: "string \<Rightarrow> string \<Rightarrow> hsparams \<Rightarrow> hsparams" where
  "add_param k v p = p\<lparr>param := gm_set (param p) k v, porder := porder p @ [k]\<rparr>"

text \<open>The loop over the pairs: whether it ended well, and the parameters read so far.\<close>

function read_pairs :: "string \<Rightarrow> nat \<Rightarrow> hsparams \<Rightarrow> (bool \<times> hsparams) go" where
  "read_pairs message pos p =
     (if pos < length message then
        (if pos + 2 \<ge> length message then Inr (False, p)
         else go_bind (go_slice message pos (pos + 2)) (\<lambda>kb.
           let k_s = u16 kb; pos1 = pos + 2
           in if pos1 + 4 \<ge> length message then Inr (False, p)
              else go_bind (go_slice message pos1 (pos1 + 4)) (\<lambda>vb.
                let v_s = u32 vb; pos2 = pos1 + 4
                in if pos2 + k_s + v_s > length message then Inr (False, p)
                   else go_bind (go_slice message pos2 (pos2 + k_s)) (\<lambda>k.
                     go_bind (go_slice message (pos2 + k_s) (pos2 + k_s + v_s)) (\<lambda>v.
                       read_pairs message (pos2 + k_s + v_s) (add_param k v p))))))
      else Inr (True, p))"
  by auto
termination by (relation "measure (\<lambda>(m, pos, p). length m - pos)") auto

declare read_pairs.simps [simp del]

text \<open>\<open>ReadHSParams\<close>: the guid, or \<open>None\<close> for nil, and the filled parameters.\<close>

definition ReadHSParams :: "string \<Rightarrow> hsparams \<Rightarrow> (string option \<times> hsparams) go" where
  "ReadHSParams message p =
     (if 2 \<ge> length message then Inr (None, p)
      else go_bind (go_slice message 0 2) (\<lambda>gb.
        let guid_size = u16 gb
        in if 2 + guid_size \<ge> length message then Inr (None, p)
           else go_bind (go_slice message 2 (2 + guid_size)) (\<lambda>guid.
             go_bind (go_slice message (2 + guid_size) (length message)) (\<lambda>rest.
               if rest = [] then Inr (None, p)
               else go_bind (read_pairs rest 0 p) (\<lambda>(ok, p').
                 Inr (if ok then Some guid else None, p'))))))"

subsection \<open>The messages a client writes\<close>

definition put_pair :: "string \<times> string \<Rightarrow> string" where
  "put_pair kv = put_u16 (length (fst kv)) @ put_u32 (length (snd kv)) @ fst kv @ snd kv"

definition put_message :: "string \<Rightarrow> (string \<times> string) list \<Rightarrow> string" where
  "put_message guid kvs = put_u16 (length guid) @ guid @ concat (map put_pair kvs)"

definition pair_ok :: "string \<times> string \<Rightarrow> bool" where
  "pair_ok kv \<longleftrightarrow> length (fst kv) < 65536 \<and> length (snd kv) < 4294967296 \<and> kv \<noteq> ([], [])"

definition add_params :: "(string \<times> string) list \<Rightarrow> hsparams \<Rightarrow> hsparams" where
  "add_params kvs p = fold (\<lambda>(k, v). add_param k v) kvs p"

lemma slice_append:
  "go_slice (a @ b @ c) (length a) (length a + length b) = Inr b"
  by simp

lemma read_pairs_put:
  assumes "\<forall>kv \<in> set kvs. pair_ok kv"
  shows "read_pairs (pre @ concat (map put_pair kvs)) (length pre) p = Inr (True, add_params kvs p)"
  using assms
proof (induction kvs arbitrary: pre p)
  case Nil
  then show ?case by (subst read_pairs.simps) (simp add: add_params_def)
next
  case (Cons kv kvs)
  obtain k v where kv: "kv = (k, v)" by force
  let ?rest = "concat (map put_pair kvs)"
  define m where "m = pre @ put_u16 (length k) @ put_u32 (length v) @ k @ v @ ?rest"
  have len: "length m = length pre + 6 + length k + length v + length ?rest" by (simp add: m_def)
  have ok: "length k < 65536" "length v < 4294967296" "0 < length k + length v"
    using Cons.prems kv by (auto simp: pair_ok_def)
  have s1: "go_slice m (length pre) (length pre + 2) = Inr (put_u16 (length k))"
    using slice_append [of pre "put_u16 (length k)"] by (simp add: m_def)
  have s2: "go_slice m (length pre + 2) (length pre + 2 + 4) = Inr (put_u32 (length v))"
    using slice_append [of "pre @ put_u16 (length k)" "put_u32 (length v)"] by (simp add: m_def)
  have s3: "go_slice m (length pre + 2 + 4) (length pre + 2 + 4 + length k) = Inr k"
    using slice_append [of "pre @ put_u16 (length k) @ put_u32 (length v)" k] by (simp add: m_def)
  have s4: "go_slice m (length pre + 2 + 4 + length k) (length pre + 2 + 4 + length k + length v) = Inr v"
    using slice_append [of "pre @ put_u16 (length k) @ put_u32 (length v) @ k" v] by (simp add: m_def)
  have IH: "read_pairs m (length pre + 2 + 4 + length k + length v) (add_param k v p) =
      Inr (True, add_params kvs (add_param k v p))"
    using Cons.IH [of "pre @ put_u16 (length k) @ put_u32 (length v) @ k @ v" "add_param k v p"]
      Cons.prems by (simp add: m_def ac_simps)
  have bounds: "length pre < length m" "\<not> length m \<le> length pre + 2" "\<not> length m \<le> length pre + 2 + 4"
    "\<not> length m < length pre + 2 + 4 + length k + length v"
    using ok len by linarith+
  have "read_pairs m (length pre) p = Inr (True, add_params kvs (add_param k v p))"
    by (subst read_pairs.simps)
      (simp only: bounds s1 s2 s3 s4 IH u16_put [OF ok(1)] u32_put [OF ok(2)] Let_def go_bind_simps
        if_True if_False simp_thms)
  moreover have "put_pair (k, v) = put_u16 (length k) @ put_u32 (length v) @ k @ v"
    by (simp add: put_pair_def)
  ultimately show ?case by (simp add: kv add_params_def m_def)
qed

lemma params_round_trip_core:
  assumes "length guid < 65536" "kvs \<noteq> []" "\<forall>kv \<in> set kvs. pair_ok kv"
  shows "ReadHSParams (put_message guid kvs) CreateHSParams =
      Inr (Some guid, \<lparr>param = fold (\<lambda>(k, v) m. gm_set m k v) kvs [], porder = map fst kvs,
                      fastreturn = None, additional_resp_headers = []\<rparr>)"
proof -
  let ?body = "concat (map put_pair kvs)"
  have ne: "0 < length ?body"
    using assms(2) by (cases kvs) (simp_all add: put_pair_def put_u16_def)
  have fill: "add_params kvs p = p\<lparr>param := fold (\<lambda>(k, v) m. gm_set m k v) kvs (param p),
      porder := porder p @ map fst kvs\<rparr>" for p
    by (induction kvs arbitrary: p) (auto simp: add_params_def add_param_def)
  have m: "put_message guid kvs = put_u16 (length guid) @ guid @ ?body"
    by (simp add: put_message_def)
  have s1: "go_slice (put_message guid kvs) 0 2 = Inr (put_u16 (length guid))"
    using slice_append [of "[]" "put_u16 (length guid)" "guid @ ?body"] by (simp add: m)
  have s2: "go_slice (put_message guid kvs) 2 (2 + length guid) = Inr guid"
    using slice_append [of "put_u16 (length guid)" guid ?body] by (simp add: m)
  have s3: "go_slice (put_message guid kvs) (2 + length guid) (length (put_message guid kvs)) = Inr ?body"
    using slice_append [of "put_u16 (length guid) @ guid" ?body "[]"] by (simp add: m)
  show ?thesis
    using assms ne read_pairs_put [OF assms(3), of "[]" CreateHSParams]
    by (simp add: ReadHSParams_def s1 s2 s3 u16_put Let_def del: go_slice_ok)
      (simp add: m fill CreateHSParams_def)
qed

text \<open>
  C13. What a client writes is what the server reads: a message with a guid and at least one
  pair, no pair empty on both sides, lengths in range, is decoded to that guid and exactly
  those pairs, in order, a later value of a key replacing an earlier one.
\<close>

theorem params_round_trip:
  assumes "length guid < 65536" "kvs \<noteq> []" "\<forall>kv \<in> set kvs. pair_ok kv"
  shows "ReadHSParams (put_message guid kvs) CreateHSParams =
      Inr (Some guid, \<lparr>param = fold (\<lambda>(k, v) m. gm_set m k v) kvs [], porder = map fst kvs,
                      fastreturn = None, additional_resp_headers = []\<rparr>)"
  using assms by (rule params_round_trip_core)

lemma read_pairs_no_panic: "no_panic (read_pairs m pos p)"
proof (induction m pos p rule: read_pairs.induct)
  case (1 m pos p)
  then show ?case by (subst read_pairs.simps) (auto simp: Let_def intro!: no_panic_bind)
qed

text \<open>
  No message crashes the reader: whatever bytes arrive and whatever lengths they claim, every
  slice stays inside the message and the reader returns.
\<close>

theorem params_no_panic: "no_panic (ReadHSParams message p)"
  by (auto simp: ReadHSParams_def Let_def read_pairs_no_panic intro!: no_panic_bind)

lemma params_round_trip_witness:
  "\<exists>p. ReadHSParams (put_message ''g1'' [(''action'', ''echo''), (''a'', [])]) CreateHSParams =
      Inr (Some ''g1'', p) \<and> GetParam p ''action'' ''?'' = ''echo''"
  using params_round_trip [of "''g1''" "[(''action'', ''echo''), (''a'', [])]"]
  by (simp add: pair_ok_def GetParam_def map_of_gm_set)

end
