(* ===== verification/Handlers.thy ===== *)
theory Handlers
  imports HealthChecker HSParams
begin

text \<open>
  The request handlers of the proxy: \<open>handle_solana_01\<close> (typed calls with retries),
  \<open>handle_solana_raw/solana_raw.go\<close> (any method) and
  \<open>handle_solana_raw/public_passthrough_proxy.go\<close> (forwarding of JSON-RPC posts). The loops are
  polymorphic in the world they run in; \<open>view\<close> reads the clients from it and \<open>call\<close> asks one.
\<close>

subsection \<open>Asking one client after the other\<close>

text \<open>\<open>GetPublicClient\<close>, or any client when there is none.\<close>

definition next_client :: "store \<Rightarrow> scheduler \<Rightarrow> ref option \<times> scheduler" where
  "next_client st sch =
     (let (cl, s) = GetPublicClient st sch
      in case cl of None \<Rightarrow> GetAnyClient st s | Some r \<Rightarrow> (Some r, s))"

lemma next_client_remaining:
  "next_client st sch = (Some r, s) \<Longrightarrow> remaining s < remaining sch"
  using GetPublicClient_remaining [of st sch] pick_next_remaining(2) [of st "snd (GetPublicClient st sch)"]
  by (auto simp: next_client_def GetAnyClient_def split: prod.splits option.splits)

lemma any_client_remaining: "GetAnyClient st sch = (Some r, s) \<Longrightarrow> remaining s < remaining sch"
  using pick_next_remaining(2) [of st sch] by (simp add: GetAnyClient_def)

definition no_client_2 :: string where
  "no_client_2 = ''{'' @ json_string ''error'' @ '':'' @ json_string ''can't find appropriate client (2)'' @ ''}''"

text \<open>\<open>for result != R_OK\<close>: an error text when no client is left, else the answer.\<close>

function retry_loop ::
  "('w \<Rightarrow> store) \<Rightarrow> (ref \<Rightarrow> 'w \<Rightarrow> (string option \<times> response_type \<times> 'w) go) \<Rightarrow> scheduler \<Rightarrow> 'w
     \<Rightarrow> string option \<Rightarrow> response_type \<Rightarrow> ((string + string option) \<times> scheduler \<times> 'w) go" where
  "retry_loop view call sch w ret result =
     (if result = R_OK then Inr (Inr ret, sch, w)
      else
        (case next_client (view w) sch of
           (None, s) \<Rightarrow> Inr (Inl no_client_2, s, w)
         | (Some r, s) \<Rightarrow>
             (case call r w of
                Inl p \<Rightarrow> Inl p
              | Inr (ret', result', w') \<Rightarrow> retry_loop view call s w' ret' result')))"
  by pat_completeness auto
termination
  by (relation "measure (\<lambda>(v, c, sch, w, ret, result). remaining sch)") (auto dest: next_client_remaining [OF sym])

declare retry_loop.simps [simp del]

definition call_client ::
  "(solclient \<Rightarrow> (string option \<times> response_type \<times> solclient) go) \<Rightarrow> ref \<Rightarrow> store
     \<Rightarrow> (string option \<times> response_type \<times> store) go" where
  "call_client f r st = go_bind (f (st r)) (\<lambda>(ret, ty, c). Inr (ret, ty, st(r := c)))"

definition json_error :: "string \<Rightarrow> string" where
  "json_error msg = ''{'' @ json_string ''error'' @ '':'' @ json_string msg @ ''}''"

subsection \<open>Typed calls\<close>

definition forced_scheduler :: "ref list \<Rightarrow> hsparams \<Rightarrow> scheduler" where
  "forced_scheduler clients data =
     (let s0 = MakeScheduler clients;
          s1 = (if GetParamI data ''public'' 0 = 1 then ForcePublic s0 True else s0)
      in if GetParamI data ''private'' 0 = 1 then ForcePrivate s1 True else s1)"

definition max_version_of :: "string \<Rightarrow> hsparams \<Rightarrow> int" where
  "max_version_of action data =
     (if action = ''getBlock'' \<or> action = ''getTransaction'' then
        (let mstv = GetParam data ''maxSupportedTransactionVersion'' []
         in if mstv = [] then 0
            else if mstv = ''0'' then 0
            else if equal_fold ''legacy'' mstv then - 1
            else - 2)
      else 0)"

text \<open>Call the first client, then the others until one succeeds.\<close>

definition first_and_retry ::
  "(solclient \<Rightarrow> (string option \<times> response_type \<times> solclient) go) \<Rightarrow> ref \<Rightarrow> scheduler \<Rightarrow> hsparams \<Rightarrow> store
     \<Rightarrow> (string \<times> hsparams \<times> store) go" where
  "first_and_retry f cl sch data st =
     go_bind (call_client f cl st) (\<lambda>(ret, result, st1).
       go_bind (retry_loop (\<lambda>w. w) (call_client f) sch st1 ret result) (\<lambda>(reply, _, st2).
         case reply of
           Inl e \<Rightarrow> Inr (e, data, st2)
         | Inr r \<Rightarrow> Inr ([], data\<lparr>fastreturn := r\<rparr>, st2)))"

definition handle_solana_01 ::
  "net \<Rightarrow> ref list \<Rightarrow> string \<Rightarrow> hsparams \<Rightarrow> store \<Rightarrow> (string \<times> hsparams \<times> store) go" where
  "handle_solana_01 w clients action data st =
     (case GetAnyClient st (forced_scheduler clients data) of
        (None, _) \<Rightarrow> Inr (json_error ''can't find appropriate client'', data, st)
      | (Some cl, sch) \<Rightarrow>
          (let mstv_i = max_version_of action data
           in if mstv_i = - 2 then
                Inr (json_error ''maxSupportedTransactionVersion needs to be 0 or legacy'', data, st)
              else if action = ''getBlock'' then
                (let block_no = GetParamI data ''block'' (- 1)
                 in if block_no = - 1 then
                      Inr (''{'' @ json_string ''error'' @ '':'' @ quote
                           @ ''provide block number as &block=123'' @ quote @ ''}'', data, st)
                    else first_and_retry (GetBlock w block_no mstv_i) cl (SetMinBlock sch block_no) data st)
              else if action = ''getTransaction'' then
                (let hash = GetParam data ''hash'' []
                 in if hash = [] then
                      Inr (''{'' @ json_string ''error'' @ '':'' @ quote
                           @ ''provide transaction &hash=123'' @ quote @ ''}'', data, st)
                    else first_and_retry (GetTransaction w hash mstv_i) cl sch data st)
              else if action = ''getBalance'' \<or> action = ''getTokenSupply'' then
                (let pubkey = GetParam data ''pubkey'' []
                 in if pubkey = [] then
                      Inr (''{'' @ json_string ''error'' @ '':'' @ quote
                           @ ''provide pubkey &pubkey=123, and optionally &commitment='' @ quote @ ''}'', data, st)
                    else first_and_retry (SimpleCall w action pubkey (GetParam data ''commitment'' []))
                           cl sch data st)
              else Inr (''No function?!'', data, st)))"

subsection \<open>Raw calls\<close>

text \<open>The last resort: any client, as long as the answer is "throttled".\<close>

function throttled_loop ::
  "('w \<Rightarrow> store) \<Rightarrow> (ref \<Rightarrow> 'w \<Rightarrow> (string option \<times> response_type \<times> 'w) go) \<Rightarrow> scheduler \<Rightarrow> 'w
     \<Rightarrow> string option \<Rightarrow> response_type \<Rightarrow> (string option \<times> response_type \<times> 'w) go" where
  "throttled_loop view call sch w ret result =
     (if result \<noteq> R_THROTTLED then Inr (ret, result, w)
      else
        (case GetAnyClient (view w) sch of
           (None, s) \<Rightarrow> Inr (ret, result, w)
         | (Some r, s) \<Rightarrow>
             (case call r w of
                Inl p \<Rightarrow> Inl p
              | Inr (ret', result', w') \<Rightarrow> throttled_loop view call s w' ret' result')))"
  by pat_completeness auto
termination
  by (relation "measure (\<lambda>(v, c, sch, w, ret, result). remaining sch)")
    (auto dest: any_client_remaining [OF sym])

declare throttled_loop.simps [simp del]

definition good_answer :: "string option \<Rightarrow> response_type \<Rightarrow> bool" where
  "good_answer ret result = (case ret of None \<Rightarrow> False | Some b \<Rightarrow> result = R_OK \<and> decode_result b \<noteq> None)"

definition handle_solana_raw ::
  "net \<Rightarrow> ref list \<Rightarrow> hsparams \<Rightarrow> store \<Rightarrow> (string \<times> hsparams \<times> store) go" where
  "handle_solana_raw w clients data st =
     (case GetAnyClient st (forced_scheduler clients data) of
        (None, _) \<Rightarrow> Inr (json_error ''can't find appropriate client'', data, st)
      | (Some cl, sch) \<Rightarrow>
          (let method = GetParam data ''method'' []; params = GetParam data ''params'' [];
               call = call_client (RequestBasic w [method, params]);
               fast = (\<lambda>ret s. Inr ([], data\<lparr>fastreturn := ret\<rparr>, s))
           in if method = [] then
                Inr (''{'' @ json_string ''error'' @ '':'' @ quote
                  @ ''provide transaction &method=getConfirmedBlock and optionally &amp;params=[94435095] add &public=1 if you want to force the request to be run on public node''
                  @ quote @ ''}'', data, st)
              else
                go_bind (call cl st) (\<lambda>(ret, result, st1).
                  if good_answer ret result then fast ret st1
                  else
                    (let (cl2, sch2) = GetPublicClient st1 sch
                     in go_bind (case cl2 of None \<Rightarrow> Inr (ret, result, st1) | Some r \<Rightarrow> call r st1)
                          (\<lambda>(ret2, result2, st2).
                            if good_answer ret2 result2 then fast ret2 st2
                            else
                              go_bind (throttled_loop (\<lambda>w. w) call sch2 st2 ret2 result2)
                                (\<lambda>(ret3, result3, st3).
                                  if ret3 \<noteq> None then fast ret3 st3
                                  else Inr (json_error ''unknown issue'', data, st3)))))))"

subsection \<open>Forwarding of JSON-RPC posts\<close>

definition passthrough_err :: "string \<Rightarrow> string" where
  "passthrough_err msg =
     ''{'' @ json_string ''error'' @ '':{'' @ json_string ''code'' @ '':111,'' @ json_string ''message'' @ '':''
     @ json_string msg @ '','' @ json_string ''proxy_error'' @ '':true}}''"

fun forward_loop ::
  "(ref \<Rightarrow> 'w \<Rightarrow> (response_type \<times> string option \<times> 'w) go) \<Rightarrow> ref list \<Rightarrow> nat \<Rightarrow> 'w \<Rightarrow> (string option \<times> 'w) go" where
  "forward_loop call [] errors w = Inr (Some (passthrough_err ''Request failed''), w)"
| "forward_loop call (r # rs) errors w =
     (case call r w of
        Inl p \<Rightarrow> Inl p
      | Inr (ty, data, w') \<Rightarrow>
          if ty = R_OK then Inr (data, w')
          else if ty = R_ERROR then
            (if errors + 1 \<ge> 2 then Inr (Some (passthrough_err ''Request failed (e)''), w')
             else forward_loop call rs (errors + 1) w')
          else forward_loop call rs errors w')"

text \<open>The HTTP plugin: \<open>None\<close> when it leaves the request to others. The test for an opening bracket
  cannot change its mind: the flag is true already.\<close>

fun looks_like_json :: "string \<Rightarrow> bool \<Rightarrow> bool" where
  "looks_like_json [] is_rpc = is_rpc"
| "looks_like_json (c # cs) is_rpc =
     (if c = CHR ''{'' then True
      else if c = CHR 0x0A \<or> c = CHR 0x0D \<or> c = CHR '' '' then looks_like_json cs is_rpc
      else is_rpc)"

definition forward_client :: "net \<Rightarrow> string \<Rightarrow> ref \<Rightarrow> store \<Rightarrow> (response_type \<times> string option \<times> store) go" where
  "forward_client w post r st =
     go_bind (RequestForward w post (st r)) (\<lambda>(ty, data, c). Inr (ty, data, st(r := c)))"

definition passthrough_plugin ::
  "net \<Rightarrow> ref list \<Rightarrow> string \<Rightarrow> string \<Rightarrow> store \<Rightarrow> (string option \<times> store) option go" where
  "passthrough_plugin w clients content_type post st =
     (let is_rpc = equal_fold ''application/json'' content_type
      in if \<not> is_rpc then Inr None
         else if \<not> looks_like_json post is_rpc then Inr None
         else
           go_bind (GetAllSorted st (MakeScheduler clients) False False) (\<lambda>cs.
             if cs = [] then Inr (Some (Some (passthrough_err ''Can't find any client''), st))
             else go_bind (forward_loop (forward_client w post) cs 0 st) (\<lambda>r. Inr (Some r))))"

end
