(* ===== verification/HandlersCorrect.thy ===== *)
theory HandlersCorrect
  imports Handlers
begin

text \<open>
  What the handlers promise: retrying ends and asks no client twice; it gives up only when no
  client is left that could serve; forwarding follows the score order and stops at the second
  error. The world carries a log of the clients asked.
\<close>

type_synonym 'r log_world = "store \<times> 'r list"

definition logged ::
  "(ref \<Rightarrow> store \<Rightarrow> ('a \<times> 'b \<times> store) go) \<Rightarrow> ref \<Rightarrow> store \<times> ref list \<Rightarrow> ('a \<times> 'b \<times> (store \<times> ref list)) go" where
  "logged call r w = go_bind (call r (fst w)) (\<lambda>(a, b, st). Inr (a, b, (st, snd w @ [r])))"

text \<open>The references a scheduler still holds.\<close>

definition held :: "scheduler \<Rightarrow> ref list" where
  "held s = map the (filter (\<lambda>v. v \<noteq> None) (sch_clients s))"

lemma held_iff: "r \<in> set (held s) \<longleftrightarrow> Some r \<in> set (sch_clients s)"
  by (force simp: held_def)

lemma held_blank: "\<exists>P. map the (filter (\<lambda>v. v \<noteq> None) (map (blank st) vs)) =
    filter P (map the (filter (\<lambda>v. v \<noteq> None) vs))"
proof -
  have "map the (filter (\<lambda>v. v \<noteq> None) (map (blank st) vs)) =
      filter (\<lambda>r. blank st (Some r) \<noteq> None) (map the (filter (\<lambda>v. v \<noteq> None) vs))"
    by (induction vs) (auto simp: blank_def split: option.splits)
  then show ?thesis by blast
qed

lemma held_drop:
  assumes "distinct (map the (filter (\<lambda>v. v \<noteq> None) vs))" "i < length vs" "vs ! i = Some r"
  shows "distinct (map the (filter (\<lambda>v. v \<noteq> None) (vs[i := None])))
    \<and> Some r \<notin> set (vs[i := None])
    \<and> set (map the (filter (\<lambda>v. v \<noteq> None) (vs[i := None]))) \<subseteq> set (map the (filter (\<lambda>v. v \<noteq> None) vs))"
  using assms
proof (induction vs arbitrary: i)
  case (Cons v vs)
  show ?case
  proof (cases i)
    case 0
    with Cons.prems have "r \<notin> set (map the (filter (\<lambda>v. v \<noteq> None) vs))" by auto
    then have "Some r \<notin> set vs" by force
    with 0 Cons.prems show ?thesis by (auto split: if_splits)
  next
    case (Suc j)
    then have IH: "distinct (map the (filter (\<lambda>v. v \<noteq> None) (vs[j := None])))"
      "Some r \<notin> set (vs[j := None])"
      "set (map the (filter (\<lambda>v. v \<noteq> None) (vs[j := None]))) \<subseteq> set (map the (filter (\<lambda>v. v \<noteq> None) vs))"
      using Cons.IH [of j] Cons.prems by (auto split: if_splits)
    have "v \<noteq> Some r"
    proof
      assume "v = Some r"
      moreover have "Some r \<in> set vs" using Cons.prems Suc by (metis nth_Cons_Suc nth_mem Suc_less_eq length_Cons)
      ultimately show False using Cons.prems(1) by force
    qed
    with IH Suc Cons.prems(1) show ?thesis by (cases v) auto
  qed
qed simp

lemma pick_next_held:
  assumes "distinct (held s)"
  shows "distinct (held (snd (pick_next st s))) \<and> set (held (snd (pick_next st s))) \<subseteq> set (held s) \<and>
    (\<forall>r. fst (pick_next st s) = Some r \<longrightarrow> r \<in> set (held s) \<and> r \<notin> set (held (snd (pick_next st s))))"
proof -
  obtain P where P: "map the (filter (\<lambda>v. v \<noteq> None) (map (blank st) (sch_clients s))) = filter P (held s)"
    using held_blank unfolding held_def by blast
  show ?thesis
  proof (cases rule: pick_next_cases [of st s])
    case (none s')
    with assms P show ?thesis by (simp add: held_def)
  next
    case (picked i r)
    let ?b = "map (blank st) (sch_clients s)"
    have "distinct (map the (filter (\<lambda>v. v \<noteq> None) ?b))" "?b ! i = Some r"
      using P assms picked by (simp_all add: blank_eligible)
    note d = held_drop [OF this(1) _ this(2)]
    let ?t = "s\<lparr>sch_clients := ?b[i := None]\<rparr>"
    have held: "held ?t = map the (filter (\<lambda>v. v \<noteq> None) (?b[i := None]))" by (simp add: held_def)
    have "distinct (held ?t)" "set (held ?t) \<subseteq> set (filter P (held s))"
      using d picked(2) unfolding held P by auto
    moreover have "r \<notin> set (held ?t)"
      using d picked(2) by (simp add: held_iff)
    ultimately have "distinct (held (snd (pick_next st s)))" "r \<notin> set (held (snd (pick_next st s)))"
      "set (held (snd (pick_next st s))) \<subseteq> set (filter P (held s))"
      using picked(1) by simp_all
    moreover have "r \<in> set (held s)" using picked(2,3) by (metis held_iff nth_mem)
    ultimately show ?thesis using picked(1) by auto
  qed
qed

lemma next_client_held:
  assumes "distinct (held s)"
  shows "distinct (held (snd (next_client st s))) \<and> set (held (snd (next_client st s))) \<subseteq> set (held s) \<and>
    (\<forall>r. fst (next_client st s) = Some r \<longrightarrow> r \<in> set (held s) \<and> r \<notin> set (held (snd (next_client st s))))"
proof -
  have pub: "held (u\<lparr>force_public := b\<rparr>) = held u" for u b by (simp add: held_def)
  obtain cl s1 where g: "GetPublicClient st s = (cl, s1)" by force
  have s1: "distinct (held s1) \<and> set (held s1) \<subseteq> set (held s) \<and>
      (\<forall>r. cl = Some r \<longrightarrow> r \<in> set (held s) \<and> r \<notin> set (held s1))"
    using g pick_next_held [OF assms, of st] pick_next_held [of "s\<lparr>force_public := True\<rparr>" st] assms
    by (auto simp: GetPublicClient_def pub split: if_splits prod.splits)
  show ?thesis
  proof (cases cl)
    case None
    have "next_client st s = pick_next st s1" by (simp add: next_client_def g None GetAnyClient_def)
    then show ?thesis using s1 pick_next_held [of s1 st] by auto
  next
    case (Some r)
    have "next_client st s = (Some r, s1)" by (simp add: next_client_def g Some)
    then show ?thesis using s1 Some by auto
  qed
qed

lemma next_client_none:
  assumes "next_client st s = (None, s')"
  shows "\<forall>r. Some r \<in> set (sch_clients s') \<longrightarrow> \<not> eligible st s' r"
proof -
  obtain cl s1 where g: "GetPublicClient st s = (cl, s1)" by force
  with assms have p: "pick_next st s1 = (None, s')"
    by (auto simp: next_client_def GetAnyClient_def split: option.splits)
  then show ?thesis
  proof (cases rule: pick_next_cases [of st s1])
    case (none u)
    have from_blank: "Some r \<in> set (sch_clients s1)" if "Some r \<in> set (sch_clients s')" for r
    proof -
      from that none p obtain v where "v \<in> set (sch_clients s1)" "blank st v = Some r" by force
      then show ?thesis by (auto simp: blank_def split: option.splits if_splits)
    qed
    have "eligible st s' r = eligible st s1 r" for r
      using none p by (simp add: eligible_def filtered_out_def)
    with none from_blank show ?thesis by blast
  qed simp
qed

text \<open>
  C19. Retrying ends and is fair. Starting from a scheduler that holds each client once, the retry
  loop asks clients of the scheduler, none of them twice; an answer it returns was given as
  \<open>R_OK\<close>; and when it gives up, no client that it still holds can serve the request.
\<close>

theorem retry_asks_once:
  assumes "retry_loop fst (logged call) sch (st, asked) ret ty = Inr (reply, sch', (st', asked'))"
    "distinct (held sch)"
  shows "(\<exists>new. asked' = asked @ new \<and> distinct new \<and> set new \<subseteq> set (held sch)) \<and>
    (case reply of
       Inl e \<Rightarrow> e = no_client_2 \<and> (\<forall>r \<in> set (held sch'). \<not> eligible st' sch' r)
     | Inr ans \<Rightarrow> (asked' = asked \<and> ans = ret \<and> ty = R_OK) \<or>
         (\<exists>r u u'. r \<in> set asked' \<and> call r u = Inr (ans, R_OK, u')))"
  using assms
proof (induction "fst :: store \<times> ref list \<Rightarrow> store" "logged call" sch "(st, asked)" ret ty
    arbitrary: st asked rule: retry_loop.induct)
  case (1 sch ret ty st asked)
  show ?case
  proof (cases "ty = R_OK")
    case True
    with 1(2) show ?thesis by (subst (asm) retry_loop.simps) (auto intro!: exI [of _ "[]"])
  next
    case False
    obtain cl s where n: "next_client st sch = (cl, s)" by force
    note h = next_client_held [OF 1(3), of st, unfolded n]
    show ?thesis
    proof (cases cl)
      case None
      with 1(2) False n have "reply = Inl no_client_2" "sch' = s" "st' = st" "asked' = asked"
        by (subst (asm) retry_loop.simps, simp)+
      with next_client_none [of st sch s] n None show ?thesis
        by (auto simp: held_iff intro!: exI [of _ "[]"])
    next
      case (Some r)
      from 1(2) False n Some obtain ret1 ty1 st1 where c: "call r st = Inr (ret1, ty1, st1)"
        and rest: "retry_loop fst (logged call) s (st1, asked @ [r]) ret1 ty1 =
          Inr (reply, sch', (st', asked'))"
        by (subst (asm) retry_loop.simps) (cases "call r st"; auto simp: logged_def)
      have lc: "logged call r (st, asked) = Inr (ret1, ty1, (st1, asked @ [r]))"
        by (simp add: logged_def c)
      from h have dist: "distinct (held s)" by simp
      have n': "next_client (fst (st, asked)) sch = (Some r, s)" using n Some by simp
      have IH: "(\<exists>new. asked' = (asked @ [r]) @ new \<and> distinct new \<and> set new \<subseteq> set (held s)) \<and>
        (case reply of
           Inl e \<Rightarrow> e = no_client_2 \<and> (\<forall>r \<in> set (held sch'). \<not> eligible st' sch' r)
         | Inr ans \<Rightarrow> (asked' = asked @ [r] \<and> ans = ret1 \<and> ty1 = R_OK) \<or>
             (\<exists>r u u'. r \<in> set asked' \<and> call r u = Inr (ans, R_OK, u')))"
        using 1(1) [OF False n' [symmetric] refl lc refl refl rest dist] by simp
      then obtain new where new: "asked' = asked @ r # new" "distinct new" "set new \<subseteq> set (held s)" by auto
      have "distinct (r # new)" "set (r # new) \<subseteq> set (held sch)"
        using new h Some by auto
      moreover have "case reply of
           Inl e \<Rightarrow> e = no_client_2 \<and> (\<forall>r \<in> set (held sch'). \<not> eligible st' sch' r)
         | Inr ans \<Rightarrow> \<exists>r u u'. r \<in> set asked' \<and> call r u = Inr (ans, R_OK, u')"
        using IH c new(1) by (cases reply) auto
      ultimately show ?thesis using new(1) by (cases reply) (auto intro!: exI [of _ "r # new"])
    qed
  qed
qed

subsection \<open>Forwarding\<close>

definition logged2 ::
  "(ref \<Rightarrow> 'w \<Rightarrow> (response_type \<times> string option \<times> 'w) go) \<Rightarrow> ref \<Rightarrow> 'w \<times> (ref \<times> response_type) list
     \<Rightarrow> (response_type \<times> string option \<times> 'w \<times> (ref \<times> response_type) list) go" where
  "logged2 call r w =
     go_bind (call r (fst w)) (\<lambda>(ty, d, u). Inr (ty, d, (u, snd w @ [(r, ty)])))"

definition errors_in :: "(ref \<times> response_type) list \<Rightarrow> nat" where
  "errors_in l = length (filter (\<lambda>(_, ty). ty = R_ERROR) l)"

text \<open>
  Forwarding, in terms of the clients asked and how they answered. They are asked in the given
  order without gaps; throttled ones do not count; the first success ends the loop and is the
  reply; so does the second error; otherwise every client was asked.
\<close>

theorem forward_order:
  assumes "forward_loop (logged2 call) rs errs (w, asked) = Inr (out, (w', asked'))" "errs \<le> 1"
  shows "\<exists>new. asked' = asked @ new \<and> map fst new = take (length new) rs \<and>
    (\<forall>x \<in> set (butlast new). snd x \<noteq> R_OK) \<and> errs + errors_in new \<le> 2 \<and>
    (if new \<noteq> [] \<and> snd (last new) = R_OK
     then errs + errors_in new \<le> 1 \<and> (\<exists>u. call (fst (last new)) u = Inr (R_OK, out, w'))
     else if errs + errors_in new = 2 then out = Some (passthrough_err ''Request failed (e)'')
     else length new = length rs \<and> out = Some (passthrough_err ''Request failed''))"
  using assms
proof (induction rs arbitrary: errs w asked)
  case Nil
  then show ?case by (intro exI [of _ "[]"]) (simp add: errors_in_def)
next
  case (Cons r rs)
  from Cons.prems(1) obtain ty d u where c: "call r w = Inr (ty, d, u)"
    by (cases "call r w") (auto simp: logged2_def)
  have lc: "logged2 call r (w, asked) = Inr (ty, d, (u, asked @ [(r, ty)]))"
    by (simp add: logged2_def c)
  show ?case
  proof (cases "ty = R_OK \<or> (ty = R_ERROR \<and> errs = 1)")
    case True
    with Cons.prems lc c show ?thesis
      by (intro exI [of _ "[(r, ty)]"]) (auto simp: errors_in_def)
  next
    case False
    let ?e = "if ty = R_ERROR then errs + 1 else errs"
    have "forward_loop (logged2 call) rs ?e (u, asked @ [(r, ty)]) = Inr (out, (w', asked'))" "?e \<le> 1"
      using Cons.prems lc False by (auto split: if_splits)
    from Cons.IH [OF this] obtain new where new: "asked' = (asked @ [(r, ty)]) @ new"
      "map fst new = take (length new) rs" "\<forall>x \<in> set (butlast new). snd x \<noteq> R_OK"
      "?e + errors_in new \<le> 2"
      "if new \<noteq> [] \<and> snd (last new) = R_OK
       then ?e + errors_in new \<le> 1 \<and> (\<exists>u. call (fst (last new)) u = Inr (R_OK, out, w'))
       else if ?e + errors_in new = 2 then out = Some (passthrough_err ''Request failed (e)'')
       else length new = length rs \<and> out = Some (passthrough_err ''Request failed'')" by blast
    have e: "errs + errors_in ((r, ty) # new) = ?e + errors_in new"
      by (simp add: errors_in_def)
    show ?thesis
    proof (intro exI [of _ "(r, ty) # new"] conjI)
      show "if (r, ty) # new \<noteq> [] \<and> snd (last ((r, ty) # new)) = R_OK
        then errs + errors_in ((r, ty) # new) \<le> 1 \<and>
          (\<exists>u. call (fst (last ((r, ty) # new))) u = Inr (R_OK, out, w'))
        else if errs + errors_in ((r, ty) # new) = 2 then out = Some (passthrough_err ''Request failed (e)'')
        else length ((r, ty) # new) = length (r # rs) \<and> out = Some (passthrough_err ''Request failed'')"
      proof (cases "new \<noteq> [] \<and> snd (last new) = R_OK")
        case True
        with new(5) show ?thesis unfolding e by simp
      next
        case ok: False
        then have "snd (last ((r, ty) # new)) \<noteq> R_OK" using False by auto
        with new(5) ok show ?thesis unfolding e by simp
      qed
    qed (use new False e in auto)
  qed
qed

subsection \<open>Witnesses\<close>

definition answering :: "ref \<Rightarrow> store \<Rightarrow> (string option \<times> response_type \<times> store) go" where
  "answering r st = Inr (Some ''x'', if r = 1 then R_OK else R_ERROR, st)"

lemma retry_asks_once_witness:
  "\<exists>reply sch' st' asked'. retry_loop fst (logged answering) (MakeScheduler [0, 1]) (two_clients, []) None R_ERROR =
      Inr (reply, sch', (st', asked')) \<and> distinct asked' \<and> set asked' \<subseteq> {0, 1}"
proof -
  have total: "\<exists>reply sch' st' asked'. retry_loop fst (logged answering) s (st, l) ret ty =
      Inr (reply, sch', (st', asked'))" for s st l ret ty
  proof (induction "fst :: store \<times> ref list \<Rightarrow> store" "logged answering" s "(st, l)" ret ty
      arbitrary: st l rule: retry_loop.induct)
    case (1 s ret ty st l)
    then show ?case
      by (subst retry_loop.simps) (auto simp: logged_def answering_def split: prod.split option.split)
  qed
  then obtain reply sch' st' asked' where run:
    "retry_loop fst (logged answering) (MakeScheduler [0, 1]) (two_clients, []) None R_ERROR =
      Inr (reply, sch', (st', asked'))" by blast
  have "held (MakeScheduler [0, 1]) = [0, 1]" by (simp add: held_def MakeScheduler_def)
  with retry_asks_once [OF run] run show ?thesis by auto
qed

lemma forward_order_witness:
  "\<exists>out w' asked'. forward_loop (logged2 (\<lambda>r (w::unit). Inr (R_ERROR, None, w))) [7, 8, 9] 0 ((), []) =
      Inr (out, (w', asked')) \<and> length asked' \<le> 3"
proof -
  have run: "forward_loop (logged2 (\<lambda>r (w::unit). Inr (R_ERROR, None, w))) [7, 8, 9] 0 ((), []) =
      Inr (Some (passthrough_err ''Request failed (e)''), ((), [(7, R_ERROR), (8, R_ERROR)]))"
    by (simp add: logged2_def)
  from forward_order [OF run] run show ?thesis by auto
qed

end
