(* ===== verification/KVStore.thy ===== *)
theory KVStore
  imports HSParams "HOL-Library.Word"
begin

unbundle bit_operations_syntax

text \<open>
  The key-value plugin, \<open>gosol/handle_kvstore\<close>: ten pools chosen by a hash of the key, items with
  an expiry second (0 for none) and a flag that keeps an item from being read by a client. The
  interface is the locale \<open>kv_store\<close>.
\<close>

subsection \<open>The interface\<close>

locale kv_store =
  fixes inv :: "'s \<Rightarrow> bool"
    and put :: "'s \<Rightarrow> 'k \<Rightarrow> 'v \<Rightarrow> 's"
    and lookup :: "'s \<Rightarrow> 'k \<Rightarrow> 'v option"
  assumes put_inv: "inv s \<Longrightarrow> inv (put s k v)"
    and lookup_put: "inv s \<Longrightarrow> lookup (put s k v) k' = (if k' = k then Some v else lookup s k')"
begin

definition puts :: "'s \<Rightarrow> ('k \<times> 'v) list \<Rightarrow> 's" where
  "puts s kvs = fold (\<lambda>(k, v) s. put s k v) kvs s"

lemma puts_inv: "inv s \<Longrightarrow> inv (puts s kvs)"
  unfolding puts_def by (induction kvs arbitrary: s) (auto intro: put_inv)

text \<open>The last write wins.\<close>

lemma lookup_puts:
  "inv s \<Longrightarrow> lookup (puts s kvs) k =
     (case map_of (rev kvs) k of Some v \<Rightarrow> Some v | None \<Rightarrow> lookup s k)"
proof (induction kvs rule: rev_induct)
  case (snoc kv kvs)
  obtain k' v where kv: "kv = (k', v)" by force
  have "puts s (kvs @ [kv]) = put (puts s kvs) k' v" by (simp add: puts_def kv)
  with snoc puts_inv [of s kvs] show ?case by (auto simp: lookup_put kv)
qed (simp add: puts_def)

end

subsection \<open>Items and pools\<close>

record item =
  item_data :: "string option"
  item_expires :: int
  item_sensitive :: bool

definition zero_item :: item where
  "zero_item = \<lparr>item_data = None, item_expires = 0, item_sensitive = False\<rparr>"

type_synonym pools = "(string, item) gomap list"

definition pool_count :: "32 word" where
  "pool_count = 10"

definition empty_pools :: pools where
  "empty_pools = replicate (unat pool_count) []"

definition fasthash :: "string \<Rightarrow> 32 word" where
  "fasthash s = fold (\<lambda>c h. (h XOR word_of_nat (of_char c)) * 16777619) s 0"

definition getpool :: "string \<Rightarrow> nat" where
  "getpool k = unat (fasthash k mod pool_count)"

definition KeySet :: "int \<Rightarrow> string \<Rightarrow> string option \<Rightarrow> int \<Rightarrow> bool \<Rightarrow> pools \<Rightarrow> pools" where
  "KeySet now k data ttl is_sensitive pools =
     (let n = \<lparr>item_data = data, item_expires = (if ttl > 0 then now + ttl else 0),
               item_sensitive = is_sensitive\<rparr>;
          poolno = getpool k
      in pools[poolno := gm_set (pools ! poolno) k n])"

definition keyGet :: "int \<Rightarrow> string \<Rightarrow> string option \<Rightarrow> pools \<Rightarrow> item" where
  "keyGet now k def pools =
     (let tmp = gm_get zero_item (pools ! getpool k) k
      in if now \<le> item_expires tmp \<or> item_expires tmp = 0 then tmp
         else \<lparr>item_data = def, item_expires = 0, item_sensitive = False\<rparr>)"

definition KeyGet :: "int \<Rightarrow> string \<Rightarrow> string option \<Rightarrow> pools \<Rightarrow> string option" where
  "KeyGet now k def pools = item_data (keyGet now k def pools)"

text \<open>The help text is built when the key is missing but not returned.\<close>

definition handle_kvstore :: "int \<Rightarrow> string \<Rightarrow> hsparams \<Rightarrow> pools \<Rightarrow> string \<times> hsparams \<times> pools" where
  "handle_kvstore now action data pools =
     (let k = GetParam data ''k'' []
      in if action = ''keySet'' then
           (''{'' @ [CHR 0x22] @ ''result'' @ [CHR 0x22] @ '':'' @ [CHR 0x22] @ ''ok'' @ [CHR 0x22] @ ''}'', data,
            KeySet now k (Some (GetParam data ''v'' [])) (GetParamI data ''ttl'' 3600) False pools)
         else if action = ''keyGet'' then
           (let i = keyGet now k (Some []) pools
            in if item_sensitive i then (''Cannot retrieve sensitive data'', data, pools)
               else ([], data\<lparr>fastreturn := item_data i\<rparr>, pools))
         else (''No function?!'', data, pools))"

subsection \<open>The pools implement the interface\<close>

definition pools_ok :: "pools \<Rightarrow> bool" where
  "pools_ok p \<longleftrightarrow> length p = unat pool_count"

definition pool_lookup :: "pools \<Rightarrow> string \<Rightarrow> item option" where
  "pool_lookup p k = map_of (p ! getpool k) k"

definition pool_put :: "pools \<Rightarrow> string \<Rightarrow> item \<Rightarrow> pools" where
  "pool_put p k i = p[getpool k := gm_set (p ! getpool k) k i]"

lemma getpool_bound: "getpool k < unat pool_count"
  by (simp add: getpool_def pool_count_def unat_mod)

interpretation kv: kv_store pools_ok pool_put pool_lookup
proof
  show "pools_ok (pool_put s k v)" if "pools_ok s" for s k v
    using that by (simp add: pools_ok_def pool_put_def)
  show "pool_lookup (pool_put s k v) k' = (if k' = k then Some v else pool_lookup s k')"
    if "pools_ok s" for s k v k'
    using that getpool_bound [of k] getpool_bound [of k']
    by (cases "getpool k' = getpool k") (auto simp: pools_ok_def pool_lookup_def pool_put_def map_of_gm_set)
qed

text \<open>One call of \<open>KeySet\<close>: time, key, data, time to live, sensitive.\<close>

type_synonym kv_write = "int \<times> string \<times> string option \<times> int \<times> bool"

definition kv_item :: "kv_write \<Rightarrow> string \<times> item" where
  "kv_item wr = (case wr of (now, k, data, ttl, sens) \<Rightarrow>
     (k, \<lparr>item_data = data, item_expires = (if ttl > 0 then now + ttl else 0), item_sensitive = sens\<rparr>))"

definition kv_writes :: "kv_write list \<Rightarrow> pools" where
  "kv_writes ws = fold (\<lambda>(now, k, data, ttl, sens) p. KeySet now k data ttl sens p) ws empty_pools"

lemma kv_writes_puts: "kv_writes ws = kv.puts empty_pools (map kv_item ws)"
proof -
  have "fold (\<lambda>(now, k, data, ttl, sens) p. KeySet now k data ttl sens p) ws p = kv.puts p (map kv_item ws)" for p
    by (induction ws arbitrary: p)
      (auto simp: kv.puts_def KeySet_def pool_put_def kv_item_def Let_def)
  then show ?thesis by (simp add: kv_writes_def)
qed

lemma empty_lookup: "pool_lookup empty_pools k = None" "pools_ok empty_pools"
  using getpool_bound [of k] by (simp_all add: pool_lookup_def empty_pools_def pools_ok_def)

lemma lookup_writes: "pool_lookup (kv_writes ws) k = map_of (rev (map kv_item ws)) k"
  unfolding kv_writes_puts using kv.lookup_puts [OF empty_lookup(2), of "map kv_item ws" k]
  by (simp add: empty_lookup split: option.split)

lemma kv_last_write_aux:
  "keyGet now k def (kv_writes ws) =
     (case map_of (rev (map kv_item ws)) k of
        None \<Rightarrow> zero_item
      | Some i \<Rightarrow> if item_expires i = 0 \<or> now \<le> item_expires i then i
                  else \<lparr>item_data = def, item_expires = 0, item_sensitive = False\<rparr>)"
  using lookup_writes [of ws k]
  by (auto simp: keyGet_def pool_lookup_def gm_get_def zero_item_def Let_def split: option.splits)

text \<open>
  The store is a map with expiry. After any sequence of \<open>KeySet\<close> calls, \<open>keyGet\<close> gives the item
  of the last call for that key while it has not expired, the default once it has, and an empty
  item (not the default) for a key that was never set. Keys that share a pool do not interfere.
\<close>

theorem kv_last_write:
  "keyGet now k def (kv_writes ws) =
     (case map_of (rev (map kv_item ws)) k of
        None \<Rightarrow> zero_item
      | Some i \<Rightarrow> if item_expires i = 0 \<or> now \<le> item_expires i then i
                  else \<lparr>item_data = def, item_expires = 0, item_sensitive = False\<rparr>)"
  by (rule kv_last_write_aux)

text \<open>
  Sensitive data stays in. When the last write of a key was sensitive and has not expired, the
  client's \<open>keyGet\<close> returns the refusal, no data, and changes nothing.
\<close>

theorem sensitive_not_returned:
  assumes "map_of (rev (map kv_item ws)) (GetParam data ''k'' []) = Some i" "item_sensitive i"
    "item_expires i = 0 \<or> now \<le> item_expires i"
  shows "handle_kvstore now ''keyGet'' data (kv_writes ws) =
    (''Cannot retrieve sensitive data'', data, kv_writes ws)"
  using assms by (simp add: handle_kvstore_def kv_last_write_aux)

lemma sensitive_not_returned_witness:
  "fst (handle_kvstore 5 ''keyGet'' (SetParam CreateHSParams ''k'' ''genesys-1'')
     (kv_writes [(1, ''genesys-1'', Some ''token'', 0, True), (2, ''x'', Some ''y'', 9, False)])) =
   ''Cannot retrieve sensitive data''"
  using sensitive_not_returned [of "[(1, ''genesys-1'', Some ''token'', 0, True), (2, ''x'', Some ''y'', 9, False)]"
      "SetParam CreateHSParams ''k'' ''genesys-1''"
      "\<lparr>item_data = Some ''token'', item_expires = 0, item_sensitive = True\<rparr>" 5]
  by (simp add: GetParam_def SetParam_def CreateHSParams_def map_of_gm_set kv_item_def)

end
