(* ===== verification/Byteslabs.thy ===== *)
theory Byteslabs
  imports Prelude
begin

text \<open>
  The slab allocators \<open>handler_socket2/byteslabs\<close> and \<open>byteslabs2\<close>. Both have the same code; the
  second takes its sizes from a manager, the first has them as constants, so the model takes the
  sizes as a parameter (\<open>Byteslabs2\<close> follows the second one's code) and \<open>byteslabs_conf\<close> gives the constants. An allocated slice is a place in
  the memory of a chunk, or fresh memory. Every access to a chunk holds its lock; \<open>Allocate\<close>
  locks the chunk of the allocator and then that of its additional allocator, one after the other,
  and the model runs both parts as one step.
\<close>

record bs_conf =
  chunk_count :: nat
  slab_size :: nat
  slab_count :: nat

definition byteslabs_conf :: bs_conf where
  "byteslabs_conf = \<lparr>chunk_count = 8, slab_size = 40000, slab_count = 100\<rparr>"

record mem_chunk =
  slab_used :: "bool list"
  used_slab_count :: int
  stat_alloc_full :: int
  stat_alloc_full_small :: int
  stat_alloc_tail :: int
  stat_oom :: int
  stat_routed :: int
  stat_routed_alloc :: int

text \<open>An allocator on one chunk: the slabs it holds and the free bytes at the end of each.\<close>

record sub_alloc =
  al_chunk :: nat
  al_slabs :: "nat list"
  al_free :: "nat list"
  is_additional :: bool

record allocator =
  main_alloc :: sub_alloc
  addl_alloc :: "sub_alloc option"

datatype slice = Slab nat nat nat | HeapMem nat

subsection \<open>Construction\<close>

definition new_chunk :: "bs_conf \<Rightarrow> mem_chunk" where
  "new_chunk cf = \<lparr>slab_used = replicate (slab_count cf) False, used_slab_count = 0,
     stat_alloc_full = 0, stat_alloc_full_small = 0, stat_alloc_tail = 0, stat_oom = 0,
     stat_routed = 0, stat_routed_alloc = 0\<rparr>"

definition bs_make :: "bs_conf \<Rightarrow> mem_chunk list" where
  "bs_make cf = replicate (chunk_count cf) (new_chunk cf)"

definition new_sub :: "nat \<Rightarrow> bool \<Rightarrow> sub_alloc" where
  "new_sub c additional = \<lparr>al_chunk = c, al_slabs = [], al_free = [], is_additional = additional\<rparr>"

text \<open>\<open>MakeAllocator\<close>: the chunks are handed out in turn; \<open>counter\<close> is the 32-bit counter after the
  increment.\<close>

definition MakeAllocator :: "mem_chunk list \<Rightarrow> nat \<Rightarrow> allocator" where
  "MakeAllocator chunks counter =
     \<lparr>main_alloc = new_sub (counter mod length chunks) False, addl_alloc = None\<rparr>"

subsection \<open>Allocation in one chunk\<close>

text \<open>The smallest free tail that is large enough: its index and its size.\<close>

fun best_tail :: "nat list \<Rightarrow> nat \<Rightarrow> nat \<Rightarrow> (nat \<times> nat) option \<Rightarrow> (nat \<times> nat) option" where
  "best_tail [] req k best = best"
| "best_tail (v # vs) req k best =
     best_tail vs req (k + 1)
       (if v \<ge> req \<and> (case best of None \<Rightarrow> True | Some (_, m) \<Rightarrow> v < m) then Some (k, v) else best)"

fun last_free :: "bool list \<Rightarrow> nat \<Rightarrow> nat option" where
  "last_free used 0 = None"
| "last_free used (Suc n) = (if \<not> used ! n then Some n else last_free used n)"

text \<open>The end of the first run of \<open>need\<close> free slabs.\<close>

fun find_run :: "bool list \<Rightarrow> nat \<Rightarrow> nat \<Rightarrow> nat \<Rightarrow> nat option" where
  "find_run [] need pos free = None"
| "find_run (u # us) need pos free =
     (if \<not> u then (if free + 1 = need then Some pos else find_run us need (pos + 1) (free + 1))
      else find_run us need (pos + 1) 0)"

fun take_slabs :: "nat \<Rightarrow> nat \<Rightarrow> nat \<Rightarrow> sub_alloc \<Rightarrow> mem_chunk \<Rightarrow> sub_alloc \<times> mem_chunk" where
  "take_slabs slab_num 0 slab_free al mc = (al, mc)"
| "take_slabs slab_num (Suc n) slab_free al mc =
     take_slabs (slab_num + 1) n slab_free
       (al\<lparr>al_slabs := al_slabs al @ [slab_num],
           al_free := al_free al @ [if n = 0 then slab_free else 0]\<rparr>)
       (mc\<lparr>slab_used := (slab_used mc)[slab_num := True]\<rparr>)"

definition alloc_full :: "bs_conf \<Rightarrow> sub_alloc \<Rightarrow> mem_chunk \<Rightarrow> nat \<Rightarrow> nat \<Rightarrow> nat \<Rightarrow> nat
    \<Rightarrow> (nat \<times> nat) option \<times> sub_alloc \<times> mem_chunk" where
  "alloc_full cf al mc slab_num slabs_needed slab_free req =
     (let (al', mc') = take_slabs slab_num slabs_needed slab_free al
            (mc\<lparr>used_slab_count := used_slab_count mc + int slabs_needed,
                stat_routed_alloc := stat_routed_alloc mc + (if is_additional al then 1 else 0)\<rparr>)
      in (Some (slab_num * slab_size cf, req), al', mc'))"

definition out_of_memory :: "sub_alloc \<Rightarrow> mem_chunk \<Rightarrow> (nat \<times> nat) option \<times> sub_alloc \<times> mem_chunk" where
  "out_of_memory al mc = (None, al, mc\<lparr>stat_oom := stat_oom mc + 1\<rparr>)"

definition slab_tail :: "bs_conf \<Rightarrow> nat \<Rightarrow> nat" where
  "slab_tail cf req = (slab_size cf - req mod slab_size cf) mod slab_size cf"

definition slabs_for :: "bs_conf \<Rightarrow> nat \<Rightarrow> nat" where
  "slabs_for cf req = (if slab_tail cf req > 0 then req div slab_size cf + 1 else req div slab_size cf)"

text \<open>\<open>allocate_slab\<close>: start and size in the chunk's memory, or \<open>None\<close>.\<close>

definition allocate_slab ::
  "bs_conf \<Rightarrow> sub_alloc \<Rightarrow> mem_chunk \<Rightarrow> nat \<Rightarrow> (nat \<times> nat) option \<times> sub_alloc \<times> mem_chunk" where
  "allocate_slab cf al mc req =
     (let slab_free = slab_tail cf req; slabs_needed = slabs_for cf req
      in if int slabs_needed > int (slab_count cf) - used_slab_count mc then out_of_memory al mc
         else
           (case (if slabs_needed \<le> 1 then best_tail (al_free al) req 0 None else None) of
              Some (k, v) \<Rightarrow>
                (Some (al_slabs al ! k * slab_size cf + (slab_size cf - v), req),
                 al\<lparr>al_free := (al_free al)[k := v - req]\<rparr>,
                 mc\<lparr>stat_alloc_tail := stat_alloc_tail mc + 1,
                    stat_routed_alloc := stat_routed_alloc mc + (if is_additional al then 1 else 0)\<rparr>)
            | None \<Rightarrow>
                if slabs_needed \<le> 1 then
                  (case last_free (slab_used mc) (length (slab_used mc)) of
                     Some pos \<Rightarrow>
                       alloc_full cf al (mc\<lparr>stat_alloc_full_small := stat_alloc_full_small mc + 1\<rparr>)
                         pos slabs_needed slab_free req
                   | None \<Rightarrow> out_of_memory al mc)
                else
                  (case find_run (slab_used mc) slabs_needed 0 0 of
                     Some pos \<Rightarrow>
                       alloc_full cf al (mc\<lparr>stat_alloc_full := stat_alloc_full mc + 1\<rparr>)
                         (pos + 1 - slabs_needed) slabs_needed slab_free req
                   | None \<Rightarrow> out_of_memory al mc)))"

subsection \<open>Allocate and Release\<close>

text \<open>The chunk with the most free slabs among the others, if it has enough.\<close>

fun best_chunk :: "bs_conf \<Rightarrow> mem_chunk list \<Rightarrow> nat \<Rightarrow> nat \<Rightarrow> int \<Rightarrow> (nat \<times> int) option \<Rightarrow> (nat \<times> int) option" where
  "best_chunk cf [] i own need best = best"
| "best_chunk cf (mc # mcs) i own need best =
     (let free = int (slab_count cf) - used_slab_count mc
      in best_chunk cf mcs (i + 1) own need
           (if i \<noteq> own \<and> free \<ge> need \<and> (case best of None \<Rightarrow> free > - 1 | Some (_, f) \<Rightarrow> free > f)
            then Some (i, free) else best))"

definition take_additional :: "bs_conf \<Rightarrow> mem_chunk list \<Rightarrow> int \<Rightarrow> allocator \<Rightarrow> allocator" where
  "take_additional cf chunks need this =
     (if is_additional (main_alloc this) \<or> addl_alloc this \<noteq> None then this
      else
        (case best_chunk cf chunks 0 (al_chunk (main_alloc this)) need None of
           None \<Rightarrow> this
         | Some (i, _) \<Rightarrow> this\<lparr>addl_alloc := Some (new_sub i True)\<rparr>))"

definition Allocate :: "bs_conf \<Rightarrow> mem_chunk list \<Rightarrow> allocator \<Rightarrow> nat \<Rightarrow> slice \<times> allocator \<times> mem_chunk list" where
  "Allocate cf chunks this req =
     (if req \<le> 96 then (HeapMem req, this, chunks)
      else
        (let c = al_chunk (main_alloc this);
             (r, al, mc) = allocate_slab cf (main_alloc this) (chunks ! c) req;
             this1 = this\<lparr>main_alloc := al\<rparr>; chunks1 = chunks[c := mc]
         in case r of
              Some (st, sz) \<Rightarrow> (Slab c st sz, this1, chunks1)
            | None \<Rightarrow>
                (let this2 = (if addl_alloc this1 = None \<and> \<not> is_additional (main_alloc this1)
                              then take_additional cf chunks1 (int (req div slab_size cf) + 5) this1
                              else this1)
                 in case addl_alloc this2 of
                      None \<Rightarrow> (HeapMem req, this2, chunks1)
                    | Some ad \<Rightarrow>
                        (let chunks2 = chunks1[c := (chunks1 ! c)\<lparr>stat_routed := stat_routed (chunks1 ! c) + 1\<rparr>];
                             d = al_chunk ad;
                             (r2, ad', mc2) = allocate_slab cf ad (chunks2 ! d) req;
                             this3 = this2\<lparr>addl_alloc := Some ad'\<rparr>; chunks3 = chunks2[d := mc2]
                         in case r2 of
                              Some (st, sz) \<Rightarrow> (Slab d st sz, this3, chunks3)
                            | None \<Rightarrow> (HeapMem req, this3, chunks3)))))"

definition release_sub :: "sub_alloc \<Rightarrow> mem_chunk list \<Rightarrow> sub_alloc \<times> mem_chunk list" where
  "release_sub al chunks =
     (let c = al_chunk al; mc = chunks ! c
      in (al\<lparr>al_slabs := [], al_free := []\<rparr>,
          chunks[c := mc\<lparr>slab_used := fold (\<lambda>v u. u[v := False]) (al_slabs al) (slab_used mc),
                         used_slab_count := used_slab_count mc - int (length (al_slabs al))\<rparr>]))"

definition Release :: "allocator \<Rightarrow> mem_chunk list \<Rightarrow> allocator \<times> mem_chunk list" where
  "Release this chunks =
     (if al_slabs (main_alloc this) = [] \<and> addl_alloc this = None then (this, chunks)
      else
        (let (al, chunks1) = release_sub (main_alloc this) chunks
         in case addl_alloc this of
              None \<Rightarrow> (\<lparr>main_alloc = al, addl_alloc = None\<rparr>, chunks1)
            | Some ad \<Rightarrow>
                (\<lparr>main_alloc = al, addl_alloc = None\<rparr>,
                 if al_slabs ad = [] then chunks1 else snd (release_sub ad chunks1))))"

subsection \<open>The searches\<close>

lemma best_tail_spec:
  assumes "best_tail vs req k best = Some (i, v)"
  shows "best = Some (i, v) \<or> (k \<le> i \<and> i < k + length vs \<and> vs ! (i - k) = v \<and> req \<le> v)"
  using assms
proof (induction vs req k best rule: best_tail.induct)
  case (2 w vs req k best)
  from 2(1) [OF 2(2) [simplified best_tail.simps]] show ?case
    by (auto split: if_splits simp: nth_Cons')
qed simp

lemma last_free_spec: "last_free used n = Some i \<Longrightarrow> i < n \<and> \<not> used ! i"
  by (induction n) (auto split: if_splits)

lemma find_run_spec:
  assumes "find_run us need pos free = Some e" "free \<le> pos"
    "\<forall>i < free. \<not> all ! (pos - Suc i)" "drop pos all = us" "free < need"
  shows "e < length all \<and> need \<le> Suc e \<and> (\<forall>i < need. \<not> all ! (Suc e - need + i))"
  using assms
proof (induction us need pos free rule: find_run.induct)
  case (2 u us need pos free)
  have u: "all ! pos = u" "pos < length all" "drop (pos + 1) all = us"
    using 2(6) by (auto simp: nth_via_drop drop_Suc) (metis drop_eq_Nil2 list.discI not_le, metis drop_Suc drop_tl list.sel(3))
  show ?case
  proof (cases u)
    case True
    with 2(3) have "find_run us need (pos + 1) 0 = Some e" by simp
    from 2(2) [OF _ this _ _ u(3)] True 2(7) show ?thesis by blast
  next
    case False
    have run: "\<forall>i < free + 1. \<not> all ! (pos + 1 - Suc i)"
    proof (intro allI impI)
      fix i assume "i < free + 1"
      with 2(5) u(1) False show "\<not> all ! (pos + 1 - Suc i)" by (cases i) auto
    qed
    show ?thesis
    proof (cases "free + 1 = need")
      case True
      with 2(3) False have e: "e = pos" by simp
      have "\<not> all ! (Suc e - need + i)" if "i < need" for i
      proof -
        have "need - 1 - i < free + 1" "pos + 1 - Suc (need - 1 - i) = Suc e - need + i"
          using that True e 2(4) by auto
        with run show ?thesis by metis
      qed
      with True e 2(4) u(2) show ?thesis by auto
    next
      case False': False
      with 2(3) False have "find_run us need (pos + 1) (free + 1) = Some e" by simp
      moreover have "free + 1 \<le> pos + 1" "free + 1 < need" using 2(4,7) False' by auto
      ultimately show ?thesis using 2(1) [OF False False' _ _ run u(3)] by blast
    qed
  qed
qed simp

lemma take_slabs_spec:
  "take_slabs slab_num n slab_free al mc =
     (al\<lparr>al_slabs := al_slabs al @ [slab_num..<slab_num + n],
         al_free := al_free al @ (if n = 0 then [] else replicate (n - 1) 0 @ [slab_free])\<rparr>,
      mc\<lparr>slab_used := fold (\<lambda>v u. u[v := True]) [slab_num..<slab_num + n] (slab_used mc)\<rparr>)"
proof (induction n arbitrary: slab_num al mc)
  case (Suc n)
  have "[slab_num..<slab_num + Suc n] = slab_num # [Suc slab_num..<Suc slab_num + n]"
    by (simp add: upt_rec)
  moreover have "(if n = 0 then slab_free else 0) # (if n = 0 then [] else replicate (n - 1) 0 @ [slab_free])
      = replicate (Suc n - 1) 0 @ [slab_free]"
    by (cases n) auto
  ultimately show ?case by (simp add: Suc.IH del: upt_Suc)
qed simp

lemma length_fold_set [simp]: "length (fold (\<lambda>v u. u[v := b]) vs us) = length us"
  by (induction vs arbitrary: us) auto

lemma fold_set_nth:
  "i < length us \<Longrightarrow>
     fold (\<lambda>v u. u[v := b]) vs us ! i = (if i \<in> set vs then b else us ! i)"
  by (induction vs arbitrary: us) (auto simp: nth_list_update)

end
