(* ===== verification/ByteslabsCorrect.thy ===== *)
theory ByteslabsCorrect
  imports Byteslabs "HOL-Library.Multiset"
begin

text \<open>
  Correctness of the slab allocators: for every order of allocations and releases by any number
  of allocators, the slices that are in use never overlap, stay inside their chunk, and the
  counters of used slabs are exact.
\<close>

subsection \<open>What an allocator holds\<close>

definition sub_ok :: "bs_conf \<Rightarrow> sub_alloc \<Rightarrow> bool" where
  "sub_ok cf al \<longleftrightarrow> length (al_free al) = length (al_slabs al) \<and>
     (\<forall>v \<in> set (al_free al). v \<le> slab_size cf) \<and> distinct (al_slabs al) \<and>
     (\<forall>v \<in> set (al_slabs al). v < slab_count cf)"

text \<open>The bytes handed out: each slab less its free end.\<close>

definition occupied :: "bs_conf \<Rightarrow> sub_alloc \<Rightarrow> nat \<Rightarrow> bool" where
  "occupied cf al x \<longleftrightarrow> (\<exists>k < length (al_slabs al). al_slabs al ! k * slab_size cf \<le> x \<and>
     x < al_slabs al ! k * slab_size cf + (slab_size cf - al_free al ! k))"

lemma in_slab_iff:
  assumes "0 < (S::nat)"
  shows "v * S \<le> x \<and> x < v * S + S \<longleftrightarrow> x div S = v"
proof
  assume "v * S \<le> x \<and> x < v * S + S"
  then have "v \<le> x div S" "x div S < v + 1"
    using assms by (simp_all add: less_eq_div_iff_mult_less_eq div_less_iff_less_mult algebra_simps)
  then show "x div S = v" by simp
next
  assume "x div S = v"
  then show "v * S \<le> x \<and> x < v * S + S"
    using assms by (metis add.commute div_times_less_eq_dividend dividend_less_div_times mult.commute)
qed

lemma occupied_iff:
  assumes "0 < slab_size cf"
  shows "occupied cf al x \<longleftrightarrow> (\<exists>k < length (al_slabs al). al_slabs al ! k = x div slab_size cf \<and>
     x < al_slabs al ! k * slab_size cf + (slab_size cf - al_free al ! k))"
proof -
  have "v * slab_size cf \<le> x \<and> x < v * slab_size cf + (slab_size cf - f) \<longleftrightarrow>
      v = x div slab_size cf \<and> x < v * slab_size cf + (slab_size cf - f)" for v f
    using in_slab_iff [OF assms, of v x] less_le_trans [of x "v * slab_size cf + (slab_size cf - f)" "v * slab_size cf + slab_size cf"]
    by auto
  then show ?thesis unfolding occupied_def by simp
qed

lemma occupied_slab:
  "0 < slab_size cf \<Longrightarrow> occupied cf al x \<Longrightarrow> x div slab_size cf \<in> set (al_slabs al)"
  by (metis nth_mem occupied_iff)

lemma slabs_for_mult:
  assumes "0 < slab_size cf"
  shows "slabs_for cf req * slab_size cf = req + slab_tail cf req" "slab_tail cf req < slab_size cf"
    "0 < req \<Longrightarrow> 0 < slabs_for cf req"
proof -
  let ?S = "slab_size cf"
  show "slab_tail cf req < ?S" using assms by (simp add: slab_tail_def)
  define q m where qm: "q = req div ?S" "m = req mod ?S"
  have d: "req = q * ?S + m" "m < ?S" using assms by (simp_all add: qm)
  have t: "slab_tail cf req = (if m = 0 then 0 else ?S - m)" "slabs_for cf req = (if m = 0 then q else q + 1)"
    using assms d(2) by (auto simp: slab_tail_def slabs_for_def qm [symmetric])
  show eq: "slabs_for cf req * ?S = req + slab_tail cf req"
    unfolding t using d by auto
  show "0 < req \<Longrightarrow> 0 < slabs_for cf req" using eq by (cases "slabs_for cf req") auto
qed

text \<open>What one allocation changes in an allocator and its chunk; \<open>new\<close> are the slabs it takes.\<close>

definition grown :: "bs_conf \<Rightarrow> nat list \<Rightarrow> sub_alloc \<Rightarrow> mem_chunk \<Rightarrow> sub_alloc \<Rightarrow> mem_chunk \<Rightarrow> bool" where
  "grown cf new al mc al' mc' \<longleftrightarrow>
     al_chunk al' = al_chunk al \<and> is_additional al' = is_additional al \<and> sub_ok cf al' \<and>
     al_slabs al' = al_slabs al @ new \<and> distinct new \<and>
     (\<forall>v \<in> set new. v < slab_count cf \<and> \<not> slab_used mc ! v) \<and>
     slab_used mc' = fold (\<lambda>v u. u[v := True]) new (slab_used mc) \<and>
     used_slab_count mc' = used_slab_count mc + int (length new)"

definition placed :: "bs_conf \<Rightarrow> nat \<Rightarrow> nat \<Rightarrow> sub_alloc \<Rightarrow> sub_alloc \<Rightarrow> bool" where
  "placed cf st sz al al' \<longleftrightarrow>
     (\<forall>x. st \<le> x \<and> x < st + sz \<longrightarrow> occupied cf al' x \<and> \<not> occupied cf al x) \<and>
     (\<forall>x. occupied cf al x \<longrightarrow> occupied cf al' x)"

lemma alloc_full_grown:
  assumes ok: "sub_ok cf al" "0 < slab_size cf"
    and fr: "\<forall>v \<in> {p..<p + n}. v < slab_count cf \<and> \<not> slab_used mc ! v"
    and nw: "set (al_slabs al) \<inter> {p..<p + n} = {}"
    and n: "n * slab_size cf = req + slab_free" "slab_free < slab_size cf" "0 < n"
    and r: "alloc_full cf al mc p n slab_free req = (r, al', mc')"
  shows "r = Some (p * slab_size cf, req) \<and> grown cf [p..<p + n] al mc al' mc' \<and>
    placed cf (p * slab_size cf) req al al'"
proof -
  let ?S = "slab_size cf" and ?m = "length (al_slabs al)"
  have al': "al' = al\<lparr>al_slabs := al_slabs al @ [p..<p + n],
      al_free := al_free al @ replicate (n - 1) 0 @ [slab_free]\<rparr>"
    and mc': "slab_used mc' = fold (\<lambda>v u. u[v := True]) [p..<p + n] (slab_used mc)"
      "used_slab_count mc' = used_slab_count mc + int n" "r = Some (p * ?S, req)"
    using r n(3) by (auto simp: alloc_full_def take_slabs_spec)
  have len: "length (al_free al) = ?m" using ok by (simp add: sub_ok_def)
  have g: "grown cf [p..<p + n] al mc al' mc'"
    using ok fr nw n(2,3) mc' by (auto simp: grown_def al' sub_ok_def)
  have old: "occupied cf al' x" if "occupied cf al x" for x
  proof -
    from that obtain k where k: "k < ?m" "al_slabs al ! k * ?S \<le> x"
      "x < al_slabs al ! k * ?S + (?S - al_free al ! k)" by (auto simp: occupied_def)
    then have "k < length (al_slabs al')" "al_slabs al' ! k = al_slabs al ! k" "al_free al' ! k = al_free al ! k"
      using len by (simp_all add: al' nth_append)
    with k show ?thesis unfolding occupied_def by metis
  qed
  have new: "occupied cf al' x \<and> \<not> occupied cf al x" if x: "p * ?S \<le> x" "x < p * ?S + req" for x
  proof -
    define v where "v = x div ?S"
    have v: "v * ?S \<le> x" "x < v * ?S + ?S" using in_slab_iff [OF ok(2), of v x] v_def by auto
    have "p \<le> v" using x(1) ok(2) by (simp add: v_def less_eq_div_iff_mult_less_eq)
    have end_eq: "p * ?S + req + slab_free = (p + n) * ?S" using n(1) by (simp add: algebra_simps)
    have "v < p + n" unfolding v_def
      using x(2) end_eq ok(2) by (simp add: div_less_iff_less_mult)
    obtain i where i: "v = p + i" "i < n"
      using \<open>p \<le> v\<close> \<open>v < p + n\<close> by (metis le_Suc_ex nat_add_left_cancel_less)
    have k: "?m + i < length (al_slabs al')" "al_slabs al' ! (?m + i) = v"
      using i by (simp_all add: al' nth_append)
    have f: "al_free al' ! (?m + i) = (if i < n - 1 then 0 else slab_free)"
      using i len by (auto simp: al' nth_append)
    have "x < v * ?S + (?S - al_free al' ! (?m + i))"
    proof (cases "i < n - 1")
      case True with f v(2) show ?thesis by simp
    next
      case False
      then have "p + n = v + 1" using i by simp
      with end_eq x(2) n(2) f False show ?thesis by simp
    qed
    with k v(1) have "occupied cf al' x" unfolding occupied_def by metis
    moreover have "v \<notin> set (al_slabs al)" using nw \<open>p \<le> v\<close> \<open>v < p + n\<close> by auto
    then have "\<not> occupied cf al x" using occupied_slab [OF ok(2)] by (auto simp: v_def)
    ultimately show ?thesis by simp
  qed
  from g old new mc'(3) show ?thesis by (auto simp: placed_def)
qed

lemma tail_grown:
  assumes ok: "sub_ok cf al" "0 < slab_size cf"
    and k: "k < length (al_free al)" "al_free al ! k = v" "req \<le> v"
    and same: "slab_used mc' = slab_used mc" "used_slab_count mc' = used_slab_count mc"
    and al': "al' = al\<lparr>al_free := (al_free al)[k := v - req]\<rparr>"
  shows "grown cf [] al mc al' mc' \<and>
    placed cf (al_slabs al ! k * slab_size cf + (slab_size cf - v)) req al al'"
proof -
  let ?S = "slab_size cf" and ?s = "al_slabs al"
  have len: "length (al_free al) = length ?s" and d: "distinct ?s" and le: "v \<le> ?S"
    using ok k by (auto simp: sub_ok_def)
  have "sub_ok cf al'"
    using ok(1) k le by (auto simp: al' sub_ok_def dest!: set_update_subset_insert [THEN subsetD])
  then have g: "grown cf [] al mc al' mc'" using same by (simp add: grown_def al')
  have old: "occupied cf al' x" if "occupied cf al x" for x
  proof -
    from that obtain j where j: "j < length ?s" "?s ! j * ?S \<le> x" "x < ?s ! j * ?S + (?S - al_free al ! j)"
      by (auto simp: occupied_def)
    have "al_free al' ! j \<le> al_free al ! j" using k j(1) len by (auto simp: al' nth_list_update)
    then have "x < ?s ! j * ?S + (?S - al_free al' ! j)" using j(3) by linarith
    with j show ?thesis unfolding occupied_def by (auto simp: al')
  qed
  have new: "occupied cf al' x \<and> \<not> occupied cf al x"
    if x: "?s ! k * ?S + (?S - v) \<le> x" "x < ?s ! k * ?S + (?S - v) + req" for x
  proof -
    have xk: "?s ! k * ?S \<le> x" "x < ?s ! k * ?S + (?S - (v - req))" using x k(3) le by linarith+
    then have "occupied cf al' x"
      using k(1) len unfolding occupied_def by (intro exI [of _ k]) (simp add: al')
    moreover have "\<not> occupied cf al x"
    proof
      assume "occupied cf al x"
      then obtain j where j: "j < length ?s" "?s ! j = x div ?S" "x < ?s ! j * ?S + (?S - al_free al ! j)"
        using occupied_iff [OF ok(2)] by blast
      have "?s ! k = x div ?S" using xk in_slab_iff [OF ok(2), of "?s ! k" x] by linarith
      with j(1,2) k(1) len d have "j = k" by (metis nth_eq_iff_index_eq)
      with j(3) k(2) x(1) show False by simp
    qed
    ultimately show ?thesis by simp
  qed
  from g old new show ?thesis by (auto simp: placed_def)
qed

text \<open>An allocation in one chunk: it takes slabs no one holds, or it changes nothing.\<close>

lemma allocate_slab_spec:
  assumes ok: "sub_ok cf al" "0 < slab_size cf" "length (slab_used mc) = slab_count cf" "0 < req"
    and held: "\<forall>v \<in> set (al_slabs al). slab_used mc ! v"
    and r: "allocate_slab cf al mc req = (r, al', mc')"
  shows "(case r of
      None \<Rightarrow> al' = al \<and> slab_used mc' = slab_used mc \<and> used_slab_count mc' = used_slab_count mc
    | Some (st, sz) \<Rightarrow> sz = req \<and> placed cf st sz al al' \<and> (\<exists>new. grown cf new al mc al' mc'))"
proof -
  let ?n = "slabs_for cf req" and ?f = "slab_tail cf req"
  note n = slabs_for_mult [OF ok(2), where req = req]
  have full: ?thesis if "alloc_full cf al mc0 p ?n ?f req = (r, al', mc')"
    and "\<forall>v \<in> {p..<p + ?n}. v < slab_count cf \<and> \<not> slab_used mc ! v"
    and "slab_used mc0 = slab_used mc" "used_slab_count mc0 = used_slab_count mc" for mc0 p
  proof -
    have "set (al_slabs al) \<inter> {p..<p + ?n} = {}" using held that(2) by blast
    from alloc_full_grown [OF ok(1,2) _ this n(1,2) n(3) [OF ok(4)] that(1)] that
    show ?thesis by (auto simp: grown_def)
  qed
  have oom: ?thesis if "out_of_memory al mc = (r, al', mc')"
    using that by (auto simp: out_of_memory_def)
  consider (none) "int ?n > int (slab_count cf) - used_slab_count mc"
    | (tail) k v where "int ?n \<le> int (slab_count cf) - used_slab_count mc" "?n \<le> 1"
        "best_tail (al_free al) req 0 None = Some (k, v)"
    | (one) "int ?n \<le> int (slab_count cf) - used_slab_count mc" "?n \<le> 1"
        "best_tail (al_free al) req 0 None = None"
    | (many) "int ?n \<le> int (slab_count cf) - used_slab_count mc" "?n > 1"
    by (metis linorder_not_le option.exhaust surj_pair)
  then show ?thesis
  proof cases
    case none
    with r oom show ?thesis by (simp add: allocate_slab_def Let_def)
  next
    case tail
    from best_tail_spec [OF tail(3)] have k: "k < length (al_free al)" "al_free al ! k = v" "req \<le> v" by auto
    from r tail have "r = Some (al_slabs al ! k * slab_size cf + (slab_size cf - v), req)"
      "slab_used mc' = slab_used mc" "used_slab_count mc' = used_slab_count mc"
      "al' = al\<lparr>al_free := (al_free al)[k := v - req]\<rparr>"
      by (auto simp: allocate_slab_def Let_def)
    with tail_grown [OF ok(1,2) k, of mc' mc al'] show ?thesis by auto
  next
    case one
    show ?thesis
    proof (cases "last_free (slab_used mc) (length (slab_used mc))")
      case None
      with r one oom show ?thesis by (simp add: allocate_slab_def Let_def)
    next
      case (Some p)
      with r one have a: "alloc_full cf al (mc\<lparr>stat_alloc_full_small := stat_alloc_full_small mc + 1\<rparr>)
          p ?n ?f req = (r, al', mc')"
        by (simp add: allocate_slab_def Let_def)
      have "?n = 1" using one n(3) ok(4) by simp
      then have "\<forall>v \<in> {p..<p + ?n}. v < slab_count cf \<and> \<not> slab_used mc ! v"
        using last_free_spec [OF Some] ok(3) by (auto simp: less_Suc_eq_le le_antisym)
      from full [OF a this] show ?thesis by simp
    qed
  next
    case many
    show ?thesis
    proof (cases "find_run (slab_used mc) ?n 0 0")
      case None
      with r many oom show ?thesis by (simp add: allocate_slab_def Let_def)
    next
      case (Some e)
      with r many have a: "alloc_full cf al (mc\<lparr>stat_alloc_full := stat_alloc_full mc + 1\<rparr>)
          (e + 1 - ?n) ?n ?f req = (r, al', mc')"
        by (simp add: allocate_slab_def Let_def)
      from find_run_spec [OF Some, of "slab_used mc"] many(2)
      have e: "e < slab_count cf" "?n \<le> Suc e" "\<forall>i < ?n. \<not> slab_used mc ! (Suc e - ?n + i)"
        using ok(3) by auto
      have "\<forall>v \<in> {e + 1 - ?n..<e + 1 - ?n + ?n}. v < slab_count cf \<and> \<not> slab_used mc ! v"
      proof
        fix v assume v: "v \<in> {e + 1 - ?n..<e + 1 - ?n + ?n}"
        then obtain i where "v = Suc e - ?n + i" "i < ?n"
          by (metis Suc_eq_plus1 atLeastLessThan_iff le_Suc_ex nat_add_left_cancel_less)
        with e v show "v < slab_count cf \<and> \<not> slab_used mc ! v" by auto
      qed
      from full [OF a this] show ?thesis by simp
    qed
  qed
qed

subsection \<open>All allocators together\<close>

record bs_sys =
  bs_chunks :: "mem_chunk list"
  bs_counter :: nat
  bs_allocs :: "(allocator \<times> slice list) list"

definition bs_init :: "bs_conf \<Rightarrow> bs_sys" where
  "bs_init cf = \<lparr>bs_chunks = bs_make cf, bs_counter = 0, bs_allocs = []\<rparr>"

text \<open>Each allocator is listed with the slices it gave out since its last \<open>Release\<close>.\<close>

inductive bs_step :: "bs_conf \<Rightarrow> bs_sys \<Rightarrow> bs_sys \<Rightarrow> bool" for cf where
  make: "k = (bs_counter s + 1) mod 2 ^ 32 \<Longrightarrow>
     bs_step cf s (s\<lparr>bs_counter := k, bs_allocs := bs_allocs s @ [(MakeAllocator (bs_chunks s) k, [])]\<rparr>)"
| alloc: "bs_allocs s = pre @ (a, live) # post \<Longrightarrow> Allocate cf (bs_chunks s) a req = (sl, a', ch) \<Longrightarrow>
     bs_step cf s (s\<lparr>bs_chunks := ch, bs_allocs := pre @ (a', sl # live) # post\<rparr>)"
| release: "bs_allocs s = pre @ (a, live) # post \<Longrightarrow> Release a (bs_chunks s) = (a', ch) \<Longrightarrow>
     bs_step cf s (s\<lparr>bs_chunks := ch, bs_allocs := pre @ (a', []) # post\<rparr>)"

inductive bs_reachable :: "bs_conf \<Rightarrow> bs_sys \<Rightarrow> bool" for cf where
  init: "bs_reachable cf (bs_init cf)"
| step: "bs_reachable cf s \<Longrightarrow> bs_step cf s s' \<Longrightarrow> bs_reachable cf s'"

fun slice_bytes :: "slice \<Rightarrow> (nat \<times> nat) set" where
  "slice_bytes (Slab c st sz) = {c} \<times> {st..<st + sz}"
| "slice_bytes (HeapMem n) = {}"

definition subs :: "allocator \<Rightarrow> sub_alloc list" where
  "subs a = main_alloc a # (case addl_alloc a of None \<Rightarrow> [] | Some ad \<Rightarrow> [ad])"

definition all_subs :: "(allocator \<times> slice list) list \<Rightarrow> sub_alloc list" where
  "all_subs as = concat (map (subs \<circ> fst) as)"

definition held :: "nat \<Rightarrow> sub_alloc \<Rightarrow> nat list" where
  "held c al = (if al_chunk al = c then al_slabs al else [])"

definition owned :: "nat \<Rightarrow> sub_alloc list \<Rightarrow> nat list" where
  "owned c als = concat (map (held c) als)"

definition occ :: "bs_conf \<Rightarrow> sub_alloc \<Rightarrow> (nat \<times> nat) set" where
  "occ cf al = {al_chunk al} \<times> Collect (occupied cf al)"

subsection \<open>Chunks\<close>

definition chunk_holds :: "bs_conf \<Rightarrow> mem_chunk \<Rightarrow> nat multiset \<Rightarrow> bool" where
  "chunk_holds cf mc ms \<longleftrightarrow> length (slab_used mc) = slab_count cf \<and>
     ms = mset_set {v. v < slab_count cf \<and> slab_used mc ! v} \<and> used_slab_count mc = int (size ms)"

lemma chunk_holds_new: "chunk_holds cf (new_chunk cf) {#}"
  by (simp add: chunk_holds_def new_chunk_def cong: conj_cong)

lemma chunk_holds_grown:
  assumes "chunk_holds cf mc ms" "grown cf new al mc al' mc'"
  shows "chunk_holds cf mc' (ms + mset new)"
proof -
  let ?U = "{v. v < slab_count cf \<and> slab_used mc ! v}"
  have "{v. v < slab_count cf \<and> slab_used mc' ! v} = ?U \<union> set new"
    using assms by (auto simp: grown_def chunk_holds_def fold_set_nth)
  moreover have "?U \<inter> set new = {}" using assms(2) by (auto simp: grown_def)
  then have "mset_set (?U \<union> set new) = mset_set ?U + mset_set (set new)"
    by (simp add: mset_set_Union)
  moreover have "mset_set (set new) = mset new" using assms(2) by (simp add: grown_def mset_set_set)
  ultimately show ?thesis using assms by (simp add: chunk_holds_def grown_def)
qed

lemma distinct_of_mset_set:
  assumes "mset_set U = ms + mset vs"
  shows "distinct vs"
proof -
  have "count (mset vs) v = (if v \<in> set vs then 1 else 0)" for v
  proof -
    have "count (ms + mset vs) v \<le> 1" unfolding assms [symmetric] by (simp add: count_mset_set')
    then have "count (mset vs) v \<le> 1" by (simp only: count_union)
    moreover have "count (mset vs) v = 0 \<longleftrightarrow> v \<notin> set vs" by simp
    ultimately show ?thesis by (simp add: le_Suc_eq)
  qed
  then show ?thesis by (simp add: distinct_count_atmost_1)
qed

lemma chunk_holds_released:
  assumes "chunk_holds cf mc (ms + mset vs)"
  shows "chunk_holds cf (mc\<lparr>slab_used := fold (\<lambda>v u. u[v := False]) vs (slab_used mc),
     used_slab_count := used_slab_count mc - int (length vs)\<rparr>) ms"
proof -
  let ?U = "{v. v < slab_count cf \<and> slab_used mc ! v}"
  have eq: "mset_set ?U = ms + mset vs" using assms by (simp add: chunk_holds_def)
  have fin: "finite ?U" by simp
  have "set vs \<subseteq> set_mset (mset_set ?U)" unfolding eq by simp
  with fin have "set vs \<subseteq> ?U" by (simp only: finite_set_mset_mset_set)
  moreover have "distinct vs" using eq by (rule distinct_of_mset_set)
  ultimately have "mset_set (?U - set vs) = ms"
    using eq by (simp add: mset_set_Diff mset_set_set)
  moreover have "{v. v < slab_count cf \<and> fold (\<lambda>v u. u[v := False]) vs (slab_used mc) ! v} = ?U - set vs"
    using assms by (auto simp: chunk_holds_def fold_set_nth split: if_splits)
  ultimately show ?thesis using assms by (simp add: chunk_holds_def)
qed

subsection \<open>The invariant\<close>

definition bs_ok :: "bs_conf \<Rightarrow> mem_chunk list \<Rightarrow> sub_alloc list \<Rightarrow> bool" where
  "bs_ok cf ch als \<longleftrightarrow> 0 < slab_size cf \<and>
     (\<forall>al \<in> set als. sub_ok cf al \<and> al_chunk al < length ch) \<and>
     (\<forall>c < length ch. chunk_holds cf (ch ! c) (mset (owned c als)))"

definition live_ok :: "bs_conf \<Rightarrow> allocator \<times> slice list \<Rightarrow> bool" where
  "live_ok cf al \<longleftrightarrow>
     sorted_wrt (\<lambda>s t. slice_bytes s \<inter> slice_bytes t = {}) (snd al) \<and>
     (\<forall>s \<in> set (snd al). slice_bytes s \<subseteq> (\<Union>b \<in> set (subs (fst al)). occ cf b))"

definition bs_inv :: "bs_conf \<Rightarrow> bs_sys \<Rightarrow> bool" where
  "bs_inv cf s \<longleftrightarrow> length (bs_chunks s) = chunk_count cf \<and>
     bs_ok cf (bs_chunks s) (all_subs (bs_allocs s)) \<and> (\<forall>al \<in> set (bs_allocs s). live_ok cf al)"

lemma owned_simps [simp]:
  "owned c [] = []" "owned c (al # als) = held c al @ owned c als"
  "owned c (P @ Q) = owned c P @ owned c Q"
  by (simp_all add: owned_def)

lemma all_subs_simps [simp]:
  "all_subs [] = []" "all_subs (al # as) = subs (fst al) @ all_subs as"
  "all_subs (as @ bs) = all_subs as @ all_subs bs"
  by (simp_all add: all_subs_def)

lemma owned_distinct:
  assumes "bs_ok cf ch als" "c < length ch"
  shows "distinct (owned c als)" "v \<in> set (owned c als) \<Longrightarrow> slab_used (ch ! c) ! v"
proof -
  let ?U = "{v. v < slab_count cf \<and> slab_used (ch ! c) ! v}"
  have eq: "mset (owned c als) = mset_set ?U" using assms by (simp add: bs_ok_def chunk_holds_def)
  have "set_mset (mset (owned c als)) = ?U" unfolding eq by simp
  then show "v \<in> set (owned c als) \<Longrightarrow> slab_used (ch ! c) ! v" by auto
  show "distinct (owned c als)" using eq [symmetric] by (intro distinct_of_mset_set [of ?U "{#}"]) simp
qed

text \<open>One allocator on a chunk takes slabs there.\<close>

lemma bs_ok_grown:
  assumes ok: "bs_ok cf ch (P @ al # Q)" and g: "grown cf new al (ch ! al_chunk al) al' mc'"
  shows "bs_ok cf (ch[al_chunk al := mc']) (P @ al' # Q)"
proof -
  let ?c = "al_chunk al"
  have c: "?c < length ch" using ok by (simp add: bs_ok_def)
  have "chunk_holds cf (ch[?c := mc'] ! d) (mset (owned d (P @ al' # Q)))" if "d < length ch" for d
  proof (cases "d = ?c")
    case True
    have "chunk_holds cf mc' (mset (owned ?c (P @ al # Q)) + mset new)"
      using ok g c by (intro chunk_holds_grown) (auto simp: bs_ok_def)
    moreover have "mset (owned ?c (P @ al' # Q)) = mset (owned ?c (P @ al # Q)) + mset new"
      using g by (simp add: grown_def held_def ac_simps)
    ultimately show ?thesis using True c by (simp only: nth_list_update_eq)
  next
    case False
    then have "owned d (P @ al' # Q) = owned d (P @ al # Q)" using g by (simp add: grown_def held_def)
    with False ok that show ?thesis by (simp add: bs_ok_def)
  qed
  with ok g show ?thesis by (auto simp: bs_ok_def grown_def)
qed

lemma bs_ok_same:
  assumes ok: "bs_ok cf ch als" and "slab_used mc' = slab_used (ch ! c)" "used_slab_count mc' = used_slab_count (ch ! c)"
  shows "bs_ok cf (ch[c := mc']) als"
proof (cases "c < length ch")
  case True
  with assms have "chunk_holds cf mc' (mset (owned c als))" by (simp only: bs_ok_def chunk_holds_def)
  with ok True show ?thesis by (simp add: bs_ok_def nth_list_update)
next
  case False
  with ok show ?thesis by (simp add: list_update_beyond)
qed

lemma distinct_concat_nth:
  "distinct (concat (map f xs)) \<Longrightarrow> i < j \<Longrightarrow> j < length xs \<Longrightarrow> set (f (xs ! i)) \<inter> set (f (xs ! j)) = {}"
proof (induction xs arbitrary: i j)
  case (Cons x xs)
  from Cons(3,4) obtain k where k: "j = Suc k" "k < length xs" by (cases j) auto
  show ?case
  proof (cases i)
    case 0
    with k have "set (f (xs ! k)) \<subseteq> (\<Union>x \<in> set xs. set (f x))" using nth_mem by blast
    with Cons(2) 0 k show ?thesis by auto
  next
    case (Suc m)
    with Cons k show ?thesis by simp
  qed
qed simp

lemma bs_ok_disjoint:
  assumes ok: "bs_ok cf ch als"
  shows "sorted_wrt (\<lambda>a b. occ cf a \<inter> occ cf b = {}) als"
proof -
  have "occ cf (als ! i) \<inter> occ cf (als ! j) = {}" if ij: "i < j" "j < length als" for i j
  proof (rule ccontr)
    assume "occ cf (als ! i) \<inter> occ cf (als ! j) \<noteq> {}"
    then obtain c x where "(c, x) \<in> occ cf (als ! i)" "(c, x) \<in> occ cf (als ! j)"
      by (metis disjoint_iff prod.exhaust)
    then have x: "al_chunk (als ! i) = c" "al_chunk (als ! j) = c"
      "occupied cf (als ! i) x" "occupied cf (als ! j) x" by (simp_all add: occ_def)
    have "als ! i \<in> set als" using ij by simp
    with ok x(1) have S: "0 < slab_size cf" and "c < length ch" unfolding bs_ok_def by blast+
    have "distinct (owned c als)" by (rule owned_distinct(1) [OF ok \<open>c < length ch\<close>])
    then have "set (al_slabs (als ! i)) \<inter> set (al_slabs (als ! j)) = {}"
      using distinct_concat_nth [of "held c" als i j] ij x by (simp add: owned_def held_def)
    with occupied_slab [OF S x(3)] occupied_slab [OF S x(4)] show False by blast
  qed
  then show ?thesis by (simp add: sorted_wrt_iff_nth_less)
qed

lemma allocate_slab_ok:
  assumes ok: "bs_ok cf ch (P @ al # Q)" "0 < req"
    and r: "allocate_slab cf al (ch ! al_chunk al) req = (r, al', mc')"
  shows "bs_ok cf (ch[al_chunk al := mc']) (P @ al' # Q) \<and> al_chunk al' = al_chunk al \<and>
    (case r of None \<Rightarrow> al' = al
     | Some (st, sz) \<Rightarrow> occ cf al \<subseteq> occ cf al' \<and> slice_bytes (Slab (al_chunk al) st sz) \<subseteq> occ cf al' \<and>
         slice_bytes (Slab (al_chunk al) st sz) \<inter> occ cf al = {})"
proof -
  let ?c = "al_chunk al"
  have al: "sub_ok cf al" "0 < slab_size cf" "?c < length ch" using ok by (simp_all add: bs_ok_def)
  have len: "length (slab_used (ch ! ?c)) = slab_count cf"
    using ok al(3) by (simp add: bs_ok_def chunk_holds_def)
  have "\<forall>v \<in> set (al_slabs al). slab_used (ch ! ?c) ! v"
    using owned_distinct(2) [OF ok(1) al(3)] by (simp add: held_def)
  note spec = allocate_slab_spec [OF al(1,2) len ok(2) this r]
  show ?thesis
  proof (cases r)
    case None
    with spec bs_ok_same [OF ok(1), of mc' ?c] show ?thesis by simp
  next
    case (Some q)
    obtain st sz where q: "q = (st, sz)" by (cases q)
    with Some spec obtain new where n: "placed cf st sz al al'" "grown cf new al (ch ! ?c) al' mc'" by auto
    have "al_chunk al' = ?c" using n(2) by (simp add: grown_def)
    with n bs_ok_grown [OF ok(1) n(2)] Some q show ?thesis
      by (auto simp: placed_def occ_def)
  qed
qed

lemma live_ok_slab:
  assumes live: "live_ok cf (a, live)" and sub: "subs a = p @ al # q" "subs a' = p @ al' # q"
    and dis: "sorted_wrt (\<lambda>a b. occ cf a \<inter> occ cf b = {}) (subs a')"
    and new: "occ cf al \<subseteq> occ cf al'" "slice_bytes s \<subseteq> occ cf al'" "slice_bytes s \<inter> occ cf al = {}"
  shows "live_ok cf (a', s # live)"
proof -
  have "occ cf b \<inter> occ cf al' = {}" if "b \<in> set p \<union> set q" for b
    using that dis unfolding sub sorted_wrt_append by auto
  with new have d: "slice_bytes s \<inter> (\<Union>b \<in> set (subs a). occ cf b) = {}" unfolding sub by fastforce
  have i: "(\<Union>b \<in> set (subs a). occ cf b) \<subseteq> (\<Union>b \<in> set (subs a'). occ cf b)"
    using new(1) unfolding sub by auto
  have "slice_bytes s \<subseteq> (\<Union>b \<in> set (subs a'). occ cf b)" using new(2) unfolding sub by auto
  moreover have "slice_bytes s \<inter> slice_bytes t = {}" if "t \<in> set live" for t
    using that live d unfolding live_ok_def by fastforce
  moreover have "slice_bytes t \<subseteq> (\<Union>b \<in> set (subs a'). occ cf b)" if "t \<in> set live" for t
    using that live i unfolding live_ok_def by fastforce
  ultimately show ?thesis using live by (simp add: live_ok_def)
qed

lemma live_ok_more:
  assumes "live_ok cf (a, live)" "(\<Union>b \<in> set (subs a). occ cf b) \<subseteq> (\<Union>b \<in> set (subs a'). occ cf b)"
  shows "live_ok cf (a', live)" "live_ok cf (a', HeapMem n # live)"
  using assms unfolding live_ok_def by fastforce+

lemma best_chunk_bound:
  "best_chunk cf mcs i own need best = Some (j, f) \<Longrightarrow> best = Some (j, f) \<or> (i \<le> j \<and> j < i + length mcs)"
  by (induction mcs arbitrary: i best) (fastforce simp: Let_def split: if_splits)+

lemma bs_ok_new:
  assumes "bs_ok cf ch (P @ Q)" "i < length ch"
  shows "bs_ok cf ch (P @ new_sub i b # Q)"
  using assms by (auto simp: bs_ok_def new_sub_def sub_ok_def held_def)

lemma take_additional_ok:
  assumes "bs_ok cf ch (A @ subs a @ B)" "live_ok cf (a, live)"
  shows "bs_ok cf ch (A @ subs (take_additional cf ch need a) @ B) \<and>
    live_ok cf (take_additional cf ch need a, live) \<and> main_alloc (take_additional cf ch need a) = main_alloc a"
proof (cases "\<not> is_additional (main_alloc a) \<and> addl_alloc a = None \<and>
    best_chunk cf ch 0 (al_chunk (main_alloc a)) need None \<noteq> None")
  case True
  then obtain i f where i: "best_chunk cf ch 0 (al_chunk (main_alloc a)) need None = Some (i, f)" by auto
  then have "i < length ch" using best_chunk_bound by fastforce
  have t: "take_additional cf ch need a = a\<lparr>addl_alloc := Some (new_sub i True)\<rparr>"
    using True i by (simp add: take_additional_def)
  have "bs_ok cf ch ((A @ subs a) @ new_sub i True # B)"
    using assms(1) \<open>i < length ch\<close> by (intro bs_ok_new) simp_all
  moreover have "subs (take_additional cf ch need a) = subs a @ [new_sub i True]"
    using True by (simp add: t subs_def)
  ultimately show ?thesis using live_ok_more(1) [OF assms(2)] by (simp add: t)
next
  case False
  then have "take_additional cf ch need a = a"
    unfolding take_additional_def by (cases "best_chunk cf ch 0 (al_chunk (main_alloc a)) need None") auto
  with assms show ?thesis by simp
qed

lemma subs_simps [simp]:
  "subs (a\<lparr>main_alloc := al\<rparr>) = al # tl (subs a)"
  "addl_alloc a = Some ad \<Longrightarrow> subs (a\<lparr>addl_alloc := Some ad'\<rparr>) = [main_alloc a, ad']"
  by (simp_all add: subs_def)

lemma subs_Some: "addl_alloc a = Some ad \<Longrightarrow> subs a = [main_alloc a, ad]"
  by (simp add: subs_def)

text \<open>One attempt to allocate, in the main chunk or in the additional one.\<close>

lemma attempt_ok:
  assumes ok: "bs_ok cf ch (A @ subs a @ B)" "live_ok cf (a, live)" "0 < req"
    and sub: "subs a = p @ al # q" "subs a' = p @ al' # q"
    and r: "allocate_slab cf al (ch ! al_chunk al) req = (r, al', mc')"
  shows "bs_ok cf (ch[al_chunk al := mc']) (A @ subs a' @ B) \<and> al_chunk al' = al_chunk al \<and>
    (case r of None \<Rightarrow> live_ok cf (a', live) | Some (st, sz) \<Rightarrow> live_ok cf (a', Slab (al_chunk al) st sz # live))"
proof -
  have "bs_ok cf ch ((A @ p) @ al # (q @ B))" using ok(1) sub by simp
  note n = allocate_slab_ok [OF this ok(3) r]
  then have ok': "bs_ok cf (ch[al_chunk al := mc']) (A @ subs a' @ B)" using sub by simp
  from bs_ok_disjoint [OF this] have dis: "sorted_wrt (\<lambda>a b. occ cf a \<inter> occ cf b = {}) (subs a')"
    by (simp add: sorted_wrt_append)
  show ?thesis
  proof (cases r)
    case None
    with n sub have "subs a' = subs a" by simp
    with None ok' n live_ok_more(1) [OF ok(2), of a'] show ?thesis by simp
  next
    case (Some z)
    obtain st sz where z: "z = (st, sz)" by (cases z)
    from n Some z have "occ cf al \<subseteq> occ cf al'" "slice_bytes (Slab (al_chunk al) st sz) \<subseteq> occ cf al'"
      "slice_bytes (Slab (al_chunk al) st sz) \<inter> occ cf al = {}" by simp_all
    from live_ok_slab [OF ok(2) sub dis this] ok' n Some z show ?thesis by simp
  qed
qed

text \<open>What \<open>Allocate\<close> does when the chunk of the allocator refuses.\<close>

lemma Allocate_refused:
  assumes "\<not> req \<le> 96" "allocate_slab cf (main_alloc a) (ch ! al_chunk (main_alloc a)) req = (None, al, mc)"
    and a1: "a1 = a\<lparr>main_alloc := al\<rparr>" and ch1: "ch1 = ch[al_chunk (main_alloc a) := mc]"
    and a2: "a2 = (if addl_alloc a1 = None \<and> \<not> is_additional (main_alloc a1)
        then take_additional cf ch1 (int (req div slab_size cf) + 5) a1 else a1)"
    and ch2: "ch2 = ch1[al_chunk (main_alloc a) := (ch1 ! al_chunk (main_alloc a))\<lparr>stat_routed := stat_routed (ch1 ! al_chunk (main_alloc a)) + 1\<rparr>]"
  shows "Allocate cf ch a req =
    (case addl_alloc a2 of None \<Rightarrow> (HeapMem req, a2, ch1)
      | Some ad \<Rightarrow> (case allocate_slab cf ad (ch2 ! al_chunk ad) req of (r2, ad', mc2) \<Rightarrow>
          (case r2 of None \<Rightarrow> (HeapMem req, a2\<lparr>addl_alloc := Some ad'\<rparr>, ch2[al_chunk ad := mc2])
           | Some (st, sz) \<Rightarrow> (Slab (al_chunk ad) st sz, a2\<lparr>addl_alloc := Some ad'\<rparr>, ch2[al_chunk ad := mc2]))))"
  unfolding Allocate_def Let_def a1 [symmetric] ch1 [symmetric]
  by (simp only: assms(1,2) if_False prod.case option.case a1 [symmetric] ch1 [symmetric] a2 [symmetric] ch2 [symmetric])

lemma Allocate_ok:
  assumes ok: "bs_ok cf ch (A @ subs a @ B)" "live_ok cf (a, live)"
    and r: "Allocate cf ch a req = (sl, a', ch')"
  shows "bs_ok cf ch' (A @ subs a' @ B) \<and> live_ok cf (a', sl # live) \<and> length ch' = length ch"
proof (cases "req \<le> 96")
  case True
  with r ok live_ok_more(2) [OF ok(2), of a] show ?thesis by (auto simp: Allocate_def)
next
  case False
  then have req: "0 < req" by simp
  let ?m = "main_alloc a" and ?c = "al_chunk (main_alloc a)"
  obtain q al mc where s: "allocate_slab cf ?m (ch ! ?c) req = (q, al, mc)" by (metis prod_cases3)
  define a1 ch1 where "a1 = a\<lparr>main_alloc := al\<rparr>" and "ch1 = ch[?c := mc]"
  have "subs a = [] @ ?m # tl (subs a)" "subs a1 = [] @ al # tl (subs a)"
    by (simp_all add: subs_def a1_def)
  from attempt_ok [OF ok req this s]
  have one: "bs_ok cf ch1 (A @ subs a1 @ B)" "al_chunk al = ?c"
    "case q of None \<Rightarrow> live_ok cf (a1, live) | Some (st, sz) \<Rightarrow> live_ok cf (a1, Slab ?c st sz # live)"
    by (simp_all add: ch1_def)
  show ?thesis
  proof (cases q)
    case (Some z)
    with r s False one show ?thesis by (cases z) (auto simp: Allocate_def Let_def a1_def ch1_def)
  next
    case None
    define a2 where "a2 = (if addl_alloc a1 = None \<and> \<not> is_additional (main_alloc a1)
        then take_additional cf ch1 (int (req div slab_size cf) + 5) a1 else a1)"
    have two: "bs_ok cf ch1 (A @ subs a2 @ B)" "live_ok cf (a2, live)" "main_alloc a2 = main_alloc a1"
      using take_additional_ok [OF one(1), of live] one None by (simp_all add: a2_def)
    define ch2 where "ch2 = ch1[?c := (ch1 ! ?c)\<lparr>stat_routed := stat_routed (ch1 ! ?c) + 1\<rparr>]"
    note r2 = r [unfolded Allocate_refused [OF False s [unfolded None] a1_def ch1_def a2_def ch2_def]]
    show ?thesis
    proof (cases "addl_alloc a2")
      case None': None
      with r2 have "sl = HeapMem req" "a' = a2" "ch' = ch1" by simp_all
      with two live_ok_more(2) [OF two(2)] show ?thesis by (simp add: ch1_def)
    next
      case (Some ad)
      obtain q2 ad' mc2 where s2: "allocate_slab cf ad (ch2 ! al_chunk ad) req = (q2, ad', mc2)"
        by (metis prod_cases3)
      have b2: "bs_ok cf ch2 (A @ subs a2 @ B)" unfolding ch2_def by (intro bs_ok_same two) simp_all
      have "subs a2 = [main_alloc a2] @ ad # []" "subs (a2\<lparr>addl_alloc := Some ad'\<rparr>) = [main_alloc a2] @ ad' # []"
        using Some by (simp_all add: subs_Some)
      note three = attempt_ok [OF b2 two(2) req this s2]
      have "a' = a2\<lparr>addl_alloc := Some ad'\<rparr>" "ch' = ch2[al_chunk ad := mc2]"
        "sl = (case q2 of None \<Rightarrow> HeapMem req | Some (st, sz) \<Rightarrow> Slab (al_chunk ad) st sz)"
        using r2 s2 Some by (auto split: option.splits)
      with three live_ok_more(2) [of cf a' live a'] show ?thesis
        by (cases q2) (auto simp: ch2_def ch1_def)
    qed
  qed
qed

lemma release_sub_ok:
  assumes ok: "bs_ok cf ch (P @ al # Q)" and r: "release_sub al ch = (al', ch')"
  shows "bs_ok cf ch' (P @ al' # Q) \<and> al_slabs al' = [] \<and> length ch' = length ch"
proof -
  let ?c = "al_chunk al"
  have c: "?c < length ch" using ok by (simp add: bs_ok_def)
  define mc where "mc = (ch ! ?c)\<lparr>slab_used := fold (\<lambda>v u. u[v := False]) (al_slabs al) (slab_used (ch ! ?c)),
     used_slab_count := used_slab_count (ch ! ?c) - int (length (al_slabs al))\<rparr>"
  have eq: "al' = al\<lparr>al_slabs := [], al_free := []\<rparr>" "ch' = ch[?c := mc]"
    using r by (simp_all add: release_sub_def Let_def mc_def)
  have "mset (owned ?c (P @ al # Q)) = mset (owned ?c (P @ Q)) + mset (al_slabs al)"
    by (simp add: held_def)
  moreover have "chunk_holds cf (ch ! ?c) (mset (owned ?c (P @ al # Q)))"
    using ok c unfolding bs_ok_def by blast
  ultimately have "chunk_holds cf (ch ! ?c) (mset (owned ?c (P @ Q)) + mset (al_slabs al))"
    by (simp only:)
  then have "chunk_holds cf mc (mset (owned ?c (P @ Q)))" unfolding mc_def by (rule chunk_holds_released)
  moreover have "owned d (P @ al' # Q) = owned d (P @ Q)" for d by (simp add: eq held_def)
  moreover have "d \<noteq> ?c \<Longrightarrow> owned d (P @ al # Q) = owned d (P @ Q)" for d by (simp add: held_def)
  ultimately have "chunk_holds cf (ch' ! d) (mset (owned d (P @ al' # Q)))" if "d < length ch" for d
    using ok c that unfolding bs_ok_def eq(2) by (cases "d = ?c") (simp, metis nth_list_update_neq)
  moreover have "sub_ok cf al'" using eq by (simp add: sub_ok_def)
  ultimately show ?thesis using ok by (auto simp: bs_ok_def eq)
qed

lemma bs_ok_drop:
  assumes "bs_ok cf ch (P @ al # Q)" "al_slabs al = []"
  shows "bs_ok cf ch (P @ Q)"
proof -
  have eq: "owned c (P @ al # Q) = owned c (P @ Q)" for c using assms(2) by (simp add: held_def)
  from assms(1) show ?thesis unfolding bs_ok_def eq by simp
qed

lemma Release_ok:
  assumes ok: "bs_ok cf ch (A @ subs a @ B)" and r: "Release a ch = (a', ch')"
  shows "bs_ok cf ch' (A @ subs a' @ B) \<and> length ch' = length ch"
proof (cases "al_slabs (main_alloc a) = [] \<and> addl_alloc a = None")
  case True
  with assms show ?thesis by (simp add: Release_def)
next
  case False
  obtain al ch1 where m: "release_sub (main_alloc a) ch = (al, ch1)" by (cases "release_sub (main_alloc a) ch")
  have "bs_ok cf ch (A @ main_alloc a # (tl (subs a) @ B))" using ok by (simp add: subs_def)
  note one = release_sub_ok [OF this m]
  show ?thesis
  proof (cases "addl_alloc a")
    case None
    with r m False one show ?thesis by (auto simp: Release_def subs_def)
  next
    case (Some ad)
    with one have two: "bs_ok cf ch1 ((A @ [al]) @ ad # B)" by (simp add: subs_def)
    obtain ad' ch2 where d: "release_sub ad ch1 = (ad', ch2)" by (cases "release_sub ad ch1")
    from release_sub_ok [OF two d] have three: "bs_ok cf ch2 ((A @ [al]) @ B)" "length ch2 = length ch1"
      using bs_ok_drop by blast+
    from r m False Some d have a': "subs a' = [al]" "ch' = (if al_slabs ad = [] then ch1 else ch2)"
      by (auto simp: Release_def subs_def)
    show ?thesis
    proof (cases "al_slabs ad = []")
      case True
      with bs_ok_drop [OF two] a' one show ?thesis by simp
    next
      case False
      with three a' one show ?thesis by simp
    qed
  qed
qed

lemma bs_inv_init: "0 < slab_size cf \<Longrightarrow> bs_inv cf (bs_init cf)"
  by (simp add: bs_inv_def bs_init_def bs_make_def bs_ok_def chunk_holds_new)

lemma bs_inv_step:
  assumes inv: "bs_inv cf s" "0 < chunk_count cf" and st: "bs_step cf s s'"
  shows "bs_inv cf s'"
  using st
proof cases
  case (make k)
  have "bs_ok cf (bs_chunks s) (all_subs (bs_allocs s) @ new_sub (k mod length (bs_chunks s)) False # [])"
    using inv by (intro bs_ok_new) (auto simp: bs_inv_def)
  with inv make show ?thesis
    by (auto simp: bs_inv_def MakeAllocator_def subs_def live_ok_def)
next
  case (alloc pre a live post req sl a' ch)
  from inv alloc(2) have "bs_ok cf (bs_chunks s) (all_subs pre @ subs a @ all_subs post)" "live_ok cf (a, live)"
    by (simp_all add: bs_inv_def)
  from Allocate_ok [OF this alloc(3)] inv alloc(1,2) show ?thesis by (auto simp: bs_inv_def)
next
  case (release pre a live post a' ch)
  from inv release(2) have "bs_ok cf (bs_chunks s) (all_subs pre @ subs a @ all_subs post)"
    by (simp add: bs_inv_def)
  from Release_ok [OF this release(3)] inv release(1,2) show ?thesis by (auto simp: bs_inv_def live_ok_def)
qed

lemma bs_inv_reachable:
  "bs_reachable cf s \<Longrightarrow> 0 < slab_size cf \<Longrightarrow> 0 < chunk_count cf \<Longrightarrow> bs_inv cf s"
  by (induction rule: bs_reachable.induct) (simp_all add: bs_inv_init bs_inv_step)

lemma live_disjoint:
  assumes "sorted_wrt (\<lambda>a b. occ cf a \<inter> occ cf b = {}) (all_subs as)" "\<forall>al \<in> set as. live_ok cf al"
  shows "sorted_wrt (\<lambda>s t. slice_bytes s \<inter> slice_bytes t = {}) (concat (map snd as)) \<and>
    (\<forall>s \<in> set (concat (map snd as)). slice_bytes s \<subseteq> (\<Union>b \<in> set (all_subs as). occ cf b))"
  using assms
proof (induction as)
  case (Cons al as)
  have d: "(\<Union>b \<in> set (subs (fst al)). occ cf b) \<inter> (\<Union>b \<in> set (all_subs as). occ cf b) = {}"
    using Cons(2) by (auto simp: sorted_wrt_append)
  have IH: "sorted_wrt (\<lambda>s t. slice_bytes s \<inter> slice_bytes t = {}) (concat (map snd as))"
    "\<forall>s \<in> set (concat (map snd as)). slice_bytes s \<subseteq> (\<Union>b \<in> set (all_subs as). occ cf b)"
    using Cons by (simp_all add: sorted_wrt_append)
  have l: "sorted_wrt (\<lambda>s t. slice_bytes s \<inter> slice_bytes t = {}) (snd al)"
    "\<forall>s \<in> set (snd al). slice_bytes s \<subseteq> (\<Union>b \<in> set (subs (fst al)). occ cf b)"
    using Cons(3) by (simp_all add: live_ok_def)
  have "slice_bytes s \<inter> slice_bytes t = {}" if "s \<in> set (snd al)" "t \<in> set (concat (map snd as))" for s t
    using l(2) IH(2) d that by fastforce
  moreover have "slice_bytes s \<subseteq> (\<Union>b \<in> set (all_subs (al # as)). occ cf b)"
    if "s \<in> set (concat (map snd (al # as)))" for s
    using l(2) IH(2) that by fastforce
  ultimately show ?case using IH(1) l(1) by (simp add: sorted_wrt_append)
qed simp

subsection \<open>What users of the allocators rely on\<close>

text \<open>A small run for the witnesses: two chunks of six slabs of 1000 bytes; an allocator takes 4550
  bytes and 400 bytes in the rest of its last slab, then 1500 bytes that only fit in the other chunk.\<close>

definition ex_conf :: bs_conf where
  "ex_conf = \<lparr>chunk_count = 2, slab_size = 1000, slab_count = 6\<rparr>"

definition ex_alloc :: "nat \<Rightarrow> bs_sys \<Rightarrow> bs_sys" where
  "ex_alloc req s = (case bs_allocs s of
     [] \<Rightarrow> s
   | (a, live) # as \<Rightarrow>
       (let (sl, a', ch) = Allocate ex_conf (bs_chunks s) a req
        in s\<lparr>bs_chunks := ch, bs_allocs := (a', sl # live) # as\<rparr>))"

definition ex_sys :: bs_sys where
  "ex_sys = ex_alloc 1500 (ex_alloc 400 (ex_alloc 4550
     \<lparr>bs_chunks = bs_make ex_conf, bs_counter = 1, bs_allocs = [(MakeAllocator (bs_make ex_conf) 1, [])]\<rparr>))"

lemma ex_alloc_reachable:
  assumes "bs_reachable ex_conf s"
  shows "bs_reachable ex_conf (ex_alloc req s)"
proof (cases "bs_allocs s")
  case (Cons al as)
  obtain a live where al: "al = (a, live)" by (cases al)
  obtain sl a' ch where r: "Allocate ex_conf (bs_chunks s) a req = (sl, a', ch)" by (metis prod_cases3)
  have "bs_allocs s = [] @ (a, live) # as" using Cons al by simp
  from bs_step.alloc [OF this r] assms have "bs_reachable ex_conf (s\<lparr>bs_chunks := ch, bs_allocs := (a', sl # live) # as\<rparr>)"
    by (auto intro: bs_reachable.step)
  then show ?thesis by (simp add: ex_alloc_def Cons al r)
qed (simp add: ex_alloc_def assms)

lemma ex_sys_reachable: "bs_reachable ex_conf ex_sys"
proof -
  have "bs_step ex_conf (bs_init ex_conf)
      \<lparr>bs_chunks = bs_make ex_conf, bs_counter = 1, bs_allocs = [(MakeAllocator (bs_make ex_conf) 1, [])]\<rparr>"
    using bs_step.make [of 1 "bs_init ex_conf" ex_conf] by (simp add: bs_init_def)
  then show ?thesis
    unfolding ex_sys_def by (intro ex_alloc_reachable) (rule bs_reachable.step [OF bs_reachable.init])
qed

lemma ex_sys_slices:
  "map snd (bs_allocs ex_sys) = [[Slab 0 0 1500, Slab 1 4550 400, Slab 1 0 4550]]"
  by code_simp

text \<open>C20. For any sequence of allocations and releases by any number of allocators: no two slices
  in use share a byte, and each lies inside the memory of its chunk.\<close>

theorem slices_never_overlap:
  assumes "bs_reachable cf s" "0 < slab_size cf" "0 < chunk_count cf"
  shows "sorted_wrt (\<lambda>x y. slice_bytes x \<inter> slice_bytes y = {}) (concat (map snd (bs_allocs s))) \<and>
    (\<forall>x \<in> set (concat (map snd (bs_allocs s))).
       slice_bytes x \<subseteq> {..<chunk_count cf} \<times> {..<slab_count cf * slab_size cf})"
proof -
  have inv: "bs_inv cf s" using bs_inv_reachable assms by blast
  then have ok: "bs_ok cf (bs_chunks s) (all_subs (bs_allocs s))" by (simp add: bs_inv_def)
  from live_disjoint [OF bs_ok_disjoint [OF ok]] inv
  have l: "sorted_wrt (\<lambda>x y. slice_bytes x \<inter> slice_bytes y = {}) (concat (map snd (bs_allocs s)))"
    "\<forall>x \<in> set (concat (map snd (bs_allocs s))). slice_bytes x \<subseteq> (\<Union>b \<in> set (all_subs (bs_allocs s)). occ cf b)"
    by (simp_all add: bs_inv_def)
  have "occ cf b \<subseteq> {..<chunk_count cf} \<times> {..<slab_count cf * slab_size cf}"
    if "b \<in> set (all_subs (bs_allocs s))" for b
  proof -
    from that ok inv have b: "sub_ok cf b" "al_chunk b < chunk_count cf" by (auto simp: bs_ok_def bs_inv_def)
    have "x < slab_count cf * slab_size cf" if "occupied cf b x" for x
    proof -
      from occupied_slab [OF assms(2) that] b(1) have "x div slab_size cf < slab_count cf"
        by (simp add: sub_ok_def)
      then show ?thesis using assms(2) by (simp add: div_less_iff_less_mult)
    qed
    with b(2) show ?thesis by (auto simp: occ_def)
  qed
  with l show ?thesis by (meson UN_least order_trans)
qed

theorem slices_never_overlap_witness:
  "bs_reachable ex_conf ex_sys \<and>
   sorted_wrt (\<lambda>x y. slice_bytes x \<inter> slice_bytes y = {}) [Slab 0 0 1500, Slab 1 4550 400, Slab 1 0 4550]"
  using slices_never_overlap [OF ex_sys_reachable] ex_sys_slices ex_sys_reachable by (simp add: ex_conf_def)

text \<open>C21. The counter that decides whether a request is tried at all is exact: it is the number of
  slabs marked used, and these are exactly the slabs the allocators hold, each held once; so when
  all allocators have released, every chunk is empty again.\<close>

theorem used_slabs_exact:
  assumes "bs_reachable cf s" "0 < slab_size cf" "0 < chunk_count cf" "c < chunk_count cf"
  shows "used_slab_count (bs_chunks s ! c) = int (card {v. v < slab_count cf \<and> slab_used (bs_chunks s ! c) ! v}) \<and>
    distinct (owned c (all_subs (bs_allocs s))) \<and>
    set (owned c (all_subs (bs_allocs s))) = {v. v < slab_count cf \<and> slab_used (bs_chunks s ! c) ! v}"
proof -
  have inv: "bs_inv cf s" using bs_inv_reachable assms by blast
  then have ok: "bs_ok cf (bs_chunks s) (all_subs (bs_allocs s))" "c < length (bs_chunks s)"
    using assms(4) by (simp_all add: bs_inv_def)
  let ?U = "{v. v < slab_count cf \<and> slab_used (bs_chunks s ! c) ! v}"
  have h: "mset (owned c (all_subs (bs_allocs s))) = mset_set ?U"
    "used_slab_count (bs_chunks s ! c) = int (size (mset (owned c (all_subs (bs_allocs s)))))"
    using ok unfolding bs_ok_def chunk_holds_def by blast+
  have "set_mset (mset (owned c (all_subs (bs_allocs s)))) = ?U" unfolding h(1) by simp
  moreover have "used_slab_count (bs_chunks s ! c) = int (card ?U)"
    unfolding h(2) unfolding h(1) by simp
  ultimately show ?thesis using owned_distinct(1) [OF ok] by simp
qed

theorem used_slabs_exact_witness:
  "used_slab_count (bs_chunks ex_sys ! 1) = 5 \<and>
   int (card {v. v < 6 \<and> slab_used (bs_chunks ex_sys ! 1) ! v}) = 5"
proof -
  have "used_slab_count (bs_chunks ex_sys ! 1) = 5" by code_simp
  with used_slabs_exact [OF ex_sys_reachable, of 1] show ?thesis by (simp add: ex_conf_def)
qed

end
