(* ===== verification/Socket.thy ===== *)
theory Socket
  imports HSParams
begin

text \<open>
  The TCP side of \<open>handler_socket2\<close>: \<open>handler_socket.go\<close> (\<open>getStreamBuffer\<close>, \<open>processHeader\<close>,
  \<open>serveSocket\<close>, \<open>sendBack\<close>) and \<open>conn_ex.go\<close>. A frame is a head byte, a 32-bit length that counts
  the whole frame, and the message.

  Memory is modelled where the code shares it: the array \<open>sharedmem\<close> holds incoming data, and
  \<open>sendBack\<close> builds the response in the same array. Decompression, the request handlers and the
  compressors are parameters.
\<close>

type_synonym bytes = string

subsection \<open>The stream buffer\<close>

datatype dstream = InShared nat nat | Private bytes

record sock =
  shared :: bytes
  ds :: dstream

definition content :: "sock \<Rightarrow> bytes" where
  "content s = (case ds s of InShared off len \<Rightarrow> take len (drop off (shared s)) | Private bs \<Rightarrow> bs)"

definition write_at :: "bytes \<Rightarrow> nat \<Rightarrow> bytes \<Rightarrow> bytes" where
  "write_at mem off bs = take off mem @ bs @ drop (off + length bs) mem"

text \<open>\<open>append(data_stream, c...)\<close>: in place while the capacity lasts, else in new memory.\<close>

definition sock_append :: "sock \<Rightarrow> bytes \<Rightarrow> sock" where
  "sock_append s c =
     (case ds s of
        InShared off len \<Rightarrow>
          if off + len + length c \<le> length (shared s)
          then s\<lparr>shared := write_at (shared s) (off + len) c, ds := InShared off (len + length c)\<rparr>
          else s\<lparr>ds := Private (content s @ c)\<rparr>
      | Private bs \<Rightarrow> s\<lparr>ds := Private (bs @ c)\<rparr>)"

definition to_shared :: "sock \<Rightarrow> sock" where
  "to_shared s =
     (let bs = content s
      in if length bs \<le> length (shared s)
         then s\<lparr>shared := write_at (shared s) 0 bs, ds := InShared 0 (length bs)\<rparr>
         else s\<lparr>ds := Private bs\<rparr>)"

definition to_private :: "sock \<Rightarrow> sock" where
  "to_private s = s\<lparr>ds := Private (content s)\<rparr>"

text \<open>\<open>data_stream = data_stream[n:]\<close>, and an empty stream gets new memory.\<close>

definition drop_front :: "sock \<Rightarrow> nat \<Rightarrow> sock" where
  "drop_front s n =
     (if length (content s) \<le> n then s\<lparr>ds := Private []\<rparr>
      else s\<lparr>ds := (case ds s of InShared off len \<Rightarrow> InShared (off + n) (len - n)
                     | Private bs \<Rightarrow> Private (drop n bs))\<rparr>)"

datatype stream_buffer = NoHeader | BadHeader nat | InSharedMem nat | InSlab nat

definition frame_size :: "bytes \<Rightarrow> nat" where
  "frame_size d = (let size = u32 (take 4 (drop 1 d)) in if size > 1024 * 1024 * 16 then 1024 * 1024 * 16 else size)"

definition head_ok :: "bytes \<Rightarrow> bool" where
  "head_ok d \<longleftrightarrow> d ! 0 = CHR ''B'' \<or> d ! 0 = CHR ''b''"

definition getStreamBuffer :: "bytes \<Rightarrow> bytes \<Rightarrow> nat \<Rightarrow> stream_buffer" where
  "getStreamBuffer stream recv cap_b1 =
     (let d = (if length stream \<ge> 5 then Some stream
               else if length recv \<ge> 5 \<and> stream = [] then Some recv
               else if length stream + length recv \<ge> 5 then Some (stream @ recv)
               else None)
      in case d of
           None \<Rightarrow> NoHeader
         | Some d \<Rightarrow>
             if head_ok d then (if frame_size d < cap_b1 then InSharedMem (frame_size d) else InSlab (frame_size d))
             else BadHeader (frame_size d))"

text \<open>The response written with \<open>sharedmem\<close> as its buffer: an append beyond the array moves away.\<close>

definition send_back :: "bytes option \<Rightarrow> sock \<Rightarrow> sock" where
  "send_back out s =
     (case out of
        None \<Rightarrow> s
      | Some bs \<Rightarrow> if length bs \<le> length (shared s) then s\<lparr>shared := write_at (shared s) 0 bs\<rparr> else s)"

lemma content_append [simp]: "content (sock_append s c) = content s @ c"
  by (auto simp: sock_append_def content_def write_at_def take_drop add.commute split: dstream.split)

lemma content_to_shared [simp]: "content (to_shared s) = content s"
  by (simp add: to_shared_def Let_def content_def [of "_\<lparr>shared := _, ds := _\<rparr>"] write_at_def)
    (simp add: content_def)

lemma content_to_private [simp]: "content (to_private s) = content s"
  by (simp add: to_private_def content_def)

lemma content_drop_front [simp]: "content (drop_front s n) = drop n (content s)"
  by (auto simp: drop_front_def content_def drop_take add.commute split: dstream.split)

lemma length_content_send_back [simp]: "length (content (send_back out s)) = length (content s)"
  by (auto simp: send_back_def content_def write_at_def split: option.split dstream.split)

subsection \<open>The server loop\<close>

datatype net_read = Data bytes | ReadError

datatype ending =
    EndOfStream
  | ReadFailed
  | BadHeaderType
  | CannotDecompress
  | CannotDecode
  | Crashed go_panic

text \<open>What the request part of the loop does with a message: end the connection, or a response
  (none when the client asked to skip it) and the new connection settings. Arguments: the
  settings, whether the head was \<open>B\<close>, the message.\<close>

type_synonym 'c handler = "'c \<Rightarrow> bool \<Rightarrow> bytes \<Rightarrow> ending + bytes option \<times> 'c"

fun read_rest :: "sock \<Rightarrow> nat \<Rightarrow> net_read list \<Rightarrow> ending + sock \<times> net_read list" where
  "read_rest s n [] = (if length (content s) \<ge> n then Inr (s, []) else Inl EndOfStream)"
| "read_rest s n (r # rs) =
     (if length (content s) \<ge> n then Inr (s, r # rs)
      else case r of Data c \<Rightarrow> read_rest (sock_append s c) n rs | ReadError \<Rightarrow> Inl ReadFailed)"

lemma read_rest_content:
  "read_rest s n rs = Inr (s', rs') \<Longrightarrow>
     n \<le> length (content s') \<and> (length rs' < length rs \<or> (rs' = rs \<and> s' = s))"
  by (induction s n rs rule: read_rest.induct) (auto split: if_splits net_read.splits)

text \<open>One frame, once its header is there: \<open>c\<close> is the data just read.\<close>

definition read_frame :: "sock \<Rightarrow> bytes \<Rightarrow> net_read list \<Rightarrow> ending + bool \<times> bytes \<times> sock \<times> net_read list" where
  "read_frame s c rs =
     (case getStreamBuffer (content s) c (length (shared s)) of
        NoHeader \<Rightarrow> Inl EndOfStream
      | BadHeader n \<Rightarrow> Inl BadHeaderType
      | buf \<Rightarrow>
          (let (s1, n) = (case buf of InSharedMem n \<Rightarrow> (to_shared s, n) | InSlab n \<Rightarrow> (to_private s, n)
                          | _ \<Rightarrow> (s, 0))
           in case read_rest (sock_append s1 c) n rs of
                Inl e \<Rightarrow> Inl e
              | Inr (s2, rs') \<Rightarrow>
                  (case go_slice (content s2) 5 n of
                     Inl p \<Rightarrow> Inl (Crashed p)
                   | Inr message \<Rightarrow> Inr (content s2 ! 0 = CHR ''B'', message, drop_front s2 n, rs'))))"

definition header_known :: "sock \<Rightarrow> bytes \<Rightarrow> bool" where
  "header_known s c = (getStreamBuffer (content s) c (length (shared s)) \<noteq> NoHeader)"

lemma read_frame_progress:
  assumes "read_frame s c rs = Inr (b, m, s', rs')"
  shows "length rs' < length rs \<or>
    (rs' = rs \<and> length (content s') + 5 \<le> length (content s) + length c)"
  using assms
  by (auto simp: read_frame_def go_slice_def split: stream_buffer.splits sum.splits if_splits
      dest!: read_rest_content)

text \<open>The loop gives the messages served and why the connection ended.\<close>

function serve :: "'c handler \<Rightarrow> 'c \<Rightarrow> sock \<Rightarrow> net_read list \<Rightarrow> bytes list \<times> ending" where
  "serve h conn s rs =
     (if length (content s) < 5 then
        (case rs of
           [] \<Rightarrow> ([], EndOfStream)
         | ReadError # _ \<Rightarrow> ([], ReadFailed)
         | Data c # rs' \<Rightarrow>
             if header_known s c then
               (case read_frame s c rs' of
                  Inl e \<Rightarrow> ([], e)
                | Inr (b, m, s', rs'') \<Rightarrow>
                    (case h conn b m of
                       Inl e \<Rightarrow> ([], e)
                     | Inr (out, conn') \<Rightarrow>
                         (let (ms, e) = serve h conn' (send_back out s') rs'' in (m # ms, e))))
             else serve h conn (sock_append s c) rs')
      else
        (case read_frame s [] rs of
           Inl e \<Rightarrow> ([], e)
         | Inr (b, m, s', rs'') \<Rightarrow>
             (case h conn b m of
                Inl e \<Rightarrow> ([], e)
              | Inr (out, conn') \<Rightarrow>
                  (let (ms, e) = serve h conn' (send_back out s') rs'' in (m # ms, e)))))"
  by auto
termination
proof (relation "measures [\<lambda>(h, c, s, rs). length rs, \<lambda>(h, c, s, rs). length (content s)]", goal_cases)
  case 1
  then show ?case by simp
next
  case 2
  then show ?case by (auto dest!: read_frame_progress)
next
  case 3
  then show ?case by simp
next
  case 4
  then show ?case by (auto dest!: read_frame_progress)
qed

declare serve.simps [simp del]

subsection \<open>Response headers\<close>

datatype compressor = CFlate | CSnappy

definition compressor_id :: "compressor \<Rightarrow> string" where
  "compressor_id c = (case c of CFlate \<Rightarrow> ''mp-flate'' | CSnappy \<Rightarrow> ''mp-snappy'')"

record conninfo =
  remote_distance :: nat
  comp :: "compressor option"
  compression_threshold :: int

text \<open>The compressors the server was configured with, and the configured thresholds.\<close>

record comp_config =
  has_flate :: bool
  has_snappy :: bool
  cfg_threshold_key :: int
  cfg_threshold :: int

definition make_conn_ex :: "comp_config \<Rightarrow> nat \<Rightarrow> conninfo" where
  "make_conn_ex cfg dist =
     (let c0 = \<lparr>remote_distance = dist, comp = None, compression_threshold = 0\<rparr>;
          c1 = (if dist > 0 then
                  c0\<lparr>comp := (if has_flate cfg then Some CFlate else None),
                     compression_threshold := cfg_threshold_key cfg\<rparr>
                else c0)
      in if compression_threshold c1 = 0 then c1\<lparr>comp := None\<rparr> else c1)"

definition handle_conn_ex :: "comp_config \<Rightarrow> hsparams \<Rightarrow> conninfo \<Rightarrow> conninfo" where
  "handle_conn_ex cfg data c =
     (if remote_distance c = 0 then c
      else
        (let features = to_lower (GetParam data ''features'' []);
             c1 = (if go_contains features ''snappy'' \<and> has_snappy cfg then c\<lparr>comp := Some CSnappy\<rparr> else c);
             c2 = (if (comp c1 = None \<or> remote_distance c1 > 1) \<and> has_flate cfg
                   then c1\<lparr>comp := Some CFlate\<rparr> else c1);
             c3 = c2\<lparr>compression_threshold := GetParamI data ''compression_threshold'' (cfg_threshold cfg)\<rparr>
         in if compression_threshold c3 = 0 then c3\<lparr>comp := None\<rparr> else c3))"

definition crlf :: string where
  "crlf = [CHR 0x0D, CHR 0x0A]"

definition response_head :: "int \<Rightarrow> bytes \<Rightarrow> bytes" where
  "response_head took guid =
     ''Request 200 OK'' @ crlf @ ''Server: HSServer v4'' @ crlf @ ''Content-Type: text/html'' @ crlf
     @ ''Took:'' @ itoa took @ [CHR 0xC2, CHR 0xB5] @ ''s'' @ crlf @ ''GUID:'' @ guid @ crlf"

definition length_header :: "bytes \<Rightarrow> bytes" where
  "length_header body = ''Content-Length: '' @ itoa (int (length body)) @ crlf"

definition encoding_header :: "string \<Rightarrow> bytes \<Rightarrow> bytes" where
  "encoding_header algo data = ''Content-Encoding: '' @ algo @ '' / '' @ itoa (int (length data)) @ crlf @ crlf"

text \<open>A \<open>bytes.Buffer\<close> on the shared array: the writes land there until one does not fit; that one
  and the later ones go to new memory.\<close>

fun landed :: "nat \<Rightarrow> bytes \<Rightarrow> bytes list \<Rightarrow> bytes" where
  "landed cap acc [] = acc"
| "landed cap acc (w # ws) = (if length acc + length w \<le> cap then landed cap (acc @ w) ws else acc)"

text \<open>\<open>sendBack\<close>: what is left in the shared array, what goes out on the connection, and the size
  reported. \<open>gz\<close> is \<open>CompressSimple\<close>; \<open>flate\<close> is the multipart compressor, \<open>None\<close> when it gives up.\<close>

definition sendBack ::
  "comp_config \<Rightarrow> (bytes \<Rightarrow> bytes) \<Rightarrow> (bytes \<Rightarrow> bytes option) \<Rightarrow> nat \<Rightarrow> conninfo \<Rightarrow> hsparams \<Rightarrow> bytes \<Rightarrow> int
     \<Rightarrow> bytes \<Rightarrow> (bytes \<times> bytes \<times> int) go" where
  "sendBack cfg gz flate cap conn p data took guid =
     (let ws = response_head took guid # additional_resp_headers p;
          out = (\<lambda>ws body join. (landed cap [] (ws @ (if join \<and> length (concat ws) + length body + 10 < cap
                                                      then [body] else [])),
                                 concat ws @ body, int (length body)));
          plain = Inr (out (ws @ [length_header data @ crlf]) data True)
      in if compression_threshold conn > 0 \<and> int (length data) > compression_threshold conn then
           (case comp conn of
              None \<Rightarrow>
                (let z = gz data
                 in Inr (out (ws @ [length_header z, encoding_header ''gzip'' data]) z True))
            | Some c \<Rightarrow>
                (if \<not> has_flate cfg then Inl NilDereference
                 else
                   (case flate data of
                      Some z \<Rightarrow>
                        Inr (out (ws @ [length_header z, encoding_header (compressor_id c) data]) z False)
                    | None \<Rightarrow> plain)))
         else plain)"

definition processHeader :: "bytes \<Rightarrow> (bool \<times> int \<times> bytes) go" where
  "processHeader headerData =
     go_bind (go_index headerData 0) (\<lambda>c.
       let is_compressed = (c = CHR ''!'');
           h1 = (if is_compressed then drop 1 headerData else headerData);
           (h2, guid) = (if CHR ''|'' \<in> set h1
                         then (takeWhile (\<lambda>x. x \<noteq> CHR ''|'') h1, drop 1 (dropWhile (\<lambda>x. x \<noteq> CHR ''|'') h1))
                         else (h1, []));
           (content_length, ok) = atoi h2
       in if ok then Inr (is_compressed, content_length, guid) else Inr (False, - 1, []))"

subsection \<open>Serving a message\<close>

text \<open>What a request handler returns: a string, and the parameters with a fast return it may have
  set.\<close>

type_synonym action_handler = "hsparams \<Rightarrow> bytes \<times> hsparams"

definition response_bytes :: "bytes \<Rightarrow> hsparams \<Rightarrow> bytes" where
  "response_bytes tmp p = (case fastreturn p of Some f \<Rightarrow> f | None \<Rightarrow> tmp)"

definition serve_message ::
  "comp_config \<Rightarrow> (bytes \<Rightarrow> bytes) \<Rightarrow> (bytes \<Rightarrow> bytes option) \<Rightarrow> (bytes \<Rightarrow> bytes option) \<Rightarrow> nat
     \<Rightarrow> action_handler \<Rightarrow> int \<Rightarrow> conninfo handler" where
  "serve_message cfg gz flate inflate cap handle took conn compressed m0 =
     (case (if compressed then inflate m0 else Some m0) of
        None \<Rightarrow> Inl CannotDecompress
      | Some m \<Rightarrow>
          (case ReadHSParams m CreateHSParams of
             Inl p \<Rightarrow> Inl (Crashed p)
           | Inr (None, p) \<Rightarrow> Inl CannotDecode
           | Inr (Some guid, p) \<Rightarrow>
               (let is_ex = (GetParam p ''action'' ''?'' = ''conn-ex'');
                    conn1 = (if is_ex then handle_conn_ex cfg p conn else conn);
                    (tmp, p1) = (if is_ex then ([], p) else handle p)
                in if GetParamBUnsafe p1 ''__skipsendback'' None \<noteq> None then Inr (None, conn1)
                   else
                     (case sendBack cfg gz flate cap conn1 p1 (response_bytes tmp p1) took guid of
                        Inl e \<Rightarrow> Inl (Crashed e)
                      | Inr (buffered, _, _) \<Rightarrow> Inr (Some buffered, conn1)))))"

end
