(* ===== verification/SocketCorrect.thy ===== *)
theory SocketCorrect
  imports Socket
begin

text \<open>
  Correctness of the TCP framing. Seen from outside, the server parses one byte stream,
  whatever pieces it arrives in; a frame that claims to be shorter than its own header crashes
  the process; a response overwrites a pipelined request that is still in the shared array.
\<close>

subsection \<open>The stream as a list of frames\<close>

text \<open>The abstract server: the messages in a byte string and why it stops.\<close>

function parse_stream :: "'c handler \<Rightarrow> 'c \<Rightarrow> bytes \<Rightarrow> bytes list \<times> ending" where
  "parse_stream h conn d =
     (if length d < 5 then ([], EndOfStream)
      else if \<not> head_ok d then ([], BadHeaderType)
      else if length d < frame_size d then ([], EndOfStream)
      else if frame_size d < 5 then ([], Crashed SliceOutOfRange)
      else
        (let m = take (frame_size d - 5) (drop 5 d)
         in case h conn (d ! 0 = CHR ''B'') m of
              Inl e \<Rightarrow> ([], e)
            | Inr (out, conn') \<Rightarrow>
                (let (ms, e) = parse_stream h conn' (drop (frame_size d) d) in (m # ms, e))))"
  by auto
termination by (relation "measure (\<lambda>(h, c, d). length d)") auto

declare parse_stream.simps [simp del]

lemma frame_prefix:
  assumes "5 \<le> length d"
  shows "frame_size (d @ e) = frame_size d" "head_ok (d @ e) = head_ok d"
proof -
  have "take 4 (drop 1 (d @ e)) = take 4 (drop 1 d)" using assms by simp
  then show "frame_size (d @ e) = frame_size d" by (simp only: frame_size_def)
  show "head_ok (d @ e) = head_ok d" using assms by (cases d) (simp_all add: head_ok_def)
qed

lemma getStreamBuffer_cases:
  "getStreamBuffer stream recv cp =
     (if length stream + length recv < 5 then NoHeader
      else if \<not> head_ok (stream @ recv) then BadHeader (frame_size (stream @ recv))
      else if frame_size (stream @ recv) < cp then InSharedMem (frame_size (stream @ recv))
      else InSlab (frame_size (stream @ recv)))"
  using frame_prefix [of stream recv] by (auto simp: getStreamBuffer_def Let_def)

lemma header_known_iff: "header_known s c \<longleftrightarrow> 5 \<le> length (content s) + length c"
  by (auto simp: header_known_def getStreamBuffer_cases)

definition data_of :: "net_read list \<Rightarrow> bytes" where
  "data_of rs = concat (map (\<lambda>r. case r of Data c \<Rightarrow> c | ReadError \<Rightarrow> []) rs)"

definition all_data :: "net_read list \<Rightarrow> bool" where
  "all_data rs \<longleftrightarrow> ReadError \<notin> set rs"

lemma read_rest_all:
  assumes "all_data rs"
  shows "(length (content s @ data_of rs) < n \<longrightarrow> read_rest s n rs = Inl EndOfStream) \<and>
    (n \<le> length (content s @ data_of rs) \<longrightarrow> (\<exists>s' rs'. read_rest s n rs = Inr (s', rs') \<and>
       content s' @ data_of rs' = content s @ data_of rs \<and> n \<le> length (content s') \<and> all_data rs'))"
  using assms
proof (induction s n rs rule: read_rest.induct)
  case (1 s n)
  then show ?case by (simp add: data_of_def)
next
  case (2 s n r rs)
  then obtain c where r: "r = Data c" by (cases r) (auto simp: all_data_def)
  show ?case
  proof (cases "n \<le> length (content s)")
    case True
    with 2 show ?thesis by simp
  next
    case False
    with 2(1) [OF False r] 2(2) r show ?thesis by (simp add: data_of_def all_data_def)
  qed
qed

lemma read_frame_spec:
  fixes s c rs
  defines "d \<equiv> content s @ c @ data_of rs"
  assumes "all_data rs" "header_known s c"
  shows "if \<not> head_ok d then read_frame s c rs = Inl BadHeaderType
    else if length d < frame_size d then read_frame s c rs = Inl EndOfStream
    else if frame_size d < 5 then read_frame s c rs = Inl (Crashed SliceOutOfRange)
    else \<exists>s' rs'. read_frame s c rs = Inr (d ! 0 = CHR ''B'', take (frame_size d - 5) (drop 5 d), s', rs') \<and>
      content s' @ data_of rs' = drop (frame_size d) d \<and> all_data rs'"
proof -
  have five: "5 \<le> length (content s @ c)"
    using assms(3) by (simp add: header_known_iff)
  have fs: "frame_size (content s @ c) = frame_size d" "head_ok (content s @ c) = head_ok d"
    using frame_prefix [OF five, of "data_of rs"] by (simp_all add: d_def)
  obtain s1 where s1: "content s1 = content s @ c"
    and step: "head_ok d \<Longrightarrow> read_frame s c rs =
      (case read_rest s1 (frame_size d) rs of
         Inl e \<Rightarrow> Inl e
       | Inr (s2, rs') \<Rightarrow> (case go_slice (content s2) 5 (frame_size d) of
            Inl p \<Rightarrow> Inl (Crashed p)
          | Inr message \<Rightarrow> Inr (content s2 ! 0 = CHR ''B'', message, drop_front s2 (frame_size d), rs')))"
  proof (cases "frame_size d < length (shared s)")
    case True
    with five fs that [of "sock_append (to_shared s) c"] show thesis
      by (simp add: read_frame_def getStreamBuffer_cases)
  next
    case False
    with five fs that [of "sock_append (to_private s) c"] show thesis
      by (simp add: read_frame_def getStreamBuffer_cases)
  qed
  have dd: "content s1 @ data_of rs = d" by (simp add: s1 d_def)
  note rest = read_rest_all [OF assms(2), of s1 "frame_size d", unfolded dd]
  show ?thesis
  proof (cases "head_ok d \<and> frame_size d \<le> length d")
    case False
    with five fs step rest show ?thesis by (auto simp: read_frame_def getStreamBuffer_cases)
  next
    case True
    with rest obtain s2 rs' where r: "read_rest s1 (frame_size d) rs = Inr (s2, rs')"
      "content s2 @ data_of rs' = d" "frame_size d \<le> length (content s2)" "all_data rs'" by auto
    show ?thesis
    proof (cases "frame_size d < 5")
      case small: True
      with True r step show ?thesis by (simp add: go_slice_bad)
    next
      case False
      have sl: "take (frame_size d - 5) (drop 5 (content s2)) = take (frame_size d - 5) (drop 5 d)"
        using False r(3) unfolding r(2) [symmetric] by simp
      have hd: "content s2 ! 0 = d ! 0"
        using False r(3) unfolding r(2) [symmetric] by (cases "content s2") simp_all
      have "drop (frame_size d) (content s2) @ data_of rs' = drop (frame_size d) d"
        using r(3) unfolding r(2) [symmetric] by simp
      with True False r step sl hd show ?thesis by simp
    qed
  qed
qed

lemma serve_is_stream_parser_core:
  assumes "\<forall>conn b m out conn'. h conn b m = Inr (out, conn') \<longrightarrow> out = None"
  shows "serve h conn s (map Data cs) = parse_stream h conn (content s @ concat cs)"
proof -
  have "all_data rs \<Longrightarrow> serve h conn s rs = parse_stream h conn (content s @ data_of rs)" for rs
    using assms
  proof (induction h conn s rs rule: serve.induct)
    case (1 h conn s rs)
    have frame: "(case read_frame s c rs1 of
          Inl e \<Rightarrow> ([], e)
        | Inr (b, m, s', rs'') \<Rightarrow>
            (case h conn b m of
               Inl e \<Rightarrow> ([], e)
             | Inr (out, conn') \<Rightarrow> (let (ms, e) = serve h conn' (send_back out s') rs'' in (m # ms, e)))) =
        parse_stream h conn (content s @ c @ data_of rs1)"
      if known: "header_known s c" and all: "all_data rs1"
        and IH: "\<And>b m s' rs'' out conn'. read_frame s c rs1 = Inr (b, m, s', rs'') \<Longrightarrow>
          h conn b m = Inr (out, conn') \<Longrightarrow> all_data rs'' \<Longrightarrow>
          serve h conn' (send_back out s') rs'' = parse_stream h conn' (content (send_back out s') @ data_of rs'')"
      for c rs1
    proof -
      let ?d = "content s @ c @ data_of rs1"
      have five: "5 \<le> length ?d" using known by (simp add: header_known_iff)
      note spec = read_frame_spec [OF all known]
      show ?thesis
      proof (cases "head_ok ?d \<and> frame_size ?d \<le> length ?d \<and> 5 \<le> frame_size ?d")
        case False
        with spec five show ?thesis by (subst parse_stream.simps) (auto split: if_splits)
      next
        case True
        with spec obtain s' rs' where r: "read_frame s c rs1 =
            Inr (?d ! 0 = CHR ''B'', take (frame_size ?d - 5) (drop 5 ?d), s', rs')"
          "content s' @ data_of rs' = drop (frame_size ?d) ?d" "all_data rs'" by auto
        show ?thesis
        proof (cases "h conn (?d ! 0 = CHR ''B'') (take (frame_size ?d - 5) (drop 5 ?d))")
          case (Inl e)
          with True five r(1) show ?thesis by (subst parse_stream.simps) (simp add: Let_def)
        next
          case (Inr p)
          obtain out conn' where p: "p = (out, conn')" by force
          with Inr 1(5) have "out = None" by blast
          with IH [OF r(1)] Inr p r(2,3) have
            "serve h conn' (send_back out s') rs' = parse_stream h conn' (drop (frame_size ?d) ?d)"
            by (simp add: send_back_def)
          with True five r(1) Inr p show ?thesis by (subst parse_stream.simps) (simp add: Let_def)
        qed
      qed
    qed
    show ?case
    proof (cases "length (content s) < 5")
      case short: True
      show ?thesis
      proof (cases rs)
        case Nil
        with short show ?thesis
          by (subst serve.simps, subst parse_stream.simps) (simp add: data_of_def)
      next
        case (Cons r rs1)
        with 1(4) obtain c where r: "r = Data c" and all: "all_data rs1"
          by (cases r) (auto simp: all_data_def)
        have d: "data_of rs = c @ data_of rs1" by (simp add: Cons r data_of_def)
        show ?thesis
        proof (cases "header_known s c")
          case True
          from frame [OF True all] 1(1) [OF short Cons r True] 1(5) show ?thesis
            by (subst serve.simps) (simp add: short Cons r True d [unfolded Cons r])
        next
          case False
          from 1(2) [OF short Cons r False all] 1(5) show ?thesis
            by (subst serve.simps) (simp add: short Cons r False d [unfolded Cons r])
        qed
      qed
    next
      case False
      then have known: "header_known s []" by (simp add: header_known_iff)
      from frame [OF known 1(4)] 1(3) [OF False] 1(5) False show ?thesis
        by (subst serve.simps) simp
    qed
  qed
  moreover have "all_data (map Data cs)" by (auto simp: all_data_def)
  moreover have "data_of (map Data cs) = concat cs" by (induction cs) (simp_all add: data_of_def)
  ultimately show ?thesis by metis
qed


subsection \<open>Frames a client writes\<close>

definition put_frame :: "bytes \<Rightarrow> bytes" where
  "put_frame m = ''b'' @ put_u32 (length m + 5) @ m"

lemma frame_size_put:
  "length m \<le> 16777211 \<Longrightarrow> frame_size (put_frame m @ r) = length m + 5"
  by (simp add: frame_size_def put_frame_def u32_put)

lemma parse_put_frame:
  assumes "length m \<le> 16777211" "h conn False m = Inr (out, conn')"
  shows "parse_stream h conn (put_frame m @ r) =
    (let (ms, e) = parse_stream h conn' r in (m # ms, e))"
proof -
  have "head_ok (put_frame m @ r)" "(put_frame m @ r) ! 0 \<noteq> CHR ''B''"
    "take (length m) (drop 5 (put_frame m @ r)) = m" and len: "length (put_frame m) = length m + 5"
    by (simp_all add: put_frame_def head_ok_def)
  moreover from len have "drop (length m + 5) (put_frame m @ r) = r" by simp
  ultimately show ?thesis using assms
    by (subst parse_stream.simps) (simp add: frame_size_put split: prod.split)
qed

text \<open>
  What the client frames, the server serves: for a client that skips responses and whose
  messages are within the size limit and accepted by the handler, the messages served are
  exactly the ones sent, however the bytes were cut.
\<close>

theorem frames_round_trip:
  assumes "\<forall>m \<in> set msgs. length m \<le> 16777211"
    "\<forall>conn b m. \<exists>conn'. h conn b m = Inr (None, conn')" "concat cs = concat (map put_frame msgs)"
  shows "serve h conn \<lparr>shared = mem, ds = Private []\<rparr> (map Data cs) = (msgs, EndOfStream)"
proof -
  have no_out: "\<forall>conn b m out conn'. h conn b m = Inr (out, conn') \<longrightarrow> out = None"
  proof (intro allI impI)
    fix c b m out c' assume "h c b m = Inr (out, c')"
    moreover obtain c'' where "h c b m = Inr (None, c'')" using assms(2) by blast
    ultimately show "out = None" by simp
  qed
  have "parse_stream h conn (concat (map put_frame msgs)) = (msgs, EndOfStream)"
    using assms(1)
  proof (induction msgs arbitrary: conn)
    case Nil
    then show ?case by (subst parse_stream.simps) simp
  next
    case (Cons m ms)
    obtain conn' where "h conn False m = Inr (None, conn')" using assms(2) by blast
    with parse_put_frame [of m h conn None conn' "concat (map put_frame ms)"] Cons show ?case by simp
  qed
  with serve_is_stream_parser_core [OF no_out] assms(3) show ?thesis by (simp add: content_def)
qed

text \<open>
  C29. A frame that claims fewer than 5 bytes crashes the server: \<open>data_stream[5:message_len]\<close>
  panics, and the recovery code ends the process. Any client can send it.
\<close>

theorem short_frame_crashes:
  assumes "5 \<le> length d" "head_ok d" "frame_size d < 5"
  shows "serve h conn \<lparr>shared = mem, ds = Private []\<rparr> (Data d # rs) = ([], Crashed SliceOutOfRange)"
proof -
  let ?s = "\<lparr>shared = mem, ds = Private []\<rparr>"
  have c: "content ?s = []" by (simp add: content_def)
  have rest: "read_rest u n rs = Inr (u, rs)" if "n \<le> length (content u)" for u n
    using that by (cases rs) simp_all
  have "read_frame ?s d rs = Inl (Crashed SliceOutOfRange)"
    using assms by (simp add: read_frame_def getStreamBuffer_cases c rest go_slice_bad)
  with assms(1) show ?thesis by (subst serve.simps) (simp add: header_known_iff c)
qed

text \<open>
  C15. A pipelined request is overwritten. If a request is still in the shared array when the
  response to the previous one is written there, its first byte is whatever the response has
  at that place, and the connection is closed with a wrong header type although the client
  sent a correct frame.
\<close>

theorem pipelined_request_lost:
  assumes "ds s = InShared off len" "off + len \<le> length (shared s)" "5 \<le> len"
    "off < length out" "length out \<le> length (shared s)" "out ! off \<notin> {CHR ''B'', CHR ''b''}"
  shows "content (send_back (Some out) s) ! 0 = out ! off
    \<and> serve h conn (send_back (Some out) s) rs = ([], BadHeaderType)"
proof -
  let ?s = "send_back (Some out) s"
  have "length (content s) = len" using assms(1,2) by (simp add: content_def)
  then have len: "length (content ?s) = len" by simp
  have first: "content ?s ! 0 = out ! off"
    using assms by (simp add: send_back_def content_def write_at_def nth_append)
  with assms(6) have "\<not> head_ok (content ?s)" by (simp add: head_ok_def)
  then have "read_frame ?s [] rs = Inl BadHeaderType"
    using len assms(3) by (simp add: read_frame_def getStreamBuffer_cases)
  with first len assms(3) show ?thesis by (subst serve.simps) simp
qed

text \<open>
  A client that asked for snappy gets flate data labelled snappy: whenever the response is
  compressed by the multipart framework, the body is the flate compressor's output, while the
  header names the compressor of the connection.
\<close>

theorem snappy_label_on_flate_body:
  assumes "comp conn = Some CSnappy" "has_flate cfg" "flate data = Some z"
    "0 < compression_threshold conn" "compression_threshold conn < int (length data)"
  shows "\<exists>hd buffered. sendBack cfg gz flate cap conn p data took guid =
    Inr (buffered, hd @ encoding_header ''mp-snappy'' data @ z, int (length z))"
  using assms
  by (simp add: sendBack_def compressor_id_def Let_def)

subsection \<open>Witnesses\<close>


lemma frames_round_trip_witness:
  "serve (\<lambda>(c::unit) b m. Inr (None, c)) () \<lparr>shared = replicate 8 (CHR ''x''), ds = Private []\<rparr>
     (map Data [put_frame ''hi'' @ put_frame [], put_frame ''abc'']) = ([''hi'', [], ''abc''], EndOfStream)"
  by (rule frames_round_trip) simp_all

lemma short_frame_crashes_witness:
  "serve (\<lambda>(c::unit) b m. Inr (None, c)) () \<lparr>shared = [], ds = Private []\<rparr> [Data (''b'' @ put_u32 3)]
   = ([], Crashed SliceOutOfRange)"
  by (rule short_frame_crashes) (simp_all add: head_ok_def frame_size_def u32_put [simplified])

lemma pipelined_request_lost_witness:
  "serve (\<lambda>(c::unit) b m. Inr (None, c)) ()
     (send_back (Some ''Request 200 OK'') \<lparr>shared = put_frame ''hi'' @ put_frame ''yo'', ds = InShared 7 7\<rparr>) []
   = ([], BadHeaderType)"
proof -
  let ?s = "\<lparr>shared = put_frame ''hi'' @ put_frame ''yo'', ds = InShared 7 7\<rparr>"
  from pipelined_request_lost [of ?s 7 7 "''Request 200 OK''" "\<lambda>(c::unit) b m. Inr (None, c)" "()" "[]"]
  show ?thesis by (simp add: put_frame_def)
qed

lemma snappy_label_on_flate_body_witness:
  "\<exists>hd b. sendBack \<lparr>has_flate = True, has_snappy = True, cfg_threshold_key = 1, cfg_threshold = 1\<rparr>
     (\<lambda>x. x) (\<lambda>x. Some ''zz'') 100 \<lparr>remote_distance = 1, comp = Some CSnappy, compression_threshold = 3\<rparr>
     CreateHSParams ''hello'' 5 ''g''
   = Inr (b, hd @ encoding_header ''mp-snappy'' ''hello'' @ ''zz'', 2)"
  using snappy_label_on_flate_body [of "\<lparr>remote_distance = 1, comp = Some CSnappy, compression_threshold = 3\<rparr>"
      "\<lparr>has_flate = True, has_snappy = True, cfg_threshold_key = 1, cfg_threshold = 1\<rparr>"
      "\<lambda>x. Some ''zz''" "''hello''" "''zz''" "\<lambda>x. x" 100 CreateHSParams 5 "''g''"]
  by auto

end
