(* ===== verification/UdpServer.thy ===== *)
theory UdpServer
  imports Socket GoJson
begin

text \<open>
  The UDP side of \<open>handler_socket2\<close>: \<open>hs_udp.go\<close> (one buffer per source, binary frames, the
  bookkeeping of requests and its cleaner) and \<open>hs_udp_v1.go\<close> (the older text protocol). The reader
  is one loop: \<open>udp_datagram\<close> is its body and returns the goroutines it starts as tasks, which then
  run in any order. No \<open>recover\<close> guards the loop, so a panic in it ends the process.
\<close>

subsection \<open>Bookkeeping of requests\<close>

record udp_request =
  ur_action :: string
  ur_req :: string
  ur_start :: int
  ur_end :: int
  ur_status :: char
  ur_no :: int
  ur_pending :: int

type_synonym udp_stats = "(string, udp_request) gomap"

definition udpStatBeginRequest :: "int \<Rightarrow> string \<Rightarrow> int \<Rightarrow> udp_stats \<Rightarrow> udp_stats" where
  "udpStatBeginRequest now rec_id request_no stats =
     gm_set stats rec_id \<lparr>ur_action = [], ur_req = [], ur_start = now, ur_end = 0, ur_status = CHR ''O'',
       ur_no = request_no, ur_pending = 0\<rparr>"

definition udpStatRequest :: "string \<Rightarrow> string \<Rightarrow> string \<Rightarrow> udp_stats \<Rightarrow> udp_stats" where
  "udpStatRequest rec_id action request stats =
     (case map_of stats rec_id of
        None \<Rightarrow> stats
      | Some info \<Rightarrow> gm_set stats rec_id (info\<lparr>ur_action := action, ur_req := request,
          ur_pending := ur_pending info + 1, ur_status := CHR ''P''\<rparr>))"

text \<open>The cleaner: finished requests wait in one of three buckets, chosen by the clock.\<close>

definition numCleaners :: nat where "numCleaners = 3"

definition second_per_piece :: nat where "second_per_piece = 5"

record cleaners =
  item_pos :: nat
  pieces :: "string list list"

definition init_cleaners :: cleaners where
  "init_cleaners = \<lparr>item_pos = 0, pieces = replicate numCleaners []\<rparr>"

definition cleaners_insert :: "string list \<Rightarrow> cleaners \<Rightarrow> cleaners" where
  "cleaners_insert ids c =
     c\<lparr>pieces := (pieces c)[item_pos c := fold List.insert ids (pieces c ! item_pos c)]\<rparr>"

definition cleaners_get :: "cleaners \<Rightarrow> string list \<times> cleaners" where
  "cleaners_get c =
     (let p = (item_pos c + 1) mod numCleaners in (pieces c ! p, c\<lparr>pieces := (pieces c)[p := []]\<rparr>))"

definition udpStatFinishRequest ::
  "int \<Rightarrow> string \<Rightarrow> bool \<Rightarrow> udp_stats \<times> cleaners \<Rightarrow> udp_stats \<times> cleaners" where
  "udpStatFinishRequest now rec_id is_ok = (\<lambda>(stats, cl).
     (case map_of stats rec_id of
        None \<Rightarrow> (stats, cl)
      | Some info \<Rightarrow>
          (let info1 = info\<lparr>ur_pending := ur_pending info - 1\<rparr>
           in if \<not> is_ok \<or> ur_pending info1 \<le> 0
              then (gm_set stats rec_id (info1\<lparr>ur_status := if is_ok then CHR ''F'' else CHR ''X'', ur_end := now\<rparr>),
                    cleaners_insert [rec_id] cl)
              else (gm_set stats rec_id info1, cl))))"

text \<open>The callback of the cleaner: finished records go, the others come back later.\<close>

fun clean_stats :: "string list \<Rightarrow> udp_stats \<Rightarrow> string list \<times> udp_stats" where
  "clean_stats [] stats = ([], stats)"
| "clean_stats (v # vs) stats =
     (case map_of stats v of
        None \<Rightarrow> clean_stats vs stats
      | Some r \<Rightarrow>
          if ur_status r = CHR ''F'' \<or> ur_status r = CHR ''X'' then clean_stats vs (gm_delete stats v)
          else (let (ret, stats') = clean_stats vs stats in (v # ret, stats')))"

definition cleaner_tick :: "nat \<Rightarrow> udp_stats \<times> cleaners \<Rightarrow> udp_stats \<times> cleaners" where
  "cleaner_tick now = (\<lambda>(stats, cl).
     (let (ids, cl1) = cleaners_get (cl\<lparr>item_pos := now div second_per_piece mod numCleaners\<rparr>);
          (ret, stats') = clean_stats ids stats
      in (stats', cleaners_insert ret cl1)))"

subsection \<open>Binary frames\<close>

text \<open>The number of bytes to move forward (\<open>- 1\<close>: drop everything, \<open>0\<close>: more data needed), the
  message, and whether it is compressed.\<close>

definition processRequestDataV2 :: "bytes \<Rightarrow> (int \<times> bytes \<times> bool) go" where
  "processRequestDataV2 message =
     (if length message < 5 then Inr (0, [], False)
      else
        (let sz = u32 (take 4 (drop 1 message)); is_compressed = (message ! 0 = CHR ''B'')
         in if int sz < 0 then Inr (- 1, [], False)
            else if length message \<ge> sz
            then go_bind (go_slice message 5 sz) (\<lambda>body. Inr (int sz, body, is_compressed))
            else Inr (0, [], False)))"

definition runRequestV2 ::
  "(bytes \<Rightarrow> bytes) \<Rightarrow> action_handler \<Rightarrow> string \<Rightarrow> bytes \<Rightarrow> bool \<Rightarrow> udp_stats \<Rightarrow> (bool \<times> udp_stats) go" where
  "runRequestV2 inflate handle key message_body is_compressed stats =
     go_bind (ReadHSParams (if is_compressed then inflate message_body else message_body) CreateHSParams)
       (\<lambda>(guid, p). case guid of
            None \<Rightarrow> Inr (False, stats)
          | Some g \<Rightarrow> Inr (True, udpStatRequest key (GetParam p ''action'' ''?'') (getParamInfoHTML p) stats))"

subsection \<open>The text protocol\<close>

definition terminator :: bytes where
  "terminator = [CHR 0x0D, CHR 0x0A, CHR 0x0D, CHR 0x0A]"

text \<open>Addition of Go's 64-bit \<open>int\<close>.\<close>

definition wrap64 :: "int \<Rightarrow> int" where
  "wrap64 z = (z + 2 ^ 63) mod 2 ^ 64 - 2 ^ 63"

definition processRequestData :: "bytes \<Rightarrow> (int \<times> bytes \<times> bool) go" where
  "processRequestData message =
     (case go_index_of message terminator of
        None \<Rightarrow> Inr (0, [], False)
      | Some lenf \<Rightarrow>
          go_bind (go_slice message 0 lenf) (\<lambda>header.
            go_bind (processHeader header) (\<lambda>(is_compressed, required_size, guid).
              if required_size < 0 then Inr (- 1, [], False)
              else
                (let req = wrap64 (required_size + (int lenf + 4))
                 in if int (length message) < req then Inr (0, [], False)
                    else if req < 0 then Inl SliceOutOfRange
                    else go_bind (go_slice message (lenf + 4) (nat req)) (\<lambda>body.
                      Inr (req, body, is_compressed))))))"

text \<open>\<open>url.QueryUnescape\<close> and \<open>url.ParseQuery\<close>; the flag is false when some part was malformed.\<close>

fun query_unescape :: "string \<Rightarrow> string option" where
  "query_unescape [] = Some []"
| "query_unescape (c # r) =
     (if c = CHR ''%'' then
        (case r of
           a # b # r' \<Rightarrow>
             (case (hex_val a, hex_val b) of
                (Some x, Some y) \<Rightarrow> map_option ((#) (byte (16 * x + y))) (query_unescape r')
              | _ \<Rightarrow> None)
         | _ \<Rightarrow> None)
      else map_option ((#) (if c = CHR ''+'' then CHR '' '' else c)) (query_unescape r))"

definition query_part :: "string \<Rightarrow> (string \<times> string) option" where
  "query_part kv =
     (let k = takeWhile (\<lambda>c. c \<noteq> CHR ''='') kv; v = drop 1 (dropWhile (\<lambda>c. c \<noteq> CHR ''='') kv)
      in case (query_unescape k, query_unescape v) of (Some k', Some v') \<Rightarrow> Some (k', v') | _ \<Rightarrow> None)"

fun parse_parts :: "string list \<Rightarrow> (string, string list) gomap \<Rightarrow> bool \<Rightarrow> (string, string list) gomap \<times> bool" where
  "parse_parts [] m ok = (m, ok)"
| "parse_parts (kv # kvs) m ok =
     (if CHR '';'' \<in> set kv then parse_parts kvs m False
      else if kv = [] then parse_parts kvs m ok
      else case query_part kv of
          None \<Rightarrow> parse_parts kvs m False
        | Some (k, v) \<Rightarrow> parse_parts kvs (gm_set m k (gm_get [] m k @ [v])) ok)"

definition parse_query :: "string \<Rightarrow> (string, string list) gomap \<times> bool" where
  "parse_query s = parse_parts (go_split (CHR ''&'') s) [] True"

definition query_params :: "(string, string list) gomap \<Rightarrow> (string, string) gomap" where
  "query_params params = fold (\<lambda>(k, v) m. gm_set m k (go_join '','' v)) params []"

definition redirect_params :: "(string, string list) gomap \<Rightarrow> (string, string) gomap" where
  "redirect_params vals = fold (\<lambda>(k, v) m. gm_set m (go_trim_left ''?'' k) (case v of [] \<Rightarrow> [] | x # xs \<Rightarrow> x)) vals []"

text \<open>The loop follows \<open>X-Forward:\<close> answers; a handler that always forwards keeps it running.\<close>

partial_function (option) forward_v1 :: "action_handler \<Rightarrow> (string, string) gomap \<Rightarrow> string option" where
  "forward_v1 handle params2 =
     (let (tmp, p) = handle (CreateHSParamsFromMap params2); data = response_bytes tmp p
      in if \<not> has_prefix data ''X-Forward:'' then Some data
         else (let (vals, ok) = parse_query (drop 10 data)
               in if \<not> ok then Some (''X-Forward, wrong redirect'' @ data)
                  else forward_v1 handle (redirect_params vals)))"

definition conn_info_html :: "string \<Rightarrow> string" where
  "conn_info_html msg =
     (let d = (case query_unescape msg of None \<Rightarrow> [] | Some u \<Rightarrow> u)
      in if length d > 60 then
           ''<span class='' @ [CHR 0x27] @ ''tooltip'' @ [CHR 0x27] @ ''>[...] '' @ take 60 d @ ''<div>''
           @ wbr_chunks d @ ''</div></span>''
         else ''<span>'' @ d @ ''</span>'')"

definition runRequest ::
  "(bytes \<Rightarrow> bytes) \<Rightarrow> action_handler \<Rightarrow> string \<Rightarrow> bytes \<Rightarrow> bool \<Rightarrow> udp_stats \<Rightarrow> string option \<times> udp_stats" where
  "runRequest inflate handle key message_body is_compressed stats =
     (let curr_msg = (if is_compressed then inflate message_body else message_body);
          params2 = query_params (fst (parse_query curr_msg))
      in (forward_v1 handle params2,
          udpStatRequest key (gm_get [] params2 ''action'') (conn_info_html curr_msg) stats))"

subsection \<open>The reader\<close>

datatype udp_task = TaskV2 string bytes bool | TaskV1 string bytes bool

record udp_state =
  source_buffer :: "(string, bytes) gomap"
  udp_stats_of :: udp_stats
  udp_cleaners :: cleaners
  req_no :: int

definition udp_init :: udp_state where
  "udp_init = \<lparr>source_buffer = [], udp_stats_of = [], udp_cleaners = init_cleaners, req_no = 0\<rparr>"

definition begin_req :: "int \<Rightarrow> string \<Rightarrow> udp_state \<Rightarrow> udp_state" where
  "begin_req now key st = st\<lparr>udp_stats_of := udpStatBeginRequest now key (req_no st) (udp_stats_of st)\<rparr>"

definition finish_req :: "int \<Rightarrow> string \<Rightarrow> bool \<Rightarrow> udp_state \<Rightarrow> udp_state" where
  "finish_req now key is_ok st =
     (let (s, c) = udpStatFinishRequest now key is_ok (udp_stats_of st, udp_cleaners st)
      in st\<lparr>udp_stats_of := s, udp_cleaners := c\<rparr>)"

function v2_loop ::
  "int \<Rightarrow> string \<Rightarrow> bytes \<Rightarrow> udp_state \<Rightarrow> udp_task list \<Rightarrow> (bytes \<times> udp_state \<times> udp_task list) go" where
  "v2_loop now key message st tasks =
     (case processRequestDataV2 message of
        Inl p \<Rightarrow> Inl p
      | Inr (move_forward, body, packed) \<Rightarrow>
          if move_forward = - 1 then Inr ([], finish_req now key False (begin_req now key st), tasks)
          else if move_forward > 0 then
            (let message' = drop (nat move_forward) message;
                 st' = begin_req now key st; tasks' = tasks @ [TaskV2 key body packed]
             in if message' = [] then Inr ([], st', tasks') else v2_loop now key message' st' tasks')
          else Inr (message, st, tasks))"
  by pat_completeness auto
termination
  by (relation "measure (\<lambda>(now, key, message, st, tasks). length message)")
    (auto simp: processRequestDataV2_def Let_def split: if_splits)

declare v2_loop.simps [simp del]

function v1_loop ::
  "int \<Rightarrow> string \<Rightarrow> bytes \<Rightarrow> udp_state \<Rightarrow> udp_task list \<Rightarrow> (bytes \<times> udp_state \<times> udp_task list) go" where
  "v1_loop now key message st tasks =
     (case processRequestData message of
        Inl p \<Rightarrow> Inl p
      | Inr (move_forward, body, packed) \<Rightarrow>
          if move_forward = - 1 then Inr ([], finish_req now key False st, tasks)
          else if move_forward > 0 then
            (let message' = drop (nat move_forward) message; tasks' = tasks @ [TaskV1 key body packed]
             in if message' = [] then Inr ([], st, tasks') else v1_loop now key message' st tasks')
          else Inr (message, st, tasks))"
  by pat_completeness auto
termination
  by (relation "measure (\<lambda>(now, key, message, st, tasks). length message)") auto

declare v1_loop.simps [simp del]

definition put_buffer :: "string \<Rightarrow> bytes \<Rightarrow> udp_state \<Rightarrow> udp_state" where
  "put_buffer key message st =
     st\<lparr>source_buffer := (if message = [] then gm_delete (source_buffer st) key
                         else gm_set (source_buffer st) key message)\<rparr>"

text \<open>The guard \<open>len(message) > 0 && message[0] == 'B' || message[0] == 'b'\<close> reads the first byte
  of an empty message.\<close>

definition is_v2 :: "bytes \<Rightarrow> bool go" where
  "is_v2 message =
     (if length message > 0 \<and> message ! 0 = CHR ''B'' then Inr True
      else go_bind (go_index message 0) (\<lambda>c. Inr (c = CHR ''b'')))"

definition udp_datagram :: "int \<Rightarrow> string \<Rightarrow> bytes \<Rightarrow> udp_state \<Rightarrow> (udp_state \<times> udp_task list) go" where
  "udp_datagram now key data st0 =
     (let message = gm_get [] (source_buffer st0) key @ data;
          st = st0\<lparr>source_buffer := gm_set (source_buffer st0) key message, req_no := req_no st0 + 1\<rparr>
      in go_bind (is_v2 message) (\<lambda>v2.
        go_bind (if v2 then v2_loop now key message st [] else v1_loop now key message st [])
          (\<lambda>(message', st', tasks). Inr (put_buffer key message' st', tasks))))"

text \<open>A finished task updates the bookkeeping of its source.\<close>

definition run_task ::
  "int \<Rightarrow> (bytes \<Rightarrow> bytes) \<Rightarrow> action_handler \<Rightarrow> udp_task \<Rightarrow> udp_state \<Rightarrow> udp_state go" where
  "run_task now inflate handle t st =
     (case t of
        TaskV2 key body packed \<Rightarrow>
          go_bind (runRequestV2 inflate handle key body packed (udp_stats_of st)) (\<lambda>(ok, stats).
            Inr (finish_req now key ok (st\<lparr>udp_stats_of := stats\<rparr>)))
      | TaskV1 key body packed \<Rightarrow>
          (case runRequest inflate handle key body packed (udp_stats_of st) of
             (None, stats) \<Rightarrow> Inr (st\<lparr>udp_stats_of := stats\<rparr>)
           | (Some data, stats) \<Rightarrow> Inr (finish_req now key True (st\<lparr>udp_stats_of := stats\<rparr>))))"

fun udp_run :: "(int \<times> string \<times> bytes) list \<Rightarrow> udp_state \<Rightarrow> (udp_state \<times> udp_task list) go" where
  "udp_run [] st = Inr (st, [])"
| "udp_run ((now, key, data) # dgs) st =
     go_bind (udp_datagram now key data st) (\<lambda>(st', ts).
       go_bind (udp_run dgs st') (\<lambda>(st'', ts'). Inr (st'', ts @ ts')))"

end
