(* ===== verification/UdpCorrect.thy ===== *)
theory UdpCorrect
  imports UdpServer
begin

text \<open>
  Correctness of the UDP reader: what a client frames arrives whole and in order for every source,
  however the bytes are cut into datagrams and however the sources interleave; and the datagrams
  that end the process.
\<close>

subsection \<open>Frames of a client\<close>

definition udp_frame :: "bool \<times> bytes \<Rightarrow> bytes" where
  "udp_frame = (\<lambda>(packed, m). (if packed then CHR ''B'' else CHR ''b'') # put_u32 (length m + 5) @ m)"

definition udp_frames :: "(bool \<times> bytes) list \<Rightarrow> bytes" where
  "udp_frames ms = concat (map udp_frame ms)"

fun task_of :: "string \<Rightarrow> bool \<times> bytes \<Rightarrow> udp_task" where
  "task_of key (packed, m) = TaskV2 key m packed"

fun task_key :: "udp_task \<Rightarrow> string" where
  "task_key (TaskV2 key m packed) = key"
| "task_key (TaskV1 key m packed) = key"

definition sized :: "bool \<times> bytes \<Rightarrow> bool" where
  "sized m \<longleftrightarrow> length (snd m) + 5 < 2 ^ 32"

text \<open>A buffer that waits for the rest of the first of these frames.\<close>

definition waiting :: "bytes \<Rightarrow> (bool \<times> bytes) list \<Rightarrow> bool" where
  "waiting p ms \<longleftrightarrow> (case ms of [] \<Rightarrow> p = [] | m # _ \<Rightarrow> length p < length (udp_frame m))"

lemma task_key_of [simp]: "task_key (task_of key m) = key"
  by (cases m) simp

lemma udp_frames_simps [simp]:
  "udp_frames [] = []" "udp_frames (m # ms) = udp_frame m @ udp_frames ms"
  by (simp_all add: udp_frames_def)

lemma length_udp_frame [simp]: "length (udp_frame m) = length (snd m) + 5"
  by (simp add: udp_frame_def split: prod.split)

lemma processV2_frame:
  assumes "sized m"
  shows "processRequestDataV2 (udp_frame m @ r) = Inr (int (length (snd m) + 5), snd m, fst m)"
proof -
  obtain b body where m: "m = (b, body)" by (cases m)
  let ?f = "udp_frame m @ r"
  have "take 4 (drop 1 ?f) = put_u32 (length body + 5)" "?f ! 0 = (if b then CHR ''B'' else CHR ''b'')"
    by (simp_all add: m udp_frame_def)
  moreover have "u32 (put_u32 (length body + 5)) = length body + 5"
    using assms by (intro u32_put) (simp add: sized_def m)
  moreover have "take (length body) (drop 5 ?f) = body"
    by (simp add: m udp_frame_def)
  moreover have "length ?f = length body + 5 + length r" by (simp add: m)
  ultimately show ?thesis by (simp add: processRequestDataV2_def Let_def m)
qed

lemma processV2_waiting:
  assumes "length p < length (udp_frame m)" "p @ y = udp_frame m @ r" "sized m"
  shows "processRequestDataV2 p = Inr (0, [], False)"
proof (cases "length p < 5")
  case False
  obtain b body where m: "m = (b, body)" by (cases m)
  have "take 5 (p @ y) = take 5 p" using False by simp
  then have "take 5 p = take 5 (udp_frame m @ r)" using assms(2) by simp
  moreover have "take 4 (drop 1 l) = drop 1 (take 5 l)" for l :: bytes by (simp add: take_drop)
  ultimately have "take 4 (drop 1 p) = take 4 (drop 1 (udp_frame m @ r))" by simp
  moreover have "take 4 (drop 1 (udp_frame m @ r)) = put_u32 (length body + 5)"
    by (simp add: m udp_frame_def)
  moreover have "u32 (put_u32 (length body + 5)) = length body + 5"
    using assms(3) by (intro u32_put) (simp add: sized_def m)
  ultimately show ?thesis using assms(1) False by (simp add: processRequestDataV2_def Let_def m)
qed (simp add: processRequestDataV2_def)

lemma source_buffer_begin [simp]: "source_buffer (begin_req now key st) = source_buffer st"
  by (simp add: begin_req_def)

lemma v2_loop_frames:
  assumes "waiting p ms'" "p @ y = udp_frames ms'" "\<forall>m \<in> set (ms @ ms'). sized m"
  shows "\<exists>st'. v2_loop now key (udp_frames ms @ p) st tasks = Inr (p, st', tasks @ map (task_of key) ms) \<and>
    source_buffer st' = source_buffer st"
  using assms(3)
proof (induction ms arbitrary: st tasks)
  case Nil
  have "processRequestDataV2 p = Inr (0, [], False)"
  proof (cases ms')
    case Nil with assms(1) show ?thesis by (simp add: waiting_def processRequestDataV2_def)
  next
    case (Cons m ms2)
    with processV2_waiting [of p m y "udp_frames ms2"] assms(1,2) Nil show ?thesis by (simp add: waiting_def)
  qed
  then show ?case by (subst v2_loop.simps) simp
next
  case (Cons m ms)
  let ?r = "udp_frames ms @ p"
  have pr: "processRequestDataV2 (udp_frame m @ ?r) = Inr (int (length (snd m) + 5), snd m, fst m)"
    using Cons(2) by (intro processV2_frame) simp
  have d: "drop (length (snd m) + 5) (udp_frame m @ ?r) = ?r" by simp
  have t: "TaskV2 key (snd m) (fst m) = task_of key m" by (cases m) simp
  show ?case
  proof (cases "?r = []")
    case True
    then have "ms = []" "p = []" by (cases ms; auto simp: udp_frame_def)+
    with pr d t True show ?thesis by (subst v2_loop.simps) (auto simp: Let_def)
  next
    case False
    with pr d t have "v2_loop now key (udp_frame m @ ?r) st tasks =
        v2_loop now key ?r (begin_req now key st) (tasks @ [task_of key m])"
      by (subst v2_loop.simps) (auto simp: Let_def)
    with Cons(1) [of "begin_req now key st" "tasks @ [task_of key m]"] Cons(2) show ?thesis by simp
  qed
qed

text \<open>Any cut of a sequence of frames falls into whole frames and a waiting rest.\<close>

lemma split_frames:
  assumes "x @ y = udp_frames ms"
  shows "\<exists>ms1 ms2 p. ms = ms1 @ ms2 \<and> x = udp_frames ms1 @ p \<and> p @ y = udp_frames ms2 \<and> waiting p ms2"
  using assms
proof (induction ms arbitrary: x)
  case Nil
  then show ?case by (intro exI [of _ "[]"] exI [of _ x]) (simp add: waiting_def)
next
  case (Cons m ms)
  show ?case
  proof (cases "length x < length (udp_frame m)")
    case True
    with Cons(2) show ?thesis
      by (intro exI [of _ "[]"] exI [of _ "m # ms"] exI [of _ x]) (simp add: waiting_def)
  next
    case False
    then obtain x' where x: "x = udp_frame m @ x'"
      using Cons(2) by (metis append_eq_append_conv_if append_take_drop_id linorder_not_less udp_frames_simps(2))
    with Cons(2) have "x' @ y = udp_frames ms" by simp
    from Cons(1) [OF this] obtain ms1 ms2 p
      where "ms = ms1 @ ms2" "x' = udp_frames ms1 @ p" "p @ y = udp_frames ms2" "waiting p ms2" by blast
    then show ?thesis by (intro exI [of _ "m # ms1"] exI [of _ ms2] exI [of _ p]) (simp add: x)
  qed
qed

subsection \<open>One datagram\<close>

lemma source_buffer_put:
  "map_of (source_buffer (put_buffer key p st)) k =
     (if k = key then (if p = [] then None else Some p) else map_of (source_buffer st) k)"
  by (simp add: put_buffer_def map_of_gm_set map_of_gm_delete)

lemma is_v2_frames:
  assumes "x @ y = udp_frames ms" "x \<noteq> []"
  shows "is_v2 x = Inr True"
proof -
  obtain c xs where x: "x = c # xs" using assms(2) by (cases x) auto
  obtain m ms' where "ms = m # ms'" using assms x by (cases ms) auto
  with assms(1) x have "c = CHR ''B'' \<or> c = CHR ''b''" by (auto simp: udp_frame_def split: prod.splits if_splits)
  then show ?thesis by (auto simp: is_v2_def x)
qed

lemma datagram_frames:
  assumes "gm_get [] (source_buffer st) key @ data @ y = udp_frames ms" "data \<noteq> []" "\<forall>m \<in> set ms. sized m"
  shows "\<exists>st' ms1 ms2 p. udp_datagram now key data st = Inr (st', map (task_of key) ms1) \<and>
    ms = ms1 @ ms2 \<and> p @ y = udp_frames ms2 \<and> waiting p ms2 \<and>
    map_of (source_buffer st') = (map_of (source_buffer st))(key := if p = [] then None else Some p)"
proof -
  let ?x = "gm_get [] (source_buffer st) key @ data"
  let ?st = "st\<lparr>source_buffer := gm_set (source_buffer st) key ?x, req_no := req_no st + 1\<rparr>"
  have x: "?x @ y = udp_frames ms" using assms(1) by simp
  from split_frames [OF x] obtain ms1 ms2 p where s: "ms = ms1 @ ms2" "?x = udp_frames ms1 @ p"
    "p @ y = udp_frames ms2" "waiting p ms2" by blast
  with v2_loop_frames [OF s(4,3), of ms1 now key ?st "[]"] assms(3) obtain st' where
    l: "v2_loop now key ?x ?st [] = Inr (p, st', map (task_of key) ms1)" "source_buffer st' = source_buffer ?st"
    by auto
  have "is_v2 ?x = Inr True" using is_v2_frames [OF x] assms(2) by simp
  with l(1) have "udp_datagram now key data st = Inr (put_buffer key p st', map (task_of key) ms1)"
    by (simp add: udp_datagram_def Let_def)
  moreover have "map_of (source_buffer (put_buffer key p st')) =
      (map_of (source_buffer st))(key := if p = [] then None else Some p)"
    by (rule ext) (simp add: source_buffer_put l(2) map_of_gm_set)
  ultimately show ?thesis using s by blast
qed

subsection \<open>Many sources\<close>

definition sent_by :: "string \<Rightarrow> (int \<times> string \<times> bytes) list \<Rightarrow> bytes" where
  "sent_by k dgs = concat (map (\<lambda>(now, key, data). if key = k then data else []) dgs)"

definition tasks_for :: "string \<Rightarrow> udp_task list \<Rightarrow> udp_task list" where
  "tasks_for k ts = filter (\<lambda>t. task_key t = k) ts"

lemma tasks_for_append [simp]: "tasks_for k (ts @ us) = tasks_for k ts @ tasks_for k us"
  by (simp add: tasks_for_def)

lemma tasks_for_map [simp]: "tasks_for k (map (task_of key) ms) = (if key = k then map (task_of key) ms else [])"
  by (induction ms) (auto simp: tasks_for_def)

lemma udp_run_frames:
  assumes "\<forall>k. map_of (source_buffer st) k \<noteq> Some []"
    "\<forall>k. waiting (gm_get [] (source_buffer st) k) (msgs k)"
    "\<forall>k. gm_get [] (source_buffer st) k @ sent_by k dgs = udp_frames (msgs k)"
    "\<forall>k. \<forall>m \<in> set (msgs k). sized m" "\<forall>d \<in> set dgs. snd (snd d) \<noteq> []"
  shows "\<exists>st' ts. udp_run dgs st = Inr (st', ts) \<and> (\<forall>k. tasks_for k ts = map (task_of k) (msgs k)) \<and>
    (\<forall>k. map_of (source_buffer st') k = None)"
  using assms
proof (induction dgs arbitrary: st msgs)
  case Nil
  have "msgs k = []" for k
  proof (cases "msgs k")
    case (Cons m ms)
    with Nil(2) [rule_format, of k] Nil(3) [rule_format, of k] show ?thesis
      by (simp add: waiting_def sent_by_def)
  qed
  moreover from this Nil(3) have "gm_get [] (source_buffer st) k = []" for k by (simp add: sent_by_def)
  then have "map_of (source_buffer st) k = None" for k
    using Nil(1) [rule_format, of k] by (cases "map_of (source_buffer st) k") (metis gm_get_def option.simps(5))+
  ultimately show ?case by (simp add: tasks_for_def)
next
  case (Cons d dgs)
  obtain now key data where d: "d = (now, key, data)" by (cases d)
  have sent: "sent_by k (d # dgs) = (if key = k then data else []) @ sent_by k dgs" for k
    by (simp add: sent_by_def d)
  have "gm_get [] (source_buffer st) key @ data @ sent_by key dgs = udp_frames (msgs key)"
    using Cons(4) [rule_format, of key] sent [of key] by simp
  from datagram_frames [OF this] Cons(5,6) d obtain st1 ms1 ms2 p where
    one: "udp_datagram now key data st = Inr (st1, map (task_of key) ms1)" "msgs key = ms1 @ ms2"
      "p @ sent_by key dgs = udp_frames ms2" "waiting p ms2"
      "map_of (source_buffer st1) = (map_of (source_buffer st))(key := if p = [] then None else Some p)"
    by (metis (no_types, lifting) list.set_intros(1) snd_conv)
  let ?msgs = "msgs(key := ms2)"
  have get: "gm_get [] (source_buffer st1) k = (if k = key then p else gm_get [] (source_buffer st) k)" for k
    using one(5) by (simp add: gm_get_def)
  have "\<exists>st' ts. udp_run dgs st1 = Inr (st', ts) \<and> (\<forall>k. tasks_for k ts = map (task_of k) (?msgs k)) \<and>
    (\<forall>k. map_of (source_buffer st') k = None)"
  proof (rule Cons(1))
    show "\<forall>k. map_of (source_buffer st1) k \<noteq> Some []" using Cons(2) one(5) by simp
    show "\<forall>k. waiting (gm_get [] (source_buffer st1) k) (?msgs k)" using Cons(3) get one(4) by simp
    show "\<forall>k. gm_get [] (source_buffer st1) k @ sent_by k dgs = udp_frames (?msgs k)"
    proof
      fix k
      show "gm_get [] (source_buffer st1) k @ sent_by k dgs = udp_frames (?msgs k)"
        using Cons(4) [rule_format, of k] sent [of k] get [of k] one(3) by (cases "k = key") simp_all
    qed
    show "\<forall>k. \<forall>m \<in> set (?msgs k). sized m" using Cons(5) one(2) by (metis Un_iff fun_upd_apply set_append)
    show "\<forall>d \<in> set dgs. snd (snd d) \<noteq> []" using Cons(6) by simp
  qed
  then obtain st' ts where "udp_run dgs st1 = Inr (st', ts)" "\<forall>k. tasks_for k ts = map (task_of k) (?msgs k)"
    "\<forall>k. map_of (source_buffer st') k = None" by blast
  with one(1,2) show ?case by (auto simp: d)
qed

text \<open>C26. Binary frames over UDP: whatever the sources send, cut into non-empty datagrams and
  interleaved in any way, no datagram stops the reader, every source's messages are started once
  each and in order, and no bytes are left waiting.\<close>

theorem udp_round_trip:
  assumes "\<forall>k. sent_by k dgs = udp_frames (msgs k)" "\<forall>k. \<forall>m \<in> set (msgs k). sized m"
    "\<forall>d \<in> set dgs. snd (snd d) \<noteq> []"
  shows "\<exists>st' ts. udp_run dgs udp_init = Inr (st', ts) \<and> (\<forall>k. tasks_for k ts = map (task_of k) (msgs k)) \<and>
    (\<forall>k. map_of (source_buffer st') k = None)"
proof (rule udp_run_frames)
  show "\<forall>k. waiting (gm_get [] (source_buffer udp_init) k) (msgs k)"
    by (simp add: waiting_def udp_init_def split: list.split)
qed (use assms in \<open>simp_all add: udp_init_def\<close>)

definition ex_dgs :: "(int \<times> string \<times> bytes) list" where
  "ex_dgs =
     (let f = udp_frame (False, ''hello''); g = udp_frame (True, ''xy'')
      in [(1, ''A'', take 3 f), (2, ''B'', g @ take 1 g), (3, ''A'', drop 3 f @ g), (4, ''B'', drop 1 g)])"

theorem udp_round_trip_witness:
  "\<exists>st' ts. udp_run ex_dgs udp_init = Inr (st', ts) \<and>
    tasks_for ''A'' ts = [TaskV2 ''A'' ''hello'' False, TaskV2 ''A'' ''xy'' True] \<and>
    tasks_for ''B'' ts = [TaskV2 ''B'' ''xy'' True, TaskV2 ''B'' ''xy'' True]"
proof -
  define msgs where "msgs = (\<lambda>k. if k = ''A'' then [(False, ''hello''), (True, ''xy'')]
    else if k = ''B'' then [(True, ''xy''), (True, ''xy'')] else [])"
  have "\<forall>k. sent_by k ex_dgs = udp_frames (msgs k)"
    by (simp add: sent_by_def ex_dgs_def msgs_def udp_frame_def put_u32_def)
  moreover have "\<forall>k. \<forall>m \<in> set (msgs k). sized m" by (simp add: msgs_def sized_def)
  moreover have "\<forall>d \<in> set ex_dgs. snd (snd d) \<noteq> []" by (simp add: ex_dgs_def udp_frame_def put_u32_def)
  ultimately obtain st' ts where r: "udp_run ex_dgs udp_init = Inr (st', ts)"
    "\<forall>k. tasks_for k ts = map (task_of k) (msgs k)" using udp_round_trip by blast
  then have "tasks_for ''A'' ts = [TaskV2 ''A'' ''hello'' False, TaskV2 ''A'' ''xy'' True]"
    "tasks_for ''B'' ts = [TaskV2 ''B'' ''xy'' True, TaskV2 ''B'' ''xy'' True]"
    by (simp_all add: msgs_def)
  with r(1) show ?thesis by blast
qed

lemma index_of_terminator:
  "CHR 0x0D \<notin> set d \<Longrightarrow> go_index_of (d @ terminator @ r) terminator = Some (length d)"
  by (induction d) (auto simp: terminator_def)

text \<open>C27. Four ways in which one datagram of any host ends the process, with no data waiting for
  that host: an empty datagram; a frame that claims fewer than 5 bytes; in the text protocol, an
  empty header; and a length so large that the size of the request overflows.\<close>

theorem udp_datagram_crashes:
  assumes "map_of (source_buffer st) key = None"
  shows "udp_datagram now key [] st = Inl IndexOutOfRange \<and>
    (\<forall>sz < 5. \<forall>r. udp_datagram now key (CHR ''b'' # put_u32 sz @ r) st = Inl SliceOutOfRange) \<and>
    (\<forall>r. udp_datagram now key (terminator @ r) st = Inl IndexOutOfRange) \<and>
    (\<forall>r. udp_datagram now key (''9223372036854775807'' @ terminator @ r) st = Inl SliceOutOfRange)"
proof (intro conjI allI impI)
  have g: "gm_get [] (source_buffer st) key = []" using assms by (simp add: gm_get_def)
  show "udp_datagram now key [] st = Inl IndexOutOfRange"
    by (simp add: udp_datagram_def g is_v2_def go_index_def)
  show "udp_datagram now key (CHR ''b'' # put_u32 sz @ r) st = Inl SliceOutOfRange" if "sz < 5" for sz r
  proof -
    have "processRequestDataV2 (CHR ''b'' # put_u32 sz @ r) = Inl SliceOutOfRange"
      using that by (simp add: processRequestDataV2_def Let_def u32_put go_slice_bad)
    then show ?thesis
      by (simp add: udp_datagram_def g is_v2_def Let_def) (subst v2_loop.simps, simp)
  qed
  show "udp_datagram now key (terminator @ r) st = Inl IndexOutOfRange" for r
  proof -
    have "go_index_of (terminator @ r) terminator = Some 0" by (simp add: terminator_def)
    then have "processRequestData (terminator @ r) = Inl IndexOutOfRange"
      by (simp add: processRequestData_def processHeader_def go_index_def)
    moreover have "is_v2 (terminator @ r) = Inr False" by (simp add: is_v2_def terminator_def go_index_def)
    ultimately show ?thesis
      by (simp add: udp_datagram_def g) (subst v1_loop.simps, simp)
  qed
  show "udp_datagram now key (''9223372036854775807'' @ terminator @ r) st = Inl SliceOutOfRange" for r
  proof -
    let ?d = "''9223372036854775807''"
    have "go_index_of (?d @ terminator @ r) terminator = Some (length ?d)"
      by (rule index_of_terminator) simp
    then have "go_index_of (?d @ terminator @ r) terminator = Some 19" by simp
    moreover have "processHeader ?d = Inr (False, 9223372036854775807, [])" by (simp add: processHeader_def go_index_def atoi_def digit_val_def Let_def)
    moreover have "go_slice (?d @ t) 0 19 = Inr ?d" for t by simp
    ultimately have "processRequestData (?d @ terminator @ r) = Inl SliceOutOfRange"
      by (simp add: processRequestData_def wrap64_def)
    moreover have "is_v2 (?d @ terminator @ r) = Inr False" by (simp add: is_v2_def go_index_def)
    ultimately show ?thesis
      by (simp add: udp_datagram_def g) (subst v1_loop.simps, simp)
  qed
qed

theorem udp_datagram_crashes_witness:
  "udp_datagram 0 ''127.0.0.1:9'' [] udp_init = Inl IndexOutOfRange \<and>
   udp_datagram 0 ''127.0.0.1:9'' (CHR ''b'' # put_u32 0) udp_init = Inl SliceOutOfRange"
  using udp_datagram_crashes [of udp_init "''127.0.0.1:9''" 0, THEN conjunct1]
    udp_datagram_crashes [of udp_init "''127.0.0.1:9''" 0, THEN conjunct2, THEN conjunct1, rule_format, of 0 "[]"]
  by (simp add: udp_init_def)

end
