(* ===== verification/NodeAdmin.thy ===== *)
theory NodeAdmin
  imports Scheduler HSParams "HOL-Library.List_Lexorder" "HOL-Library.Char_ord"
begin

text \<open>
  Registering and removing nodes: \<open>handle_solana_admin/parse_header.go\<close> (request headers of a
  node), \<open>sol_config_reader.go\<close> (a node from its JSON configuration, at start and through the admin
  module) and \<open>handle_solana_admin.go\<close>. The texts of JSON decoding errors are a parameter.
\<close>

subsection \<open>Headers\<close>

definition header_char :: "char \<Rightarrow> bool" where
  "header_char c =
     (let n = of_char c :: nat
      in (97 \<le> n \<and> n \<le> 122) \<or> (65 \<le> n \<and> n \<le> 90) \<or> (48 \<le> n \<and> n \<le> 57) \<or>
         c \<in> set ''!#$%&*+-.^_|~'' \<or> n = 39 \<or> n = 96)"

definition to_upper_char :: "char \<Rightarrow> char" where
  "to_upper_char c = (let n = of_char c :: nat in if 97 \<le> n \<and> n \<le> 122 then char_of (n - 32) else c)"

fun canonical_from :: "bool \<Rightarrow> string \<Rightarrow> string" where
  "canonical_from up [] = []"
| "canonical_from up (c # cs) =
     (if up then to_upper_char c else to_lower_char c) # canonical_from (c = CHR ''-'') cs"

text \<open>\<open>http.CanonicalHeaderKey\<close>: a key with other characters is left as it is.\<close>

definition canonical_key :: "string \<Rightarrow> string" where
  "canonical_key s = (if list_all header_char s then canonical_from True s else s)"

definition header_line :: "string \<Rightarrow> (string \<times> string) option" where
  "header_line v0 =
     (if CHR '':'' \<notin> set v0 then None
      else
        (let v = filter (\<lambda>c. c \<noteq> CHR 0x0D \<and> c \<noteq> CHR 0x0A) v0; tmp = go_split (CHR '':'') v
         in if length tmp < 2 then None
            else
              (let t0 = canonical_key (go_trim blanks (tmp ! 0)); t1 = go_trim blanks (tmp ! 1)
               in if t0 = [] \<or> t1 = [] then None else Some (t0, t1))))"

definition add_header :: "string \<Rightarrow> http_header \<Rightarrow> http_header" where
  "add_header v h = (case header_line v of None \<Rightarrow> h | Some (a, b) \<Rightarrow> gm_set h a [b])"

definition parseHeader :: "string \<Rightarrow> http_header option" where
  "parseHeader s =
     (let h = fold add_header (go_split (CHR 0x0A) s) [] in if h = [] then None else Some h)"

subsection \<open>Nodes\<close>

text \<open>The clients of the process: the objects, the registry and the two counters.\<close>

record nodes =
  node_store :: store
  registry :: "ref list"
  next_ref :: ref
  next_id :: int

definition NodeRegister ::
  "net \<Rightarrow> int \<Rightarrow> string \<Rightarrow> http_header option \<Rightarrow> bool \<Rightarrow> int \<Rightarrow> group \<Rightarrow> nodes \<Rightarrow> (ref option \<times> nodes) go" where
  "NodeRegister w now ep hdr is_public pt thr ns =
     (if ep = [] then Inr (None, ns)
      else
        (let ep1 = go_trim blanks ep;
             pt1 = (if pt = - 1 then (if is_public then 10 else 1) else pt)
         in go_bind (MakeClient w now (next_id ns + 1) ep1 hdr is_public pt1 thr) (\<lambda>(probe, cl).
              let r = next_ref ns; st = (node_store ns)(r := cl)
              in Inr (Some r, \<lparr>node_store = st, registry = ClientRegister st r (registry ns),
                   next_ref = r + 1, next_id = next_id ns + 1\<rparr>))))"

text \<open>\<open>_get_cfg_data\<close>: the value of an attribute if it has the type asked for. The warning for
  another type calls a method of \<open>reflect.TypeOf(val)\<close>, which is nil for a JSON null.\<close>

definition get_cfg_data :: "(json \<Rightarrow> 'a option) \<Rightarrow> (string \<times> json) list \<Rightarrow> string \<Rightarrow> 'a \<Rightarrow> 'a go" where
  "get_cfg_data typed node att def =
     (case map_of (rev node) att of
        None \<Rightarrow> Inr def
      | Some val \<Rightarrow>
          (case typed val of
             Some x \<Rightarrow> Inr x
           | None \<Rightarrow> if val = JNull then Inl NilDereference else Inr def))"

fun as_string :: "json \<Rightarrow> string option" where
  "as_string (JStr s) = Some s" | "as_string _ = None"

fun as_bool :: "json \<Rightarrow> bool option" where
  "as_bool (JBool b) = Some b" | "as_bool _ = None"

fun as_number :: "json \<Rightarrow> string option" where
  "as_number (JNum s) = Some s" | "as_number _ = None"

text \<open>The throttles of a node: from its configuration, the standard ones of a public node, or, also
  when the configuration cannot be read, one throttle without limits.\<close>

definition node_throttle :: "int \<Rightarrow> (string \<times> json) list \<Rightarrow> bool \<Rightarrow> group go" where
  "node_throttle now node is_public =
     go_bind
       (case map_of (rev node) ''throttle'' of
          Some (JStr s) \<Rightarrow> go_bind (MakeFromConfig now s) (\<lambda>(thr, logs). Inr thr)
        | Some _ \<Rightarrow> Inr []
        | None \<Rightarrow> if is_public then go_bind (MakeForPublic now) (\<lambda>(thr, logs). Inr thr) else Inr [])
       (\<lambda>thr. if thr = [] then go_bind (Make now) (\<lambda>t. Inr [t]) else Inr thr)"

definition NodeRegisterFromConfig ::
  "net \<Rightarrow> int \<Rightarrow> (string \<times> json) list \<Rightarrow> nodes \<Rightarrow> (ref option \<times> nodes) go" where
  "NodeRegisterFromConfig w now node ns =
     go_bind (get_cfg_data as_string node ''url'' []) (\<lambda>url.
     go_bind (get_cfg_data as_bool node ''public'' False) (\<lambda>public.
     go_bind (get_cfg_data as_number node ''score_modifier'' ''0'') (\<lambda>sm.
     go_bind (get_cfg_data as_number node ''probe_time'' ''-1'') (\<lambda>pt.
     go_bind (get_cfg_data as_string node ''header'' []) (\<lambda>hdr.
       if url = [] then Inr (None, ns)
       else go_bind (node_throttle now node public) (\<lambda>thr.
         NodeRegister w now url (parseHeader hdr) public (fst (atoi pt))
           (group_SetScoreModifier thr (fst (atoi sm))) ns))))))"

subsection \<open>The admin module\<close>

definition json_bool :: "bool \<Rightarrow> string" where
  "json_bool b = (if b then ''true'' else ''false'')"

definition json_fields :: "(string \<times> string) list \<Rightarrow> string" where
  "json_fields kvs = ''{'' @ go_join '','' (map (\<lambda>(k, v). json_string k @ '':'' @ v) kvs) @ ''}''"

text \<open>\<open>json.Marshal\<close> of a map writes the keys in order, of a struct as declared.\<close>

definition json_map :: "(string, string) gomap \<Rightarrow> string" where
  "json_map m = json_fields (sort_key fst m)"

definition info_json :: "solclientinfo \<Rightarrow> string" where
  "info_json i = json_fields
     [(''ID'', itoa (ID i)), (''Endpoint'', json_string (Endpoint i)),
      (''Is_public_node'', json_bool (Is_public_node i)),
      (''Available_block_first'', itoa (Available_block_first i)),
      (''Available_block_first_ts'', itoa (Available_block_first_ts i)),
      (''Available_block_last'', itoa (Available_block_last i)),
      (''Available_block_last_ts'', itoa (Available_block_last_ts i)),
      (''Is_disabled'', json_bool (Is_disabled i)), (''Is_throttled'', json_bool (Is_throttled i)),
      (''Is_paused'', json_bool (Is_paused i)), (''Attr'', itoa (Attr i)), (''Score'', itoa (info_Score i))]"

definition admin_err :: "string \<Rightarrow> string" where
  "admin_err s = json_map [(''error'', json_string s)]"

definition admin_ok :: "string \<Rightarrow> string" where
  "admin_ok v = json_map [(''result'', v)]"

definition admin_list :: "nodes \<Rightarrow> string go" where
  "admin_list ns =
     (let st = node_store ns; sch = MakeScheduler (registry ns)
      in go_bind (GetAll st sch True True) (\<lambda>pub. go_bind (GetAll st sch False True) (\<lambda>priv.
           Inr (json_map (fold (\<lambda>r m. let i = GetInfo (st r)
             in gm_set m (''client_#'' @ itoa (ID i)) (info_json i)) (pub @ priv) [])))))"

definition admin_remove :: "hsparams \<Rightarrow> nodes \<Rightarrow> string \<times> nodes" where
  "admin_remove data ns =
     (let i = GetParamI data ''id'' (- 1)
      in if i < 0 then ([CHR ''P''] @ ''lease provide client'' @ [CHR 0x27] @ ''s &id='', ns)
         else (let (acted, cs) = ClientRemove (node_store ns) i (registry ns)
               in (if acted then admin_ok (json_string (''Removed client id: '' @ itoa i))
                   else admin_err ([CHR ''C''] @ ''an'' @ [CHR 0x27] @ ''t find client, nothing done''),
                   ns\<lparr>registry := cs\<rparr>)))"

definition admin_add :: "net \<Rightarrow> int \<Rightarrow> (string \<Rightarrow> string) \<Rightarrow> hsparams \<Rightarrow> nodes \<Rightarrow> (string \<times> nodes) go" where
  "admin_add w now decode_error data ns =
     (let i = GetParamI data ''remove_id'' (- 1);
          node_id = (if i < 0 then max_uint64 else i);
          node = GetParam data ''node'' []
      in if node = [] then
           Inr (''Please provide &node={...JSON...} as node config, additionally you can provide &remove=node_id to replace the node with new one'', ns)
         else
           (case (case decode_first node of
                    Some (JObj kvs) \<Rightarrow> Some kvs | Some JNull \<Rightarrow> Some [] | _ \<Rightarrow> None) of
              None \<Rightarrow> Inr (admin_err (decode_error node), ns)
            | Some cfg \<Rightarrow>
                go_bind (NodeRegisterFromConfig w now cfg ns) (\<lambda>(new_node, ns1).
                  case new_node of
                    None \<Rightarrow> Inr (admin_err ''Error creating new node, something went wrong. Please check URL and config'', ns1)
                  | Some r \<Rightarrow>
                      Inr (admin_ok (info_json (GetInfo (node_store ns1 r))),
                           ns1\<lparr>registry := snd (ClientRemove (node_store ns1) node_id (registry ns1))\<rparr>))))"

definition handle_solana_admin ::
  "net \<Rightarrow> int \<Rightarrow> (string \<Rightarrow> string) \<Rightarrow> string \<Rightarrow> hsparams \<Rightarrow> nodes \<Rightarrow> (string \<times> hsparams \<times> nodes) go" where
  "handle_solana_admin w now decode_error action data ns =
     (if action = ''solana_admin'' then
        go_bind (admin_list ns) (\<lambda>out. Inr ([], FastReturnBNocopy data out, ns))
      else if action = ''solana_admin_remove'' then
        (let (out, ns') = admin_remove data ns in Inr (out, data, ns'))
      else if action = ''solana_admin_add'' then
        go_bind (admin_add w now decode_error data ns) (\<lambda>(out, ns'). Inr (out, data, ns'))
      else Inr (admin_err ''Something went wrong in admin module'', data, ns))"

subsection \<open>What a new client keeps\<close>

definition same_node :: "solclient \<Rightarrow> solclient \<Rightarrow> bool" where
  "same_node c c' \<longleftrightarrow> endpoint c' = endpoint c \<and> header c' = header c \<and>
     is_public_node c' = is_public_node c \<and> probe_time c' = probe_time c \<and> cl_id c' = cl_id c"

lemma same_node_refl [simp]: "same_node c c"
  by (simp add: same_node_def)

lemma same_node_trans: "same_node a b \<Longrightarrow> same_node b c \<Longrightarrow> same_node a c"
  by (simp add: same_node_def)

lemma go_bind_Inr: "go_bind m f = Inr y \<longleftrightarrow> (\<exists>x. m = Inr x \<and> f x = Inr y)"
  by (cases m) auto

lemma begin_request_same: "begin_request m c = (b, c') \<Longrightarrow> same_node c c'"
  by (auto simp: begin_request_def bump_def same_node_def Let_def split: if_splits)

lemma docall_same: "docall w post c = Inr (r, c') \<Longrightarrow> same_node c c'"
  by (auto simp: docall_def bump_def stop_running_def set_last_error_def same_node_def Let_def
      split: if_splits option.splits)

lemma RequestBasic_same:
  assumes "RequestBasic w mp c = Inr (b, ty, c')"
  shows "same_node c c'"
proof -
  define m p where "m = mp ! 0" and "p = (if length mp = 2 then mp ! 1 else [])"
  obtain ok c1 where b: "begin_request m c = (ok, c1)" by (cases "begin_request m c")
  show ?thesis
  proof (cases ok)
    case False
    with assms b begin_request_same [OF b] show ?thesis
      by (auto simp: RequestBasic_def Let_def m_def split: if_splits)
  next
    case True
    with assms b obtain r c2 where d: "docall w (request_payload (request_serial w c1) m p) c1 = Inr (r, c2)"
      and "same_node c2 c'"
      by (auto simp: RequestBasic_def Let_def m_def p_def go_bind_Inr bump_def same_node_def
          split: if_splits option.splits)
    with docall_same [OF d] begin_request_same [OF b] show ?thesis by (blast intro: same_node_trans)
  qed
qed

lemma intcall_same:
  assumes "intcall w m c = Inr (v, ty, c')"
  shows "same_node c c'"
proof -
  from assms obtain b ty0 c0 where r: "RequestBasic w [m] c = Inr (b, ty0, c0)"
    and rest: "(case b of None \<Rightarrow> Inr (0, ty0, c0)
       | Some b \<Rightarrow> (case decode_result b of
            Some (JNum s) \<Rightarrow> (let (v, ok) = atoi s in if ok then Inr (v, ty0, c0) else Inr (0, R_ERROR, c0))
          | _ \<Rightarrow> Inr (0, R_ERROR, c0))) = (Inr (v, ty, c') :: (int \<times> response_type \<times> solclient) go)"
    unfolding intcall_def go_bind_Inr by (metis (no_types, lifting) case_prod_conv prod_cases3)
  from rest have "c' = c0"
    by (auto simp: Let_def split: option.split_asm json.split_asm if_split_asm prod.split_asm)
  with RequestBasic_same [OF r] show ?thesis by simp
qed

lemma update_version_same: "update_version w c = Inr c' \<Longrightarrow> same_node c c'"
  unfolding update_version_def GetVersion_def go_bind_Inr
  by (auto simp: go_bind_Inr Let_def same_node_def split: option.splits if_splits dest!: RequestBasic_same)

lemma update_blocks_same:
  "update_first_block w c = Inr c' \<Longrightarrow> same_node c c'"
  "update_last_block w c = Inr c' \<Longrightarrow> same_node c c'"
  unfolding update_first_block_def GetFirstAvailableBlock_def update_last_block_def GetLastAvailableBlock_def go_bind_Inr
  by (auto simp: go_bind_Inr same_node_def split: if_splits dest!: intcall_same)

lemma maint_stat_same: "maint_stat now c = (p, c') \<Longrightarrow> same_node c c'"
  by (auto simp: maint_stat_def Let_def same_node_def split: prod.splits)

lemma MakeClient_same:
  assumes "MakeClient w now i ep hdr pub pt thr = Inr (p, c)"
  shows "endpoint c = ep \<and> header c = hdr \<and> is_public_node c = pub \<and> probe_time c = pt \<and> cl_id c = i"
proof -
  from assms obtain c1 c2 c3 where u: "update_version w (fresh_client ep hdr pub pt thr) = Inr c1"
    "update_first_block w c1 = Inr c2" "update_last_block w c2 = Inr c3"
    and l: "(let (probe, c4) = maint_stat now c3 in Inr (probe, c4\<lparr>cl_id := i\<rparr>)) = (Inr (p, c) :: (bool \<times> solclient) go)"
    unfolding MakeClient_def go_bind_Inr by blast
  obtain q c4 where m: "maint_stat now c3 = (q, c4)" by (cases "maint_stat now c3")
  with l have c: "c = c4\<lparr>cl_id := i\<rparr>" by simp
  from u m
  have "same_node (fresh_client ep hdr pub pt thr) c4"
    by (meson same_node_trans update_version_same update_blocks_same maint_stat_same)
  then show ?thesis by (simp add: c same_node_def fresh_client_def)
qed

end
