(* ===== verification/NodeAdminCorrect.thy ===== *)
theory NodeAdminCorrect
  imports NodeAdmin
begin

text \<open>
  Correctness of node registration and of the admin module: what a configured node becomes, that
  adding with a replacement never loses a node before the new one exists, that client numbers stay
  unique, and the configuration values that end the process.
\<close>

subsection \<open>Registering\<close>

lemma ClientRegister_append: "ClientRegister st r cs = cs @ [r]"
  by (simp add: ClientRegister_def ClientManage_def)

lemma ClientRemove_filter: "snd (ClientRemove st i cs) = filter (\<lambda>c. cl_id (st c) \<noteq> i) cs"
  by (simp add: ClientRemove_def ClientManage_def manage_loop_none)

definition added :: "nodes \<Rightarrow> solclient \<Rightarrow> nodes" where
  "added ns c = \<lparr>node_store = (node_store ns)(next_ref ns := c), registry = registry ns @ [next_ref ns],
     next_ref = next_ref ns + 1, next_id = next_id ns + 1\<rparr>"

lemma NodeRegister_cases:
  assumes "NodeRegister w now ep hdr pub pt thr ns = Inr (res, ns')"
  shows "(ep = [] \<and> res = None \<and> ns' = ns) \<or>
    (ep \<noteq> [] \<and> res = Some (next_ref ns) \<and> (\<exists>c. ns' = added ns c \<and> endpoint c = go_trim blanks ep \<and>
       header c = hdr \<and> is_public_node c = pub \<and> cl_id c = next_id ns + 1 \<and>
       probe_time c = (if pt = - 1 then (if pub then 10 else 1) else pt)))"
proof (cases "ep = []")
  case False
  with assms obtain p c where m: "MakeClient w now (next_id ns + 1) (go_trim blanks ep) hdr pub
      (if pt = - 1 then (if pub then 10 else 1) else pt) thr = Inr (p, c)"
    and e: "res = Some (next_ref ns)" "ns' = added ns c"
    by (auto simp: NodeRegister_def Let_def go_bind_Inr added_def ClientRegister_append)
  from MakeClient_same [OF m] e False show ?thesis by blast
qed (use assms in \<open>simp add: NodeRegister_def\<close>)

text \<open>The node a configuration asks for; the attributes have their defaults when missing or of
  another type.\<close>

definition configured :: "(string \<times> json) list \<Rightarrow> int \<Rightarrow> solclient \<Rightarrow> bool" where
  "configured node i c \<longleftrightarrow> (\<exists>url pub hdr pt.
     get_cfg_data as_string node ''url'' [] = Inr url \<and> url \<noteq> [] \<and>
     get_cfg_data as_bool node ''public'' False = Inr pub \<and>
     get_cfg_data as_string node ''header'' [] = Inr hdr \<and>
     get_cfg_data as_number node ''probe_time'' ''-1'' = Inr pt \<and>
     endpoint c = go_trim blanks url \<and> header c = parseHeader hdr \<and> is_public_node c = pub \<and> cl_id c = i \<and>
     probe_time c = (if fst (atoi pt) = - 1 then (if pub then 10 else 1) else fst (atoi pt)))"

lemma register_cases:
  assumes "NodeRegisterFromConfig w now node ns = Inr (res, ns')"
  shows "(res = None \<and> ns' = ns \<and> get_cfg_data as_string node ''url'' [] = Inr []) \<or>
    (res = Some (next_ref ns) \<and> (\<exists>c. ns' = added ns c \<and> configured node (next_id ns + 1) c))"
proof -
  from assms obtain url pub sm pt hdr where g: "get_cfg_data as_string node ''url'' [] = Inr url"
    "get_cfg_data as_bool node ''public'' False = Inr pub"
    "get_cfg_data as_number node ''probe_time'' ''-1'' = Inr pt"
    "get_cfg_data as_string node ''header'' [] = Inr hdr"
    and r: "(if url = [] then Inr (None, ns)
      else go_bind (node_throttle now node pub) (\<lambda>thr.
        NodeRegister w now url (parseHeader hdr) pub (fst (atoi pt))
          (group_SetScoreModifier thr (fst (atoi sm))) ns)) = Inr (res, ns')"
    unfolding NodeRegisterFromConfig_def go_bind_Inr by blast
  show ?thesis
  proof (cases "url = []")
    case False
    with r obtain thr where "NodeRegister w now url (parseHeader hdr) pub (fst (atoi pt))
        (group_SetScoreModifier thr (fst (atoi sm))) ns = Inr (res, ns')" by (auto simp: go_bind_Inr)
    from NodeRegister_cases [OF this] g False show ?thesis unfolding configured_def by blast
  qed (use g r in simp)
qed

text \<open>Registering a node from its configuration: without a URL nothing changes; otherwise one new
  client is appended to the registry, with the next number and with the endpoint, headers, kind and
  probing time of the configuration, and no other client is touched.\<close>

theorem node_registered:
  assumes "NodeRegisterFromConfig w now node ns = Inr (res, ns')"
  shows "case res of
      None \<Rightarrow> ns' = ns \<and> get_cfg_data as_string node ''url'' [] = Inr []
    | Some r \<Rightarrow> r = next_ref ns \<and> registry ns' = registry ns @ [r] \<and> next_id ns' = next_id ns + 1 \<and>
        configured node (next_id ns + 1) (node_store ns' r) \<and>
        (\<forall>q. q \<noteq> r \<longrightarrow> node_store ns' q = node_store ns q)"
  using register_cases [OF assms] by (auto simp: added_def)

text \<open>Adding a node through the admin module replaces only after the new node exists: either the
  registry is as before, or the new client is registered and then the clients with the number to
  remove are gone; no other client leaves.\<close>

theorem admin_add_replaces:
  assumes "admin_add w now decode_error data ns = Inr (out, ns')"
  shows "ns' = ns \<or>
    (\<exists>cfg c. configured cfg (next_id ns + 1) c \<and> node_store ns' = (node_store ns)(next_ref ns := c) \<and>
       registry ns' = filter
         (\<lambda>r. cl_id (node_store ns' r) \<noteq> (let i = GetParamI data ''remove_id'' (- 1) in if i < 0 then max_uint64 else i))
         (registry ns @ [next_ref ns]))"
proof -
  let ?i = "let i = GetParamI data ''remove_id'' (- 1) in if i < 0 then max_uint64 else i"
  let ?cfg = "case decode_first (GetParam data ''node'' []) of
      Some (JObj kvs) \<Rightarrow> Some kvs | Some JNull \<Rightarrow> Some [] | _ \<Rightarrow> None"
  show ?thesis
  proof (cases "GetParam data ''node'' [] = [] \<or> ?cfg = None")
    case True
    with assms show ?thesis by (auto simp: admin_add_def Let_def split: if_split_asm)
  next
    case False
    then obtain cfg where cfg: "?cfg = Some cfg" by blast
    with False assms obtain res ns1 where r: "NodeRegisterFromConfig w now cfg ns = Inr (res, ns1)"
      and n: "(case res of None \<Rightarrow> Inr (admin_err ''Error creating new node, something went wrong. Please check URL and config'', ns1)
         | Some r \<Rightarrow> Inr (admin_ok (info_json (GetInfo (node_store ns1 r))),
             ns1\<lparr>registry := snd (ClientRemove (node_store ns1) ?i (registry ns1))\<rparr>)) = (Inr (out, ns') :: (string \<times> nodes) go)"
      unfolding admin_add_def Let_def by (auto simp: go_bind_Inr)
    show ?thesis
    proof (cases res)
      case None
      with register_cases [OF r] n show ?thesis by simp
    next
      case (Some q)
      with register_cases [OF r] obtain c where c: "q = next_ref ns" "ns1 = added ns c" "configured cfg (next_id ns + 1) c"
        by auto
      from n Some have "ns' = ns1\<lparr>registry := filter (\<lambda>r. cl_id (node_store ns1 r) \<noteq> ?i) (registry ns1)\<rparr>"
        by (simp add: ClientRemove_filter)
      then have "node_store ns' = node_store ns1" "registry ns' = filter (\<lambda>r. cl_id (node_store ns1 r) \<noteq> ?i) (registry ns1)"
        by simp_all
      with c show ?thesis unfolding added_def by auto
    qed
  qed
qed

subsection \<open>Client numbers\<close>

definition nodes_init :: nodes where
  "nodes_init = \<lparr>node_store = (\<lambda>_. fresh_client [] None False 0 []), registry = [], next_ref = 0, next_id = 0\<rparr>"

text \<open>The nodes of the configuration file, then any admin requests.\<close>

inductive nodes_reachable :: "nodes \<Rightarrow> bool" where
  init: "nodes_reachable nodes_init"
| config: "nodes_reachable ns \<Longrightarrow> NodeRegisterFromConfig w now node ns = Inr (res, ns') \<Longrightarrow> nodes_reachable ns'"
| admin: "nodes_reachable ns \<Longrightarrow> handle_solana_admin w now de action data ns = Inr (out, data', ns') \<Longrightarrow>
     nodes_reachable ns'"

definition nodes_ok :: "nodes \<Rightarrow> bool" where
  "nodes_ok ns \<longleftrightarrow> distinct (registry ns) \<and> (\<forall>r \<in> set (registry ns). r < next_ref ns \<and>
     cl_id (node_store ns r) \<le> next_id ns) \<and> inj_on (\<lambda>r. cl_id (node_store ns r)) (set (registry ns))"

lemma nodes_ok_added:
  assumes "nodes_ok ns" "cl_id c = next_id ns + 1"
  shows "nodes_ok (added ns c)"
proof -
  have "next_ref ns \<notin> set (registry ns)" using assms(1) by (auto simp: nodes_ok_def)
  with assms show ?thesis
    by (auto simp: nodes_ok_def added_def inj_on_def less_SucI)
qed

lemma nodes_ok_filter: "nodes_ok ns \<Longrightarrow> nodes_ok (ns\<lparr>registry := filter P (registry ns)\<rparr>)"
  by (auto simp: nodes_ok_def inj_on_def)

lemma nodes_ok_config:
  "nodes_ok ns \<Longrightarrow> NodeRegisterFromConfig w now node ns = Inr (res, ns') \<Longrightarrow> nodes_ok ns'"
  using register_cases [of w now node ns res ns'] by (auto simp: configured_def intro: nodes_ok_added)

lemma nodes_ok_admin:
  assumes ok: "nodes_ok ns" and h: "handle_solana_admin w now de action data ns = Inr (out, data', ns')"
  shows "nodes_ok ns'"
proof -
  consider (same) "ns' = ns"
    | (remove) "ns' = snd (admin_remove data ns)"
    | (add) "admin_add w now de data ns = Inr (out, ns')"
    using h unfolding handle_solana_admin_def go_bind_Inr
    by (auto simp: go_bind_Inr split: if_split_asm prod.split_asm)
  then show ?thesis
  proof cases
    case remove
    have "ns' = ns \<or> (\<exists>P. ns' = ns\<lparr>registry := filter P (registry ns)\<rparr>)"
      unfolding remove admin_remove_def Let_def
      by (auto simp: ClientRemove_filter [symmetric] split: prod.split) (metis ClientRemove_filter snd_conv)+
    with ok nodes_ok_filter show ?thesis by auto
  next
    case add
    show ?thesis
    proof (cases "ns' = ns")
      case False
      with add obtain cfg res ns1 where r: "NodeRegisterFromConfig w now cfg ns = Inr (res, ns1)"
        and n: "ns' = ns1 \<or> (\<exists>P. ns' = ns1\<lparr>registry := filter P (registry ns1)\<rparr>)"
        unfolding admin_add_def Let_def
        by (auto simp: go_bind_Inr ClientRemove_filter split: if_split_asm option.split_asm)
      from nodes_ok_config [OF ok r] n nodes_ok_filter show ?thesis by auto
    qed (use ok in simp)
  qed (use ok in simp)
qed

text \<open>Whatever nodes are configured and whatever admin requests follow, the registered clients
  are distinct and so are their numbers, so a removal concerns at most one client.\<close>

theorem client_ids_unique:
  assumes "nodes_reachable ns"
  shows "distinct (map (\<lambda>r. cl_id (node_store ns r)) (registry ns)) \<and>
    (\<forall>i. length (filter (\<lambda>r. cl_id (node_store ns r) = i) (registry ns)) \<le> 1)"
proof -
  have "nodes_ok ns" using assms
  proof induction
    case init
    then show ?case by (simp add: nodes_ok_def nodes_init_def)
  qed (blast intro: nodes_ok_config nodes_ok_admin)+
  then have d: "distinct (map (\<lambda>r. cl_id (node_store ns r)) (registry ns))"
    by (simp add: nodes_ok_def distinct_map)
  have "length (filter (\<lambda>r. f r = i) rs) \<le> 1" if "distinct (map f rs)" for f :: "ref \<Rightarrow> int" and i rs
    using that by (induction rs) (auto simp: filter_empty_conv image_iff)
  with d show ?thesis by blast
qed

lemma get_cfg_data_cases:
  "get_cfg_data ty node a d = Inl NilDereference \<or> (\<exists>x. get_cfg_data ty node a d = Inr x)"
  by (auto simp: get_cfg_data_def split: option.split)

text \<open>A JSON null where the configuration has a URL, the kind, a number or the headers ends the
  registration with a nil dereference in the warning about the type.\<close>

theorem null_config_panics:
  assumes "map_of (rev node) att = Some JNull" "att \<in> {''url'', ''public'', ''score_modifier'', ''probe_time'', ''header''}"
  shows "NodeRegisterFromConfig w now node ns = Inl NilDereference"
proof -
  have n: "get_cfg_data as_string node att d = Inl NilDereference"
    "get_cfg_data as_bool node att b = Inl NilDereference"
    "get_cfg_data as_number node att d = Inl NilDereference" for d b
    using assms(1) by (simp_all add: get_cfg_data_def)
  note c = get_cfg_data_cases [of as_string node "''url''" "[]"]
    get_cfg_data_cases [of as_bool node "''public''" False]
    get_cfg_data_cases [of as_number node "''score_modifier''" "''0''"]
    get_cfg_data_cases [of as_number node "''probe_time''" "''-1''"]
    get_cfg_data_cases [of as_string node "''header''" "[]"]
  from assms(2) n c show ?thesis unfolding NodeRegisterFromConfig_def by auto
qed

lemma null_config_panics_witness:
  "NodeRegisterFromConfig (sample_net True ''ok'') 0
     [(''url'', JStr ''http://node''), (''header'', JNull)] nodes_init = Inl NilDereference"
  using null_config_panics [of "[(''url'', JStr ''http://node''), (''header'', JNull)]" "''header''"] by simp

text \<open>A node that cannot be reached, registered at start and through the admin module.\<close>

definition sample_cfg :: "(string \<times> json) list" where
  "sample_cfg = [(''url'', JStr '' http://n''), (''probe_time'', JNum ''7'')]"

definition sample_add :: hsparams where
  "sample_add = SetParam CreateHSParams ''node'' (json_fields [(''url'', json_string ''http://n'')])"

lemma sample_runs:
  "case NodeRegisterFromConfig (sample_net False []) 0 sample_cfg nodes_init of
     Inr (Some r, ns') \<Rightarrow> registry ns' = [0] | _ \<Rightarrow> False"
  "case admin_add (sample_net False []) 0 id sample_add nodes_init of
     Inr (out, ns') \<Rightarrow> registry ns' = [0] | _ \<Rightarrow> False"
  by code_simp+

lemma node_registered_witness:
  "\<exists>ns'. NodeRegisterFromConfig (sample_net False []) 0 sample_cfg nodes_init = Inr (Some 0, ns') \<and>
     registry ns' = [0] \<and> configured sample_cfg 1 (node_store ns' 0)"
proof -
  from sample_runs(1) obtain r ns' where
    r: "NodeRegisterFromConfig (sample_net False []) 0 sample_cfg nodes_init = Inr (Some r, ns')"
    by (auto split: sum.splits option.splits)
  from node_registered [OF r] r show ?thesis by (auto simp: nodes_init_def)
qed

lemma admin_add_replaces_witness:
  "\<exists>out ns' cfg c. admin_add (sample_net False []) 0 id sample_add nodes_init = Inr (out, ns') \<and>
     configured cfg 1 c \<and> registry ns' = [0] \<and> node_store ns' = (node_store nodes_init)(0 := c)"
proof -
  from sample_runs(2) obtain out ns' where
    r: "admin_add (sample_net False []) 0 id sample_add nodes_init = Inr (out, ns')" "registry ns' = [0]"
    by (auto split: sum.splits)
  then have "ns' \<noteq> nodes_init" by (auto simp: nodes_init_def)
  with admin_add_replaces [OF r(1)] r show ?thesis by (auto simp: nodes_init_def)
qed

lemma client_ids_unique_witness:
  "\<exists>ns'. NodeRegisterFromConfig (sample_net False []) 0 sample_cfg nodes_init = Inr (Some 0, ns') \<and>
     distinct (map (\<lambda>r. cl_id (node_store ns' r)) (registry ns'))"
proof -
  from sample_runs(1) obtain r ns' where
    r: "NodeRegisterFromConfig (sample_net False []) 0 sample_cfg nodes_init = Inr (Some r, ns')"
    by (auto split: sum.splits option.splits)
  moreover have "r = 0" using register_cases [OF r] by (simp add: nodes_init_def)
  ultimately show ?thesis
    using client_ids_unique [OF nodes_reachable.config [OF nodes_reachable.init r]] by blast
qed

end
