(* ===== verification/Stats.thy ===== *)
theory Stats
  imports GoStrings "HOL-Library.Word"
begin

text \<open>
  The server statistics of \<open>handler_socket2/stats\<close>: \<open>stats.go\<close> (the life of a connection, totals per
  action) and \<open>stats_history.go\<close> (a ring of six seconds). Counters are \<open>uint64\<close> and wrap. Every
  operation runs under \<open>stats_mutex\<close>, so it is one step; the goroutine that \<open>Close\<close> starts takes its
  two later steps on its own. Times are nanoseconds or seconds since 1970.
\<close>

subsection \<open>The last seconds\<close>

record uh_struct =
  uh_timestamp :: int
  uh_connections :: "64 word"
  uh_requests :: "64 word"
  uh_errors :: "64 word"
  uh_req_time :: "64 word"
  uh_req_time_full :: "64 word"
  uh_b_request_size :: "64 word"
  uh_b_request_compressed :: "64 word"
  uh_b_resp_size :: "64 word"
  uh_b_resp_compressed :: "64 word"
  uh_resp_skipped :: "64 word"
  uh_resp_b_skipped :: "64 word"

definition uh_zero :: uh_struct where
  "uh_zero = \<lparr>uh_timestamp = 0, uh_connections = 0, uh_requests = 0, uh_errors = 0, uh_req_time = 0,
     uh_req_time_full = 0, uh_b_request_size = 0, uh_b_request_compressed = 0, uh_b_resp_size = 0,
     uh_b_resp_compressed = 0, uh_resp_skipped = 0, uh_resp_b_skipped = 0\<rparr>"

type_synonym uptime_history = "uh_struct list"

text \<open>The arguments of \<open>uh_add_unsafe\<close>.\<close>

record uh_args =
  a_connections :: "64 word"
  a_requests :: "64 word"
  a_errors :: "64 word"
  a_req_time :: "64 word"
  a_req_time_full :: "64 word"
  a_b_request_size :: "64 word"
  a_b_request_compressed :: "64 word"
  a_b_resp_size :: "64 word"
  a_b_resp_compressed :: "64 word"
  a_skip_response_sent :: bool

definition uh_slot :: "int \<Rightarrow> nat" where
  "uh_slot now = nat (now smod 6)"

definition uh_add_unsafe :: "int \<Rightarrow> uh_args \<Rightarrow> uptime_history \<Rightarrow> uptime_history" where
  "uh_add_unsafe now a ring =
     (let s = ring ! uh_slot now; skip = a_skip_response_sent a
      in ring[uh_slot now :=
           (if uh_timestamp s \<noteq> now then
              \<lparr>uh_timestamp = now, uh_connections = a_connections a, uh_requests = a_requests a,
               uh_errors = a_errors a, uh_req_time = a_req_time a, uh_req_time_full = a_req_time_full a,
               uh_b_request_size = a_b_request_size a, uh_b_request_compressed = a_b_request_compressed a,
               uh_b_resp_size = a_b_resp_size a, uh_b_resp_compressed = a_b_resp_compressed a,
               uh_resp_skipped = (if skip then a_requests a else 0),
               uh_resp_b_skipped = (if skip then a_b_resp_compressed a else 0)\<rparr>
            else
              s\<lparr>uh_connections := uh_connections s + a_connections a, uh_requests := uh_requests s + a_requests a,
                uh_errors := uh_errors s + a_errors a, uh_req_time := uh_req_time s + a_req_time a,
                uh_req_time_full := uh_req_time_full s + a_req_time_full a,
                uh_b_request_size := uh_b_request_size s + a_b_request_size a,
                uh_b_request_compressed := uh_b_request_compressed s + a_b_request_compressed a,
                uh_b_resp_size := uh_b_resp_size s + a_b_resp_size a,
                uh_b_resp_compressed := uh_b_resp_compressed s + a_b_resp_compressed a,
                uh_resp_skipped := uh_resp_skipped s + (if skip then a_requests a else 0),
                uh_resp_b_skipped := uh_resp_b_skipped s + (if skip then a_b_resp_compressed a else 0)\<rparr>)])"

text \<open>One turn of the loop of \<open>uh_get\<close>: a slot of another second is cleared, the slot of this second is
  added to the result.\<close>

definition uh_get_step :: "int \<Rightarrow> uh_struct \<times> uptime_history \<Rightarrow> uh_struct \<times> uptime_history" where
  "uh_get_step now = (\<lambda>(ret, ring).
     (let s = ring ! uh_slot now
      in if uh_timestamp s \<noteq> now then (ret, ring[uh_slot now := uh_zero\<lparr>uh_timestamp := now\<rparr>])
         else
           (ret\<lparr>uh_connections := uh_connections ret + uh_connections s,
                uh_requests := uh_requests ret + uh_requests s,
                uh_errors := uh_errors ret + uh_errors s,
                uh_req_time := uh_req_time ret + uh_req_time s,
                uh_req_time_full := uh_req_time_full ret + uh_req_time_full s,
                uh_b_request_size := uh_b_request_size ret + uh_b_request_size s,
                uh_b_request_compressed := uh_b_request_compressed ret + uh_b_request_compressed s,
                uh_b_resp_size := uh_b_resp_size ret + (uh_b_resp_size s - uh_resp_b_skipped s),
                uh_b_resp_compressed := uh_b_resp_compressed ret + (uh_b_resp_compressed s - uh_resp_b_skipped s),
                uh_resp_skipped := uh_resp_skipped ret + uh_resp_skipped s,
                uh_resp_b_skipped := uh_resp_b_skipped ret + uh_resp_b_skipped s\<rparr>, ring)))"

definition uh_get :: "int \<Rightarrow> uptime_history \<Rightarrow> uh_struct \<times> uptime_history" where
  "uh_get now ring = fold (\<lambda>i. uh_get_step (now - i)) [1, 2, 3, 4, 5] (uh_zero, ring)"

subsection \<open>Connections\<close>

record connection =
  c_id :: "64 word"
  c_ip :: string
  c_status :: string
  c_action :: string
  c_data :: string
  c_comment :: string
  c_is_error :: bool
  c_start_time :: int
  c_end_time :: int
  c_request_size :: "64 word"
  c_request_size_compressed :: "64 word"
  c_response_size :: "64 word"

record action_stats =
  requests :: "64 word"
  req_time :: "64 word"
  req_time_full :: "64 word"
  b_request_size :: "64 word"
  b_request_compressed :: "64 word"
  b_resp_size :: "64 word"
  b_resp_compressed :: "64 word"
  resp_skipped :: "64 word"
  resp_b_skipped :: "64 word"

definition empty_stats :: action_stats where
  "empty_stats = \<lparr>requests = 0, req_time = 0, req_time_full = 0, b_request_size = 0, b_request_compressed = 0,
     b_resp_size = 0, b_resp_compressed = 0, resp_skipped = 0, resp_b_skipped = 0\<rparr>"

definition getAdjStats :: "action_stats \<Rightarrow> action_stats" where
  "getAdjStats this =
     \<lparr>requests = requests this, req_time = req_time this, req_time_full = req_time_full this,
      b_request_size = b_request_size this, b_request_compressed = b_request_compressed this,
      b_resp_size = b_resp_size this - resp_b_skipped this,
      b_resp_compressed = b_resp_compressed this - resp_b_skipped this,
      resp_skipped = resp_skipped this, resp_b_skipped = resp_b_skipped this\<rparr>"

text \<open>Connection objects live on after they leave the map, so the state has both: the objects, by
  number, and the numbers that are in \<open>status_connections\<close>.\<close>

record stats_state =
  global_stats_connections :: "64 word"
  global_stats_requests :: "64 word"
  global_stats_errors :: "64 word"
  global_stats_req_time :: "64 word"
  global_stats_req_time_full :: "64 word"
  objects :: "(64 word, connection) gomap"
  status_connections :: "64 word list"
  stats_actions :: "(string, action_stats) gomap"
  uptime_history :: uptime_history

definition stats_init :: stats_state where
  "stats_init = \<lparr>global_stats_connections = 0, global_stats_requests = 0, global_stats_errors = 0,
     global_stats_req_time = 0, global_stats_req_time_full = 0, objects = [], status_connections = [],
     stats_actions = [], uptime_history = replicate 6 uh_zero\<rparr>"

definition seconds :: "int \<Rightarrow> int" where
  "seconds now_ns = now_ns sdiv 1000000000"

definition took_us :: "int \<Rightarrow> int \<Rightarrow> 64 word" where
  "took_us from_ns to_ns = word_of_int ((to_ns - from_ns) sdiv 1000)"

definition MakeConnection :: "int \<Rightarrow> string \<Rightarrow> stats_state \<Rightarrow> 64 word \<times> stats_state" where
  "MakeConnection now_ns remoteAddr st =
     (let conn_id = global_stats_connections st + 1;
          newconn = \<lparr>c_id = conn_id, c_ip = remoteAddr, c_status = ''O'', c_action = [], c_data = [],
            c_comment = [], c_is_error = False, c_start_time = now_ns, c_end_time = 0, c_request_size = 0,
            c_request_size_compressed = 0, c_response_size = 0\<rparr>
      in (conn_id, st\<lparr>global_stats_connections := conn_id, objects := gm_set (objects st) conn_id newconn,
            status_connections := List.insert conn_id (status_connections st),
            uptime_history := uh_add_unsafe (seconds now_ns)
              \<lparr>a_connections = 1, a_requests = 0, a_errors = 0, a_req_time = 0, a_req_time_full = 0,
               a_b_request_size = 0, a_b_request_compressed = 0, a_b_resp_size = 0, a_b_resp_compressed = 0,
               a_skip_response_sent = False\<rparr> (uptime_history st)\<rparr>))"

definition get_conn :: "stats_state \<Rightarrow> 64 word \<Rightarrow> connection" where
  "get_conn st i = the (map_of (objects st) i)"

definition set_conn :: "64 word \<Rightarrow> connection \<Rightarrow> stats_state \<Rightarrow> stats_state" where
  "set_conn i c st = st\<lparr>objects := gm_set (objects st) i c\<rparr>"

definition StateReading :: "int \<Rightarrow> 64 word \<Rightarrow> stats_state \<Rightarrow> stats_state" where
  "StateReading start i st =
     set_conn i ((get_conn st i)\<lparr>c_status := ''Sr'', c_start_time := start, c_end_time := 0\<rparr>) st"

definition StateServing :: "string \<Rightarrow> string \<Rightarrow> 64 word \<Rightarrow> stats_state \<Rightarrow> stats_state" where
  "StateServing action pinfo i st =
     set_conn i ((get_conn st i)\<lparr>c_status := ''Ss1'', c_action := action, c_data := pinfo\<rparr>) st"

definition StateWriting ::
  "int \<Rightarrow> 64 word \<Rightarrow> 64 word \<Rightarrow> 64 word \<Rightarrow> 64 word \<Rightarrow> stats_state \<Rightarrow> 64 word \<times> stats_state" where
  "StateWriting time_end request_size request_size_compressed response_size i st =
     (let this = (get_conn st i)\<lparr>c_status := ''W'', c_end_time := time_end, c_request_size := request_size,
            c_request_size_compressed := request_size_compressed, c_response_size := response_size\<rparr>;
          took = took_us (c_start_time this) time_end;
          sa = gm_get empty_stats (stats_actions st) (c_action this);
          sa' = sa\<lparr>requests := requests sa + 1, req_time := req_time sa + took,
            b_request_size := b_request_size sa + request_size,
            b_request_compressed := b_request_compressed sa + request_size_compressed,
            b_resp_size := b_resp_size sa + response_size\<rparr>
      in (took, (set_conn i this st)\<lparr>stats_actions := gm_set (stats_actions st) (c_action this) sa'\<rparr>))"

definition StateKeepalive :: "int \<Rightarrow> 64 word \<Rightarrow> 64 word \<Rightarrow> bool \<Rightarrow> 64 word \<Rightarrow> stats_state \<Rightarrow> stats_state" where
  "StateKeepalive now_ns resp_compressed took skip_response_sent i st =
     (let this = get_conn st i;
          took_full = took_us (c_start_time this) now_ns;
          sa = gm_get empty_stats (stats_actions st) (c_action this);
          sa1 = sa\<lparr>b_resp_compressed := b_resp_compressed sa + resp_compressed,
            req_time_full := req_time_full sa + took_full\<rparr>;
          sa2 = (if skip_response_sent
                 then sa1\<lparr>resp_b_skipped := resp_b_skipped sa1 + c_response_size this,
                          resp_skipped := resp_skipped sa1 + 1\<rparr>
                 else sa1)
      in (set_conn i (this\<lparr>c_status := ''K''\<rparr>) st)
           \<lparr>global_stats_requests := global_stats_requests st + 1,
            global_stats_req_time := global_stats_req_time st + took,
            global_stats_req_time_full := global_stats_req_time_full st + took_full,
            stats_actions := gm_set (stats_actions st) (c_action this) sa2,
            uptime_history := uh_add_unsafe (seconds now_ns)
              \<lparr>a_connections = 0, a_requests = 1, a_errors = 0, a_req_time = took, a_req_time_full = took_full,
               a_b_request_size = c_request_size this,
               a_b_request_compressed = c_request_size_compressed this,
               a_b_resp_size = c_response_size this, a_b_resp_compressed = resp_compressed,
               a_skip_response_sent = skip_response_sent\<rparr> (uptime_history st)\<rparr>)"

text \<open>\<open>Close\<close>: the part that runs at once, and the two later steps of its goroutine, which look the
  connection up again and write through a nil pointer when it is gone.\<close>

definition Close :: "int \<Rightarrow> bool \<Rightarrow> stats_state \<Rightarrow> stats_state" where
  "Close ts_now is_error st =
     (if is_error then
        st\<lparr>global_stats_errors := global_stats_errors st + 1,
           uptime_history := uh_add_unsafe ts_now
             \<lparr>a_connections = 0, a_requests = 0, a_errors = 1, a_req_time = 0, a_req_time_full = 0,
              a_b_request_size = 0, a_b_request_compressed = 0, a_b_resp_size = 0, a_b_resp_compressed = 0,
              a_skip_response_sent = False\<rparr> (uptime_history st)\<rparr>
      else st)"

definition close_mark :: "64 word \<Rightarrow> string \<Rightarrow> bool \<Rightarrow> stats_state \<Rightarrow> stats_state go" where
  "close_mark i comment is_error st =
     (if i \<in> set (status_connections st) then
        (let c = get_conn st i;
             c1 = (if c_end_time c = 0 then c\<lparr>c_start_time := 0\<rparr> else c)
         in Inr (set_conn i (c1\<lparr>c_status := ''X'', c_comment := comment, c_is_error := is_error\<rparr>) st))
      else Inl NilDereference)"

definition close_drop :: "64 word \<Rightarrow> stats_state \<Rightarrow> stats_state" where
  "close_drop i st = st\<lparr>status_connections := removeAll i (status_connections st)\<rparr>"

end
