(* ===== verification/StatsCorrect.thy ===== *)
theory StatsCorrect
  imports Stats
begin

text \<open>
  Correctness of the statistics: the ring reports the last five full seconds exactly while the clock
  does not run backwards, and loses a second when it does; the totals per action are the sums over
  the requests served, whatever the interleaving of the connections.
\<close>

subsection \<open>Sums of seconds\<close>

definition uh_plus :: "uh_struct \<Rightarrow> uh_struct \<Rightarrow> uh_struct" where
  "uh_plus r s =
     r\<lparr>uh_connections := uh_connections r + uh_connections s, uh_requests := uh_requests r + uh_requests s,
       uh_errors := uh_errors r + uh_errors s, uh_req_time := uh_req_time r + uh_req_time s,
       uh_req_time_full := uh_req_time_full r + uh_req_time_full s,
       uh_b_request_size := uh_b_request_size r + uh_b_request_size s,
       uh_b_request_compressed := uh_b_request_compressed r + uh_b_request_compressed s,
       uh_b_resp_size := uh_b_resp_size r + uh_b_resp_size s,
       uh_b_resp_compressed := uh_b_resp_compressed r + uh_b_resp_compressed s,
       uh_resp_skipped := uh_resp_skipped r + uh_resp_skipped s,
       uh_resp_b_skipped := uh_resp_b_skipped r + uh_resp_b_skipped s\<rparr>"

text \<open>What one event adds to its second, and what a second adds to the report: skipped responses do
  not count as sent.\<close>

definition contrib :: "uh_args \<Rightarrow> uh_struct" where
  "contrib a =
     \<lparr>uh_timestamp = 0, uh_connections = a_connections a, uh_requests = a_requests a, uh_errors = a_errors a,
      uh_req_time = a_req_time a, uh_req_time_full = a_req_time_full a,
      uh_b_request_size = a_b_request_size a, uh_b_request_compressed = a_b_request_compressed a,
      uh_b_resp_size = a_b_resp_size a, uh_b_resp_compressed = a_b_resp_compressed a,
      uh_resp_skipped = (if a_skip_response_sent a then a_requests a else 0),
      uh_resp_b_skipped = (if a_skip_response_sent a then a_b_resp_compressed a else 0)\<rparr>"

definition sent_only :: "uh_struct \<Rightarrow> uh_struct" where
  "sent_only s = s\<lparr>uh_b_resp_size := uh_b_resp_size s - uh_resp_b_skipped s,
     uh_b_resp_compressed := uh_b_resp_compressed s - uh_resp_b_skipped s\<rparr>"

definition second :: "int \<Rightarrow> uh_args list \<Rightarrow> uh_struct" where
  "second t es = fold (\<lambda>a s. uh_plus s (contrib a)) es (uh_zero\<lparr>uh_timestamp := t\<rparr>)"

definition report :: "uh_args list \<Rightarrow> uh_struct \<Rightarrow> uh_struct" where
  "report es r = fold (\<lambda>a s. uh_plus s (sent_only (contrib a))) es r"

lemma uh_plus_simps [simp]:
  "uh_timestamp (uh_plus r s) = uh_timestamp r" "uh_plus r (uh_zero\<lparr>uh_timestamp := t\<rparr>) = r" "uh_plus r uh_zero = r"
  by (simp_all add: uh_plus_def uh_zero_def)

lemma uh_plus_assoc: "uh_plus (uh_plus r s) t = uh_plus r (uh_plus s t)"
  by (simp add: uh_plus_def add.assoc)

lemma uh_plus_swap: "uh_plus (uh_plus r s) t = uh_plus (uh_plus r t) s"
  by (simp add: uh_plus_def add.assoc add.commute)

lemma sent_only_plus: "sent_only (uh_plus r s) = uh_plus (sent_only r) (sent_only s)"
  by (simp add: sent_only_def uh_plus_def)

lemma sent_only_zero [simp]: "sent_only (uh_zero\<lparr>uh_timestamp := t\<rparr>) = uh_zero\<lparr>uh_timestamp := t\<rparr>"
  by (simp add: sent_only_def uh_zero_def)

lemma timestamp_second [simp]: "uh_timestamp (second t es) = t"
  unfolding second_def by (induction es rule: rev_induct) simp_all

lemma second_Nil [simp]: "second t [] = uh_zero\<lparr>uh_timestamp := t\<rparr>"
  by (simp add: second_def)

lemma second_snoc: "second t (es @ [a]) = uh_plus (second t es) (contrib a)"
  by (simp add: second_def)

lemma report_second: "uh_plus r (sent_only (second t es)) = report es r"
proof (induction es rule: rev_induct)
  case (snoc a es)
  then show ?case
    by (simp add: second_snoc sent_only_plus uh_plus_assoc [symmetric] report_def)
qed (simp add: report_def)

lemma report_snoc: "report (es @ [a]) r = uh_plus (report es r) (sent_only (contrib a))"
  by (simp add: report_def)

lemma report_Nil [simp]: "report [] r = r"
  by (simp add: report_def)

lemma report_plus: "report es (uh_plus r s) = uh_plus (report es r) s"
  by (induction es rule: rev_induct) (simp_all add: report_snoc uh_plus_swap)

text \<open>Two disjoint parts of a log are reported together.\<close>

lemma report_split:
  assumes "\<forall>x \<in> set xs. \<not> (P x \<and> Q x)"
  shows "report (map g (filter P xs)) (report (map g (filter Q xs)) r) = report (map g (filter (\<lambda>x. P x \<or> Q x) xs)) r"
  using assms by (induction xs rule: rev_induct) (auto simp: report_snoc report_plus)

subsection \<open>The ring\<close>

text \<open>The log: the events with their second, oldest first.\<close>

type_synonym uh_log = "(int \<times> uh_args) list"

definition at :: "uh_log \<Rightarrow> int \<Rightarrow> uh_args list" where
  "at log t = map snd (filter (\<lambda>e. fst e = t) log)"

definition ring_ok :: "uh_log \<Rightarrow> int \<Rightarrow> uptime_history \<Rightarrow> bool" where
  "ring_ok lg T ring \<longleftrightarrow> length ring = 6 \<and>
     (\<forall>i < 6. uh_timestamp (ring ! i) \<le> T \<and>
        (uh_timestamp (ring ! i) = 0 \<or> 0 < uh_timestamp (ring ! i) \<and> uh_slot (uh_timestamp (ring ! i)) = i) \<and>
        ring ! i = second (uh_timestamp (ring ! i)) (at lg (uh_timestamp (ring ! i)))) \<and>
     (\<forall>e \<in> set lg. 0 < fst e \<and> fst e \<le> uh_timestamp (ring ! uh_slot (fst e)))"

lemma uh_slot_less [simp]: "0 \<le> t \<Longrightarrow> uh_slot t < 6"
  by (simp add: uh_slot_def)

lemma uh_slot_eq: "0 \<le> t \<Longrightarrow> 0 \<le> u \<Longrightarrow> uh_slot t = uh_slot u \<longleftrightarrow> t mod 6 = u mod 6"
  by (simp add: uh_slot_def eq_nat_nat_iff)

lemma at_snoc: "at (lg @ [(t, a)]) u = (if u = t then at lg u @ [a] else at lg u)"
  by (simp add: at_def)

lemma at_Nil: "(\<And>e. e \<in> set lg \<Longrightarrow> fst e \<noteq> t) \<Longrightarrow> at lg t = []"
  by (auto simp: at_def filter_empty_conv)

lemma uh_add_form:
  "uh_add_unsafe t a ring = ring[uh_slot t :=
     (if uh_timestamp (ring ! uh_slot t) = t then uh_plus (ring ! uh_slot t) (contrib a) else second t [a])]"
  by (simp add: uh_add_unsafe_def Let_def uh_plus_def contrib_def second_def uh_zero_def)

lemma ring_ok_add:
  assumes "ring_ok lg T ring" "T \<le> t" "0 < t"
  shows "ring_ok (lg @ [(t, a)]) t (uh_add_unsafe t a ring)"
proof -
  let ?i = "uh_slot t" and ?s = "ring ! uh_slot t"
  have i: "?i < 6" and len: "length ring = 6" using assms by (simp_all add: ring_ok_def)
  have s: "uh_timestamp ?s \<le> T" "?s = second (uh_timestamp ?s) (at lg (uh_timestamp ?s))"
    using assms(1) i by (auto simp: ring_ok_def)
  have new: "(if uh_timestamp ?s = t then uh_plus ?s (contrib a) else second t [a]) = second t (at lg t @ [a])"
  proof (cases "uh_timestamp ?s = t")
    case True
    with s(2) show ?thesis by (simp add: second_snoc)
  next
    case False
    have "at lg t = []"
    proof (rule at_Nil)
      fix e assume "e \<in> set lg"
      with assms(1) have "fst e \<le> uh_timestamp (ring ! uh_slot (fst e))" by (simp add: ring_ok_def)
      with False s(1) assms(2) show "fst e \<noteq> t" by auto
    qed
    with False show ?thesis by simp
  qed
  have other: "uh_timestamp (ring ! j) \<noteq> t" if "j < 6" "j \<noteq> ?i" for j
    using assms(1,3) that by (auto simp: ring_ok_def)
  have all: "uh_timestamp (ring ! j) \<le> t" if "j < 6" for j
    using assms(1,2) that by (force simp: ring_ok_def)
  have old: "fst e \<le> t" if "e \<in> set lg" for e
    using assms(1,2) that all [of "uh_slot (fst e)"] by (force simp: ring_ok_def)
  let ?r = "ring[?i := second t (at lg t @ [a])]"
  have "uh_timestamp (?r ! j) \<le> t \<and> (uh_timestamp (?r ! j) = 0 \<or> 0 < uh_timestamp (?r ! j) \<and> uh_slot (uh_timestamp (?r ! j)) = j) \<and>
      ?r ! j = second (uh_timestamp (?r ! j)) (at (lg @ [(t, a)]) (uh_timestamp (?r ! j)))" if "j < 6" for j
  proof (cases "j = ?i")
    case True
    with i len assms(3) show ?thesis by (simp add: at_snoc)
  next
    case False
    with assms(1) that all other show ?thesis by (simp add: ring_ok_def at_snoc)
  qed
  moreover have "0 < fst e \<and> fst e \<le> uh_timestamp (?r ! uh_slot (fst e))" if "e \<in> set (lg @ [(t, a)])" for e
  proof (cases "uh_slot (fst e) = ?i")
    case True
    have "0 < fst e \<and> fst e \<le> t" using that old [of e] assms(1,3) by (auto simp: ring_ok_def)
    with True i len show ?thesis by simp
  next
    case False
    with that assms(1) have "e \<in> set lg" by auto
    with False assms(1) show ?thesis by (simp add: ring_ok_def)
  qed
  ultimately show ?thesis unfolding ring_ok_def uh_add_form new using len by simp
qed

lemma ring_ok_later: "ring_ok lg T ring \<Longrightarrow> T \<le> T' \<Longrightarrow> ring_ok lg T' ring"
  unfolding ring_ok_def by (meson order.trans)

lemma uh_get_step_form:
  "uh_get_step t (r, ring) =
     (if uh_timestamp (ring ! uh_slot t) = t then (uh_plus r (sent_only (ring ! uh_slot t)), ring)
      else (r, ring[uh_slot t := second t []]))"
  by (simp add: uh_get_step_def Let_def uh_plus_def sent_only_def)

lemma ring_ok_get_step:
  assumes "ring_ok lg T ring" "T < t + 6" "0 < t" "t \<le> T'" "T \<le> T'"
  shows "\<exists>ring'. uh_get_step t (r, ring) = (report (at lg t) r, ring') \<and> ring_ok lg T' ring'"
proof (cases "uh_timestamp (ring ! uh_slot t) = t")
  case True
  have "uh_slot t < 6" using assms(3) by simp
  with assms(1) have "ring ! uh_slot t = second (uh_timestamp (ring ! uh_slot t)) (at lg (uh_timestamp (ring ! uh_slot t)))"
    unfolding ring_ok_def by blast
  then have "ring ! uh_slot t = second t (at lg t)" unfolding True .
  moreover have "ring_ok lg T' ring" using assms(1,5) by (rule ring_ok_later)
  ultimately show ?thesis using True by (simp add: uh_get_step_form report_second)
next
  case False
  let ?i = "uh_slot t" and ?u = "uh_timestamp (ring ! uh_slot t)"
  have i: "?i < 6" and len: "length ring = 6" using assms by (simp_all add: ring_ok_def)
  have u: "?u \<le> T" "?u = 0 \<or> 0 < ?u \<and> uh_slot ?u = ?i" using assms(1) i by (auto simp: ring_ok_def)
  have lt: "fst e < t" if "e \<in> set lg" "uh_slot (fst e) = ?i" for e
  proof -
    from assms(1) that have e: "0 < fst e" "fst e \<le> ?u" by (auto simp: ring_ok_def)
    with u(2) have "?u mod 6 = t mod 6" using uh_slot_eq [of ?u t] assms(3) by simp
    then have "6 dvd ?u - t" by (simp add: mod_eq_dvd_iff)
    with False u(1) assms(2) have "?u < t" using zdvd_not_zless [of "?u - t" 6] by linarith
    with e show ?thesis by simp
  qed
  have nil: "at lg t = []" using lt by (intro at_Nil) auto
  let ?r = "ring[?i := second t []]"
  have "uh_timestamp (?r ! j) \<le> T' \<and> (uh_timestamp (?r ! j) = 0 \<or> 0 < uh_timestamp (?r ! j) \<and> uh_slot (uh_timestamp (?r ! j)) = j) \<and>
      ?r ! j = second (uh_timestamp (?r ! j)) (at lg (uh_timestamp (?r ! j)))" if "j < 6" for j
  proof (cases "j = ?i")
    case True
    with i len nil assms(3,4) show ?thesis by (simp del: second_Nil)
  next
    case False
    with ring_ok_later [OF assms(1,5)] that show ?thesis by (simp add: ring_ok_def)
  qed
  moreover have "0 < fst e \<and> fst e \<le> uh_timestamp (?r ! uh_slot (fst e))" if "e \<in> set lg" for e
    using that lt [OF that] assms(1) i len by (cases "uh_slot (fst e) = ?i") (auto simp: ring_ok_def)
  ultimately have "ring_ok lg T' ?r" unfolding ring_ok_def using len by simp
  with False nil show ?thesis by (simp add: uh_get_step_form report_def del: second_Nil)
qed

definition span :: "uh_log \<Rightarrow> int \<Rightarrow> int \<Rightarrow> uh_args list" where
  "span lg t u = map snd (filter (\<lambda>e. t \<le> fst e \<and> fst e < u) lg)"

lemma report_at: "t < u \<Longrightarrow> report (at lg t) (report (span lg (t + 1) u) r) = report (span lg t u) r"
proof -
  assume "t < u"
  then have "filter (\<lambda>e. t \<le> fst e \<and> fst e < u) lg = filter (\<lambda>e. fst e = t \<or> (t + 1 \<le> fst e \<and> fst e < u)) lg"
    by (intro filter_cong) auto
  then show ?thesis
    unfolding at_def span_def using report_split [of lg "\<lambda>e. fst e = t" "\<lambda>e. t + 1 \<le> fst e \<and> fst e < u" snd r] by simp
qed

lemma span_Nil [simp]: "span lg t t = []"
  by (auto simp: span_def filter_empty_conv)

lemma ring_ok_get:
  assumes "ring_ok lg T ring" "T \<le> t" "6 \<le> t"
  shows "\<exists>ring'. uh_get t ring = (report (span lg (t - 5) t) uh_zero, ring') \<and> ring_ok lg t ring'"
proof -
  have step: "\<exists>rg'. uh_get_step (t - k) (report (span lg (t - k + 1) t) uh_zero, rg) =
      (report (span lg (t - k) t) uh_zero, rg') \<and> ring_ok lg t rg'"
    if "ring_ok lg t rg" "1 \<le> k" "k \<le> 5" for k rg
    using ring_ok_get_step [of lg t rg "t - k" t "report (span lg (t - k + 1) t) uh_zero"] that assms(3)
    by (simp add: report_at)
  have r0: "ring_ok lg t ring" using assms(1,2) by (rule ring_ok_later)
  from step [OF r0, of 1] obtain r1 where
    1: "uh_get_step (t - 1) (uh_zero, ring) = (report (span lg (t - 1) t) uh_zero, r1)" "ring_ok lg t r1" by auto
  from step [OF 1(2), of 2] obtain r2 where
    2: "uh_get_step (t - 2) (report (span lg (t - 1) t) uh_zero, r1) = (report (span lg (t - 2) t) uh_zero, r2)"
      "ring_ok lg t r2" by auto
  from step [OF 2(2), of 3] obtain r3 where
    3: "uh_get_step (t - 3) (report (span lg (t - 2) t) uh_zero, r2) = (report (span lg (t - 3) t) uh_zero, r3)"
      "ring_ok lg t r3" by auto
  from step [OF 3(2), of 4] obtain r4 where
    4: "uh_get_step (t - 4) (report (span lg (t - 3) t) uh_zero, r3) = (report (span lg (t - 4) t) uh_zero, r4)"
      "ring_ok lg t r4" by auto
  from step [OF 4(2), of 5] 1(1) 2(1) 3(1) 4(1) show ?thesis by (auto simp: uh_get_def)
qed

text \<open>Recording and reading the history, in any order.\<close>

datatype uh_op = Add int uh_args | Report int

fun op_time :: "uh_op \<Rightarrow> int" where
  "op_time (Add t a) = t"
| "op_time (Report t) = t"

fun run_history :: "uh_op list \<Rightarrow> uptime_history \<Rightarrow> uptime_history" where
  "run_history [] ring = ring"
| "run_history (Add t a # ops) ring = run_history ops (uh_add_unsafe t a ring)"
| "run_history (Report t # ops) ring = run_history ops (snd (uh_get t ring))"

definition events :: "uh_op list \<Rightarrow> uh_log" where
  "events ops = concat (map (\<lambda>p. case p of Add t a \<Rightarrow> [(t, a)] | Report t \<Rightarrow> []) ops)"

lemma run_history_ok:
  assumes "ring_ok lg T ring" "sorted (T # map op_time ops)" "\<forall>p \<in> set ops. 6 \<le> op_time p"
  shows "ring_ok (lg @ events ops) (last (T # map op_time ops)) (run_history ops ring)"
  using assms
proof (induction ops arbitrary: lg T ring)
  case Nil
  then show ?case by (simp add: events_def)
next
  case (Cons p ops)
  show ?case
  proof (cases p)
    case (Add t a)
    with Cons(2-4) ring_ok_add [of lg T ring t a] have "ring_ok (lg @ [(t, a)]) t (uh_add_unsafe t a ring)" by auto
    from Cons(1) [OF this] Cons(3,4) Add show ?thesis by (simp add: events_def)
  next
    case (Report t)
    with Cons(2-4) ring_ok_get [of lg T ring t] obtain ring' where
      "uh_get t ring = (report (span lg (t - 5) t) uh_zero, ring')" "ring_ok lg t ring'" by auto
    with Cons(1) [of lg t ring'] Cons(3,4) Report show ?thesis by (simp add: events_def)
  qed
qed

lemma ring_ok_init: "ring_ok [] 0 (replicate 6 uh_zero)"
proof -
  have "uh_zero = uh_zero\<lparr>uh_timestamp := 0\<rparr>" "uh_timestamp uh_zero = 0" by (simp_all add: uh_zero_def)
  then show ?thesis by (simp add: ring_ok_def at_def)
qed

text \<open>C29. The ring of six seconds reports the last five full seconds exactly: as long as the clock
  does not run backwards, whatever was recorded and read before, the report at \<open>now\<close> is the sum of
  the events of the seconds \<open>now - 5\<close> to \<open>now - 1\<close>, with skipped responses not counted as sent.\<close>

theorem last_seconds_exact:
  assumes "sorted (map op_time ops @ [now])" "\<forall>p \<in> set ops. 6 \<le> op_time p" "6 \<le> now"
  shows "fst (uh_get now (run_history ops (replicate 6 uh_zero))) =
    report (span (events ops) (now - 5) now) uh_zero"
proof -
  let ?T = "last (0 # map op_time ops)"
  have "sorted (0 # map op_time ops)" using assms(1,2) by (fastforce simp: sorted_append)
  from run_history_ok [OF ring_ok_init this assms(2)] have ok: "ring_ok (events ops) ?T (run_history ops (replicate 6 uh_zero))"
    by simp
  have "?T \<le> now" using assms(1,3) by (auto simp: sorted_append last_map)
  from ring_ok_get [OF ok this assms(3)] show ?thesis by auto
qed

text \<open>What reading does to the ring.\<close>

definition clear_slot :: "int \<Rightarrow> uptime_history \<Rightarrow> uptime_history" where
  "clear_slot t ring = (if uh_timestamp (ring ! uh_slot t) = t then ring else ring[uh_slot t := second t []])"

lemma snd_uh_get_step: "snd (uh_get_step t p) = clear_slot t (snd p)"
  by (cases p) (simp add: uh_get_step_form clear_slot_def)

lemma snd_uh_get:
  "snd (uh_get t ring) = clear_slot (t - 5) (clear_slot (t - 4) (clear_slot (t - 3) (clear_slot (t - 2) (clear_slot (t - 1) ring))))"
  by (simp add: uh_get_def snd_uh_get_step)

lemma clear_slot_other: "uh_slot t \<noteq> i \<Longrightarrow> clear_slot t (ring[i := s]) = (clear_slot t ring)[i := s]"
  by (auto simp: clear_slot_def list_update_swap)

lemma length_clear_slot [simp]: "length (clear_slot t ring) = length ring"
  by (simp add: clear_slot_def)

text \<open>The clock of \<open>uh_get\<close> is a cached one that lags up to 100 ms behind the one of the
  recording operations. When it is still in the old second, reading the status clears the slot that
  the new second has begun to fill, so whatever was recorded there is lost for every later report.\<close>

theorem stale_clock_loses_second:
  assumes "length ring = 6" "6 \<le> t"
  shows "snd (uh_get t (uh_add_unsafe (t + 1) a ring)) = snd (uh_get t (ring[uh_slot (t + 1) := second (t - 5) []]))"
proof -
  let ?i = "uh_slot (t + 1)"
  have eq: "uh_slot (t - 5) = ?i" using assms(2) by (simp add: uh_slot_eq mod_eq_dvd_iff)
  have ne: "uh_slot (t - k) \<noteq> ?i" if "1 \<le> k" "k \<le> 4" for k
    using assms(2) that zdvd_not_zless [of "1 + k" 6] by (simp add: uh_slot_eq mod_eq_dvd_iff dvd_diff_commute)
  have i: "?i < 6" using assms(2) by simp
  obtain s where s: "uh_add_unsafe (t + 1) a ring = ring[?i := s]" "uh_timestamp s = t + 1"
    by (auto simp: uh_add_form)
  have "snd (uh_get t (ring[?i := x])) = (clear_slot (t - 4) (clear_slot (t - 3) (clear_slot (t - 2) (clear_slot (t - 1) ring))))
      [?i := second (t - 5) []]" if "uh_timestamp x = t - 5 \<longrightarrow> x = second (t - 5) []" for x
    using that assms(1) i ne by (simp add: snd_uh_get clear_slot_other) (simp add: clear_slot_def eq)
  from this [of s] this [of "second (t - 5) []"] s show ?thesis by simp
qed

text \<open>A second of two requests, one of them without a response, and an error in the next one.\<close>

definition ex_request :: "bool \<Rightarrow> uh_args" where
  "ex_request skip = \<lparr>a_connections = 0, a_requests = 1, a_errors = 0, a_req_time = 5, a_req_time_full = 7,
     a_b_request_size = 20, a_b_request_compressed = 20, a_b_resp_size = 100, a_b_resp_compressed = 100,
     a_skip_response_sent = skip\<rparr>"

lemma last_seconds_exact_witness:
  "uh_b_resp_compressed (fst (uh_get 1006 (run_history
     [Add 1000 (ex_request False), Add 1003 (ex_request True), Report 1004, Add 1004 (ex_request False), Add 1005 (ex_request False)]
     (replicate 6 uh_zero)))) = 200"
  by (subst last_seconds_exact)
    (simp_all add: events_def span_def ex_request_def report_def uh_plus_def sent_only_def contrib_def uh_zero_def)

lemma stale_clock_loses_second_witness:
  "snd (uh_get 1000 (uh_add_unsafe 1001 (ex_request False) (replicate 6 uh_zero))) =
   snd (uh_get 1000 ((replicate 6 uh_zero)[uh_slot 1001 := second 995 []]))"
  using stale_clock_loses_second [of "replicate 6 uh_zero" 1000 "ex_request False"] by simp

subsection \<open>Totals per action\<close>

text \<open>A request whose response is being written, and one that is done: the time with the response,
  the bytes sent, and whether the client skipped the response.\<close>

record req =
  rq_action :: string
  rq_took :: "64 word"
  rq_size :: "64 word"
  rq_size_compressed :: "64 word"
  rq_response :: "64 word"

record done_req = req +
  rq_took_full :: "64 word"
  rq_sent :: "64 word"
  rq_skip :: bool

definition as_plus :: "action_stats \<Rightarrow> action_stats \<Rightarrow> action_stats" where
  "as_plus r s =
     \<lparr>requests = requests r + requests s, req_time = req_time r + req_time s,
      req_time_full = req_time_full r + req_time_full s, b_request_size = b_request_size r + b_request_size s,
      b_request_compressed = b_request_compressed r + b_request_compressed s,
      b_resp_size = b_resp_size r + b_resp_size s, b_resp_compressed = b_resp_compressed r + b_resp_compressed s,
      resp_skipped = resp_skipped r + resp_skipped s, resp_b_skipped = resp_b_skipped r + resp_b_skipped s\<rparr>"

definition written :: "'a req_scheme \<Rightarrow> action_stats" where
  "written r = empty_stats\<lparr>requests := 1, req_time := rq_took r, b_request_size := rq_size r,
     b_request_compressed := rq_size_compressed r, b_resp_size := rq_response r\<rparr>"

definition kept :: "done_req \<Rightarrow> action_stats" where
  "kept r = empty_stats\<lparr>req_time_full := rq_took_full r, b_resp_compressed := rq_sent r,
     resp_skipped := (if rq_skip r then 1 else 0), resp_b_skipped := (if rq_skip r then rq_response r else 0)\<rparr>"

text \<open>What a request that is done counts for: a skipped response is not sent.\<close>

definition counted :: "done_req \<Rightarrow> action_stats" where
  "counted r =
     \<lparr>requests = 1, req_time = rq_took r, req_time_full = rq_took_full r, b_request_size = rq_size r,
      b_request_compressed = rq_size_compressed r, b_resp_size = (if rq_skip r then 0 else rq_response r),
      b_resp_compressed = (if rq_skip r then 0 else rq_sent r), resp_skipped = (if rq_skip r then 1 else 0),
      resp_b_skipped = (if rq_skip r then rq_response r else 0)\<rparr>"

definition stats_sum :: "('r \<Rightarrow> action_stats) \<Rightarrow> 'r list \<Rightarrow> action_stats" where
  "stats_sum f rs = foldr (\<lambda>r s. as_plus (f r) s) rs empty_stats"

lemma as_plus_ac:
  "as_plus (as_plus r s) t = as_plus r (as_plus s t)" "as_plus r s = as_plus s r"
  "as_plus r (as_plus s t) = as_plus s (as_plus r t)"
  by (simp_all add: as_plus_def ac_simps)

lemma as_plus_swap: "as_plus (as_plus r s) t = as_plus (as_plus t r) s"
  by (simp add: as_plus_def ac_simps)

lemma as_plus_empty [simp]: "as_plus empty_stats s = s" "as_plus s empty_stats = s"
  by (simp_all add: as_plus_def empty_stats_def)

lemma total_simps [simp]:
  "stats_sum f [] = empty_stats" "stats_sum f (r # rs) = as_plus (f r) (stats_sum f rs)"
  "stats_sum f (rs @ rs') = as_plus (stats_sum f rs) (stats_sum f rs')"
proof -
  show "stats_sum f (rs @ rs') = as_plus (stats_sum f rs) (stats_sum f rs')"
    by (induction rs) (simp_all add: stats_sum_def as_plus_ac)
qed (simp_all add: stats_sum_def)

lemma adj_plus: "getAdjStats (as_plus r s) = as_plus (getAdjStats r) (getAdjStats s)"
  by (simp add: getAdjStats_def as_plus_def)

lemma adj_total: "getAdjStats (stats_sum f rs) = stats_sum (\<lambda>r. getAdjStats (f r)) rs"
  by (induction rs) (simp_all add: adj_plus, simp add: getAdjStats_def empty_stats_def)

lemma total_cong: "(\<And>r. r \<in> set rs \<Longrightarrow> f r = g r) \<Longrightarrow> stats_sum f rs = stats_sum g rs"
  by (induction rs) auto

text \<open>The protocol of \<open>serveSocket\<close>, for any number of connections in any interleaving: the requests
  being written, by connection, and those done. A skipped response is reported as sent with its own
  length.\<close>

inductive serving :: "stats_state \<Rightarrow> (64 word \<times> req) list \<Rightarrow> done_req list \<Rightarrow> bool" where
  "serving stats_init [] []"
| "serving st pd dn \<Longrightarrow> MakeConnection now ip st = (i, st') \<Longrightarrow> i \<notin> fst ` set (objects st) \<Longrightarrow>
     serving st' pd dn"
| "serving st pd dn \<Longrightarrow> i \<in> fst ` set (objects st) \<Longrightarrow> i \<notin> fst ` set pd \<Longrightarrow>
     serving (StateReading now i st) pd dn"
| "serving st pd dn \<Longrightarrow> i \<in> fst ` set (objects st) \<Longrightarrow> i \<notin> fst ` set pd \<Longrightarrow>
     serving (StateServing action info i st) pd dn"
| "serving st pd dn \<Longrightarrow> i \<in> fst ` set (objects st) \<Longrightarrow> i \<notin> fst ` set pd \<Longrightarrow>
     StateWriting now rs rsc resp i st = (took, st') \<Longrightarrow>
     serving st' ((i, \<lparr>rq_action = c_action (get_conn st i), rq_took = took, rq_size = rs,
       rq_size_compressed = rsc, rq_response = resp\<rparr>) # pd) dn"
| "serving st (pd1 @ (i, r) # pd2) dn \<Longrightarrow> (skip \<Longrightarrow> sent = rq_response r) \<Longrightarrow>
     serving (StateKeepalive now sent (rq_took r) skip i st) (pd1 @ pd2)
       (dn @ [req.extend r (done_req.fields (took_us (c_start_time (get_conn st i)) now) sent skip)])"
| "serving st pd dn \<Longrightarrow> serving (Close now err st) pd dn"
| "serving st pd dn \<Longrightarrow> close_mark i comment err st = Inr st' \<Longrightarrow> serving st' pd dn"
| "serving st pd dn \<Longrightarrow> serving (close_drop i st) pd dn"

definition of_action :: "string \<Rightarrow> ('r \<Rightarrow> string) \<Rightarrow> 'r list \<Rightarrow> 'r list" where
  "of_action a act rs = filter (\<lambda>r. act r = a) rs"

lemma of_action_simps [simp]:
  "of_action a act [] = []"
  "of_action a act (r # rs) = (if act r = a then r # of_action a act rs else of_action a act rs)"
  "of_action a act (rs @ rs') = of_action a act rs @ of_action a act rs'"
  by (simp_all add: of_action_def)

text \<open>The invariant. Of a connection that is being written only the action and the size of the
  response matter.\<close>

definition conn_view :: "stats_state \<Rightarrow> 64 word \<Rightarrow> (string \<times> 64 word) option" where
  "conn_view st i = map_option (\<lambda>c. (c_action c, c_response_size c)) (map_of (objects st) i)"

definition serving_ok :: "stats_state \<Rightarrow> (64 word \<times> req) list \<Rightarrow> done_req list \<Rightarrow> bool" where
  "serving_ok st pd dn \<longleftrightarrow> distinct (map fst pd) \<and>
     (\<forall>p \<in> set pd. conn_view st (fst p) = Some (rq_action (snd p), rq_response (snd p))) \<and>
     (\<forall>a. gm_get empty_stats (stats_actions st) a =
        as_plus (stats_sum written (of_action a rq_action (map snd pd)))
          (stats_sum (\<lambda>r. as_plus (written r) (kept r)) (of_action a rq_action dn))) \<and>
     (\<forall>r \<in> set dn. rq_skip r \<longrightarrow> rq_sent r = rq_response r) \<and>
     global_stats_requests st = of_nat (length dn) \<and>
     global_stats_req_time st = sum_list (map rq_took dn)"

lemma serving_ok_cong:
  assumes "serving_ok st pd dn" "stats_actions st' = stats_actions st"
    "global_stats_requests st' = global_stats_requests st" "global_stats_req_time st' = global_stats_req_time st"
    "\<And>i. i \<in> fst ` set pd \<Longrightarrow> conn_view st' i = conn_view st i"
  shows "serving_ok st' pd dn"
  using assms unfolding serving_ok_def by auto

lemma conn_view_set [simp]:
  "conn_view (set_conn i c st) j = (if j = i then Some (c_action c, c_response_size c) else conn_view st j)"
  by (simp add: conn_view_def set_conn_def map_of_gm_set)

lemma conn_view_get: "i \<in> fst ` set (objects st) \<Longrightarrow>
  conn_view st i = Some (c_action (get_conn st i), c_response_size (get_conn st i))"
  by (cases "map_of (objects st) i") (auto simp: conn_view_def get_conn_def map_of_eq_None_iff)

lemma conn_view_objects: "objects st' = objects st \<Longrightarrow> conn_view st' i = conn_view st i"
  by (simp add: conn_view_def)

lemma fields_set_conn [simp]:
  "stats_actions (set_conn i c st) = stats_actions st"
  "global_stats_requests (set_conn i c st) = global_stats_requests st"
  "global_stats_req_time (set_conn i c st) = global_stats_req_time st"
  "objects (set_conn i c st) = gm_set (objects st) i c"
  by (simp_all add: set_conn_def)

lemma serving_make:
  assumes "serving_ok st pd dn" "MakeConnection now ip st = (i, st')" "i \<notin> fst ` set (objects st)"
  shows "serving_ok st' pd dn"
proof -
  from assms(1,3) have "i \<notin> fst ` set pd"
    by (auto simp: serving_ok_def conn_view_def map_of_eq_None_iff [THEN iffD2])
  moreover from assms(2) obtain c where "objects st' = gm_set (objects st) i c" "stats_actions st' = stats_actions st"
    "global_stats_requests st' = global_stats_requests st" "global_stats_req_time st' = global_stats_req_time st"
    by (auto simp: MakeConnection_def Let_def)
  ultimately show ?thesis
    by (intro serving_ok_cong [OF assms(1)]) (auto simp: conn_view_def map_of_gm_set)
qed

lemma as_plus_written:
  "as_plus s (written r) =
     s\<lparr>requests := requests s + 1, req_time := req_time s + rq_took r, b_request_size := b_request_size s + rq_size r,
       b_request_compressed := b_request_compressed s + rq_size_compressed r,
       b_resp_size := b_resp_size s + rq_response r\<rparr>"
  by (cases s) (simp add: as_plus_def written_def empty_stats_def)

lemma serving_writing:
  assumes "serving_ok st pd dn" "i \<in> fst ` set (objects st)" "i \<notin> fst ` set pd"
    "StateWriting now rs rsc resp i st = (took, st')"
  shows "serving_ok st' ((i, \<lparr>rq_action = c_action (get_conn st i), rq_took = took, rq_size = rs,
       rq_size_compressed = rsc, rq_response = resp\<rparr>) # pd) dn"
proof -
  let ?a = "c_action (get_conn st i)"
  let ?r = "\<lparr>rq_action = ?a, rq_took = took, rq_size = rs, rq_size_compressed = rsc, rq_response = resp\<rparr>"
  let ?sa = "gm_get empty_stats (stats_actions st) ?a"
  from assms(4) obtain c where st': "st' = (set_conn i c st)\<lparr>stats_actions := gm_set (stats_actions st) ?a (as_plus ?sa (written ?r))\<rparr>"
    and c: "c_action c = ?a" "c_response_size c = resp"
    by (auto simp: StateWriting_def Let_def as_plus_written)
  have v: "conn_view st' j = (if j = i then Some (?a, resp) else conn_view st j)" for j
    by (simp add: conn_view_def st' map_of_gm_set c)
  have f: "stats_actions st' = gm_set (stats_actions st) ?a (as_plus ?sa (written ?r))"
    "global_stats_requests st' = global_stats_requests st" "global_stats_req_time st' = global_stats_req_time st"
    by (simp_all add: st')
  note ok = assms(1) [unfolded serving_ok_def]
  have t: "gm_get empty_stats (stats_actions st') a =
      as_plus (stats_sum written (of_action a rq_action (map snd ((i, ?r) # pd))))
        (stats_sum (\<lambda>r. as_plus (written r) (kept r)) (of_action a rq_action dn))" for a
  proof (cases "a = ?a")
    case True
    with ok show ?thesis by (simp only: f gm_get_set if_True) (simp add: as_plus_swap)
  next
    case False
    with ok show ?thesis by (simp add: f)
  qed
  have "distinct (map fst ((i, ?r) # pd))" "\<forall>p \<in> set ((i, ?r) # pd). conn_view st' (fst p) = Some (rq_action (snd p), rq_response (snd p))"
    using ok assms(3) unfolding v by auto
  with ok t f show ?thesis unfolding serving_ok_def by simp
qed

lemma as_plus_kept:
  "as_plus s (kept d) =
     (let s1 = s\<lparr>b_resp_compressed := b_resp_compressed s + rq_sent d, req_time_full := req_time_full s + rq_took_full d\<rparr>
      in if rq_skip d then s1\<lparr>resp_b_skipped := resp_b_skipped s1 + rq_response d, resp_skipped := resp_skipped s1 + 1\<rparr>
         else s1)"
  by (cases s) (simp add: as_plus_def kept_def empty_stats_def)

lemma serving_keepalive:
  assumes "serving_ok st (pd1 @ (i, r) # pd2) dn" "skip \<Longrightarrow> sent = rq_response r"
  shows "serving_ok (StateKeepalive now sent (rq_took r) skip i st) (pd1 @ pd2)
    (dn @ [req.extend r (done_req.fields (took_us (c_start_time (get_conn st i)) now) sent skip)])"
proof -
  let ?full = "took_us (c_start_time (get_conn st i)) now"
  let ?d = "req.extend r (done_req.fields ?full sent skip)"
  let ?st = "StateKeepalive now sent (rq_took r) skip i st"
  have d: "rq_action ?d = rq_action r" "rq_took ?d = rq_took r" "rq_skip ?d = skip" "rq_sent ?d = sent"
    "rq_response ?d = rq_response r" "written ?d = written r" "rq_took_full ?d = ?full"
    by (simp_all add: req.defs done_req.defs written_def)
  from assms(1) have "conn_view st i = Some (rq_action r, rq_response r)" by (simp add: serving_ok_def)
  then have c: "c_action (get_conn st i) = rq_action r" "c_response_size (get_conn st i) = rq_response r"
    "i \<in> fst ` set (objects st)"
    by (auto simp: conn_view_def get_conn_def dest: map_of_SomeD intro: rev_image_eqI)
  have sa: "stats_actions ?st = gm_set (stats_actions st) (rq_action r)
      (as_plus (gm_get empty_stats (stats_actions st) (rq_action r)) (kept ?d))"
    unfolding as_plus_kept d by (simp add: StateKeepalive_def Let_def c)
  have v: "conn_view ?st j = conn_view st j" for j
    by (simp add: StateKeepalive_def Let_def conn_view_def map_of_gm_set)
      (simp add: conn_view_get [OF c(3), unfolded conn_view_def])
  have g: "global_stats_requests ?st = global_stats_requests st + 1"
    "global_stats_req_time ?st = global_stats_req_time st + rq_took r"
    by (simp_all add: StateKeepalive_def Let_def)
  have t: "gm_get empty_stats (stats_actions ?st) a =
      as_plus (stats_sum written (of_action a rq_action (map snd (pd1 @ pd2))))
        (stats_sum (\<lambda>r. as_plus (written r) (kept r)) (of_action a rq_action (dn @ [?d])))" for a
  proof (cases "a = rq_action r")
    case True
    with assms(1) show ?thesis unfolding serving_ok_def by (simp add: sa d as_plus_ac)
  next
    case False
    with assms(1) show ?thesis unfolding serving_ok_def by (simp add: sa d)
  qed
  have "distinct (map fst (pd1 @ pd2))" "\<forall>p \<in> set (pd1 @ pd2). conn_view st (fst p) = Some (rq_action (snd p), rq_response (snd p))"
    using assms by (auto simp: serving_ok_def)
  moreover have "rq_skip ?d \<longrightarrow> rq_sent ?d = rq_response ?d" using assms(2) unfolding d by blast
  with assms(1) have "\<forall>x \<in> set (dn @ [?d]). rq_skip x \<longrightarrow> rq_sent x = rq_response x"
    unfolding serving_ok_def by simp
  moreover have "global_stats_requests st = of_nat (length dn)" "global_stats_req_time st = sum_list (map rq_took dn)"
    using assms(1) by (simp_all add: serving_ok_def)
  ultimately show ?thesis unfolding serving_ok_def v g using t by (simp add: d)
qed

lemma pending_object:
  assumes "serving_ok st pd dn" "i \<in> fst ` set pd"
  shows "i \<in> fst ` set (objects st)"
proof -
  from assms obtain x where "conn_view st i = Some x" unfolding serving_ok_def by blast
  then have "map_of (objects st) i \<noteq> None" by (auto simp: conn_view_def)
  then show ?thesis by (simp add: map_of_eq_None_iff)
qed

lemma close_mark_ok:
  "close_mark i comment err st = Inr st' \<Longrightarrow> \<exists>c. st' = set_conn i c st \<and> c_action c = c_action (get_conn st i) \<and>
     c_response_size c = c_response_size (get_conn st i)"
  by (auto simp: close_mark_def Let_def split: if_splits)

lemma serving_invariant: "serving st pd dn \<Longrightarrow> serving_ok st pd dn"
proof (induction rule: serving.induct)
  case 1
  then show ?case by (simp add: serving_ok_def stats_init_def)
next
  case (2 st pd dn now ip i st')
  then show ?case by (blast intro: serving_make)
next
  case (3 st pd dn i now)
  show ?case by (rule serving_ok_cong [OF "3.IH"]) (use 3 in \<open>auto simp: StateReading_def conn_view_get\<close>)
next
  case (4 st pd dn i action info)
  show ?case by (rule serving_ok_cong [OF "4.IH"]) (use 4 in \<open>auto simp: StateServing_def image_iff\<close>)
next
  case (5 st pd dn i now rs rsc resp took st')
  then show ?case by (blast intro: serving_writing)
next
  case (6 st pd1 i r pd2 dn skip sent now)
  then show ?case by (blast intro: serving_keepalive)
next
  case (7 st pd dn now err)
  show ?case by (rule serving_ok_cong [OF "7.IH"]) (simp_all add: Close_def conn_view_def)
next
  case (8 st pd dn i comment err st')
  have "i \<in> fst ` set pd \<Longrightarrow> i \<in> fst ` set (objects st)"
    using pending_object [OF "8.IH"] by blast
  then have "i \<in> fst ` set pd \<Longrightarrow> Some (c_action (get_conn st i), c_response_size (get_conn st i)) = conn_view st i"
    using conn_view_get by metis
  moreover obtain c where "st' = set_conn i c st" "c_action c = c_action (get_conn st i)"
    "c_response_size c = c_response_size (get_conn st i)"
    using close_mark_ok [OF "8.hyps"(2)] by blast
  ultimately show ?case
    by (intro serving_ok_cong [OF "8.IH"]) (simp_all, blast)
next
  case (9 st pd dn i)
  show ?case by (rule serving_ok_cong [OF "9.IH"]) (simp_all add: close_drop_def conn_view_def)
qed

text \<open>C30. The statistics of an action are exactly what was served, for any number of connections in
  any interleaving with connections opened and closed: the adjusted totals of an action are the sums
  over its requests that are done, a skipped response counted as skipped and not as sent, plus the
  requests whose response is being written.\<close>

theorem action_totals:
  assumes "serving st pd dn"
  shows "getAdjStats (gm_get empty_stats (stats_actions st) a) =
      as_plus (stats_sum written (of_action a rq_action (map snd pd))) (stats_sum counted (of_action a rq_action dn)) \<and>
    global_stats_requests st = of_nat (length dn) \<and> global_stats_req_time st = sum_list (map rq_took dn)"
proof -
  from assms have ok: "serving_ok st pd dn" by (rule serving_invariant)
  have w: "getAdjStats (written r) = written r" for r :: "'a req_scheme"
    by (simp add: getAdjStats_def written_def empty_stats_def)
  have "getAdjStats (as_plus (written r) (kept r)) = counted r" if "rq_skip r \<longrightarrow> rq_sent r = rq_response r" for r
    using that by (auto simp: getAdjStats_def written_def kept_def counted_def as_plus_def empty_stats_def)
  then have "stats_sum (\<lambda>r. getAdjStats (as_plus (written r) (kept r))) (of_action a rq_action dn) =
      stats_sum counted (of_action a rq_action dn)"
    using ok by (intro total_cong) (auto simp: serving_ok_def of_action_def)
  with ok show ?thesis by (simp add: serving_ok_def adj_plus adj_total w)
qed

lemma keys_gm_set [simp]: "fst ` set (gm_set m k v) = insert k (fst ` set m)"
  by (simp add: gm_set_def dom_update)

lemma get_conn_set [simp]: "get_conn (set_conn i c st) j = (if j = i then c else get_conn st j)"
  by (simp add: get_conn_def map_of_gm_set)

lemma get_conn_update [simp]: "get_conn (st\<lparr>stats_actions := x\<rparr>) j = get_conn st j"
  by (simp add: get_conn_def)

text \<open>One connection serves a request whose client skips the response, then one that waits for its
  response.\<close>

lemma action_totals_witness:
  "\<exists>st r dn. serving st [(1, r)] dn \<and> length dn = 1 \<and>
     getAdjStats (gm_get empty_stats (stats_actions st) ''getBlock'') =
       empty_stats\<lparr>requests := 2, req_time := 20, req_time_full := 30, b_request_size := 100, b_request_compressed := 100,
         b_resp_size := 100, resp_skipped := 1, resp_b_skipped := 200\<rparr>"
proof -
  define s1 where "s1 = snd (MakeConnection 10000 ''10.0.0.1:5'' stats_init)"
  define s2 where "s2 = StateServing ''getBlock'' [] 1 (StateReading 20000 1 s1)"
  define s3 where "s3 = snd (StateWriting 30000 50 50 200 1 s2)"
  define s4 where "s4 = StateKeepalive 50000 200 10 True 1 s3"
  define s5 where "s5 = snd (StateWriting 30000 50 50 100 1 s4)"
  let ?r = "\<lambda>n. \<lparr>rq_action = ''getBlock'', rq_took = 10, rq_size = 50, rq_size_compressed = 50, rq_response = n\<rparr>"
  let ?d = "req.extend (?r 200) (done_req.fields (took_us (c_start_time (get_conn s3 1)) 50000) 200 True)"
  have 1: "serving s1 [] []"
    unfolding s1_def by (rule serving.intros(2) [OF serving.intros(1), of 10000 "''10.0.0.1:5''" 1])
      (simp_all add: MakeConnection_def Let_def stats_init_def)
  have k: "1 \<in> fst ` set (objects s1)"
    by (simp add: s1_def MakeConnection_def Let_def stats_init_def)
  have c2: "c_action (get_conn s2 1) = ''getBlock''" "c_start_time (get_conn s2 1) = 20000"
    by (simp_all add: s2_def StateServing_def StateReading_def)
  have w2: "StateWriting 30000 50 50 200 1 s2 = (10, s3)"
    by (simp add: s3_def StateWriting_def Let_def c2 took_us_def)
  have c3: "c_action (get_conn s3 1) = ''getBlock''" "c_start_time (get_conn s3 1) = 20000"
    by (simp_all add: s3_def StateWriting_def Let_def c2)
  have c4: "c_action (get_conn s4 1) = ''getBlock''" "c_start_time (get_conn s4 1) = 20000"
    by (simp_all add: s4_def StateKeepalive_def Let_def get_conn_def map_of_gm_set c3 [unfolded get_conn_def])
  have w4: "StateWriting 30000 50 50 100 1 s4 = (10, s5)"
    by (simp add: s5_def StateWriting_def Let_def c4 took_us_def)
  have 2: "serving s2 [] []" using serving.intros(3,4) 1 k by (simp add: s2_def StateReading_def)
  have 3: "serving s3 [(1, ?r 200)] []"
    using serving.intros(5) [OF 2 _ _ w2] by (simp add: c2) (simp add: s2_def StateServing_def)
  have 4: "serving s4 [] [?d]"
    using serving.intros(6) [of s3 "[]" 1 "?r 200" "[]" "[]" True 200 50000] 3 by (simp add: s4_def)
  have 5: "serving s5 [(1, ?r 100)] [?d]"
    using serving.intros(5) [OF 4 _ _ w4] by (simp add: c4) (simp add: s4_def StateKeepalive_def Let_def)
  have "getAdjStats (gm_get empty_stats (stats_actions s5) ''getBlock'') = as_plus (written (?r 100)) (counted ?d)"
    using action_totals [OF 5, of "''getBlock''"] by (simp add: req.defs done_req.defs)
  also have "\<dots> = empty_stats\<lparr>requests := 2, req_time := 20, req_time_full := 30, b_request_size := 100,
      b_request_compressed := 100, b_resp_size := 100, resp_skipped := 1, resp_b_skipped := 200\<rparr>"
    by (simp add: as_plus_def written_def counted_def empty_stats_def req.defs done_req.defs c3 took_us_def)
  finally show ?thesis using 5 by (metis length_Cons list.size(3) One_nat_def)
qed

end
