(* ===== verification/TcpUdp.thy ===== *)
theory TcpUdp
  imports UdpCorrect SocketCorrect
begin

text \<open>
  The two transports side by side. The TCP loop and the UDP reader take the same frames out of the
  same bytes; and the redirect loop of the UDP text protocol returns exactly when the redirects of
  the handler come to an end.
\<close>

subsection \<open>The redirect loop\<close>

text \<open>One turn of the loop: the parameters of the next turn, if there is one.\<close>

definition redirect :: "action_handler \<Rightarrow> (string, string) gomap \<Rightarrow> (string, string) gomap option" where
  "redirect handle params2 =
     (let (tmp, p) = handle (CreateHSParamsFromMap params2); data = response_bytes tmp p;
          (vals, ok) = parse_query (drop 10 data)
      in if has_prefix data ''X-Forward:'' \<and> ok then Some (redirect_params vals) else None)"

fun hops :: "action_handler \<Rightarrow> nat \<Rightarrow> (string, string) gomap \<Rightarrow> (string, string) gomap option" where
  "hops handle 0 p = Some p"
| "hops handle (Suc n) p = (case redirect handle p of None \<Rightarrow> None | Some q \<Rightarrow> hops handle n q)"

lemma forward_v1_redirect:
  "forward_v1 handle p = (case redirect handle p of
     Some q \<Rightarrow> forward_v1 handle q
   | None \<Rightarrow> Some (let (tmp, r) = handle (CreateHSParamsFromMap p); data = response_bytes tmp r
       in if has_prefix data ''X-Forward:'' then ''X-Forward, wrong redirect'' @ data else data))"
  by (subst forward_v1.simps) (simp add: redirect_def Let_def split: prod.split)

lemma ended_redirects_return: "hops handle n p = None \<Longrightarrow> forward_v1 handle p \<noteq> None"
proof (induction n arbitrary: p)
  case (Suc n)
  then show ?case by (subst forward_v1_redirect) (simp split: option.splits)
qed simp

lemma returned_redirects_end: "forward_v1 handle p = Some y \<Longrightarrow> \<exists>n. hops handle n p = None"
proof (rule forward_v1.raw_induct [of "\<lambda>h p y. \<exists>n. hops h n p = None"])
  fix fwd :: "action_handler \<Rightarrow> (string, string) gomap \<Rightarrow> string option" and handle p y
  assume 1: "\<And>h p y. fwd h p = Some y \<Longrightarrow> \<exists>n. hops h n p = None"
    "(let (tmp, r) = handle (CreateHSParamsFromMap p); data = response_bytes tmp r
      in if \<not> has_prefix data ''X-Forward:'' then Some data
         else (let (vals, ok) = parse_query (drop 10 data)
               in if \<not> ok then Some (''X-Forward, wrong redirect'' @ data) else fwd handle (redirect_params vals))) = Some y"
  show "\<exists>n. hops handle n p = None"
  proof (cases "redirect handle p")
    case None
    then have "hops handle 1 p = None" by simp
    then show ?thesis by blast
  next
    case (Some q)
    with 1(2) have "fwd handle q = Some y"
      by (simp add: redirect_def Let_def split: prod.splits if_splits)
    with 1(1) obtain n where "hops handle n q = None" by blast
    with Some have "hops handle (Suc n) p = None" by simp
    then show ?thesis by blast
  qed
qed


subsection \<open>Frames over TCP and over UDP\<close>

fun task_body :: "udp_task \<Rightarrow> bytes" where
  "task_body (TaskV2 key m packed) = m"
| "task_body (TaskV1 key m packed) = m"

text \<open>A handler that answers nothing and keeps the connection.\<close>

definition silent :: "'c handler \<Rightarrow> bool" where
  "silent h \<longleftrightarrow> (\<forall>conn b m. \<exists>conn'. h conn b m = Inr (None, conn'))"

lemma v2_loop_parses:
  assumes "parse_stream h conn d = (msgs, e)" "silent h" "length d < 2 ^ 24" "e \<noteq> BadHeaderType"
  shows "case v2_loop now key d st tasks of
      Inl p \<Rightarrow> e = Crashed p
    | Inr (rest, st', ts) \<Rightarrow> e = EndOfStream \<and> map task_body ts = map task_body tasks @ msgs"
  using assms
proof (induction h conn d arbitrary: msgs st tasks rule: parse_stream.induct)
  case (1 h conn d)
  let ?n = "u32 (take 4 (drop 1 d))"
  show ?case
  proof (cases "5 \<le> length d \<and> ?n \<le> length d")
    case False
    then have "processRequestDataV2 d = Inr (0, [], d ! 0 = CHR ''B'') \<or> processRequestDataV2 d = Inr (0, [], False)"
      by (auto simp: processRequestDataV2_def Let_def)
    then have "v2_loop now key d st tasks = Inr (d, st, tasks)" by (subst v2_loop.simps) auto
    moreover from False 1(2,4,5) have "msgs = [] \<and> e = EndOfStream"
      by (subst (asm) parse_stream.simps) (auto simp: frame_size_def Let_def split: if_splits)
    ultimately show ?thesis by simp
  next
    case True
    with 1(4) have fs: "frame_size d = ?n" by (simp add: frame_size_def Let_def)
    have ok: "head_ok d"
    proof (rule ccontr)
      assume "\<not> head_ok d"
      with True 1(2) have "e = BadHeaderType" by (subst (asm) parse_stream.simps) simp
      with 1(5) show False by simp
    qed
    show ?thesis
    proof (cases "?n < 5")
      case small: True
      with True have "processRequestDataV2 d = Inl SliceOutOfRange"
        by (simp add: processRequestDataV2_def Let_def go_slice_bad)
      then have "v2_loop now key d st tasks = Inl SliceOutOfRange" by (subst v2_loop.simps) simp
      moreover from small True ok fs 1(2) have "e = Crashed SliceOutOfRange"
        by (subst (asm) parse_stream.simps) simp
      ultimately show ?thesis by simp
    next
      case False
      let ?m = "take (?n - 5) (drop 5 d)" and ?r = "drop ?n d" and ?b = "d ! 0 = CHR ''B''"
      obtain conn' where h: "h conn ?b ?m = Inr (None, conn')" using 1(3) unfolding silent_def by blast
      obtain ms where ms: "parse_stream h conn' ?r = (ms, e)" and msgs: "msgs = ?m # ms"
      proof -
        have "parse_stream h conn d = (let (ms, e) = parse_stream h conn' ?r in (?m # ms, e))"
          using True False ok fs h by (subst parse_stream.simps) simp
        with 1(2) that show ?thesis by (cases "parse_stream h conn' ?r") simp
      qed
      have pr: "processRequestDataV2 d = Inr (int ?n, ?m, ?b)"
        using True False by (simp add: processRequestDataV2_def Let_def)
      have step: "v2_loop now key d st tasks =
          (if ?r = [] then Inr ([], begin_req now key st, tasks @ [TaskV2 key ?m ?b])
           else v2_loop now key ?r (begin_req now key st) (tasks @ [TaskV2 key ?m ?b]))"
        using False by (subst v2_loop.simps) (simp add: pr Let_def)
      show ?thesis
      proof (cases "?r = []")
        case nil: True
        with ms have "ms = [] \<and> e = EndOfStream" by (subst (asm) parse_stream.simps) simp
        with nil step msgs show ?thesis by simp
      next
        case more: False
        have "case v2_loop now key ?r (begin_req now key st) (tasks @ [TaskV2 key ?m ?b]) of
            Inl p \<Rightarrow> e = Crashed p
          | Inr (rest, st', ts) \<Rightarrow> e = EndOfStream \<and>
              map task_body ts = map task_body (tasks @ [TaskV2 key ?m ?b]) @ ms"
          using 1(1) [where x = ?m and b = "(None, conn')" and y = conn' and msgs = ms
              and st = "begin_req now key st" and tasks = "tasks @ [TaskV2 key ?m ?b]"]
            ms h True False ok fs 1(3,4,5) by simp
        with step more msgs show ?thesis by (simp split: sum.splits prod.splits)
      qed
    qed
  qed
qed



end
