(* ===== verification/ConfigFile.thy ===== *)
theory ConfigFile
  imports Prelude GoJson
begin

text \<open>
  The configuration of \<open>handler_socket2/config\<close>: \<open>config_loader.go\<close> (the JSON file, the local
  interfaces, the conditional parameters), the getters of \<open>config.go\<close> and \<open>subattr.go\<close>. The file's
  content, the addresses of the network interfaces and the order in which Go iterates over the map
  are parameters. The decoder runs with \<open>UseNumber\<close>, so the cases \<open>int\<close> and \<open>float64\<close> of the type
  switches cannot occur.
\<close>

subsection \<open>Loading the file\<close>

record cfg =
  config :: "(string, string) gomap"
  local_interfaces :: "string list"
  compression_threshold :: int
  raw_data :: "(string, json) gomap"

definition cfg_value :: "json \<Rightarrow> string option" where
  "cfg_value v =
     (case v of
        JStr s \<Rightarrow> Some s
      | JNum s \<Rightarrow> Some s
      | JBool b \<Rightarrow> Some (if b then ''1'' else ''0'')
      | _ \<Rightarrow> None)"

definition object_map :: "(string \<times> json) list \<Rightarrow> (string, json) gomap" where
  "object_map kvs = fold (\<lambda>(k, v) m. gm_set m k v) kvs []"

definition cfg_load_config :: "string \<Rightarrow> cfg" where
  "cfg_load_config data =
     (let raw = (case decode_first data of Some (JObj kvs) \<Rightarrow> object_map kvs | _ \<Rightarrow> []);
          conf = fold (\<lambda>(k, v) m. case cfg_value v of None \<Rightarrow> m | Some s \<Rightarrow> gm_set m k s) raw []
      in \<lparr>config = conf, local_interfaces = [],
          compression_threshold = (case map_of conf ''COMPRESSION_THRESHOLD'' of None \<Rightarrow> 4096 | Some s \<Rightarrow> fst (atoi s)),
          raw_data = raw\<rparr>)"

subsection \<open>Local interfaces\<close>

definition iface_cutset :: string where
  "iface_cutset = [CHR 0x0D, CHR 0x0A, CHR 0x09, CHR '' '', CHR ''u'', CHR ''h'']"

text \<open>One piece of a list of addresses: without the marks of \<open>BIND_TO\<close> and without the port.\<close>

definition iface_of :: "string \<Rightarrow> string" where
  "iface_of v = hd (go_split (CHR '':'') (go_trim iface_cutset v))"

definition cfg_local_add :: "string \<Rightarrow> string list \<Rightarrow> string list" where
  "cfg_local_add interfaces ifs =
     (if interfaces = [] then ifs
      else fold (\<lambda>v l. if go_trim iface_cutset v = [] \<or> iface_of v = [] \<or> iface_of v \<in> set l then l else l @ [iface_of v])
             (go_split (CHR '','') interfaces) ifs)"

datatype net_addr = V4 string | V6 string

text \<open>Of an IPv4 address all its ends: for \<open>10.0.0.5\<close> also \<open>0.0.5\<close>, \<open>0.5\<close> and \<open>5\<close>.\<close>

definition match_interfaces :: "net_addr list \<Rightarrow> string list" where
  "match_interfaces addrs =
     concat (map (\<lambda>a. case a of
         V4 ip \<Rightarrow> (let pieces = go_split (CHR ''.'') ip
                   in map (\<lambda>i. go_join ''.'' (drop i pieces)) [0..<length pieces])
       | V6 ip \<Rightarrow> [ip]) addrs)"

definition cfg_local_interfaces :: "net_addr list \<Rightarrow> cfg \<Rightarrow> cfg" where
  "cfg_local_interfaces addrs c =
     (let ifs = fold cfg_local_add (match_interfaces addrs) (local_interfaces c)
      in c\<lparr>local_interfaces := cfg_local_add (gm_get [] (config c) ''LOCAL_IP'') ifs\<rparr>)"

subsection \<open>Conditional parameters\<close>

text \<open>\<open>_add\<close>: trimmed, and only once.\<close>

definition cond_add :: "string \<Rightarrow> string list \<Rightarrow> string list" where
  "cond_add v ret = (let v' = go_trim blanks v in if v' \<in> set ret then ret else ret @ [v'])"

text \<open>One local interface; the \<open>range\<close> runs over the interfaces as they were at the start.\<close>

definition cond_iface :: "string \<Rightarrow> string \<Rightarrow> string list \<times> cfg \<Rightarrow> string list \<times> cfg" where
  "cond_iface param iface = (\<lambda>(ret, c).
     (let key = param @ ''_'' @ iface
      in case map_of (config c) key of
           None \<Rightarrow> (ret, c)
         | Some v \<Rightarrow>
             (fold cond_add (go_split (CHR '','') v) ret,
              if param = ''LOCAL_IP'' then c\<lparr>local_interfaces := cfg_local_add v (local_interfaces c)\<rparr> else c)))"

definition do_conditional :: "string \<Rightarrow> cfg \<Rightarrow> string \<times> cfg" where
  "do_conditional param c =
     (let ret0 = fold cond_add (go_split (CHR '','') (gm_get [] (config c) param)) [];
          (ret, c') = fold (cond_iface param) (local_interfaces c) (ret0, c)
      in (go_join '','' ret, c'))"

definition cond_key :: "string \<Rightarrow> cfg \<Rightarrow> cfg" where
  "cond_key k c = (let (v, c') = do_conditional k c in c'\<lparr>config := gm_set (config c') k v\<rparr>)"

definition forced_keys :: "string list" where
  "forced_keys = [''LOCAL_IP'', ''BIND_TO'', ''RUN_SERVICES'', ''SLAVE'', ''REPLICATION_MODE'']"

definition force_key :: "string \<Rightarrow> cfg \<Rightarrow> cfg" where
  "force_key k c = (if map_of (config c) k = None then snd (do_conditional k c) else c)"

text \<open>\<open>ks\<close> is the order in which the map is iterated.\<close>

definition cfg_conditional_config :: "string list \<Rightarrow> cfg \<Rightarrow> cfg" where
  "cfg_conditional_config ks c = fold force_key forced_keys (fold cond_key ks c)"

definition ReadConfig :: "string \<Rightarrow> net_addr list \<Rightarrow> string list \<Rightarrow> cfg" where
  "ReadConfig data addrs ks = cfg_conditional_config ks (cfg_local_interfaces addrs (cfg_load_config data))"

subsection \<open>Getters\<close>

definition GetIPDistance :: "cfg \<Rightarrow> string \<Rightarrow> nat" where
  "GetIPDistance this remote_addr = (if remote_addr \<in> set (local_interfaces this) then 0 else 1)"

definition GetRawData :: "cfg \<Rightarrow> string \<Rightarrow> string \<Rightarrow> json" where
  "GetRawData this attr def = gm_get (JStr def) (raw_data this) attr"

definition Get :: "cfg \<Rightarrow> string \<Rightarrow> string \<Rightarrow> string" where
  "Get this attr def = gm_get def (config this) attr"

definition GetB :: "cfg \<Rightarrow> string \<Rightarrow> bool" where
  "GetB this attr \<longleftrightarrow> map_of (config this) attr = Some ''1''"

definition GetI :: "cfg \<Rightarrow> string \<Rightarrow> int \<Rightarrow> int" where
  "GetI this attr def =
     (case map_of (config this) attr of
        None \<Rightarrow> def
      | Some s \<Rightarrow> (let (v, ok) = atoi s in if ok then v else def))"

datatype cfg_error = AttributeNotFound | NotAnInt | WrongType | AttributesMissing "string list"

text \<open>\<open>_get_subattr_interface\<close>: the type assertion panics when the attribute is not an object.\<close>

definition get_subattr_interface :: "cfg \<Rightarrow> string \<Rightarrow> string \<Rightarrow> (cfg_error + json) go" where
  "get_subattr_interface this attr subattr =
     (case map_of (raw_data this) attr of
        None \<Rightarrow> Inr (Inl AttributeNotFound)
      | Some (JObj kvs) \<Rightarrow>
          Inr (case map_of (object_map kvs) subattr of
             None \<Rightarrow> Inl AttributeNotFound
           | Some JNull \<Rightarrow> Inl AttributeNotFound
           | Some v \<Rightarrow> Inr v)
      | Some _ \<Rightarrow> Inl TypeAssertion)"

definition int_value :: "json \<Rightarrow> cfg_error + int" where
  "int_value v =
     (case v of
        JStr s \<Rightarrow> (let (n, ok) = atoi s in if ok then Inr n else Inl NotAnInt)
      | JNum s \<Rightarrow> (let (n, ok) = atoi s in if ok then Inr n else Inl NotAnInt)
      | JBool b \<Rightarrow> Inr (if b then 1 else 0)
      | _ \<Rightarrow> Inl WrongType)"

definition GetSubattrInt :: "cfg \<Rightarrow> string \<Rightarrow> string \<Rightarrow> (cfg_error + int) go" where
  "GetSubattrInt this attr subattr =
     go_bind (get_subattr_interface this attr subattr)
       (\<lambda>r. Inr (case r of Inl e \<Rightarrow> Inl e | Inr v \<Rightarrow> int_value v))"

definition GetSubattrString :: "cfg \<Rightarrow> string \<Rightarrow> string \<Rightarrow> (cfg_error + string) go" where
  "GetSubattrString this attr subattr =
     go_bind (get_subattr_interface this attr subattr)
       (\<lambda>r. Inr (case r of Inl e \<Rightarrow> Inl e
          | Inr v \<Rightarrow> (case cfg_value v of None \<Rightarrow> Inl WrongType | Some s \<Rightarrow> Inr s)))"

fun missing_subattrs :: "cfg \<Rightarrow> string \<Rightarrow> string list \<Rightarrow> string list go" where
  "missing_subattrs this attr [] = Inr []"
| "missing_subattrs this attr (s # ss) =
     go_bind (get_subattr_interface this attr s) (\<lambda>r.
       go_bind (missing_subattrs this attr ss) (\<lambda>rest.
         Inr (case r of Inl _ \<Rightarrow> s # rest | Inr _ \<Rightarrow> rest)))"

definition ValidateAttribs :: "cfg \<Rightarrow> string \<Rightarrow> string list \<Rightarrow> (cfg_error + bool) go" where
  "ValidateAttribs this attr subattrs =
     (if subattrs = [] then Inr (Inr (map_of (config this) attr \<noteq> None))
      else
        go_bind (missing_subattrs this attr subattrs) (\<lambda>missing.
          Inr (if length missing = length subattrs then Inr False
               else if missing = [] then Inr True
               else Inl (AttributesMissing missing))))"

text \<open>The start of the health checker: \<open>None\<close> when it is not configured.\<close>

definition checker_attrs :: "string list" where
  "checker_attrs = [''run_every'', ''max_block_lag'', ''max_data_age_ms'']"

fun checker_ints :: "cfg \<Rightarrow> string list \<Rightarrow> int list go" where
  "checker_ints c [] = Inr []"
| "checker_ints c (a # as) =
     go_bind (GetSubattrInt c ''CUSTOM_HEALTH_CHECKER'' a) (\<lambda>r.
       case r of
         Inl e \<Rightarrow> Inl (ExplicitPanic a)
       | Inr n \<Rightarrow> go_bind (checker_ints c as) (\<lambda>ns. Inr (n # ns)))"

definition checker_init :: "cfg \<Rightarrow> int list option go" where
  "checker_init c =
     go_bind (ValidateAttribs c ''CUSTOM_HEALTH_CHECKER'' checker_attrs) (\<lambda>r.
       case r of
         Inl e \<Rightarrow> Inl (ExplicitPanic ''Custom chealth checker config error. '')
       | Inr False \<Rightarrow> Inr None
       | Inr True \<Rightarrow> go_bind (checker_ints c checker_attrs) (\<lambda>ns. Inr (Some ns)))"

end
