(* ===== verification/Engine.thy ===== *)
theory Engine
  imports UdpServer ConfigFile
begin

text \<open>
  The engine that carries requests to handlers: \<open>hs_engine.go\<close> (registration, dispatch, the services to
  start), \<open>hs_http.go\<close> (the HTTP service with its plugins and its list of requests) and the choice of
  the services in \<open>gosol/main/main.go\<close>. The handlers, the plugins, the status page and the HTTP library
  are parameters. The library writes a handler's panic to its log and closes that connection only.
\<close>

subsection \<open>Registration and dispatch\<close>

record service =
  get_actions :: "string list"
  handle_action :: "string \<Rightarrow> hsparams \<Rightarrow> bytes \<times> hsparams"

record engine =
  action_handlers :: "service list"
  actionToHandlerNum :: "(string, nat) gomap"

definition engine_init :: engine where
  "engine_init = \<lparr>action_handlers = [], actionToHandlerNum = []\<rparr>"

definition RegisterHandler :: "service list \<Rightarrow> engine \<Rightarrow> engine" where
  "RegisterHandler handlers e =
     (let hs = action_handlers e @ handlers
      in e\<lparr>action_handlers := hs,
           actionToHandlerNum :=
             fold (\<lambda>(hindex, h) m. fold (\<lambda>action m. gm_set m action hindex) (get_actions h) m)
               (enumerate 0 hs) (actionToHandlerNum e)\<rparr>)"

definition handleRequest :: "engine \<Rightarrow> (hsparams \<Rightarrow> bytes) \<Rightarrow> action_handler" where
  "handleRequest e status_page data =
     (let action = GetParam data ''action'' []
      in if action = ''server-status'' then (status_page data, data)
         else if action = [] then (''Please specify action (0x1), or ?action=server-status for help'', data)
         else case map_of (actionToHandlerNum e) action of
             Some hindex \<Rightarrow> handle_action (action_handlers e ! hindex) action data
           | None \<Rightarrow> (''Please specify action (0x2)'', data))"

text \<open>\<open>main\<close>: the handlers that stay when \<open>RUN_SERVICES\<close> names actions.\<close>

definition select_services :: "cfg \<Rightarrow> service list \<Rightarrow> service list" where
  "select_services c handlers =
     (let v = Get c ''RUN_SERVICES'' []
      in if v \<noteq> [] \<and> v \<noteq> ''*''
         then (let supported = map (go_trim blanks) (go_split (CHR '','') v)
               in filter (\<lambda>h. \<exists>action \<in> set (get_actions h). action \<in> set supported) handlers)
         else handlers)"

definition start_engine :: "cfg \<Rightarrow> service list \<Rightarrow> engine" where
  "start_engine c handlers = RegisterHandler (select_services c handlers) engine_init"

datatype bound_service = HTTPService string | UDPService string | SocketService string

definition bind_service :: "string \<Rightarrow> bound_service list" where
  "bind_service bt =
     (case bt of
        [] \<Rightarrow> []
      | x # r \<Rightarrow> if x = CHR ''h'' then [HTTPService r] else if x = CHR ''u'' then [UDPService r] else [SocketService bt])"

definition StartServer :: "cfg \<Rightarrow> bound_service list" where
  "StartServer c = concat (map bind_service (go_split (CHR '','') (Get c ''BIND_TO'' [])))"

subsection \<open>The HTTP service\<close>

record http_request =
  hr_req :: string
  hr_start_time :: int
  hr_end_time :: int
  hr_status :: char

record http_state =
  httpRequestStatus :: "(nat, http_request) gomap"
  httpRequestId :: nat

type_synonym http_headers = "(string \<times> string) list"

record http_in =
  hi_method :: string
  hi_raw_query :: string
  hi_header :: http_headers
  hi_body :: "bytes option"

text \<open>A plugin gets the headers, the parameters and the body, and answers or declines. \<open>'r\<close> is what a
  plugin writes.\<close>

type_synonym 'r http_plugin = "http_headers \<Rightarrow> (string, string) gomap \<Rightarrow> bytes \<Rightarrow> 'r option"

datatype 'r http_out = Plugged 'r | Served http_headers bytes

fun run_plugins :: "'r http_plugin list \<Rightarrow> http_headers \<Rightarrow> (string, string) gomap \<Rightarrow> bytes \<Rightarrow> 'r option" where
  "run_plugins [] hdr params body = None"
| "run_plugins (p # ps) hdr params body =
     (case p hdr params body of Some r \<Rightarrow> Some r | None \<Rightarrow> run_plugins ps hdr params body)"

definition post_body :: "http_in \<Rightarrow> bytes" where
  "post_body r = (if hi_method r = ''POST'' then (case hi_body r of Some b \<Rightarrow> b | None \<Rightarrow> []) else [])"

definition request_id :: "http_in \<Rightarrow> string" where
  "request_id r =
     hi_raw_query r @
     (if hi_method r = ''POST'' \<and> hi_body r \<noteq> None
      then (let b = post_body r in if length b > 40 then '' P:'' @ take 40 b @ ''...'' else '' P:'' @ b)
      else [])"

definition version :: string where
  "version = ''HSServer v4''"

definition split_header :: "string \<Rightarrow> (string \<times> string) list" where
  "split_header v =
     (if CHR '':'' \<in> set v
      then [(takeWhile (\<lambda>x. x \<noteq> CHR '':'') v, drop 1 (dropWhile (\<lambda>x. x \<noteq> CHR '':'') v))] else [])"

definition response_headers :: "bytes \<Rightarrow> hsparams \<Rightarrow> http_headers" where
  "response_headers ret p =
     [(''Server'', version), (''Content-type'', ''text/html''), (''Content-length'', itoa (int (length ret))),
      (''Cache-Control'', ''no-cache, no-store, must-revalidate''), (''Pragma'', ''no-cache''), (''Expires'', ''0'')]
     @ concat (map split_header (additional_resp_headers p))"

text \<open>The steps of one request: entering it, what it answers, marking it written and finished, and five
  seconds later its removal from the list.\<close>

definition http_enter :: "int \<Rightarrow> http_in \<Rightarrow> http_state \<Rightarrow> nat \<times> http_state" where
  "http_enter now r st =
     (let i = httpRequestId st + 1
      in (i, st\<lparr>httpRequestId := i,
             httpRequestStatus := gm_set (httpRequestStatus st) i
               \<lparr>hr_req = request_id r, hr_start_time = now, hr_end_time = 0, hr_status = CHR ''R''\<rparr>\<rparr>))"

definition http_answer :: "'r http_plugin list \<Rightarrow> action_handler \<Rightarrow> http_in \<Rightarrow> 'r http_out" where
  "http_answer plugins handle r =
     (let params = query_params (fst (parse_query (hi_raw_query r)))
      in case run_plugins plugins (hi_header r) params (post_body r) of
           Some w \<Rightarrow> Plugged w
         | None \<Rightarrow>
             (let (tmp, p) = handle (CreateHSParamsFromMap params); ret = response_bytes tmp p
              in Served (response_headers ret p) ret))"

definition http_mark :: "nat \<Rightarrow> char \<Rightarrow> int \<Rightarrow> http_state \<Rightarrow> http_state" where
  "http_mark i status end_time st =
     (case map_of (httpRequestStatus st) i of
        None \<Rightarrow> st
      | Some q \<Rightarrow> st\<lparr>httpRequestStatus :=
          gm_set (httpRequestStatus st) i (q\<lparr>hr_status := status, hr_end_time := end_time\<rparr>)\<rparr>)"

definition http_written :: "nat \<Rightarrow> http_state \<Rightarrow> http_state" where
  "http_written i = http_mark i (CHR ''W'') 0"

definition http_finish :: "nat \<Rightarrow> int \<Rightarrow> http_state \<Rightarrow> http_state" where
  "http_finish i now = http_mark i (CHR ''F'') now"

definition http_forget :: "nat \<Rightarrow> http_state \<Rightarrow> http_state" where
  "http_forget i st = st\<lparr>httpRequestStatus := gm_delete (httpRequestStatus st) i\<rparr>"

end
