(* ===== verification/ConfigCorrect.thy ===== *)
theory ConfigCorrect
  imports ConfigFile
begin

text \<open>
  What a configuration means: the value of every parameter after the conditional parameters have
  been merged in, whatever order Go visits the map in; which addresses count as local; and when the
  health checker starts.
\<close>

subsection \<open>Lists without repetitions\<close>

fun dedup :: "'a list \<Rightarrow> 'a list" where
  "dedup [] = []"
| "dedup (x # xs) = x # filter (\<lambda>y. y \<noteq> x) (dedup xs)"

definition add_new :: "'a \<Rightarrow> 'a list \<Rightarrow> 'a list" where
  "add_new x r = (if x \<in> set r then r else r @ [x])"

lemma set_dedup [simp]: "set (dedup xs) = set xs"
  by (induction xs) auto

lemma distinct_dedup [simp]: "distinct (dedup xs)"
  by (induction xs) auto

lemma dedup_distinct: "distinct xs \<Longrightarrow> dedup xs = xs"
proof (induction xs)
  case (Cons x xs)
  then have "filter (\<lambda>y. y \<noteq> x) xs = xs" by (intro filter_True) auto
  with Cons show ?case by simp
qed simp

lemma fold_add_new: "fold add_new xs r = r @ filter (\<lambda>x. x \<notin> set r) (dedup xs)"
proof (induction xs arbitrary: r)
  case (Cons x xs)
  have "fold add_new xs (add_new x r) = add_new x r @ filter (\<lambda>y. y \<notin> set (add_new x r)) (dedup xs)" by (rule Cons)
  also have "\<dots> = r @ filter (\<lambda>y. y \<notin> set r) (dedup (x # xs))"
    by (auto simp: add_new_def intro!: filter_cong)
  finally show ?case by simp
qed simp

lemma fold_add_new_dedup: "fold add_new (dedup xs) r = fold add_new xs r"
  by (simp add: fold_add_new dedup_distinct)

lemma fold_add_new_Nil: "fold add_new xs [] = dedup xs"
  by (simp add: fold_add_new)

subsection \<open>Trimming\<close>

lemma go_trim_left_idem [simp]: "go_trim_left cs (go_trim_left cs s) = go_trim_left cs s"
  by (simp add: go_trim_left_def)

lemma set_go_trim_left: "set (go_trim_left cs s) \<subseteq> set s"
  by (auto simp: go_trim_left_def dest: set_dropWhileD)

lemma set_go_trim: "set (go_trim cs s) \<subseteq> set s"
  using set_go_trim_left [of cs s] set_go_trim_left [of cs "rev (go_trim_left cs s)"] by (auto simp: go_trim_def)

lemma go_trim_idem [simp]: "go_trim cs (go_trim cs s) = go_trim cs s"
proof (rule go_trim_id)
  define t where "t = go_trim_left cs s"
  have u: "go_trim cs s = rev (go_trim_left cs (rev t))" by (simp add: go_trim_def t_def)
  assume ne: "go_trim cs s \<noteq> []"
  then have "hd (go_trim_left cs (rev t)) \<notin> set cs"
    using hd_dropWhile [of "\<lambda>c. c \<in> set cs" "rev t"] by (simp add: u go_trim_left_def)
  then have l: "last (go_trim cs s) \<notin> set cs" by (simp add: u last_rev)
  obtain v where "rev t = v @ go_trim_left cs (rev t)"
    unfolding go_trim_left_def by (metis takeWhile_dropWhile_id)
  then have "t = go_trim cs s @ rev v" unfolding u by (metis rev_append rev_rev_ident)
  with ne have "t \<noteq> []" "hd (go_trim cs s) = hd t" by (metis append_is_Nil_conv, metis hd_append2)
  with l show "hd (go_trim cs s) \<notin> set cs \<and> last (go_trim cs s) \<notin> set cs"
    using hd_dropWhile [of "\<lambda>c. c \<in> set cs" s] by (simp add: t_def go_trim_left_def)
qed

subsection \<open>The value of a parameter\<close>

text \<open>The items of a value, and what a parameter should be: its own items, then those of the
  conditional parameters of the local interfaces, each item once.\<close>

definition items :: "string \<Rightarrow> string list" where
  "items v = map (go_trim blanks) (go_split (CHR '','') v)"

definition extra_items :: "(string, string) gomap \<Rightarrow> string \<Rightarrow> string \<Rightarrow> string list" where
  "extra_items conf param iface = (case map_of conf (param @ ''_'' @ iface) of None \<Rightarrow> [] | Some v \<Rightarrow> items v)"

definition cond_items :: "(string, string) gomap \<Rightarrow> string list \<Rightarrow> string \<Rightarrow> string list" where
  "cond_items conf ifs param = items (gm_get [] conf param) @ concat (map (extra_items conf param) ifs)"

definition cond_value :: "(string, string) gomap \<Rightarrow> string list \<Rightarrow> string \<Rightarrow> string" where
  "cond_value conf ifs param = go_join '','' (dedup (cond_items conf ifs param))"

lemma cond_add_new: "cond_add v = add_new (go_trim blanks v)"
  by (rule ext) (simp add: cond_add_def add_new_def Let_def)

lemma fold_cond_add: "fold cond_add vs r = fold add_new (map (go_trim blanks) vs) r"
  by (induction vs arbitrary: r) (simp_all add: cond_add_new)

lemma items_not_Nil [simp]: "items v \<noteq> []"
  by (simp add: items_def)

lemma items_clean: "x \<in> set (items v) \<Longrightarrow> CHR '','' \<notin> set x \<and> go_trim blanks x = x"
  unfolding items_def using go_split_no_sep set_go_trim by fastforce

lemma items_join:
  assumes "xs \<noteq> []" "\<forall>x \<in> set xs. CHR '','' \<notin> set x \<and> go_trim blanks x = x"
  shows "items (go_join '','' xs) = xs"
  using assms by (simp add: items_def go_split_join map_idI)

definition no_local_keys :: "cfg \<Rightarrow> bool" where
  "no_local_keys c \<longleftrightarrow> (\<forall>i \<in> set (local_interfaces c). map_of (config c) (''LOCAL_IP_'' @ i) = None)"

lemma fold_cond_iface:
  assumes "param = ''LOCAL_IP'' \<longrightarrow> (\<forall>i \<in> set ifs. map_of (config c) (''LOCAL_IP_'' @ i) = None)"
  shows "fold (cond_iface param) ifs (r, c) = (fold add_new (concat (map (extra_items (config c) param) ifs)) r, c)"
  using assms
  by (induction ifs arbitrary: r)
    (auto simp: cond_iface_def Let_def extra_items_def fold_cond_add items_def split: option.split)

lemma do_conditional_value:
  assumes "no_local_keys c"
  shows "do_conditional param c = (cond_value (config c) (local_interfaces c) param, c)"
  using assms
  by (simp add: do_conditional_def Let_def fold_cond_iface no_local_keys_def cond_value_def cond_items_def
      fold_cond_add items_def [symmetric] fold_append [symmetric, THEN fun_cong, simplified] fold_add_new_Nil [symmetric])

lemma fold_add_new_pieces:
  "\<forall>i \<in> set ifs. e' i = e i \<or> e' i = dedup (e i) \<Longrightarrow>
     fold add_new (concat (map e' ifs)) r = fold add_new (concat (map e ifs)) r"
  by (induction ifs arbitrary: r) (auto simp: fold_add_new_dedup)

lemma dedup_pieces:
  assumes "\<forall>i \<in> set ifs. e' i = e i \<or> e' i = dedup (e i)"
  shows "dedup (a @ concat (map e' ifs)) = dedup (a @ concat (map e ifs))"
  unfolding fold_add_new_Nil [symmetric] fold_append comp_def fold_add_new_pieces [OF assms] ..

text \<open>A conditional parameter is itself a parameter, and is visited too, before or after the one it
  belongs to. No parameter is conditional twice over.\<close>

definition no_chains :: "cfg \<Rightarrow> bool" where
  "no_chains c \<longleftrightarrow> (\<forall>k \<in> fst ` set (config c). \<forall>i \<in> set (local_interfaces c). \<forall>j \<in> set (local_interfaces c).
     map_of (config c) (k @ ''_'' @ i) \<noteq> None \<longrightarrow> map_of (config c) ((k @ ''_'' @ i) @ ''_'' @ j) = None)"

lemma cond_value_plain:
  assumes "map_of conf k = Some v" "\<forall>j \<in> set ifs. map_of conf (k @ ''_'' @ j) = None"
  shows "items (cond_value conf ifs k) = dedup (items v)"
proof -
  have "concat (map (extra_items conf k) ifs) = []" using assms(2) by (induction ifs) (auto simp: extra_items_def)
  then have "cond_items conf ifs k = items v" using assms(1) by (simp add: cond_items_def gm_get_def)
  moreover have "dedup (items v) \<noteq> []" by (metis items_not_Nil set_dedup set_empty)
  ultimately show ?thesis
    unfolding cond_value_def using items_clean by (simp only:) (intro items_join, auto)
qed

lemma cond_key_step:
  assumes "no_local_keys c" "no_chains c" "local_interfaces c' = local_interfaces c"
    "map_of (config c') = (\<lambda>k. if k \<in> V then Some (cond_value (config c) (local_interfaces c) k) else map_of (config c) k)"
    "V \<subseteq> dom (map_of (config c))" "k \<notin> V" "map_of (config c) k \<noteq> None"
  shows "local_interfaces (cond_key k c') = local_interfaces c \<and>
    map_of (config (cond_key k c')) =
      (\<lambda>j. if j \<in> insert k V then Some (cond_value (config c) (local_interfaces c) j) else map_of (config c) j)"
proof -
  let ?ifs = "local_interfaces c"
  have dom: "map_of (config c') j = None \<longleftrightarrow> map_of (config c) j = None" for j
    using assms(4,5) by (auto split: if_splits)
  have nl: "no_local_keys c'" using assms(1,3) dom by (simp add: no_local_keys_def)
  have "extra_items (config c') k i = extra_items (config c) k i \<or>
      extra_items (config c') k i = dedup (extra_items (config c) k i)" if i: "i \<in> set ?ifs" for i
  proof (cases "map_of (config c) (k @ ''_'' @ i)")
    case None
    with dom [of "k @ ''_'' @ i"] show ?thesis by (simp add: extra_items_def)
  next
    case (Some v)
    show ?thesis
    proof (cases "k @ ''_'' @ i \<in> V")
      case True
      have "\<forall>j \<in> set ?ifs. map_of (config c) ((k @ ''_'' @ i) @ ''_'' @ j) = None"
        using assms(2,7) i Some unfolding no_chains_def map_of_eq_None_iff [of _ k]
        by (metis option.distinct(1))
      from cond_value_plain [OF Some this] True Some show ?thesis by (simp add: extra_items_def assms(4))
    next
      case False
      then show ?thesis by (simp add: extra_items_def assms(4))
    qed
  qed
  then have "dedup (a @ concat (map (extra_items (config c') k) ?ifs)) = dedup (a @ concat (map (extra_items (config c) k) ?ifs))" for a
    by (intro dedup_pieces) blast
  moreover have "gm_get [] (config c') k = gm_get [] (config c) k" using assms(4,6) by (simp add: gm_get_def)
  ultimately have "cond_value (config c') ?ifs k = cond_value (config c) ?ifs k"
    unfolding cond_value_def cond_items_def by simp
  then show ?thesis
    using assms(3,4) do_conditional_value [OF nl, of k]
    by (auto simp: cond_key_def map_of_gm_set)
qed

lemma fold_cond_key:
  assumes "no_local_keys c" "no_chains c" "local_interfaces c' = local_interfaces c"
    "map_of (config c') = (\<lambda>k. if k \<in> V then Some (cond_value (config c) (local_interfaces c) k) else map_of (config c) k)"
    "V \<subseteq> dom (map_of (config c))" "distinct ks" "set ks \<inter> V = {}" "set ks \<subseteq> dom (map_of (config c))"
  shows "local_interfaces (fold cond_key ks c') = local_interfaces c \<and>
    map_of (config (fold cond_key ks c')) =
      (\<lambda>j. if j \<in> V \<union> set ks then Some (cond_value (config c) (local_interfaces c) j) else map_of (config c) j)"
  using assms(3-)
proof (induction ks arbitrary: c' V)
  case (Cons k ks)
  have k: "k \<notin> V" "map_of (config c) k \<noteq> None" using Cons(6,7) by auto
  note step = cond_key_step [OF assms(1,2) Cons(2-4) k]
  have "local_interfaces (fold cond_key ks (cond_key k c')) = local_interfaces c \<and>
    map_of (config (fold cond_key ks (cond_key k c'))) =
      (\<lambda>j. if j \<in> insert k V \<union> set ks then Some (cond_value (config c) (local_interfaces c) j) else map_of (config c) j)"
    using step Cons(4-7) k by (intro Cons(1)) auto
  then show ?case by simp
qed simp

lemma force_key_config: "config (snd (do_conditional k c)) = config c"
proof -
  have "config (snd (fold (cond_iface k) ifs (r, c))) = config c" for ifs r c
    by (induction ifs arbitrary: r c) (auto simp: cond_iface_def Let_def split: option.splits)
  then show ?thesis by (simp add: do_conditional_def Let_def split: prod.split) (metis snd_conv)
qed

lemma fold_force_key: "config (fold force_key fs c) = config c"
  by (induction fs arbitrary: c) (simp_all add: force_key_def force_key_config)

lemma conditional_values_core:
  assumes "no_local_keys c" "no_chains c" "distinct ks" "set ks = fst ` set (config c)"
  shows "map_of (config (cfg_conditional_config ks c)) k =
    (if map_of (config c) k = None then None else Some (cond_value (config c) (local_interfaces c) k))"
proof -
  have "dom (map_of (config c)) = set ks" using assms(4) by (simp add: dom_map_of_conv_image_fst)
  with fold_cond_key [OF assms(1,2) refl, of "{}" ks] assms(3) show ?thesis
    unfolding cfg_conditional_config_def fold_force_key by (auto simp: domIff)
qed

text \<open>What conditional parameters mean: when no \<open>LOCAL_IP_\<close> parameter applies and no parameter is
  conditional twice, the value of every parameter after loading is its own items followed by those of
  its conditional parameters for the local interfaces, trimmed and each once, in whatever order Go
  visits the map; a parameter that is only given conditionally stays absent.\<close>

theorem conditional_values:
  assumes "no_local_keys c" "no_chains c" "distinct ks" "set ks = fst ` set (config c)"
  shows "map_of (config (cfg_conditional_config ks c)) k =
    (if map_of (config c) k = None then None else Some (cond_value (config c) (local_interfaces c) k))"
  using assms by (rule conditional_values_core)

definition ex_cfg :: cfg where
  "ex_cfg = \<lparr>config = [(''B'', ''x:1''), (''B_5'', '' y:2,x:1''), (''D'', ''1'')],
     local_interfaces = [''0.5'', ''5''], compression_threshold = 4096, raw_data = []\<rparr>"

lemma conditional_values_witness:
  "map_of (config (cfg_conditional_config [''B_5'', ''D'', ''B''] ex_cfg)) ''B'' = Some ''x:1,y:2''"
proof -
  have "no_local_keys ex_cfg" by (simp add: no_local_keys_def ex_cfg_def)
  moreover have "no_chains ex_cfg" by (simp add: no_chains_def ex_cfg_def)
  moreover have "cond_value (config ex_cfg) (local_interfaces ex_cfg) ''B'' = ''x:1,y:2''"
    by (simp add: cond_value_def cond_items_def extra_items_def items_def ex_cfg_def gm_get_def go_trim_def go_trim_left_def blanks_def)
  ultimately show ?thesis
    by (subst conditional_values) (simp_all add: ex_cfg_def insert_commute)
qed

text \<open>With a \<open>LOCAL_IP_\<close> parameter the order matters: here a parameter is extended or not depending on
  whether Go visits \<open>LOCAL_IP\<close> first.\<close>

definition order_cfg :: cfg where
  "order_cfg = \<lparr>config = [(''LOCAL_IP'', ''1.2.3.4''), (''LOCAL_IP_5'', ''7''), (''S'', ''a''), (''S_7'', ''b'')],
     local_interfaces = [''5''], compression_threshold = 4096, raw_data = []\<rparr>"

lemma conditional_order_matters:
  "map_of (config (fold cond_key [''S'', ''LOCAL_IP''] order_cfg)) ''S'' = Some ''a''"
  "map_of (config (fold cond_key [''LOCAL_IP'', ''S''] order_cfg)) ''S'' = Some ''a,b''"
  by code_simp+

subsection \<open>Local addresses\<close>

lemma cfg_local_add_mono: "set ifs \<subseteq> set (cfg_local_add s ifs)"
proof -
  have "set ifs \<subseteq> set (fold (\<lambda>v l. if go_trim iface_cutset v = [] \<or> iface_of v = [] \<or> iface_of v \<in> set l then l
      else l @ [iface_of v]) vs ifs)" for vs
  proof (induction vs arbitrary: ifs)
    case (Cons v vs)
    show ?case by (simp, intro conjI impI Cons order.trans [OF _ Cons]) auto
  qed simp
  then show ?thesis by (simp add: cfg_local_add_def)
qed

lemma fold_local_add_mono: "set ifs \<subseteq> set (fold cfg_local_add ss ifs)"
  by (induction ss arbitrary: ifs) (auto dest: subsetD [OF cfg_local_add_mono])

definition plain_ip :: "string \<Rightarrow> bool" where
  "plain_ip ip \<longleftrightarrow> ip \<noteq> [] \<and> set ip \<subseteq> set ''0123456789.''"

lemma cfg_local_add_ip: "plain_ip ip \<Longrightarrow> ip \<in> set (cfg_local_add ip ifs)"
proof -
  assume ip: "plain_ip ip"
  then have "CHR '','' \<notin> set ip" "CHR '':'' \<notin> set ip" "set ip \<inter> set iface_cutset = {}" "ip \<noteq> []"
    by (auto simp: plain_ip_def iface_cutset_def)
  then show ?thesis by (auto simp: cfg_local_add_def go_split_plain iface_of_def go_trim_none)
qed

lemma fold_local_add_ip: "ip \<in> set ss \<Longrightarrow> plain_ip ip \<Longrightarrow> ip \<in> set (fold cfg_local_add ss ifs)"
proof (induction ss arbitrary: ifs)
  case (Cons s ss)
  show ?case
  proof (cases "ip = s")
    case True
    with Cons(3) show ?thesis using cfg_local_add_ip fold_local_add_mono by fastforce
  next
    case False
    with Cons show ?thesis by simp
  qed
qed simp

text \<open>The conditional parameters can only add local interfaces, and none ever holds a colon.\<close>

definition no_colon :: "string list \<Rightarrow> bool" where
  "no_colon ifs \<longleftrightarrow> (\<forall>i \<in> set ifs. CHR '':'' \<notin> set i)"

lemma cfg_local_add_no_colon: "no_colon ifs \<Longrightarrow> no_colon (cfg_local_add s ifs)"
proof -
  assume "no_colon ifs"
  then have "no_colon (fold (\<lambda>v l. if go_trim iface_cutset v = [] \<or> iface_of v = [] \<or> iface_of v \<in> set l then l
      else l @ [iface_of v]) vs ifs)" for vs
  proof (induction vs arbitrary: ifs)
    case (Cons v vs)
    have "CHR '':'' \<notin> set (iface_of v)"
      unfolding iface_of_def by (rule go_split_no_sep [OF hd_in_set]) simp
    with Cons(2) have "no_colon (if go_trim iface_cutset v = [] \<or> iface_of v = [] \<or> iface_of v \<in> set ifs then ifs
        else ifs @ [iface_of v])" by (auto simp: no_colon_def)
    from Cons(1) [OF this] show ?case by simp
  qed simp
  with \<open>no_colon ifs\<close> show ?thesis by (simp add: cfg_local_add_def)
qed

definition grows :: "cfg \<Rightarrow> cfg \<Rightarrow> bool" where
  "grows c c' \<longleftrightarrow> set (local_interfaces c) \<subseteq> set (local_interfaces c') \<and>
     (no_colon (local_interfaces c) \<longrightarrow> no_colon (local_interfaces c'))"

lemma grows_refl [simp]: "grows c c"
  by (simp add: grows_def)

lemma grows_trans: "grows c c' \<Longrightarrow> grows c' c'' \<Longrightarrow> grows c c''"
  by (auto simp: grows_def)

lemma grows_iface: "grows c (snd (cond_iface k i (r, c)))"
  using cfg_local_add_mono cfg_local_add_no_colon
  by (auto simp: cond_iface_def Let_def grows_def split: option.split)

lemma grows_ifaces: "grows c (snd (fold (cond_iface k) ifs (r, c)))"
proof (induction ifs arbitrary: r c)
  case (Cons i ifs)
  obtain r' c' where "cond_iface k i (r, c) = (r', c')" by force
  with Cons [of c' r'] grows_iface [of c k i r] show ?case by (auto intro: grows_trans)
qed simp

lemma grows_conditional: "grows c (snd (do_conditional k c))"
  using grows_ifaces [of c k] by (simp add: do_conditional_def Let_def split: prod.split) (metis snd_conv)

lemma grows_key: "grows c (cond_key k c)" "grows c (force_key k c)"
  using grows_conditional [of c k] by (auto simp: cond_key_def force_key_def grows_def split: prod.split)

lemma grows_config: "grows c (cfg_conditional_config ks c)"
proof -
  have "grows c (fold cond_key ks c)" for ks c
    by (induction ks arbitrary: c) (auto intro: grows_trans grows_key)
  moreover have "grows c (fold force_key fs c)" for fs c
    by (induction fs arbitrary: c) (auto intro: grows_trans grows_key)
  ultimately show ?thesis unfolding cfg_conditional_config_def by (rule grows_trans)
qed

text \<open>Which clients count as local, whatever the configuration file says: one that comes from an IPv4
  address of this host is at distance 0, so its answers are not compressed; one whose address is
  written with colons, as all of IPv6, never is, even if it is this host's own address.\<close>

theorem own_addresses_local:
  "(V4 ip \<in> set addrs \<and> plain_ip ip \<longrightarrow> GetIPDistance (ReadConfig data addrs ks) ip = 0) \<and>
   (CHR '':'' \<in> set ip \<longrightarrow> GetIPDistance (ReadConfig data addrs ks) ip = 1)"
proof -
  let ?c = "cfg_local_interfaces addrs (cfg_load_config data)"
  have g: "grows ?c (ReadConfig data addrs ks)" unfolding ReadConfig_def by (rule grows_config)
  have "GetIPDistance (ReadConfig data addrs ks) ip = 0" if "V4 ip \<in> set addrs" "plain_ip ip"
  proof -
    have "go_join ''.'' (drop 0 (go_split (CHR ''.'') ip)) = ip" by (simp add: go_join_split)
    then have "ip \<in> set (let pieces = go_split (CHR ''.'') ip in map (\<lambda>i. go_join ''.'' (drop i pieces)) [0..<length pieces])"
      by (force simp: Let_def image_iff intro: bexI [of _ 0])
    then have "ip \<in> set (match_interfaces addrs)"
      unfolding match_interfaces_def set_concat set_map
      by (intro UnionI [OF imageI [OF imageI [OF that(1)]]]) simp
    then have "ip \<in> set (local_interfaces ?c)"
      using fold_local_add_ip [OF _ that(2)] subsetD [OF cfg_local_add_mono]
      by (simp add: cfg_local_interfaces_def Let_def)
    with g show ?thesis by (auto simp: GetIPDistance_def grows_def)
  qed
  moreover have "GetIPDistance (ReadConfig data addrs ks) ip = 1" if "CHR '':'' \<in> set ip"
  proof -
    have "no_colon (fold cfg_local_add ss ifs)" if "no_colon ifs" for ss ifs
      using that by (induction ss arbitrary: ifs) (auto intro: cfg_local_add_no_colon)
    moreover have "no_colon (local_interfaces (cfg_load_config data))"
      by (simp add: cfg_load_config_def Let_def no_colon_def)
    ultimately have "no_colon (local_interfaces ?c)"
      by (simp add: cfg_local_interfaces_def Let_def cfg_local_add_no_colon)
    with g that show ?thesis by (auto simp: GetIPDistance_def grows_def no_colon_def)
  qed
  ultimately show ?thesis by blast
qed

lemma own_addresses_local_witness:
  "GetIPDistance (ReadConfig [] [V6 ''fe80::1'', V4 ''10.0.0.5''] []) ''10.0.0.5'' = 0 \<and>
   GetIPDistance (ReadConfig [] [V6 ''fe80::1'', V4 ''10.0.0.5''] []) ''fe80::1'' = 1"
  using own_addresses_local [of "''10.0.0.5''" "[V6 ''fe80::1'', V4 ''10.0.0.5'']" "[]" "[]"]
    own_addresses_local [of "''fe80::1''" "[V6 ''fe80::1'', V4 ''10.0.0.5'']" "[]" "[]"]
  by (simp add: plain_ip_def)

subsection \<open>The start of the health checker\<close>

definition attr_int :: "(string \<times> json) list \<Rightarrow> string \<Rightarrow> cfg_error + int" where
  "attr_int kvs a = (case map_of (object_map kvs) a of
     None \<Rightarrow> Inl AttributeNotFound | Some JNull \<Rightarrow> Inl AttributeNotFound | Some v \<Rightarrow> int_value v)"

lemma GetSubattrInt_attr:
  "map_of (raw_data c) a = Some (JObj kvs) \<Longrightarrow> GetSubattrInt c a s = Inr (attr_int kvs s)"
  by (auto simp: GetSubattrInt_def get_subattr_interface_def attr_int_def split: option.split json.split)

lemma missing_subattrs_obj:
  "map_of (raw_data c) a = Some (JObj kvs) \<Longrightarrow>
     missing_subattrs c a ss = Inr (filter (\<lambda>s. attr_int kvs s = Inl AttributeNotFound) ss)"
proof (induction ss)
  case (Cons s ss)
  have "get_subattr_interface c a s = Inr (case map_of (object_map kvs) s of
      None \<Rightarrow> Inl AttributeNotFound | Some JNull \<Rightarrow> Inl AttributeNotFound | Some v \<Rightarrow> Inr v)"
    using Cons(2) by (simp add: get_subattr_interface_def)
  moreover have "int_value v \<noteq> Inl AttributeNotFound" for v
    by (auto simp: int_value_def split: json.split prod.split)
  ultimately show ?case using Cons by (auto simp: attr_int_def split: option.split json.split)
qed simp

lemma missing_subattrs_none: "map_of (raw_data c) a = None \<Longrightarrow> missing_subattrs c a ss = Inr ss"
  by (induction ss) (simp_all add: get_subattr_interface_def)

lemma missing_subattrs_bad:
  assumes "map_of (raw_data c) a = Some v" "\<forall>kvs. v \<noteq> JObj kvs" "ss \<noteq> []"
  shows "missing_subattrs c a ss = Inl TypeAssertion"
  using assms by (cases ss; cases v) (auto simp: get_subattr_interface_def)

lemma checker_ints_obj:
  assumes "map_of (raw_data c) ''CUSTOM_HEALTH_CHECKER'' = Some (JObj kvs)"
  shows "checker_ints c as = (case find (\<lambda>a. \<exists>e. attr_int kvs a = Inl e) as of
     Some a \<Rightarrow> Inl (ExplicitPanic a)
   | None \<Rightarrow> Inr (map (\<lambda>a. projr (attr_int kvs a)) as))"
  using GetSubattrInt_attr [OF assms]
  by (induction as) (auto split: sum.split option.split)

text \<open>The start of the server's health checker, by what the configuration has under
  \<open>CUSTOM_HEALTH_CHECKER\<close>: nothing or an object without its three attributes, no checker; an object with
  all three as integers, a checker with these settings; anything else, also \<open>null\<close> or an attribute that
  is not an integer, ends the process with a panic.\<close>

theorem checker_start:
  "checker_init c =
     (case map_of (raw_data c) ''CUSTOM_HEALTH_CHECKER'' of
        None \<Rightarrow> Inr None
      | Some (JObj kvs) \<Rightarrow>
          (let rs = map (attr_int kvs) checker_attrs
           in if \<forall>r \<in> set rs. r = Inl AttributeNotFound then Inr None
              else if Inl AttributeNotFound \<in> set rs then Inl (ExplicitPanic ''Custom chealth checker config error. '')
              else (case find (\<lambda>a. \<exists>e. attr_int kvs a = Inl e) checker_attrs of
                      Some a \<Rightarrow> Inl (ExplicitPanic a)
                    | None \<Rightarrow> Inr (Some (map (\<lambda>a. projr (attr_int kvs a)) checker_attrs))))
      | Some _ \<Rightarrow> Inl TypeAssertion)"
proof (cases "map_of (raw_data c) ''CUSTOM_HEALTH_CHECKER''")
  case None
  have "checker_attrs \<noteq> []" by (simp add: checker_attrs_def)
  with None missing_subattrs_none [OF None, of checker_attrs] show ?thesis
    by (simp add: checker_init_def ValidateAttribs_def)
next
  case (Some v)
  show ?thesis
  proof (cases "\<exists>kvs. v = JObj kvs")
    case False
    with Some missing_subattrs_bad [OF Some, of checker_attrs] show ?thesis
      by (cases v) (simp_all add: checker_init_def ValidateAttribs_def checker_attrs_def)
  next
    case True
    then obtain kvs where v: "v = JObj kvs" by blast
    let ?m = "filter (\<lambda>s. attr_int kvs s = Inl AttributeNotFound) checker_attrs"
    have "length ?m = length checker_attrs \<longleftrightarrow> (\<forall>r \<in> set (map (attr_int kvs) checker_attrs). r = Inl AttributeNotFound)"
      by (simp add: checker_attrs_def)
    moreover have "?m = [] \<longleftrightarrow> Inl AttributeNotFound \<notin> set (map (attr_int kvs) checker_attrs)"
      by (auto simp: filter_empty_conv image_iff)
    moreover have "ValidateAttribs c ''CUSTOM_HEALTH_CHECKER'' checker_attrs =
        Inr (if length ?m = length checker_attrs then Inr False else if ?m = [] then Inr True else Inl (AttributesMissing ?m))"
      using missing_subattrs_obj [OF Some [unfolded v], of checker_attrs] by (simp add: ValidateAttribs_def checker_attrs_def)
    ultimately show ?thesis
      using checker_ints_obj [OF Some [unfolded v], of checker_attrs]
      by (simp add: checker_init_def Some v Let_def split: option.split)
  qed
qed

end
