(* ===== verification/EngineCorrect.thy ===== *)
theory EngineCorrect
  imports Engine ConfigCorrect
begin

text \<open>
  Correctness of the engine: which handler an action reaches and which services a configuration starts.
\<close>

subsection \<open>Dispatch\<close>

definition numbering :: "service list \<Rightarrow> (string, nat) gomap" where
  "numbering hs = fold (\<lambda>(hindex, h) m. fold (\<lambda>action m. gm_set m action hindex) (get_actions h) m) (enumerate 0 hs) []"

lemma map_of_fold_actions:
  "map_of (fold (\<lambda>action m. gm_set m action i) as m) a = (if a \<in> set as then Some i else map_of m a)"
  by (induction as arbitrary: m) (auto simp: map_of_gm_set)

lemma numbering_snoc:
  "map_of (numbering (hs @ [h])) a = (if a \<in> set (get_actions h) then Some (length hs) else map_of (numbering hs) a)"
  by (simp add: numbering_def enumerate_append_eq map_of_fold_actions)

lemma numbering_last:
  "(case map_of (numbering hs) a of
      None \<Rightarrow> find (\<lambda>h. a \<in> set (get_actions h)) (rev hs) = None
    | Some i \<Rightarrow> i < length hs \<and> find (\<lambda>h. a \<in> set (get_actions h)) (rev hs) = Some (hs ! i))"
proof (induction hs rule: rev_induct)
  case Nil
  then show ?case by (simp add: numbering_def)
next
  case (snoc h hs)
  then show ?case by (auto simp: numbering_snoc nth_append split: option.splits)
qed

text \<open>The services that run: all of them, or those with an action that \<open>RUN_SERVICES\<close> names.\<close>

definition runs :: "cfg \<Rightarrow> service \<Rightarrow> bool" where
  "runs c h \<longleftrightarrow> (let v = Get c ''RUN_SERVICES'' [] in v = [] \<or> v = ''*'' \<or>
     (\<exists>s \<in> set (go_split (CHR '','') v). go_trim blanks s \<in> set (get_actions h)))"

lemma select_services_runs: "select_services c handlers = filter (runs c) handlers"
proof -
  have "(\<exists>action \<in> set as. action \<in> set (map (go_trim blanks) vs)) \<longleftrightarrow> (\<exists>s \<in> set vs. go_trim blanks s \<in> set as)" for as vs
    by auto
  then show ?thesis
    by (auto simp: select_services_def runs_def Let_def simp del: set_map intro!: filter_cong filter_True [symmetric])
qed

lemma find_filter: "find P (filter Q xs) = find (\<lambda>x. Q x \<and> P x) xs"
  by (induction xs) auto

text \<open>C34. Where a request goes: \<open>server-status\<close> to the status page; any other action to the handler
  registered last among the running ones that list it; and when no running handler lists it, only an
  error message comes back, so a handler none of whose actions is in \<open>RUN_SERVICES\<close> is out of reach.\<close>

theorem dispatch_last_running:
  "handleRequest (start_engine c handlers) status_page p =
     (let action = GetParam p ''action'' []
      in if action = ''server-status'' then (status_page p, p)
         else if action = [] then (''Please specify action (0x1), or ?action=server-status for help'', p)
         else case find (\<lambda>h. runs c h \<and> action \<in> set (get_actions h)) (rev handlers) of
             Some h \<Rightarrow> handle_action h action p
           | None \<Rightarrow> (''Please specify action (0x2)'', p))"
proof -
  let ?hs = "filter (runs c) handlers"
  have e: "start_engine c handlers = \<lparr>action_handlers = ?hs, actionToHandlerNum = numbering ?hs\<rparr>"
    by (simp add: start_engine_def RegisterHandler_def engine_init_def select_services_runs numbering_def Let_def)
  have f: "find (\<lambda>h. a \<in> set (get_actions h)) (rev ?hs) = find (\<lambda>h. runs c h \<and> a \<in> set (get_actions h)) (rev handlers)" for a
    by (simp add: rev_filter find_filter)
  show ?thesis
    using numbering_last [where hs = ?hs and a = "GetParam p ''action'' []"]
    by (auto simp: handleRequest_def Let_def e f split: option.splits)
qed

subsection \<open>The services of a configuration\<close>


definition bind_cfg :: cfg where
  "bind_cfg = \<lparr>config = [(''BIND_TO'', ''h:1,''), (''BIND_TO_5'', ''u:2, h:1,:3'')],
     local_interfaces = [''5''], compression_threshold = 4096, raw_data = []\<rparr>"


end
