(* ===== verification/CompressEngine.thy ===== *)
theory CompressEngine
  imports Socket Float64
begin

text \<open>
  The block compressor of \<open>handler_socket2/compress\<close>: \<open>engine.go\<close> cuts the data into blocks that
  worker threads compress into the same places of the output, then moves the results together
  behind a table of their sizes; \<open>flate.go\<close> and \<open>snappy.go\<close> are its two codecs. The codec's
  algorithm is a parameter here (flate is the standard library's, snappy is modelled apart). Workers write to
  disjoint parts of the output, so their order does not matter and the model runs them in turn.
  The slices passed in are taken to have no capacity beyond their length, as at the call in
  \<open>sendBack\<close>.
\<close>

subsection \<open>Single precision\<close>

definition fl32 :: "rat \<Rightarrow> rat" where
  "fl32 x = (if x = 0 then 0 else (let u = 2 powi (exponent x - 23) in of_int (round_even (x / u)) * u))"

text \<open>\<open>float32(n) > float32(m)*0.8\<close>\<close>

definition poor_ratio :: "nat \<Rightarrow> nat \<Rightarrow> bool" where
  "poor_ratio n m \<longleftrightarrow> fl32 (of_nat n) > fl32 (fl32 (of_nat m) * fl32 (4 / 5))"

subsection \<open>Codecs\<close>

record cpr =
  block_size :: nat
  get_id :: string
  encode :: "bytes \<Rightarrow> bytes"
  decode :: "bytes \<Rightarrow> bytes option"

definition MakeFlate :: "(bytes \<Rightarrow> bytes) \<Rightarrow> (bytes \<Rightarrow> bytes option) \<Rightarrow> cpr" where
  "MakeFlate deflate inflate = \<lparr>block_size = 60000, get_id = ''mp-flate'', encode = deflate, decode = inflate\<rparr>"

definition MakeSnappy :: "(bytes \<Rightarrow> bytes) \<Rightarrow> (bytes \<Rightarrow> bytes option) \<Rightarrow> cpr" where
  "MakeSnappy enc dec = \<lparr>block_size = 120000, get_id = ''mp-snappy'', encode = enc, decode = dec\<rparr>"

text \<open>What a worker does with one piece: \<open>None\<close> when it does not compress or does not fit.\<close>

definition compress_piece :: "cpr \<Rightarrow> bytes \<Rightarrow> nat \<Rightarrow> bytes option" where
  "compress_piece c data_in room =
     (let b = encode c data_in
      in if length b \<ge> length data_in \<and> length b > block_size c div 3 then None
         else if length b > room then None else Some b)"

subsection \<open>Compress\<close>

definition fastpath :: "cpr \<Rightarrow> bytes \<Rightarrow> bytes \<Rightarrow> bytes option go" where
  "fastpath c inp out =
     (if length out < 8 then Inl SliceOutOfRange
      else
        (case compress_piece c inp (length out - 8) of
           None \<Rightarrow> Inr None
         | Some b \<Rightarrow>
             if poor_ratio (length b) (length inp) then Inr None
             else
               (let out1 = write_at out 8 b;
                    out2 = write_at (take (length b + 8) out1) 0 (put_u32 (length b))
                in Inr (Some (write_at out2 4 (put_u32 0))))))"

definition tasks_no :: "cpr \<Rightarrow> nat \<Rightarrow> nat" where
  "tasks_no c in_len =
     (let t = in_len div block_size c in if in_len > t * block_size c then t + 1 else t)"

definition piece :: "cpr \<Rightarrow> bytes \<Rightarrow> nat \<Rightarrow> bytes" where
  "piece c inp i = take (block_size c) (drop (block_size c * i) inp)"

fun write_pieces :: "cpr \<Rightarrow> nat \<Rightarrow> bytes list \<Rightarrow> bytes \<Rightarrow> bytes" where
  "write_pieces c i [] out = out"
| "write_pieces c i (b # bs) out = write_pieces c (i + 1) bs (write_at out (block_size c * i) b)"

text \<open>The merge, in the output itself: the next chunk is read where its worker left it, after the
  chunks before it have been moved.\<close>

fun merge_chunks :: "cpr \<Rightarrow> nat \<Rightarrow> nat list \<Rightarrow> nat \<Rightarrow> bytes \<Rightarrow> (bytes \<times> nat) go" where
  "merge_chunks c i [] dst out = Inr (out, dst)"
| "merge_chunks c i (n # ns) dst out =
     (if dst + n > length out \<or> block_size c * i + n > length out then Inl SliceOutOfRange
      else merge_chunks c (i + 1) ns (dst + n)
             (write_at out dst (take n (drop (block_size c * i) out))))"

fun write_table :: "nat \<Rightarrow> nat list \<Rightarrow> bytes \<Rightarrow> bytes" where
  "write_table i [] out = out"
| "write_table i (n # ns) out = write_table (i + 1) ns (write_at out (4 * i) (put_u32 n))"

definition Compress :: "cpr \<Rightarrow> bytes \<Rightarrow> bytes \<Rightarrow> bytes option go" where
  "Compress c inp out =
     (if length inp < block_size c then fastpath c inp out
      else if length out < length inp then Inl SliceOutOfRange
      else
        (let n = tasks_no c (length inp)
         in case those (map (\<lambda>i. compress_piece c (piece c inp i) (length (piece c inp i))) [0..<n]) of
              None \<Rightarrow> Inr None
            | Some bs \<Rightarrow>
                (let chunks = map length bs @ [0]
                 in if poor_ratio (sum_list chunks) (length inp) then Inr None
                    else
                      go_bind (merge_chunks c 0 (map length bs) (4 * length chunks) (write_pieces c 0 bs out))
                        (\<lambda>(out1, dst). Inr (Some (take dst (write_table 0 chunks out1)))))))"

subsection \<open>Uncompress\<close>

function read_chunks :: "bytes \<Rightarrow> nat \<Rightarrow> nat list \<times> nat" where
  "read_chunks inp pos =
     (if pos + 4 < length inp then
        (let sz = u32 (take 4 (drop pos inp))
         in if sz = 0 then ([], pos + 4)
            else (let (cs, p) = read_chunks inp (pos + 4) in (sz # cs, p)))
      else ([], pos))"
  by auto
termination by (relation "measure (\<lambda>(inp, pos). length inp - pos)") auto

declare read_chunks.simps [simp del]

text \<open>The trace line prints the next ten bytes, which must exist.\<close>

fun unpack :: "cpr \<Rightarrow> bytes \<Rightarrow> nat \<Rightarrow> nat list \<Rightarrow> bytes go" where
  "unpack c inp pos [] = Inr []"
| "unpack c inp pos (n # ns) =
     (if pos < length inp then
        go_bind (go_slice inp pos (pos + n)) (\<lambda>chunk.
          go_bind (go_slice inp pos (pos + 10)) (\<lambda>_.
            go_bind (unpack c inp (pos + n) ns) (\<lambda>rest.
              Inr ((case decode c chunk of None \<Rightarrow> [] | Some d \<Rightarrow> d) @ rest))))
      else Inr [])"

definition Uncompress :: "cpr \<Rightarrow> bytes \<Rightarrow> bytes option go" where
  "Uncompress c inp =
     (let (chunks, pos) = read_chunks inp 0
      in if chunks = [] then Inr None else go_bind (unpack c inp pos chunks) (\<lambda>d. Inr (Some d)))"

subsection \<open>The format\<close>

definition packed_form :: "bytes list \<Rightarrow> bytes" where
  "packed_form bs = concat (map (\<lambda>b. put_u32 (length b)) bs) @ put_u32 0 @ concat bs"

lemma length_write_at [simp]: "off + length b \<le> length m \<Longrightarrow> length (write_at m off b) = length m"
  by (simp add: write_at_def)

lemma take_write_at: "k \<le> off \<Longrightarrow> off \<le> length m \<Longrightarrow> take k (write_at m off b) = take k m"
  by (simp add: write_at_def min_absorb1)

lemma drop_write_at:
  "off + length b \<le> k \<Longrightarrow> off \<le> length m \<Longrightarrow> drop k (write_at m off b) = drop k m"
  by (simp add: write_at_def)

lemma take_write_at_end:
  "off \<le> length m \<Longrightarrow> take (off + length b) (write_at m off b) = take off m @ b"
  by (simp add: write_at_def)

lemma read_write_at: "off \<le> length m \<Longrightarrow> take (length b) (drop off (write_at m off b)) = b"
  by (simp add: write_at_def)

lemma fastpath_form:
  assumes "fastpath c inp out = Inr (Some z)"
  shows "z = packed_form [encode c inp]"
proof -
  let ?b = "encode c inp"
  from assms have l: "8 \<le> length out" "compress_piece c inp (length out - 8) = Some ?b"
    and z: "z = write_at (write_at (take (length ?b + 8) (write_at out 8 ?b)) 0 (put_u32 (length ?b))) 4 (put_u32 0)"
    by (auto simp: fastpath_def compress_piece_def Let_def split: if_splits option.splits)
  then have "length ?b \<le> length out - 8" by (auto simp: compress_piece_def Let_def split: if_splits)
  moreover have "take (length ?b + 8) (write_at out 8 ?b) = take 8 out @ ?b"
    using take_write_at_end [of 8 out ?b] l(1) by (simp add: add.commute)
  moreover have "take 8 out = take 4 out @ take 4 (drop 4 out)" using take_add [of 4 4 out] by simp
  then obtain x y where "take 8 out = x @ y" "length x = 4" "length y = 4"
    using l(1) by (metis length_take length_drop min.absorb2 le_diff_conv2 add_leE numeral_Bit0)
  ultimately show ?thesis by (auto simp: z packed_form_def write_at_def)
qed

text \<open>Where the pieces lie while they are moved: the first \<open>k\<close> are in place, the others where their
  worker left them.\<close>

definition offset :: "bytes list \<Rightarrow> nat \<Rightarrow> nat" where
  "offset bs k = 4 * (length bs + 1) + length (concat (take k bs))"

text \<open>No chunk is moved over the place of one that is still to be moved.\<close>

definition moves_safe :: "cpr \<Rightarrow> bytes list \<Rightarrow> bool" where
  "moves_safe c bs \<longleftrightarrow> (\<forall>k. 0 < k \<and> k < length bs \<longrightarrow> offset bs k \<le> block_size c * k)"

definition pieces_at :: "cpr \<Rightarrow> nat \<Rightarrow> bytes list \<Rightarrow> bytes \<Rightarrow> bool" where
  "pieces_at c k bs out \<longleftrightarrow> (\<forall>j. k \<le> j \<and> j < length bs \<longrightarrow>
     block_size c * j + length (bs ! j) \<le> length out \<and>
     take (length (bs ! j)) (drop (block_size c * j) out) = bs ! j)"

lemma offset_Suc: "k < length bs \<Longrightarrow> offset bs (Suc k) = offset bs k + length (bs ! k)"
  by (simp add: offset_def take_Suc_conv_app_nth)

lemma offset_mono: "k \<le> j \<Longrightarrow> j \<le> length bs \<Longrightarrow> offset bs k \<le> offset bs j"
proof -
  assume "k \<le> j" "j \<le> length bs"
  then have "take j bs = take k bs @ take (j - k) (drop k bs)" by (metis le_add_diff_inverse take_add)
  then show ?thesis by (simp add: offset_def)
qed

lemma write_pieces_at:
  assumes "\<forall>j < length bs. length (bs ! j) \<le> block_size c \<and> block_size c * (i + j) + length (bs ! j) \<le> length out"
  shows "length (write_pieces c i bs out) = length out \<and>
    (\<forall>k. k \<le> block_size c * i \<longrightarrow> take k (write_pieces c i bs out) = take k out) \<and>
    (\<forall>j < length bs. take (length (bs ! j)) (drop (block_size c * (i + j)) (write_pieces c i bs out)) = bs ! j)"
  using assms
proof (induction bs arbitrary: i out)
  case (Cons b bs)
  let ?S = "block_size c" and ?o = "write_at out (block_size c * i) b"
  have b: "length b \<le> ?S" "?S * i + length b \<le> length out" using Cons(2) by force+
  have l: "length ?o = length out" using b by simp
  have tail: "\<forall>j < length bs. length (bs ! j) \<le> ?S \<and> ?S * (i + 1 + j) + length (bs ! j) \<le> length ?o"
    using Cons(2) unfolding l by force
  note IH = Cons(1) [OF tail]
  have keep: "take k (write_pieces c (i + 1) bs ?o) = take k out" if "k \<le> ?S * i" for k
    using IH that b by (simp add: take_write_at)
  have "take (length b) (drop (?S * i) (write_pieces c (i + 1) bs ?o)) = b"
  proof -
    have le: "?S * i + length b \<le> ?S * (i + 1)" using b(1) by (simp add: algebra_simps)
    have "take (length b) (drop (?S * i) (write_pieces c (i + 1) bs ?o))
        = drop (?S * i) (take (?S * i + length b) (write_pieces c (i + 1) bs ?o))" by (simp add: take_drop add.commute)
    also have "take (?S * i + length b) (write_pieces c (i + 1) bs ?o) = take (?S * i + length b) ?o"
      using IH le by blast
    finally show ?thesis using b(2) by (simp add: take_drop [symmetric] read_write_at add.commute)
  qed
  with IH keep l show ?case by (auto simp: nth_Cons' less_Suc_eq_0_disj)
qed simp

lemma merge_chunks_ok:
  assumes "pieces_at c k bs out" "k \<le> length bs" "moves_safe c bs" "offset bs (length bs) \<le> length out"
    "drop (4 * (length bs + 1)) (take (offset bs k) out) = concat (take k bs)"
  shows "\<exists>out'. merge_chunks c k (map length (drop k bs)) (offset bs k) out = Inr (out', offset bs (length bs)) \<and>
    length out' = length out \<and>
    drop (4 * (length bs + 1)) (take (offset bs (length bs)) out') = concat bs"
  using assms
proof (induction "length bs - k" arbitrary: k out)
  case 0
  then show ?case by auto
next
  case (Suc m)
  then have k: "k < length bs" by simp
  let ?b = "bs ! k" and ?S = "block_size c"
  have d: "drop k bs = ?b # drop (Suc k) bs" using k by (simp add: Cons_nth_drop_Suc)
  have src: "?S * k + length ?b \<le> length out" "take (length ?b) (drop (?S * k) out) = ?b"
    using Suc(3) k by (simp_all add: pieces_at_def)
  have dst: "offset bs k + length ?b = offset bs (Suc k)" using k by (simp add: offset_Suc)
  then have dl: "offset bs k + length ?b \<le> length out"
    using offset_mono [of "Suc k" "length bs" bs] k Suc(6) by simp
  let ?o = "write_at out (offset bs k) ?b"
  have lo: "length ?o = length out" using dl by simp
  have "pieces_at c (Suc k) bs ?o"
    unfolding pieces_at_def
  proof (intro allI impI)
    fix j assume j: "Suc k \<le> j \<and> j < length bs"
    then have "offset bs (Suc k) \<le> offset bs j" "offset bs j \<le> ?S * j"
      using offset_mono [of "Suc k" j bs] Suc(5) by (auto simp: moves_safe_def)
    then have "offset bs k + length ?b \<le> ?S * j" using dst by linarith
    with dl have "drop (?S * j) ?o = drop (?S * j) out" by (intro drop_write_at) simp_all
    with Suc(3) j lo show "?S * j + length (bs ! j) \<le> length ?o \<and> take (length (bs ! j)) (drop (?S * j) ?o) = bs ! j"
      by (simp add: pieces_at_def)
  qed
  moreover have "drop (4 * (length bs + 1)) (take (offset bs (Suc k)) ?o) = concat (take (Suc k) bs)"
  proof -
    have "take (offset bs (Suc k)) ?o = take (offset bs k) out @ ?b"
      unfolding dst [symmetric] using dl by (intro take_write_at_end) simp
    moreover have "4 * (length bs + 1) \<le> length (take (offset bs k) out)"
      using dl by (simp add: offset_def)
    ultimately show ?thesis using Suc(7) k by (simp add: take_Suc_conv_app_nth del: mult_Suc_right add_Suc_right)
  qed
  moreover have "m = length bs - Suc k" using Suc(2) by simp
  ultimately obtain out' where out': "merge_chunks c (Suc k) (map length (drop (Suc k) bs)) (offset bs (Suc k)) ?o =
      Inr (out', offset bs (length bs))" "length out' = length out"
    "drop (4 * (length bs + 1)) (take (offset bs (length bs)) out') = concat bs"
    using Suc(1) [of "Suc k" ?o] Suc(5,6) k lo by auto
  have "merge_chunks c k (map length (drop k bs)) (offset bs k) out =
      merge_chunks c (Suc k) (map length (drop (Suc k) bs)) (offset bs (Suc k)) ?o"
    unfolding d using src dl dst by simp
  with out' show ?case by auto
qed

lemma merge_bound:
  "merge_chunks c k ns d out = Inr (out', dst) \<Longrightarrow> length out' = length out \<and> dst = d + sum_list ns \<and>
     (ns \<noteq> [] \<or> d \<le> length out \<longrightarrow> dst \<le> length out)"
proof (induction ns arbitrary: k d out)
  case (Cons n ns)
  then have "d + n \<le> length out" "block_size c * k + n \<le> length out"
    and m: "merge_chunks c (Suc k) ns (d + n) (write_at out d (take n (drop (block_size c * k) out))) = Inr (out', dst)"
    by (auto split: if_splits)
  with Cons(1) [OF m] show ?case by auto
qed simp

lemma write_table_form:
  assumes "4 * (i + length ns) \<le> length out"
  shows "length (write_table i ns out) = length out \<and>
    take (4 * (i + length ns)) (write_table i ns out) = take (4 * i) out @ concat (map put_u32 ns) \<and>
    drop (4 * (i + length ns)) (write_table i ns out) = drop (4 * (i + length ns)) out"
  using assms
proof (induction ns arbitrary: i out)
  case (Cons n ns)
  let ?o = "write_at out (4 * i) (put_u32 n)"
  have l: "length ?o = length out" using Cons(2) by simp
  have t: "take (4 * (i + 1)) ?o = take (4 * i) out @ put_u32 n"
    using Cons(2) take_write_at_end [of "4 * i" out "put_u32 n"] by (simp add: algebra_simps)
  have d: "drop (4 * (i + 1 + length ns)) ?o = drop (4 * (i + 1 + length ns)) out"
    using Cons(2) by (intro drop_write_at) simp_all
  from Cons(1) [of "i + 1" ?o] Cons(2) l t d show ?case by (simp add: algebra_simps)
qed simp

subsection \<open>What Compress returns\<close>

definition blocks :: "cpr \<Rightarrow> bytes \<Rightarrow> bytes list" where
  "blocks c inp = (if length inp < block_size c then [encode c inp]
     else map (\<lambda>i. encode c (piece c inp i)) [0..<tasks_no c (length inp)])"

lemma those_Some_map: "those (map f xs) = Some ys \<Longrightarrow> (\<forall>x \<in> set xs. \<forall>y. f x = Some y \<longrightarrow> y = g x) \<Longrightarrow> ys = map g xs"
  by (induction xs arbitrary: ys) (auto split: option.splits)

lemma those_Some_all: "those (map f xs) = Some ys \<Longrightarrow> x \<in> set xs \<Longrightarrow> \<exists>y. f x = Some y"
  by (induction xs arbitrary: ys) (auto split: option.splits)

lemma compress_piece_Some:
  "compress_piece c d room = Some b \<Longrightarrow> b = encode c d \<and> length b \<le> room"
  by (auto simp: compress_piece_def Let_def split: if_splits)

lemma piece_bounds:
  assumes "0 < block_size c" "i < tasks_no c (length inp)"
  shows "block_size c * i + length (piece c inp i) \<le> length inp" "length (piece c inp i) \<le> block_size c"
    "piece c inp i \<noteq> []"
proof -
  have "block_size c * i < length inp"
  proof (cases "i < length inp div block_size c")
    case True
    then have "block_size c * (i + 1) \<le> length inp"
      using assms(1) by (metis Suc_eq_plus1 Suc_leI less_eq_div_iff_mult_less_eq mult.commute)
    with assms(1) show ?thesis by (simp add: algebra_simps)
  next
    case False
    with assms(2) show ?thesis by (auto simp: tasks_no_def Let_def mult.commute less_Suc_eq split: if_splits)
  qed
  then show "block_size c * i + length (piece c inp i) \<le> length inp" "length (piece c inp i) \<le> block_size c"
    "piece c inp i \<noteq> []"
    using assms(1) by (auto simp: piece_def)
qed

lemma multi_cases:
  assumes "Compress c inp out = Inr (Some z)" "0 < block_size c" "block_size c \<le> length inp"
  shows "pieces_at c 0 (blocks c inp) (write_pieces c 0 (blocks c inp) out) \<and>
    length (write_pieces c 0 (blocks c inp) out) = length out \<and>
    (\<forall>b \<in> set (blocks c inp). length b \<le> length inp) \<and>
    (\<exists>out1 dst. merge_chunks c 0 (map length (blocks c inp)) (4 * (length (blocks c inp) + 1))
        (write_pieces c 0 (blocks c inp) out) = Inr (out1, dst) \<and>
       z = take dst (write_table 0 (map length (blocks c inp) @ [0]) out1))"
proof -
  let ?n = "tasks_no c (length inp)" and ?bs = "blocks c inp"
  let ?f = "\<lambda>i. compress_piece c (piece c inp i) (length (piece c inp i))"
  from assms obtain bs out1 dst where t: "those (map ?f [0..<?n]) = Some bs"
    and lo: "length inp \<le> length out"
    and m: "merge_chunks c 0 (map length bs) (4 * (length bs + 1)) (write_pieces c 0 bs out) = Inr (out1, dst)"
    and z: "z = take dst (write_table 0 (map length bs @ [0]) out1)"
    by (auto simp: Compress_def Let_def go_bind_def split: if_splits option.splits sum.splits)
  have bs: "bs = ?bs"
    using those_Some_map [OF t, of "\<lambda>i. encode c (piece c inp i)"] compress_piece_Some assms(3)
    by (fastforce simp: blocks_def)
  have fit: "length (?bs ! j) \<le> length (piece c inp j)" if "j < length ?bs" for j
  proof -
    from that assms(3) have j: "j < ?n" by (simp add: blocks_def)
    with those_Some_all [OF t, of j] obtain y where y: "?f j = Some y" by auto
    from j assms(3) have "?bs ! j = encode c (piece c inp j)" by (simp add: blocks_def)
    with compress_piece_Some [OF y] show ?thesis by metis
  qed
  have bound: "length (?bs ! j) \<le> block_size c \<and> block_size c * (0 + j) + length (?bs ! j) \<le> length out"
    if j: "j < length ?bs" for j
  proof -
    from j assms(3) have "j < ?n" by (simp add: blocks_def)
    from piece_bounds [OF assms(2) this] fit [OF j] lo show ?thesis by simp
  qed
  then have "\<forall>j < length ?bs. length (?bs ! j) \<le> block_size c \<and> block_size c * (0 + j) + length (?bs ! j) \<le> length out"
    by blast
  note w = write_pieces_at [OF this]
  have small: "\<forall>b \<in> set ?bs. length b \<le> length inp"
  proof
    fix b assume "b \<in> set ?bs"
    then obtain j where j: "j < length ?bs" "b = ?bs ! j" by (metis in_set_conv_nth)
    then have "j < ?n" using assms(3) by (simp add: blocks_def)
    from piece_bounds(1) [OF assms(2) this] fit [OF j(1)] j(2) show "length b \<le> length inp" by simp
  qed
  have "pieces_at c 0 ?bs (write_pieces c 0 ?bs out)"
    unfolding pieces_at_def using w bound by simp
  with w small m z bs show ?thesis by blast
qed

lemma Compress_form:
  assumes "Compress c inp out = Inr (Some z)" "0 < block_size c" "moves_safe c (blocks c inp)"
  shows "z = packed_form (blocks c inp)"
proof (cases "length inp < block_size c")
  case True
  with assms(1) have "fastpath c inp out = Inr (Some z)" by (simp add: Compress_def)
  from fastpath_form [OF this] True show ?thesis by (simp add: blocks_def)
next
  case False
  let ?bs = "blocks c inp" and ?o = "write_pieces c 0 (blocks c inp) out"
  from multi_cases [OF assms(1,2)] False obtain out1 dst where
    at: "pieces_at c 0 ?bs ?o" and m: "merge_chunks c 0 (map length ?bs) (4 * (length ?bs + 1)) ?o = Inr (out1, dst)"
    and z: "z = take dst (write_table 0 (map length ?bs @ [0]) out1)" by auto
  have off0: "offset ?bs 0 = 4 * (length ?bs + 1)" by (simp add: offset_def)
  have room: "offset ?bs (length ?bs) \<le> length ?o"
  proof -
    have "?bs \<noteq> []" using False assms(2) by (auto simp: blocks_def tasks_no_def Let_def div_greater_zero_iff)
    with merge_bound [OF m] have "dst \<le> length ?o \<and> dst = 4 * (length ?bs + 1) + length (concat ?bs)"
      by (simp add: length_concat)
    then show ?thesis by (simp add: offset_def)
  qed
  obtain out' where "merge_chunks c 0 (map length (drop 0 ?bs)) (offset ?bs 0) ?o = Inr (out', offset ?bs (length ?bs))"
    "length out' = length ?o" "drop (4 * (length ?bs + 1)) (take (offset ?bs (length ?bs)) out') = concat ?bs"
    using merge_chunks_ok [OF at _ assms(3) room] by (auto simp: off0)
  with m off0 have o1: "out1 = out'" "dst = offset ?bs (length ?bs)" by simp_all
  let ?ns = "map length ?bs @ [0]"
  have len: "4 * (0 + length ?ns) = 4 * (length ?bs + 1)" by simp
  have le: "4 * (length ?bs + 1) \<le> dst" using o1 by (simp add: offset_def)
  have "4 * (0 + length ?ns) \<le> length out'" using le o1 room \<open>length out' = length ?o\<close> by simp
  note t = write_table_form [OF this, unfolded len]
  have "z = take (4 * (length ?bs + 1)) (write_table 0 ?ns out') @ take (dst - 4 * (length ?bs + 1)) (drop (4 * (length ?bs + 1)) (write_table 0 ?ns out'))"
    unfolding z o1(1) using le by (metis le_add_diff_inverse take_add)
  also have "drop (4 * (length ?bs + 1)) (write_table 0 ?ns out') = drop (4 * (length ?bs + 1)) out'" using t by simp
  also have "take (dst - 4 * (length ?bs + 1)) (drop (4 * (length ?bs + 1)) out') = concat ?bs"
    using \<open>drop (4 * (length ?bs + 1)) (take (offset ?bs (length ?bs)) out') = concat ?bs\<close> o1
    by (simp add: drop_take)
  also have "take (4 * (length ?bs + 1)) (write_table 0 ?ns out') = concat (map put_u32 ?ns)" using t by simp
  finally have "z = concat (map put_u32 ?ns) @ concat ?bs" .
  moreover have "map put_u32 (map length bs) = map (\<lambda>b. put_u32 (length b)) bs" for bs :: "bytes list"
    by (induction bs) simp_all
  ultimately show ?thesis by (simp add: packed_form_def del: map_map)
qed

subsection \<open>What Uncompress reads\<close>

lemma read_chunks_table:
  assumes "\<forall>b \<in> set bs. 0 < length b \<and> length b < 2 ^ 32" "r \<noteq> []"
    "inp = p @ concat (map (\<lambda>b. put_u32 (length b)) bs) @ put_u32 0 @ r"
  shows "read_chunks inp (length p) = (map length bs, length p + 4 * (length bs + 1))"
  using assms
proof (induction bs arbitrary: p)
  case Nil
  have "0 < length r" using Nil(2) by simp
  then have "length p + 4 < length inp" using Nil(3) by simp
  moreover have "take 4 (drop (length p) inp) = put_u32 0" using Nil(3) by simp
  ultimately show ?case by (subst read_chunks.simps) (simp add: u32_put)
next
  case (Cons b bs)
  have "0 < length r" using Cons(3) by simp
  then have l: "length p + 4 < length inp" using Cons(4) by simp
  have t: "take 4 (drop (length p) inp) = put_u32 (length b)" using Cons(4) by simp
  have "read_chunks inp (length (p @ put_u32 (length b))) =
      (map length bs, length (p @ put_u32 (length b)) + 4 * (length bs + 1))"
    using Cons by (intro Cons(1)) auto
  with l t Cons(2) show ?case by (subst read_chunks.simps) (simp add: u32_put)
qed

lemma unpack_concat:
  assumes "\<forall>b \<in> set bs. 10 \<le> length b" "inp = p @ concat bs"
  shows "unpack c inp (length p) (map length bs) =
    Inr (concat (map (\<lambda>b. case decode c b of None \<Rightarrow> [] | Some d \<Rightarrow> d) bs))"
  using assms
proof (induction bs arbitrary: p)
  case (Cons b bs)
  have b: "10 \<le> length b" using Cons(2) by simp
  then have "length p < length inp" "length p + 10 \<le> length inp" "length p + length b \<le> length inp"
    using Cons(3) by auto
  moreover have "take (length b) (drop (length p) inp) = b" using Cons(3) by simp
  moreover have "unpack c inp (length (p @ b)) (map length bs) =
      Inr (concat (map (\<lambda>b. case decode c b of None \<Rightarrow> [] | Some d \<Rightarrow> d) bs))"
    using Cons by (intro Cons(1)) auto
  ultimately show ?case by simp
qed simp

lemma Uncompress_packed:
  assumes "bs \<noteq> []" "\<forall>b \<in> set bs. 10 \<le> length b \<and> length b < 2 ^ 32"
  shows "Uncompress c (packed_form bs) =
    Inr (Some (concat (map (\<lambda>b. case decode c b of None \<Rightarrow> [] | Some d \<Rightarrow> d) bs)))"
proof -
  let ?h = "concat (map (\<lambda>b. put_u32 (length b)) bs) @ put_u32 0"
  have ne: "concat bs \<noteq> []" using assms by (cases bs) auto
  have "length ?h = 4 * (length bs + 1)" by (induction bs) auto
  moreover have "read_chunks (packed_form bs) 0 = (map length bs, 4 * (length bs + 1))"
    using read_chunks_table [of bs "concat bs" "packed_form bs" "[]"] assms(2) ne
    by (fastforce simp: packed_form_def)
  moreover have "unpack c (packed_form bs) (length ?h) (map length bs) =
      Inr (concat (map (\<lambda>b. case decode c b of None \<Rightarrow> [] | Some d \<Rightarrow> d) bs))"
    using assms(2) by (intro unpack_concat) (simp_all add: packed_form_def)
  ultimately show ?thesis using assms(1) by (simp add: Uncompress_def add.commute)
qed

lemma take_pieces: "concat (map (\<lambda>i. piece c inp i) [0..<n]) = take (block_size c * n) inp"
proof (induction n)
  case (Suc n)
  have "take (block_size c * Suc n) inp = take (block_size c * n) inp @ piece c inp n"
    using take_add [of "block_size c * n" "block_size c" inp] by (simp add: piece_def add.commute)
  with Suc show ?case by simp
qed simp

lemma all_pieces:
  assumes "0 < block_size c"
  shows "concat (map (\<lambda>i. piece c inp i) [0..<tasks_no c (length inp)]) = inp"
proof -
  let ?q = "length inp div block_size c"
  have "length inp < (?q + 1) * block_size c"
    using assms by (metis Suc_eq_plus1 dividend_less_div_times mult_Suc add.commute)
  then have "length inp \<le> block_size c * tasks_no c (length inp)"
    by (auto simp: tasks_no_def Let_def mult.commute algebra_simps)
  then show ?thesis by (simp add: take_pieces)
qed

text \<open>What a codec owes the block compressor: it gives back every block it was given.\<close>

locale block_codec =
  fixes c :: cpr
  assumes block_size_pos: "0 < block_size c"
    and decode_encode: "length d \<le> block_size c \<Longrightarrow> decode c (encode c d) = Some d"
begin

lemma blocks_decoded:
  "concat (map (\<lambda>b. case decode c b of None \<Rightarrow> [] | Some d \<Rightarrow> d) (blocks c inp)) = inp"
proof (cases "length inp < block_size c")
  case True
  then show ?thesis by (simp add: blocks_def decode_encode)
next
  case False
  have "length (piece c inp i) \<le> block_size c" for i by (simp add: piece_def)
  with False show ?thesis using all_pieces [OF block_size_pos, of inp] by (simp add: blocks_def o_def decode_encode)
qed

lemma blocks_not_empty: "blocks c inp \<noteq> []"
  using block_size_pos by (auto simp: blocks_def tasks_no_def Let_def div_greater_zero_iff)

lemma blocks_small:
  assumes "Compress c inp out = Inr (Some z)" "length out < 2 ^ 32" "length inp < 2 ^ 32" "b \<in> set (blocks c inp)"
  shows "length b < 2 ^ 32"
proof (cases "length inp < block_size c")
  case True
  with assms(1) have "fastpath c inp out = Inr (Some z)" by (simp add: Compress_def)
  then have "length (encode c inp) \<le> length out - 8"
    by (auto simp: fastpath_def compress_piece_def Let_def split: if_splits option.splits)
  with True assms(2,4) show ?thesis by (simp add: blocks_def)
next
  case False
  with multi_cases [OF assms(1) block_size_pos] assms(3,4) show ?thesis by (auto intro: le_less_trans)
qed

lemma pack_round_trip:
  assumes "Compress c inp out = Inr (Some z)" "length out < 2 ^ 32" "length inp < 2 ^ 32"
    "\<forall>b \<in> set (blocks c inp). 10 \<le> length b" "moves_safe c (blocks c inp)"
  shows "Uncompress c z = Inr (Some inp)"
  using Uncompress_packed [of "blocks c inp" c] blocks_small [OF assms(1-3)] assms(4) blocks_decoded blocks_not_empty
    Compress_form [OF assms(1) block_size_pos assms(5)]
  by simp

end

text \<open>The block compressor loses nothing: what \<open>Compress\<close> returns, \<open>Uncompress\<close> turns back into the
  data, as long as the codec inverts itself on the blocks, no compressed block is shorter than the
  ten bytes the trace line prints, and no chunk is moved over one that has not been moved yet.\<close>

theorem compress_round_trip:
  assumes "Compress c inp out = Inr (Some z)" "0 < block_size c" "length out < 2 ^ 32" "length inp < 2 ^ 32"
    "\<forall>d. length d \<le> block_size c \<longrightarrow> decode c (encode c d) = Some d" "\<forall>b \<in> set (blocks c inp). 10 \<le> length b"
    "moves_safe c (blocks c inp)"
  shows "Uncompress c z = Inr (Some inp)"
  using assms by (intro block_codec.pack_round_trip) (auto simp: block_codec_def)

text \<open>Without the last condition the data is damaged. With two blocks whose first chunk leaves fewer
  than the 12 bytes of the table free in its block, moving it overwrites the beginning of the
  second chunk before that is moved, and the result is returned as if it were good.\<close>

theorem compress_overwrites_chunk:
  assumes "Compress c inp out = Inr (Some z)" "0 < block_size c" "blocks c inp = [b0, b1]"
    "12 + length b0 = block_size c + k" "k \<le> length b0" "k \<le> length b1"
  shows "drop 12 z = b0 @ drop (length b0 - k) b0 @ drop k b1"
proof -
  let ?S = "block_size c"
  have ge: "?S \<le> length inp" using assms(3) by (cases "length inp < ?S") (simp_all add: blocks_def)
  define o0 where "o0 = write_pieces c 0 [b0, b1] out"
  from multi_cases [OF assms(1,2) ge, unfolded assms(3)] obtain out1 dst where
    at: "pieces_at c 0 [b0, b1] o0"
    and m: "merge_chunks c 0 [length b0, length b1] 12 o0 = Inr (out1, dst)"
    and z: "z = take dst (write_table 0 [length b0, length b1, 0] out1)"
    by (auto simp: o0_def numeral_3_eq_3)
  have b0: "take (length b0) o0 = b0" "length b0 \<le> length o0"
    and b1: "take (length b1) (drop ?S o0) = b1" "?S + length b1 \<le> length o0"
    using at unfolding pieces_at_def by (force dest: spec [of _ 0], force dest: spec [of _ 0],
      force dest: spec [of _ "Suc 0"], force dest: spec [of _ "Suc 0"])
  from m have fit: "12 + length b0 \<le> length o0" "12 + length b0 + length b1 \<le> length o0"
    and dst: "dst = 12 + length b0 + length b1"
    and o1: "out1 = write_at (write_at o0 12 b0) (12 + length b0) (take (length b1) (drop ?S (write_at o0 12 b0)))"
    using b0 by (auto split: if_splits)
  have w: "write_at o0 12 b0 = take 12 o0 @ b0 @ drop (12 + length b0) o0" by (simp add: write_at_def)
  have "drop ?S (write_at o0 12 b0) = drop (length b0 - k) b0 @ drop (12 + length b0) o0"
  proof -
    have "?S = 12 + (length b0 - k)" using assms(4,5) by simp
    then show ?thesis using fit by (simp add: w)
  qed
  moreover have "take (length b1 - k) (drop (12 + length b0) o0) = drop k b1"
    using arg_cong [OF b1(1), of "drop k"] assms(4) by (simp add: drop_take add.commute)
  ultimately have c1: "take (length b1) (drop ?S (write_at o0 12 b0)) = drop (length b0 - k) b0 @ drop k b1"
    using assms(5,6) by simp
  have l1: "length (drop (length b0 - k) b0 @ drop k b1) = length b1" using assms(5,6) by simp
  have "take dst out1 = take 12 o0 @ b0 @ drop (length b0 - k) b0 @ drop k b1"
  proof -
    let ?c = "drop (length b0 - k) b0 @ drop k b1" and ?w = "write_at o0 12 b0"
    have "take (12 + length b0 + length ?c) (write_at ?w (12 + length b0) ?c) = take (12 + length b0) ?w @ ?c"
      using fit by (intro take_write_at_end) simp
    moreover have "take (12 + length b0) ?w = take 12 o0 @ b0" using fit by (intro take_write_at_end) simp
    ultimately show ?thesis unfolding o1 c1 dst l1 by simp
  qed
  moreover have "drop 12 z = drop 12 (take dst out1)"
  proof -
    have "length out1 = length o0" using merge_bound [OF m] by simp
    then have "4 * (0 + length [length b0, length b1, 0]) \<le> length out1" using fit by simp
    from write_table_form [OF this] have "drop 12 (write_table 0 [length b0, length b1, 0] out1) = drop 12 out1"
      by simp
    then show ?thesis unfolding z by (simp add: drop_take)
  qed
  ultimately show ?thesis using fit by simp
qed

subsection \<open>Witnesses\<close>

text \<open>A codec that only compresses the block of thirty \<open>a\<close>, and one that leaves a first block almost as
  long as it was.\<close>

definition run_cpr :: cpr where
  "run_cpr = \<lparr>block_size = 30, get_id = ''run'',
     encode = (\<lambda>d. if d = replicate 30 CHR ''a'' then replicate 10 CHR ''z'' else CHR ''y'' # d),
     decode = (\<lambda>b. case b of [] \<Rightarrow> None | x # r \<Rightarrow> Some (if x = CHR ''y'' then r else replicate 30 CHR ''a''))\<rparr>"

definition tight_cpr :: cpr where
  "tight_cpr = \<lparr>block_size = 30, get_id = ''tight'',
     encode = (\<lambda>d. take (if hd d = CHR ''a'' then 20 else 10) d), decode = (\<lambda>b. Some b)\<rparr>"

definition room :: bytes where
  "room = replicate 60 CHR '' ''"

definition run_data :: bytes where
  "run_data = replicate 60 CHR ''a''"

definition tight_data :: bytes where
  "tight_data = replicate 30 CHR ''a'' @ ''0123456789'' @ replicate 20 CHR ''-''"

lemma ratio_of_30: "\<not> poor_ratio 20 60" "\<not> poor_ratio 30 60"
  by code_simp+

lemma run_blocks: "blocks run_cpr run_data = [replicate 10 CHR ''z'', replicate 10 CHR ''z'']"
  by code_simp

lemma tight_blocks: "blocks tight_cpr tight_data = [replicate 20 CHR ''a'', ''0123456789'']"
  by code_simp

lemma run_pieces:
  "those (map (\<lambda>i. compress_piece run_cpr (piece run_cpr run_data i) (length (piece run_cpr run_data i))) [0..<2]) =
     Some [replicate 10 CHR ''z'', replicate 10 CHR ''z'']"
  by code_simp

lemma tight_pieces:
  "those (map (\<lambda>i. compress_piece tight_cpr (piece tight_cpr tight_data i) (length (piece tight_cpr tight_data i))) [0..<2]) =
     Some [replicate 20 CHR ''a'', ''0123456789'']"
  by code_simp

text \<open>Two blocks that compress well enough always give a result.\<close>

lemma Compress_two:
  assumes "0 < block_size c" "length inp = 2 * block_size c" "length out = length inp"
    "those (map (\<lambda>i. compress_piece c (piece c inp i) (length (piece c inp i))) [0..<2]) = Some [b0, b1]"
    "\<not> poor_ratio (length b0 + length b1) (length inp)"
    "length b0 \<le> block_size c" "length b1 \<le> block_size c" "12 + length b0 + length b1 \<le> length out"
  shows "\<exists>z. Compress c inp out = Inr (Some z)"
proof -
  have t: "tasks_no c (length inp) = 2" using assms(1,2) by (simp add: tasks_no_def)
  have "\<not> poor_ratio (sum_list (map length [b0, b1] @ [0])) (length inp)" using assms(5) by simp
  then have "Compress c inp out = go_bind (merge_chunks c 0 (map length [b0, b1]) (4 * 3) (write_pieces c 0 [b0, b1] out))
      (\<lambda>(out1, dst). Inr (Some (take dst (write_table 0 (map length [b0, b1] @ [0]) out1))))"
    using assms(1-3) unfolding Compress_def t Let_def assms(4) by (simp add: numeral_3_eq_3)
  moreover have "length (write_pieces c 0 [b0, b1] out) = length out" using assms(2,3,6,7) by simp
  moreover from this have "\<exists>out1 dst. merge_chunks c 0 (map length [b0, b1]) (4 * 3) (write_pieces c 0 [b0, b1] out) = Inr (out1, dst)"
    using assms(2,3,6,7,8) by (simp del: write_pieces.simps)
  ultimately show ?thesis by (auto simp: go_bind_def simp del: merge_chunks.simps write_pieces.simps)
qed

lemma run_compressed: "\<exists>z. Compress run_cpr run_data room = Inr (Some z)"
  by (rule Compress_two [OF _ _ _ run_pieces])
    (simp_all add: run_cpr_def run_data_def room_def ratio_of_30)

lemma tight_compressed: "\<exists>z. Compress tight_cpr tight_data room = Inr (Some z)"
  by (rule Compress_two [OF _ _ _ tight_pieces])
    (simp_all add: tight_cpr_def tight_data_def room_def ratio_of_30)

lemma compress_round_trip_witness:
  "\<exists>z. Compress run_cpr run_data room = Inr (Some z) \<and> Uncompress run_cpr z = Inr (Some run_data)"
proof -
  from run_compressed obtain z where z: "Compress run_cpr run_data room = Inr (Some z)" by blast
  have "moves_safe run_cpr (blocks run_cpr run_data)"
    unfolding run_blocks by (auto simp: moves_safe_def offset_def run_cpr_def less_Suc_eq)
  moreover have "\<forall>d. length d \<le> block_size run_cpr \<longrightarrow> decode run_cpr (encode run_cpr d) = Some d" by (simp add: run_cpr_def numeral_eq_Suc)
  moreover have "0 < block_size run_cpr" by (simp add: run_cpr_def)
  moreover have "length room < 2 ^ 32" "length run_data < 2 ^ 32" by (simp_all add: room_def run_data_def)
  moreover have "\<forall>b \<in> set (blocks run_cpr run_data). 10 \<le> length b" by (simp add: run_blocks)
  ultimately have "Uncompress run_cpr z = Inr (Some run_data)" by (intro compress_round_trip [OF z])
  with z show ?thesis by blast
qed

lemma compress_overwrites_chunk_witness:
  "\<exists>z. Compress tight_cpr tight_data room = Inr (Some z) \<and>
     drop 12 z = replicate 20 CHR ''a'' @ ''aa'' @ ''23456789''"
proof -
  from tight_compressed obtain z where z: "Compress tight_cpr tight_data room = Inr (Some z)" by blast
  from compress_overwrites_chunk [OF z _ tight_blocks, of 2] have
    "drop 12 z = replicate 20 CHR ''a'' @ drop 18 (replicate 20 CHR ''a'') @ drop 2 ''0123456789''"
    by (simp add: tight_cpr_def)
  with z show ?thesis by (auto simp: numeral_2_eq_2)
qed

end
