(* ===== verification/Snappy.thy ===== *)
theory Snappy
  imports HSParams
begin

text \<open>
  The block format of the \<open>snappy\<close> package in \<open>handler_socket2/compress/snappy\<close>, as the block compressor
  uses it: \<open>Encode\<close> and \<open>MaxEncodedLen\<close> (\<open>encode.go\<close>), the encoder of a block (\<open>encode_other.go\<close>), \<open>Decode\<close>
  and \<open>DecodedLen\<close> (\<open>decode.go\<close>) and the decoder (\<open>decode_other.go\<close>), all in their portable versions (the
  assembly of one architecture does the same) on a machine with 64-bit integers. Shifts and masks are
  divisions and remainders. What is written to \<open>dst\<close> is a list that grows; that it fits is proved with
  the correctness of the codec.
\<close>

abbreviation code :: "char \<Rightarrow> nat" where
  "code c \<equiv> of_char c"

subsection \<open>Variable-length integers\<close>

text \<open>\<open>binary.PutUvarint\<close> and \<open>binary.Uvarint\<close>; the latter gives the value and the rest.\<close>

fun put_uvarint :: "nat \<Rightarrow> string" where
  "put_uvarint n = (if n < 128 then [byte n] else byte (n mod 128 + 128) # put_uvarint (n div 128))"

declare put_uvarint.simps [simp del]

fun uvarint :: "nat \<Rightarrow> string \<Rightarrow> (nat \<times> string) option" where
  "uvarint i [] = None"
| "uvarint i (c # cs) =
     (if i = 10 then None
      else if code c < 128 then (if i = 9 \<and> code c > 1 then None else Some (code c, cs))
      else map_option (\<lambda>(v, r). (code c - 128 + 128 * v, r)) (uvarint (i + 1) cs))"

subsection \<open>Decoding\<close>

datatype snappy_error = ErrCorrupt

definition decodedLen :: "string \<Rightarrow> snappy_error + nat \<times> string" where
  "decodedLen src =
     (case uvarint 0 src of
        None \<Rightarrow> Inl ErrCorrupt
      | Some (v, r) \<Rightarrow> if v > 0xffffffff then Inl ErrCorrupt else Inr (v, r))"

text \<open>The copy of an overlapping slice runs forwards, byte by byte.\<close>

fun forward_copy :: "nat \<Rightarrow> nat \<Rightarrow> string \<Rightarrow> string" where
  "forward_copy 0 offset dst = dst"
| "forward_copy (Suc n) offset dst = forward_copy n offset (dst @ [dst ! (length dst - offset)])"

text \<open>One element: a literal or a copy, with what is left of the source.\<close>

datatype element = Literal nat string | CopyBack nat nat string

definition read_element :: "string \<Rightarrow> element option" where
  "read_element src =
     (let t = code (src ! 0); m = t div 4; at = (\<lambda>i. code (src ! i))
      in if t mod 4 = 0 then
           (if m < 60 then Some (Literal (m + 1) (drop 1 src))
            else if m = 60 then
              (if length src < 2 then None else Some (Literal (at 1 + 1) (drop 2 src)))
            else if m = 61 then
              (if length src < 3 then None else Some (Literal (at 1 + 256 * at 2 + 1) (drop 3 src)))
            else if m = 62 then
              (if length src < 4 then None
               else Some (Literal (at 1 + 256 * at 2 + 65536 * at 3 + 1) (drop 4 src)))
            else
              (if length src < 5 then None
               else Some (Literal (at 1 + 256 * at 2 + 65536 * at 3 + 16777216 * at 4 + 1) (drop 5 src))))
         else if t mod 4 = 1 then
           (if length src < 2 then None
            else Some (CopyBack (t div 32 * 256 + at 1) (4 + t div 4 mod 8) (drop 2 src)))
         else if t mod 4 = 2 then
           (if length src < 3 then None else Some (CopyBack (at 1 + 256 * at 2) (1 + m) (drop 3 src)))
         else
           (if length src < 5 then None
            else Some (CopyBack (at 1 + 256 * at 2 + 65536 * at 3 + 16777216 * at 4) (1 + m) (drop 5 src))))"

definition copy_back :: "nat \<Rightarrow> nat \<Rightarrow> string \<Rightarrow> string" where
  "copy_back offset len dst =
     (if offset \<ge> len then dst @ take len (drop (length dst - offset) dst) else forward_copy len offset dst)"

lemma read_element_shorter:
  "src \<noteq> [] \<Longrightarrow> read_element src = Some (Literal n r) \<Longrightarrow> length r < length src"
  "src \<noteq> [] \<Longrightarrow> read_element src = Some (CopyBack off n r) \<Longrightarrow> length r < length src"
  by (auto simp: read_element_def Let_def split: if_splits)

text \<open>The decoder: \<open>dLen\<close> is the length of \<open>dst\<close>, of which \<open>dst\<close> is the part written.\<close>

function decode_block :: "nat \<Rightarrow> string \<Rightarrow> string \<Rightarrow> snappy_error + string" where
  "decode_block dLen dst src =
     (if src = [] then (if length dst \<noteq> dLen then Inl ErrCorrupt else Inr dst)
      else case read_element src of
        None \<Rightarrow> Inl ErrCorrupt
      | Some (Literal len r) \<Rightarrow>
          if len > dLen - length dst \<or> len > length r then Inl ErrCorrupt
          else decode_block dLen (dst @ take len r) (drop len r)
      | Some (CopyBack offset len r) \<Rightarrow>
          if offset \<le> 0 \<or> length dst < offset \<or> len > dLen - length dst then Inl ErrCorrupt
          else decode_block dLen (copy_back offset len dst) r)"
  by pat_completeness auto
termination
proof (relation "measure (\<lambda>(dLen, dst, src). length src)", goal_cases)
  case (2 dLen dst src x len r)
  then show ?case using read_element_shorter(1) [of src len r] by simp
next
  case (3 dLen dst src x offset len r)
  then show ?case using read_element_shorter(2) [of src offset len r] by simp
qed simp

declare decode_block.simps [simp del]

definition Decode :: "string \<Rightarrow> snappy_error + string" where
  "Decode src =
     (case decodedLen src of
        Inl e \<Rightarrow> Inl e
      | Inr (dLen, r) \<Rightarrow> decode_block dLen [] r)"

subsection \<open>Encoding\<close>

definition MaxEncodedLen :: "nat \<Rightarrow> nat option" where
  "MaxEncodedLen n =
     (if n > 0xffffffff then None
      else (let m = 32 + n + n div 6 in if m > 0xffffffff then None else Some m))"

definition emitLiteral :: "string \<Rightarrow> string" where
  "emitLiteral lit =
     (let n = length lit - 1
      in (if n < 60 then [byte (n * 4)]
          else if n < 256 then [byte (60 * 4), byte n]
          else [byte (61 * 4), byte n, byte (n div 256)]) @ lit)"

definition emit_copy2 :: "nat \<Rightarrow> nat \<Rightarrow> string" where
  "emit_copy2 m offset = [byte (m * 4 + 2), byte offset, byte (offset div 256)]"

fun emitCopy :: "nat \<Rightarrow> nat \<Rightarrow> string" where
  "emitCopy offset len =
     (if len \<ge> 68 then emit_copy2 63 offset @ emitCopy offset (len - 64)
      else
        (let (pre, len') = (if len > 64 then (emit_copy2 59 offset, len - 60) else ([], len))
         in pre @ (if len' \<ge> 12 \<or> offset \<ge> 2048 then emit_copy2 (len' - 1) offset
                   else [byte (offset div 256 * 32 + (len' - 4) * 4 + 1), byte offset])))"

declare emitCopy.simps [simp del]

definition load32 :: "string \<Rightarrow> nat \<Rightarrow> nat" where
  "load32 b i = u32 (take 4 (drop i b))"

function extendMatch :: "string \<Rightarrow> nat \<Rightarrow> nat \<Rightarrow> nat" where
  "extendMatch src i j = (if j < length src \<and> src ! i = src ! j then extendMatch src (i + 1) (j + 1) else j)"
  by auto
termination by (relation "measure (\<lambda>(src, i, j). length src - j)") auto

declare extendMatch.simps [simp del]

definition hash :: "nat \<Rightarrow> nat \<Rightarrow> nat" where
  "hash u shift = (u * 0x1e35a7bd) mod 2 ^ 32 div 2 ^ shift"

text \<open>The hash table, an array of \<open>2 ^ 14\<close> 16-bit integers.\<close>

type_synonym table = "nat \<Rightarrow> nat"

definition table_set :: "table \<Rightarrow> nat \<Rightarrow> nat \<Rightarrow> table" where
  "table_set t h s = t(h mod 16384 := s mod 65536)"

definition table_get :: "table \<Rightarrow> nat \<Rightarrow> nat" where
  "table_get t h = t (h mod 16384)"

function hash_shift :: "nat \<Rightarrow> nat \<Rightarrow> nat \<Rightarrow> nat" where
  "hash_shift len table_size shift =
     (if table_size < 16384 \<and> table_size < len \<and> 0 < table_size then hash_shift len (2 * table_size) (shift - 1)
      else shift)"
  by auto
termination by (relation "measure (\<lambda>(len, table_size, shift). 16384 - table_size)") auto

declare hash_shift.simps [simp del]

text \<open>The search for a match: \<open>None\<close> when the end comes near, else the position, the candidate and the
  table. \<open>skip\<close> starts at 32; here it is counted from there.\<close>

function find_match :: "string \<Rightarrow> nat \<Rightarrow> nat \<Rightarrow> nat \<Rightarrow> nat \<Rightarrow> nat \<Rightarrow> table \<Rightarrow> (nat \<times> nat \<times> table) option" where
  "find_match src shift sLimit s skip nextHash t =
     (let between = (32 + skip) div 32; nextS = s + between
      in if nextS > sLimit then None
         else
           (let candidate = table_get t nextHash; t' = table_set t nextHash s
            in if load32 src s = load32 src candidate then Some (s, candidate, t')
               else find_match src shift sLimit nextS (skip + between) (hash (load32 src nextS) shift) t'))"
  by auto
termination by (relation "measure (\<lambda>(src, shift, sLimit, s, skip, nextHash, t). sLimit - s)") (auto simp: Let_def)

declare find_match.simps [simp del]

lemma extendMatch_ge: "j \<le> extendMatch src i j"
  by (induction src i j rule: extendMatch.induct) (subst extendMatch.simps, auto)

lemma extendMatch_le: "j \<le> length src \<Longrightarrow> extendMatch src i j \<le> length src"
  by (induction src i j rule: extendMatch.induct) (subst extendMatch.simps, auto)

text \<open>The copies that follow each other: what they emit, where the next literal starts, and where and
  with which hash and table the search goes on, unless the end is near. The 64-bit load gives the
  words at \<open>s - 1\<close>, \<open>s\<close> and \<open>s + 1\<close>.\<close>

function emit_copies ::
  "string \<Rightarrow> nat \<Rightarrow> nat \<Rightarrow> nat \<Rightarrow> nat \<Rightarrow> table \<Rightarrow> string \<Rightarrow> string \<times> nat \<times> (nat \<times> nat \<times> table) option" where
  "emit_copies src shift sLimit base candidate t out =
     (let s = extendMatch src (candidate + 4) (base + 4);
          out' = out @ emitCopy (base - candidate) (s - base)
      in if s \<ge> sLimit then (out', s, None)
         else
           (let t1 = table_set t (hash (load32 src (s - 1)) shift) (s - 1);
                currHash = hash (load32 src s) shift;
                candidate' = table_get t1 currHash;
                t2 = table_set t1 currHash s
            in if load32 src s \<noteq> load32 src candidate'
               then (out', s, Some (s + 1, hash (load32 src (s + 1)) shift, t2))
               else emit_copies src shift sLimit s candidate' t2 out'))"
  by auto
termination
proof (relation "measure (\<lambda>(src, shift, sLimit, base, candidate, t, out). sLimit - base)", goal_cases)
  case (2 src shift sLimit base candidate t out s)
  then show ?case using extendMatch_ge [of "base + 4" src "candidate + 4"] by simp
qed simp

declare emit_copies.simps [simp del]

lemma emit_copies_beyond:
  "emit_copies src shift sLimit base candidate t out = (out', ne, Some (s, h, t')) \<Longrightarrow> base < s \<and> ne + 1 = s \<and> ne < sLimit"
proof (induction src shift sLimit base candidate t out rule: emit_copies.induct)
  case (1 src shift sLimit base candidate t out)
  let ?s = "extendMatch src (candidate + 4) (base + 4)"
  have ge: "base + 4 \<le> ?s" by (rule extendMatch_ge)
  from 1(2) show ?case
    by (subst (asm) emit_copies.simps) (use ge 1(1) in \<open>fastforce simp: Let_def split: if_splits\<close>)
qed

lemma find_match_ge: "find_match src shift sLimit s skip h t = Some (s', c, t') \<Longrightarrow> s \<le> s' \<and> s' < sLimit"
proof (induction src shift sLimit s skip h t rule: find_match.induct)
  case (1 src shift sLimit s skip nextHash t)
  from 1(2) show ?case
    by (subst (asm) find_match.simps) (use 1(1) in \<open>fastforce simp: Let_def split: if_splits\<close>)
qed

text \<open>The main loop; it gives the output and where the last literal starts.\<close>

function encode_loop :: "string \<Rightarrow> nat \<Rightarrow> nat \<Rightarrow> nat \<Rightarrow> nat \<Rightarrow> table \<Rightarrow> nat \<Rightarrow> string \<Rightarrow> string \<times> nat" where
  "encode_loop src shift sLimit s nextHash t nextEmit out =
     (case find_match src shift sLimit s 0 nextHash t of
        None \<Rightarrow> (out, nextEmit)
      | Some (base, candidate, t') \<Rightarrow>
          (case emit_copies src shift sLimit base candidate t'
                  (out @ emitLiteral (take (base - nextEmit) (drop nextEmit src))) of
             (out', nextEmit', None) \<Rightarrow> (out', nextEmit')
           | (out', nextEmit', Some (s', h', t'')) \<Rightarrow> encode_loop src shift sLimit s' h' t'' nextEmit' out'))"
  by pat_completeness auto
termination
  by (relation "measure (\<lambda>(src, shift, sLimit, s, nextHash, t, nextEmit, out). sLimit + 1 - s)")
    (auto dest!: find_match_ge emit_copies_beyond dest: sym)

declare encode_loop.simps [simp del]

definition encodeBlock :: "string \<Rightarrow> string" where
  "encodeBlock src =
     (let shift = hash_shift (length src) 256 24;
          (out, nextEmit) = encode_loop src shift (length src - 15) 1 (hash (load32 src 1) shift) (\<lambda>_. 0) 0 []
      in if nextEmit < length src then out @ emitLiteral (drop nextEmit src) else out)"

text \<open>The blocks of the input; a short one is one literal.\<close>

function encode_blocks :: "string \<Rightarrow> string" where
  "encode_blocks src =
     (if src = [] then []
      else
        (let p = take 65536 src
         in (if length p < 17 then emitLiteral p else encodeBlock p) @ encode_blocks (drop 65536 src)))"
  by auto
termination by (relation "measure length") auto

declare encode_blocks.simps [simp del]

definition Encode :: "string \<Rightarrow> string go" where
  "Encode src =
     (case MaxEncodedLen (length src) of
        None \<Rightarrow> Inl (ExplicitPanic ''snappy: decoded block is too large'')
      | Some n \<Rightarrow> Inr (put_uvarint (length src) @ encode_blocks src))"

end
