(* ===== verification/SnappyCorrect.thy ===== *)
theory SnappyCorrect
  imports Snappy
begin

text \<open>
  The snappy codec is lossless and its output fits the buffer it computes. The encoder's choices (hash
  table, skipping) only decide which matches are found; what is emitted for any match it takes decodes
  to the bytes matched.
\<close>

subsection \<open>Bytes\<close>

lemma code_byte [simp]: "code (byte n) = n mod 256"
  by (simp add: byte_def)

lemma code_less [simp]: "code c < 256"
  by (metis of_char_mod_256 mod_less_divisor zero_less_numeral)

lemma low_byte:
  "(a::nat) < 256 \<Longrightarrow> b < 256 \<Longrightarrow> a + 256 * m = b + 256 * n \<longleftrightarrow> a = b \<and> m = n"
proof
  assume "a < 256" "b < 256" "a + 256 * m = b + 256 * n"
  then have "(a + 256 * m) mod 256 = (b + 256 * n) mod 256" by simp
  with \<open>a < 256\<close> \<open>b < 256\<close> have "a = b" by simp
  with \<open>a + 256 * m = b + 256 * n\<close> show "a = b \<and> m = n" by simp
qed simp

lemma two_bytes: "n < 65536 \<Longrightarrow> n mod 256 + 256 * (n div 256 mod 256) = (n::nat)"
proof -
  assume "n < 65536"
  then have "n div 256 mod 256 = n div 256" by simp
  then show ?thesis by simp
qed

lemma uvarint_put: "n < 128 ^ (9 - i) \<Longrightarrow> i \<le> 8 \<Longrightarrow> uvarint i (put_uvarint n @ r) = Some (n, r)"
proof (induction n arbitrary: i rule: put_uvarint.induct)
  case (1 n)
  show ?case
  proof (cases "n < 128")
    case True
    with 1(3) show ?thesis by (subst put_uvarint.simps) simp
  next
    case False
    with 1(2,3) have i: "i \<le> 7" by (cases "i = 8") auto
    then have "9 - i = Suc (9 - (i + 1))" by simp
    with 1(2) have "n div 128 < 128 ^ (9 - (i + 1))" by (simp add: less_mult_imp_div_less mult.commute)
    with 1(1) [OF False, of "i + 1"] i have "uvarint (i + 1) (put_uvarint (n div 128) @ r) = Some (n div 128, r)" by simp
    with False i show ?thesis by (subst put_uvarint.simps) simp
  qed
qed

lemma u32_inj:
  assumes "length a = 4" "length b = 4" "u32 a = u32 b"
  shows "a = b"
proof -
  obtain a0 a1 a2 a3 where a: "a = [a0, a1, a2, a3]"
    using assms(1) by (auto simp: numeral_eq_Suc length_Suc_conv)
  obtain b0 b1 b2 b3 where b: "b = [b0, b1, b2, b3]"
    using assms(2) by (auto simp: numeral_eq_Suc length_Suc_conv)
  have u: "u32 [c0, c1, c2, c3] = code c0 + 256 * (code c1 + 256 * (code c2 + 256 * code c3))" for c0 c1 c2 c3
    by (simp add: u32_def)
  have "code a0 = code b0 \<and> code a1 = code b1 \<and> code a2 = code b2 \<and> code a3 = code b3"
    using assms(3) unfolding a b u by (simp only: low_byte [OF code_less code_less])
  then show ?thesis by (simp add: a b)
qed

subsection \<open>Copies\<close>

lemma length_forward_copy [simp]: "length (forward_copy n off dst) = length dst + n"
  by (induction n off dst rule: forward_copy.induct) simp_all

lemma forward_copy_add: "forward_copy (m + n) off dst = forward_copy n off (forward_copy m off dst)"
  by (induction m off dst rule: forward_copy.induct) simp_all

lemma forward_copy_apart:
  "n \<le> off \<Longrightarrow> off \<le> length dst \<Longrightarrow> forward_copy n off dst = dst @ take n (drop (length dst - off) dst)"
proof (induction n)
  case (Suc n)
  then have "forward_copy (Suc n) off dst = forward_copy 1 off (dst @ take n (drop (length dst - off) dst))"
    using forward_copy_add [of n 1 off dst] by simp
  also have "\<dots> = dst @ take n (drop (length dst - off) dst) @ [dst ! (length dst - off + n)]"
    using Suc(2,3) by (simp add: nth_append)
  also have "\<dots> = dst @ take (Suc n) (drop (length dst - off) dst)"
    using Suc(2,3) by (simp add: take_Suc_conv_app_nth)
  finally show ?case .
qed simp

lemma copy_back_forward: "off \<le> length dst \<Longrightarrow> copy_back off n dst = forward_copy n off dst"
  by (simp add: copy_back_def forward_copy_apart)

text \<open>The bytes at \<open>c\<close> repeat at \<open>s\<close>.\<close>

definition repeats :: "string \<Rightarrow> nat \<Rightarrow> nat \<Rightarrow> nat \<Rightarrow> bool" where
  "repeats src c s n \<longleftrightarrow> s + n \<le> length src \<and> (\<forall>i < n. src ! (c + i) = src ! (s + i))"

lemma forward_copy_repeats:
  "repeats src c s n \<Longrightarrow> c < s \<Longrightarrow> forward_copy n (s - c) (p @ take s src) = p @ take (s + n) src"
proof (induction n arbitrary: c s)
  case (Suc n)
  then have s: "s < length src" "src ! c = src ! s" by (auto simp: repeats_def)
  have "(p @ take s src) ! (length (p @ take s src) - (s - c)) = src ! c"
    using Suc(3) s(1) by (simp add: nth_append)
  then have "forward_copy (Suc n) (s - c) (p @ take s src) = forward_copy n (s - c) (p @ take (Suc s) src)"
    using s by (simp add: take_Suc_conv_app_nth)
  moreover have "repeats src (Suc c) (Suc s) n" using Suc(2) by (auto simp: repeats_def)
  ultimately show ?case using Suc(1) [of "Suc c" "Suc s"] Suc(3) by simp
qed simp

lemma load32_repeats:
  assumes "load32 src c = load32 src s" "c \<le> s" "s + 4 \<le> length src"
  shows "repeats src c s 4"
proof -
  have "take 4 (drop c src) = take 4 (drop s src)"
    using assms by (intro u32_inj) (simp_all add: load32_def)
  then have e: "take 4 (drop c src) ! i = take 4 (drop s src) ! i" for i by simp
  have "src ! (c + i) = src ! (s + i)" if "i < 4" for i
    using e [of i] that assms(2,3) by simp
  with assms(3) show ?thesis by (simp add: repeats_def)
qed

lemma extendMatch_repeats:
  assumes "i < j" "j \<le> length src"
  shows "repeats src i j (extendMatch src i j - j)"
  using assms
proof (induction src i j rule: extendMatch.induct)
  case (1 src i j)
  show ?case
  proof (cases "j < length src \<and> src ! i = src ! j")
    case True
    let ?k = "extendMatch src (i + 1) (j + 1)"
    have e: "extendMatch src i j = ?k" using True by (subst extendMatch.simps) simp
    have k: "j + 1 \<le> ?k" by (rule extendMatch_ge)
    have "repeats src (i + 1) (j + 1) (?k - (j + 1))" using 1 True by simp
    then have "src ! (i + n) = src ! (j + n)" if "n < ?k - j" for n
      using that True by (cases n) (auto simp: repeats_def)
    moreover have "?k \<le> length src" using True by (intro extendMatch_le) simp
    ultimately show ?thesis using k by (simp add: e repeats_def)
  next
    case False
    then have "extendMatch src i j = j" using extendMatch.simps [of src i j] by auto
    with 1(3) show ?thesis by (simp add: repeats_def)
  qed
qed

lemma repeats_append: "repeats src c s m \<Longrightarrow> repeats src (c + m) (s + m) n \<Longrightarrow> repeats src c s (m + n)"
  unfolding repeats_def
  by (auto simp: add.assoc) (metis add.assoc add_diff_inverse_nat nat_add_left_cancel_less)

subsection \<open>What the emitted elements decode to\<close>

lemma decode_literal:
  assumes "read_element (h @ l @ r) = Some (Literal (length l) (l @ r))" "length dst + length l \<le> dLen" "h \<noteq> []"
  shows "decode_block dLen dst (h @ l @ r) = decode_block dLen (dst @ l) r"
proof -
  have "\<not> dLen - length dst < length l" using assms(2) by linarith
  then show ?thesis using assms(1,3) by (subst decode_block.simps) simp
qed

lemma decode_emitLiteral:
  assumes "0 < length l" "length l \<le> 65536" "length dst + length l \<le> dLen"
  shows "decode_block dLen dst (emitLiteral l @ r) = decode_block dLen (dst @ l) r"
proof -
  let ?n = "length l - 1"
  have "?n < 60 \<or> 60 \<le> ?n \<and> ?n < 256 \<or> 256 \<le> ?n \<and> ?n < 65536" using assms(2) by linarith
  then show ?thesis
  proof (elim disjE)
    assume n: "?n < 60"
    then have "read_element ([byte (?n * 4)] @ l @ r) = Some (Literal (length l) (l @ r))"
      using assms(1) by (simp add: read_element_def Let_def)
    from decode_literal [OF this assms(3)] n show ?thesis by (simp add: emitLiteral_def Let_def)
  next
    assume n: "60 \<le> ?n \<and> ?n < 256"
    then have "read_element ([byte (60 * 4), byte ?n] @ l @ r) = Some (Literal (length l) (l @ r))"
      using assms(1) by (simp add: read_element_def Let_def)
    from decode_literal [OF this assms(3)] n show ?thesis by (simp add: emitLiteral_def Let_def)
  next
    assume n: "256 \<le> ?n \<and> ?n < 65536"
    then have "read_element ([byte (61 * 4), byte ?n, byte (?n div 256)] @ l @ r) = Some (Literal (length l) (l @ r))"
      using assms(1) two_bytes [of ?n] by (simp add: read_element_def Let_def)
    from decode_literal [OF this assms(3)] n show ?thesis by (simp add: emitLiteral_def Let_def)
  qed
qed

lemma read_copy2:
  "code t mod 4 = 2 \<Longrightarrow> read_element (t # a # b # r) = Some (CopyBack (code a + 256 * code b) (1 + code t div 4) r)"
  by (simp add: read_element_def Let_def)

lemma read_copy1:
  "code t mod 4 = 1 \<Longrightarrow>
     read_element (t # a # r) = Some (CopyBack (code t div 32 * 256 + code a) (4 + code t div 4 mod 8) r)"
  by (simp add: read_element_def Let_def)

lemma decode_copy:
  assumes "read_element (h @ r) = Some (CopyBack off n r)" "h \<noteq> []" "0 < off" "off \<le> length dst" "length dst + n \<le> dLen"
  shows "decode_block dLen dst (h @ r) = decode_block dLen (forward_copy n off dst) r"
proof -
  have "\<not> dLen - length dst < n" using assms(5) by linarith
  then show ?thesis using assms(1-4) by (subst decode_block.simps) (simp add: copy_back_forward)
qed

lemma decode_emit_copy2:
  assumes "1 \<le> n" "n \<le> 64" "0 < off" "off < 65536" "off \<le> length dst" "length dst + n \<le> dLen"
  shows "decode_block dLen dst (emit_copy2 (n - 1) off @ r) = decode_block dLen (forward_copy n off dst) r"
proof (rule decode_copy)
  have t: "code (byte ((n - 1) * 4 + 2)) = (n - 1) * 4 + 2" using assms(2) by (simp del: One_nat_def)
  have "((n - 1) * 4 + 2) mod 4 = 2" by (simp only: mod_mult_self3) simp
  moreover have "1 + ((n - 1) * 4 + 2) div 4 = n" using assms(1) by simp
  ultimately show "read_element (emit_copy2 (n - 1) off @ r) = Some (CopyBack off n r)"
    using read_copy2 [of "byte ((n - 1) * 4 + 2)" "byte off" "byte (off div 256)" r] two_bytes [OF assms(4)]
    unfolding t by (simp add: emit_copy2_def)
qed (use assms in \<open>simp_all add: emit_copy2_def\<close>)

lemma decode_copy1:
  assumes "4 \<le> n" "n < 12" "0 < off" "off < 2048" "off \<le> length dst" "length dst + n \<le> dLen"
  shows "decode_block dLen dst ([byte (off div 256 * 32 + (n - 4) * 4 + 1), byte off] @ r) =
    decode_block dLen (forward_copy n off dst) r"
proof (rule decode_copy)
  define q k where "q = off div 256" and "k = n - 4"
  have q: "q < 8" and k: "k < 8" using assms by (simp_all add: q_def k_def)
  have t: "code (byte (q * 32 + k * 4 + 1)) = q * 32 + k * 4 + 1" using q k by simp
  have "(q * 32 + k * 4 + 1) mod 4 = (1 + 4 * (8 * q + k)) mod 4" by (simp add: algebra_simps)
  then have "(q * 32 + k * 4 + 1) mod 4 = 1" by (simp only: mod_mult_self2, simp?)
  moreover have "q * 32 + k * 4 + 1 = (k * 4 + 1) + 32 * q" by simp
  then have "(q * 32 + k * 4 + 1) div 32 = q" using k by (simp add: div_mult_self2)
  moreover have "q * 32 + k * 4 + 1 = 1 + 4 * (k + 8 * q)" by simp
  then have "(q * 32 + k * 4 + 1) div 4 = k + 8 * q" by (simp add: div_mult_self2)
  then have "(q * 32 + k * 4 + 1) div 4 mod 8 = k" using k by simp
  moreover have "q * 256 + off mod 256 = off" by (simp add: q_def)
  ultimately have "read_element (byte (q * 32 + k * 4 + 1) # byte off # r) = Some (CopyBack off n r)"
    using read_copy1 [of "byte (q * 32 + k * 4 + 1)" "byte off" r] assms(1) unfolding t by (simp add: k_def)
  then show "read_element ([byte (off div 256 * 32 + (n - 4) * 4 + 1), byte off] @ r) = Some (CopyBack off n r)"
    by (simp add: q_def k_def)
qed (use assms in simp_all)

lemma decode_emitCopy:
  assumes "4 \<le> n" "0 < off" "off < 65536" "off \<le> length dst" "length dst + n \<le> dLen"
  shows "decode_block dLen dst (emitCopy off n @ r) = decode_block dLen (forward_copy n off dst) r"
  using assms
proof (induction off n arbitrary: dst rule: emitCopy.induct)
  case (1 off n)
  have last: "decode_block dLen d ((if m \<ge> 12 \<or> off \<ge> 2048 then emit_copy2 (m - 1) off
      else [byte (off div 256 * 32 + (m - 4) * 4 + 1), byte off]) @ r) = decode_block dLen (forward_copy m off d) r"
    if "4 \<le> m" "m \<le> 64" "off \<le> length d" "length d + m \<le> dLen" for m d
    using decode_emit_copy2 [of m off d dLen r] decode_copy1 [of m off d dLen r] that 1(3,4)
    by (auto simp del: append_Cons)
  show ?case
  proof (cases "n \<ge> 68")
    case True
    then have "n = 64 + (n - 64)" by simp
    then have "forward_copy n off dst = forward_copy (n - 64) off (forward_copy 64 off dst)" by (metis forward_copy_add)
    moreover have "decode_block dLen dst (emit_copy2 63 off @ emitCopy off (n - 64) @ r) =
        decode_block dLen (forward_copy 64 off dst) (emitCopy off (n - 64) @ r)"
      using decode_emit_copy2 [of 64 off dst dLen] 1(3-) True by simp
    moreover have "decode_block dLen (forward_copy 64 off dst) (emitCopy off (n - 64) @ r) =
        decode_block dLen (forward_copy (n - 64) off (forward_copy 64 off dst)) r"
      using 1 True by (intro 1(1)) simp_all
    ultimately show ?thesis using True by (subst emitCopy.simps) simp
  next
    case small: False
    show ?thesis
    proof (cases "n > 64")
      case True
      then have "n = 60 + (n - 60)" by simp
      then have "forward_copy n off dst = forward_copy (n - 60) off (forward_copy 60 off dst)" by (metis forward_copy_add)
      moreover have "decode_block dLen dst (emit_copy2 59 off @ x @ r) = decode_block dLen (forward_copy 60 off dst) (x @ r)" for x
        using decode_emit_copy2 [of 60 off dst dLen] 1(3-) True by simp
      ultimately show ?thesis
        using last [of "n - 60" "forward_copy 60 off dst"] True small 1(2-)
        by (subst emitCopy.simps) (simp del: append_Cons)
    next
      case False
      with last [of n dst] small 1(2-) show ?thesis by (subst emitCopy.simps) (simp del: append_Cons)
    qed
  qed
qed

subsection \<open>The encoder of a block\<close>

text \<open>The output so far decodes to the input up to \<open>ne\<close>, after what was decoded before the block. It is
  longer by at most a 64th, up to the overhead \<open>k\<close> that a literal without its copy may leave.\<close>

definition emits :: "nat \<Rightarrow> nat \<Rightarrow> string \<Rightarrow> string \<Rightarrow> string \<Rightarrow> nat \<Rightarrow> bool" where
  "emits k dLen p src out ne \<longleftrightarrow> 64 * length out \<le> 65 * ne + k \<and> ne \<le> length src \<and> length src \<le> 65536 \<and> length p + length src \<le> dLen \<and>
     (\<forall>r. decode_block dLen p (out @ r) = decode_block dLen (p @ take ne src) r)"

lemma emits_length: "emits k dLen p src out ne \<Longrightarrow> 64 * length out \<le> 65 * ne + k"
  by (simp add: emits_def)

lemma length_emitLiteral:
  "0 < length l \<Longrightarrow> 64 * length (emitLiteral l) \<le> 65 * length l + 67"
  by (auto simp: emitLiteral_def Let_def)

lemma length_emitCopy: "4 \<le> n \<Longrightarrow> length (emitCopy off n) < n"
proof (induction off n rule: emitCopy.induct)
  case (1 off n)
  show ?case
  proof (cases "n \<ge> 68")
    case True
    then have "length (emitCopy off (n - 64)) < n - 64" using 1 by simp
    with True show ?thesis by (subst emitCopy.simps) (simp add: emit_copy2_def)
  next
    case False
    with 1(2) show ?thesis by (subst emitCopy.simps) (auto simp: emit_copy2_def Let_def)
  qed
qed

lemma emits_literal:
  assumes "emits 0 dLen p src out ne" "ne < b" "b \<le> length src"
  shows "emits 67 dLen p src (out @ emitLiteral (take (b - ne) (drop ne src))) b"
proof -
  let ?l = "take (b - ne) (drop ne src)"
  have "take b src = take ne src @ ?l" using assms(2) by (metis le_add_diff_inverse less_imp_le take_add)
  moreover have "length ?l = b - ne" using assms(2,3) by simp
  moreover have "b - ne \<le> 65536" using assms(1,3) unfolding emits_def by linarith
  moreover have "64 * (length out + length (emitLiteral ?l)) \<le> 65 * b + 67"
    using emits_length [OF assms(1)] assms(2) calculation(2) length_emitLiteral [of ?l] by (simp del: length_take)
  ultimately show ?thesis
    using assms decode_emitLiteral [of ?l "p @ take ne src" dLen] by (simp add: emits_def)
qed

lemma emits_more: "emits 0 dLen p src out ne \<Longrightarrow> emits 67 dLen p src out ne"
  by (simp add: emits_def)

lemma emits_copy:
  assumes "emits 67 dLen p src out b" "c < b" "b < 65536" "repeats src c b n" "4 \<le> n"
  shows "emits 0 dLen p src (out @ emitCopy (b - c) n) (b + n)"
proof -
  have "b + n \<le> length src" using assms(4) by (simp add: repeats_def)
  moreover have "b - c < 65536" "b - c \<le> length p + b" using assms(3) by linarith+
  moreover have "decode_block dLen (p @ take b src) (emitCopy (b - c) n @ r) = decode_block dLen (p @ take (b + n) src) r" for r
    using assms calculation decode_emitCopy [of n "b - c" "p @ take b src" dLen r]
      forward_copy_repeats [OF assms(4,2)] by (simp add: emits_def)
  moreover have "64 * (length out + length (emitCopy (b - c) n)) \<le> 65 * (b + n)"
    using emits_length [OF assms(1)] assms(5) Suc_leI [OF length_emitCopy [OF assms(5), of "b - c"]] by simp
  ultimately show ?thesis using assms(1) by (simp add: emits_def)
qed

text \<open>Every entry of the table is a position before \<open>s\<close>.\<close>

definition table_ok :: "table \<Rightarrow> nat \<Rightarrow> bool" where
  "table_ok t s \<longleftrightarrow> (\<forall>h. t h < s)"

lemma table_ok_get: "table_ok t s \<Longrightarrow> table_get t h < s"
  by (simp add: table_ok_def table_get_def)

lemma table_ok_set: "table_ok t s \<Longrightarrow> s \<le> s' + 1 \<Longrightarrow> table_ok (table_set t h s') (s' + 1)"
  by (auto simp: table_ok_def table_set_def intro: order.strict_trans2)

lemma find_match_repeats:
  assumes "find_match src shift sLimit s skip h t = Some (s', c, t')" "table_ok t s" "sLimit + 15 \<le> length src"
  shows "s \<le> s' \<and> s' < sLimit \<and> c < s' \<and> repeats src c s' 4 \<and> table_ok t' (s' + 1)"
  using assms
proof (induction src shift sLimit s skip h t rule: find_match.induct)
  case (1 src shift sLimit s skip h t)
  let ?n = "s + (32 + skip) div 32" and ?c = "table_get t h" and ?t = "table_set t h s"
  have n: "s < ?n" by simp
  have lim: "\<not> sLimit < ?n" using 1(2) by (subst (asm) find_match.simps) (auto simp: Let_def)
  have c: "?c < s" using 1(3) by (rule table_ok_get)
  have t: "table_ok ?t (s + 1)" using 1(3) by (intro table_ok_set [where s = s]) simp_all
  show ?case
  proof (cases "load32 src s = load32 src ?c")
    case True
    with 1(2) lim have "s' = s" "c = ?c" "t' = ?t" by (auto simp: find_match.simps [of src shift sLimit s] Let_def)
    with True c t n lim 1(4) load32_repeats [of src ?c s] show ?thesis by auto
  next
    case False
    have "table_ok ?t ?n" using t n by (auto simp: table_ok_def intro: order.strict_trans2)
    moreover have "find_match src shift sLimit ?n (skip + (32 + skip) div 32) (hash (load32 src ?n) shift) ?t = Some (s', c, t')"
      using 1(2) lim False by (subst (asm) find_match.simps) (simp add: Let_def)
    ultimately show ?thesis using 1(1) [OF refl refl _ refl refl] False lim n 1(4) by fastforce
  qed
qed

lemma emit_copies_emits:
  assumes "emit_copies src shift sLimit b c t out = (out', ne, res)" "emits 67 dLen p src out b" "c < b"
    "repeats src c b 4" "table_ok t (b + 1)" "b < sLimit" "sLimit + 15 \<le> length src"
  shows "emits 0 dLen p src out' ne \<and> (case res of None \<Rightarrow> True | Some (s, h, t') \<Rightarrow> s = ne + 1 \<and> table_ok t' s)"
  using assms
proof (induction src shift sLimit b c t out rule: emit_copies.induct)
  case (1 src shift sLimit b c t out)
  define s where "s = extendMatch src (c + 4) (b + 4)"
  define out1 where "out1 = out @ emitCopy (b - c) (s - b)"
  define t1 where "t1 = table_set t (hash (load32 src (s - 1)) shift) (s - 1)"
  define h where "h = hash (load32 src s) shift"
  define c1 where "c1 = table_get t1 h"
  define t2 where "t2 = table_set t1 h s"
  note folds = s_def [symmetric] out1_def [symmetric] t1_def [symmetric] h_def [symmetric] c1_def [symmetric] t2_def [symmetric]
  have b: "b + 4 \<le> length src" "b < 65536" using 1(3,7,8) by (auto simp: emits_def)
  have ge: "b + 4 \<le> s" unfolding s_def by (rule extendMatch_ge)
  have "repeats src (c + 4) (b + 4) (s - (b + 4))"
    unfolding s_def using 1(4) b(1) by (intro extendMatch_repeats) simp_all
  from repeats_append [OF 1(5) this] ge have "repeats src c b (s - b)" by simp
  from emits_copy [OF 1(3,4) b(2) this] ge have e1: "emits 0 dLen p src out1 s" by (simp add: out1_def)
  have t1: "table_ok t1 s"
  proof -
    have "table_ok t1 (s - 1 + 1)" unfolding t1_def using 1(6) ge by (intro table_ok_set [where s = "b + 1"]) simp_all
    with ge show ?thesis by simp
  qed
  have c1: "c1 < s" unfolding c1_def using t1 by (rule table_ok_get)
  have t2: "table_ok t2 (s + 1)" unfolding t2_def using t1 by (intro table_ok_set [where s = s]) simp_all
  have step: "emit_copies src shift sLimit b c t out =
      (if s \<ge> sLimit then (out1, s, None)
       else if load32 src s \<noteq> load32 src c1 then (out1, s, Some (s + 1, hash (load32 src (s + 1)) shift, t2))
       else emit_copies src shift sLimit s c1 t2 out1)"
    by (subst emit_copies.simps) (simp only: Let_def t2_def c1_def h_def t1_def out1_def s_def)
  show ?case
  proof (cases "s < sLimit \<and> load32 src s = load32 src c1")
    case False
    with 1(2) e1 t2 show ?thesis unfolding step by (auto split: if_splits)
  next
    case True
    with 1(2) have r: "emit_copies src shift sLimit s c1 t2 out1 = (out', ne, res)" by (simp add: step)
    have rep: "repeats src c1 s 4" using load32_repeats [of src c1 s] True c1 1(8) by simp
    show ?thesis
      using 1(1) [OF s_def _ _ t1_def h_def c1_def t2_def, unfolded folds] True r emits_more [OF e1] c1 rep t2 1(8)
      by (simp add: out1_def)
  qed
qed

lemma encode_loop_emits:
  assumes "encode_loop src shift sLimit s h t ne out = (out', ne')" "emits 0 dLen p src out ne" "ne < s" "table_ok t s"
    "sLimit + 15 \<le> length src"
  shows "emits 0 dLen p src out' ne'"
  using assms
proof (induction src shift sLimit s h t ne out rule: encode_loop.induct)
  case (1 src shift sLimit s h t ne out)
  show ?case
  proof (cases "find_match src shift sLimit s 0 h t")
    case None
    with 1(2,3) show ?thesis by (subst (asm) encode_loop.simps) simp
  next
    case (Some m)
    obtain b c t' where m: "m = (b, c, t')" by (cases m) auto
    note f = find_match_repeats [OF Some [unfolded m] 1(5,6)]
    let ?o = "out @ emitLiteral (take (b - ne) (drop ne src))"
    obtain o2 ne2 res where e: "emit_copies src shift sLimit b c t' ?o = (o2, ne2, res)"
      by (cases "emit_copies src shift sLimit b c t' ?o") auto
    have lit: "emits 67 dLen p src ?o b" using f 1(4,6) by (intro emits_literal [OF 1(3)]) auto
    have c: "emits 0 dLen p src o2 ne2" "case res of None \<Rightarrow> True | Some (s', h', t'') \<Rightarrow> s' = ne2 + 1 \<and> table_ok t'' s'"
      using emit_copies_emits [OF e lit] f 1(6) by blast+
    show ?thesis
    proof (cases res)
      case None
      with 1(2) Some m e c(1) show ?thesis by (subst (asm) encode_loop.simps) simp
    next
      case (Some r)
      obtain s' h' t'' where r: "r = (s', h', t'')" by (cases r) auto
      from 1(2) have "encode_loop src shift sLimit s' h' t'' ne2 o2 = (out', ne')"
        using \<open>find_match src shift sLimit s 0 h t = Some m\<close> m e Some r by (subst (asm) encode_loop.simps) simp
      with 1(1) [OF \<open>find_match src shift sLimit s 0 h t = Some m\<close> m [symmetric] refl e [symmetric] refl Some r [symmetric] refl] c Some r 1(6)
      show ?thesis by auto
    qed
  qed
qed

lemma decode_encodeBlock:
  assumes "17 \<le> length src" "length src \<le> 65536" "length p + length src \<le> dLen"
  shows "decode_block dLen p (encodeBlock src @ r) = decode_block dLen (p @ src) r \<and>
    64 * length (encodeBlock src) \<le> 65 * length src + 67"
proof -
  let ?shift = "hash_shift (length src) 256 24"
  obtain out ne where l: "encode_loop src ?shift (length src - 15) 1 (hash (load32 src 1) ?shift) (\<lambda>_. 0) 0 [] = (out, ne)"
    by force
  have "emits 0 dLen p src [] 0" using assms(2,3) by (simp add: emits_def)
  then have e: "emits 0 dLen p src out ne"
    by (rule encode_loop_emits [OF l]) (use assms(1) in \<open>simp_all add: table_ok_def\<close>)
  show ?thesis
  proof (cases "ne < length src")
    case True
    with emits_literal [OF e True order.refl] l show ?thesis by (simp add: encodeBlock_def Let_def emits_def)
  next
    case False
    with e have "ne = length src" by (simp add: emits_def)
    with False e l show ?thesis by (simp add: encodeBlock_def Let_def emits_def)
  qed
qed

lemma decode_encode_blocks:
  assumes "length p + length src \<le> dLen"
  shows "decode_block dLen p (encode_blocks src) = decode_block dLen (p @ src) []"
  using assms
proof (induction src arbitrary: p rule: encode_blocks.induct)
  case (1 src)
  show ?case
  proof (cases "src = []")
    case True
    then show ?thesis by (subst encode_blocks.simps) simp
  next
    case False
    let ?q = "take 65536 src"
    have "decode_block dLen p ((if length ?q < 17 then emitLiteral ?q else encodeBlock ?q) @ r) = decode_block dLen (p @ ?q) r" for r
    proof (cases "length ?q < 17")
      case True
      with False 1(2) show ?thesis by (simp add: decode_emitLiteral min_def del: length_take split: if_splits) (simp add: decode_emitLiteral)
    next
      case big: False
      then show ?thesis using conjunct1 [OF decode_encodeBlock [of ?q p dLen r]] 1(2) by simp
    qed
    moreover have "decode_block dLen (p @ ?q) (encode_blocks (drop 65536 src)) = decode_block dLen ((p @ ?q) @ drop 65536 src) []"
      using 1(2) False by (intro 1(1)) (simp_all add: Let_def)
    ultimately show ?thesis using False by (subst encode_blocks.simps) (simp add: Let_def)
  qed
qed

lemma Encode_cases:
  "case Encode src of Inr z \<Rightarrow> Decode z = Inr src | Inl _ \<Rightarrow> 3681400512 \<le> length src"
proof (cases "MaxEncodedLen (length src)")
  case None
  then have "\<not> length src \<le> 4294967295 \<or> \<not> 32 + length src + length src div 6 \<le> 4294967295"
    by (auto simp: MaxEncodedLen_def Let_def split: if_splits)
  then have "3681400512 \<le> length src" by linarith
  then show ?thesis by (simp add: Encode_def None)
next
  case (Some n)
  then have len: "length src \<le> 4294967295" by (auto simp: MaxEncodedLen_def split: if_splits)
  then have "length src < 128 ^ (9 - 0)" by simp
  then have "decodedLen (put_uvarint (length src) @ encode_blocks src) = Inr (length src, encode_blocks src)"
    using len uvarint_put [of "length src" 0] by (simp add: decodedLen_def)
  moreover have "decode_block (length src) [] (encode_blocks src) = decode_block (length src) src []"
    using decode_encode_blocks [of "[]" src "length src"] by simp
  moreover have "decode_block (length src) src [] = Inr src" by (subst decode_block.simps) simp
  ultimately show ?thesis by (simp add: Encode_def Some Decode_def)
qed

text \<open>C37. The snappy codec is lossless: whatever \<open>Encode\<close> makes of some bytes, \<open>Decode\<close> gives these bytes
  back; and \<open>Encode\<close> only panics for more than about 3.6 GB.\<close>

theorem snappy_round_trip:
  "case Encode src of Inr z \<Rightarrow> Decode z = Inr src | Inl _ \<Rightarrow> 3681400512 \<le> length src"
  by (rule Encode_cases)

subsection \<open>The length\<close>

lemma length_put_uvarint: "n < 128 ^ Suc k \<Longrightarrow> length (put_uvarint n) \<le> Suc k"
proof (induction n arbitrary: k rule: put_uvarint.induct)
  case (1 n)
  show ?case
  proof (cases "n < 128")
    case True
    then show ?thesis by (subst put_uvarint.simps) simp
  next
    case False
    with 1(2) obtain j where k: "k = Suc j" by (cases k) auto
    with 1(2) have "n div 128 < 128 ^ Suc j" by (simp add: less_mult_imp_div_less mult.commute)
    with 1(1) [OF False] False k show ?thesis by (subst put_uvarint.simps) simp
  qed
qed

lemma length_encode_blocks: "64 * length (encode_blocks src) \<le> 66 * length src + 67"
proof (induction src rule: encode_blocks.induct)
  case (1 src)
  show ?case
  proof (cases "src = []")
    case True
    then show ?thesis by (subst encode_blocks.simps) simp
  next
    case False
    define q where "q = take 65536 src"
    define z where "z = (if length q < 17 then emitLiteral q else encodeBlock q)"
    have q: "0 < length q" "length q \<le> 65536" using False by (simp_all add: q_def)
    then have z: "64 * length z \<le> 65 * length q + 67"
      unfolding z_def using length_emitLiteral [of q] decode_encodeBlock [of q "[]" "length q" "[]"] by simp
    have e: "encode_blocks src = z @ encode_blocks (drop 65536 src)"
      using False by (subst encode_blocks.simps) (simp only: z_def q_def Let_def if_False)
    show ?thesis
    proof (cases "length src \<le> 65536")
      case True
      then have "encode_blocks (drop 65536 src) = []" by (subst encode_blocks.simps) simp
      with e z True show ?thesis by (simp add: q_def)
    next
      case big: False
      with 1 [OF False q_def] e z show ?thesis by (simp add: q_def)
    qed
  qed
qed

text \<open>C38. What \<open>Encode\<close> makes fits the buffer it allocates: it never writes past the \<open>MaxEncodedLen\<close> bytes
  of \<open>dst\<close>.\<close>

theorem snappy_fits:
  "case (MaxEncodedLen (length src), Encode src) of
     (Some n, Inr z) \<Rightarrow> length z \<le> n
   | (None, Inl _) \<Rightarrow> True
   | _ \<Rightarrow> False"
proof (cases "MaxEncodedLen (length src)")
  case None
  then show ?thesis by (simp add: Encode_def)
next
  case (Some n)
  then have n: "n = 32 + length src + length src div 6" and "length src < 128 ^ Suc 4"
    by (auto simp: MaxEncodedLen_def Let_def split: if_splits)
  then have "length (put_uvarint (length src)) \<le> 5" using length_put_uvarint [of "length src" 4] by simp
  with length_encode_blocks [of src] n have "length (put_uvarint (length src)) + length (encode_blocks src) \<le> n"
    by linarith
  with Some show ?thesis by (simp add: Encode_def)
qed

end
