(* ===== verification/MpSnappy.thy ===== *)
theory MpSnappy
  imports CompressEngine SnappyCorrect
begin

text \<open>
  The codec \<open>mp-snappy\<close>: the block compressor of \<open>compress/engine.go\<close> with the vendored snappy of
  \<open>compress/snappy\<close> (\<open>MakeSnappy\<close> in \<open>snappy.go\<close>). The interface \<open>block_codec\<close> is proved for it, so what it
  packs it unpacks without a hypothesis on the codec.
\<close>

text \<open>The worker encodes blocks of at most 120,000 bytes, for which \<open>Encode\<close> does not panic;
  \<open>uncompress_simple\<close> gives nil for any error.\<close>

definition snappy_encode :: "bytes \<Rightarrow> bytes" where
  "snappy_encode d = (case Encode d of Inr z \<Rightarrow> z | Inl _ \<Rightarrow> [])"

definition snappy_uncompress :: "bytes \<Rightarrow> bytes option" where
  "snappy_uncompress b = (case Decode b of Inr d \<Rightarrow> Some d | Inl _ \<Rightarrow> None)"

definition mp_snappy :: cpr where
  "mp_snappy = MakeSnappy snappy_encode snappy_uncompress"

lemma Encode_decodes: "length d < 3681400512 \<Longrightarrow> snappy_uncompress (snappy_encode d) = Some d"
  using Encode_cases [of d] by (auto simp: snappy_encode_def snappy_uncompress_def split: sum.splits)

interpretation snap: block_codec mp_snappy
  by unfold_locales (simp_all add: mp_snappy_def MakeSnappy_def Encode_decodes)

text \<open>C40. The codec mp-snappy loses nothing: what \<open>Compress\<close> packs with it, \<open>Uncompress\<close> gives back, as long
  as no compressed block is shorter than the ten bytes the trace line prints and no chunk is moved
  over one that has not been moved yet.\<close>

theorem mp_snappy_round_trip:
  assumes "Compress mp_snappy inp out = Inr (Some z)" "length out < 2 ^ 32" "length inp < 2 ^ 32"
    "\<forall>b \<in> set (blocks mp_snappy inp). 10 \<le> length b" "moves_safe mp_snappy (blocks mp_snappy inp)"
  shows "Uncompress mp_snappy z = Inr (Some inp)"
  using assms by (rule snap.pack_round_trip)

subsection \<open>Witness\<close>

text \<open>300 equal bytes: one literal and five copies.\<close>

lemma extendMatch_replicate: "i < j \<Longrightarrow> j \<le> n \<Longrightarrow> extendMatch (replicate n x) i j = n"
proof (induction "replicate n x" i j rule: extendMatch.induct)
  case (1 i j)
  then show ?case by (subst extendMatch.simps) (cases "j = n", auto)
qed

lemma load32_replicate: "i + 4 \<le> n \<Longrightarrow> load32 (replicate n x) i = u32 (replicate 4 x)"
proof -
  assume "i + 4 \<le> n"
  then have "min 4 (n - i) = 4" by simp
  then show ?thesis by (simp only: load32_def drop_replicate take_replicate)
qed

lemma encodeBlock_replicate:
  assumes "17 \<le> n"
  shows "encodeBlock (replicate n x) = emitLiteral [x] @ emitCopy 1 (n - 1)"
proof -
  let ?s = "replicate n x" and ?sh = "hash_shift n 256 24"
  define t' where "t' = table_set (\<lambda>_. 0) (hash (load32 ?s 1) ?sh) 1"
  have f: "find_match ?s ?sh (n - 15) 1 0 (hash (load32 ?s 1) ?sh) (\<lambda>_. 0) = Some (1, 0, t')"
    using assms by (subst find_match.simps) (simp add: Let_def table_get_def load32_replicate t'_def)
  have "extendMatch ?s 4 5 = n" using assms by (intro extendMatch_replicate) simp_all
  then have c: "emit_copies ?s ?sh (n - 15) 1 0 t' out = (out @ emitCopy 1 (n - 1), n, None)" for out
    by (subst emit_copies.simps) (simp add: Let_def)
  have "take 1 ?s = [x]" using assms by (cases n) simp_all
  with f c show ?thesis
    by (simp add: encodeBlock_def Let_def encode_loop.simps [of ?s])
qed

lemma snappy_300:
  "snappy_encode (replicate 300 x) = put_uvarint 300 @ emitLiteral [x] @ emitCopy 1 299"
  "length (snappy_encode (replicate 300 x)) = 19"
proof -
  have "encode_blocks (replicate 300 x) = encodeBlock (replicate 300 x) @ encode_blocks []"
    by (subst encode_blocks.simps) (simp add: Let_def)
  moreover have "encode_blocks [] = []" by (subst encode_blocks.simps) simp
  ultimately show e: "snappy_encode (replicate 300 x) = put_uvarint 300 @ emitLiteral [x] @ emitCopy 1 299"
    by (simp add: snappy_encode_def Encode_def MaxEncodedLen_def encodeBlock_replicate)
  have "length (put_uvarint 300) = 2" by (simp add: put_uvarint.simps)
  moreover have "length (emitCopy 1 299) = 15" by (simp add: emitCopy.simps emit_copy2_def)
  ultimately show "length (snappy_encode (replicate 300 x)) = 19"
    unfolding e by (simp add: emitLiteral_def)
qed

lemma ratio_of_300: "\<not> poor_ratio 19 300"
  by code_simp

lemma mp_snappy_round_trip_witness:
  "\<exists>z. Compress mp_snappy (replicate 300 CHR ''a'') (replicate 60 CHR ''a'') = Inr (Some z) \<and>
     Uncompress mp_snappy z = Inr (Some (replicate 300 CHR ''a''))"
proof -
  let ?d = "replicate 300 CHR ''a''" and ?o = "replicate 60 CHR ''a''"
  have size: "block_size mp_snappy = 120000" "encode mp_snappy = snappy_encode"
    by (simp_all add: mp_snappy_def MakeSnappy_def)
  have "Compress mp_snappy ?d ?o = fastpath mp_snappy ?d ?o" by (simp add: Compress_def size)
  then obtain z where z: "Compress mp_snappy ?d ?o = Inr (Some z)"
    by (simp add: fastpath_def compress_piece_def size snappy_300(2) ratio_of_300 Let_def)
  moreover have b: "blocks mp_snappy ?d = [snappy_encode ?d]" by (simp add: blocks_def size)
  have "Uncompress mp_snappy z = Inr (Some ?d)"
    by (rule mp_snappy_round_trip [OF z]) (simp_all add: b snappy_300(2) moves_safe_def)
  with z show ?thesis by blast
qed

end
