(* ===== verification/HsCommon.thy ===== *)
theory HsCommon
  imports GoStrings Float64 "HOL-Library.Word" "HOL-Library.Multiset"
begin

text \<open>
  The helpers of \<open>handler_socket2/hscommon\<close>. From \<open>hscommon.go\<close>: durations in words, IPv4 addresses,
  percentiles, the utilisation buckets, the HTML tables of the status pages, the fixed buffer and the
  cached clock. From \<open>str.go\<close>: padding, shortening and the removal of HTML tags. Text is UTF-8; the bytes
  of its longer characters are above 127, so tags can be found bytewise, and
  \<open>StrRealLen\<close> counts the characters of valid UTF-8. The table sorted by numbers is left out; byte
  counts are printed in \<open>CompressStats\<close>.
\<close>

subsection \<open>Durations\<close>

definition time_unit :: "int \<times> string \<Rightarrow> string \<times> int \<Rightarrow> string \<times> int" where
  "time_unit = (\<lambda>(d, name) (out, t).
     (let u = t sdiv d
      in if u > 0 then (out @ itoa u @ '' '' @ name @ (if u > 1 then ''s'' else []), t smod d) else (out, t)))"

definition FormatTime :: "int \<Rightarrow> string" where
  "FormatTime t =
     fst (fold time_unit [(60 * 60 * 24, ''day''), (60 * 60, ''hour''), (60, ''minute''), (1, ''second'')] ([], t))"

subsection \<open>IPv4 addresses\<close>

fun inet_add :: "nat \<Rightarrow> string list \<Rightarrow> 32 word \<Rightarrow> 32 word" where
  "inet_add k [] ret = ret"
| "inet_add k (v # vs) ret =
     (if k > 3 then ret
      else inet_add (k + 1) vs (ret + push_bit ((3 - k) * 8) (word_of_int (fst (atoi v)))))"

definition Inet_aton :: "string \<Rightarrow> 32 word" where
  "Inet_aton ip = inet_add 0 (go_split CHR ''.'' (go_trim blanks ip)) 0"

fun ip_octets :: "nat \<Rightarrow> 32 word \<Rightarrow> nat list" where
  "ip_octets 0 ip = []"
| "ip_octets (Suc n) ip = ip_octets n (drop_bit 8 ip) @ [unat ip mod 256]"

definition Inet_ntoa :: "32 word \<Rightarrow> string" where
  "Inet_ntoa ip = go_join ''.'' (map (\<lambda>b. itoa (int b)) (ip_octets 4 ip))"

subsection \<open>Percentiles\<close>

record percentile_stats =
  ps_data :: "int list"
  ps_sum :: int
  ps_sorted :: bool

definition NewPercentileStats :: percentile_stats where
  "NewPercentileStats = \<lparr>ps_data = [], ps_sum = 0, ps_sorted = True\<rparr>"

definition ps_Push :: "int \<Rightarrow> percentile_stats \<Rightarrow> percentile_stats" where
  "ps_Push v this = \<lparr>ps_data = ps_data this @ [v], ps_sum = ps_sum this + v, ps_sorted = False\<rparr>"

definition ps_sort :: "percentile_stats \<Rightarrow> percentile_stats" where
  "ps_sort this = (if ps_sorted this then this else this\<lparr>ps_data := sort (ps_data this), ps_sorted := True\<rparr>)"

text \<open>The index: \<open>int(float64(len) * (float64(percentile) / 100.0))\<close>, at most the last one.\<close>

definition ps_index :: "nat \<Rightarrow> int \<Rightarrow> int" where
  "ps_index n percentile =
     (let l = f_trunc (fmul (f_of_int (int n)) (fdiv (f_of_int percentile) 100))
      in if l \<ge> int n then int n - 1 else l)"

definition ps_Get :: "int \<Rightarrow> percentile_stats \<Rightarrow> int go \<times> percentile_stats" where
  "ps_Get percentile this =
     (if length (ps_data this) < 5 then (Inr 0, this)
      else
        (let s = ps_sort this; l = ps_index (length (ps_data s)) percentile
         in (if l < 0 then Inl IndexOutOfRange else go_index (ps_data s) (nat l), s)))"

text \<open>\<open>None\<close> stands for NaN, the average of nothing.\<close>

definition ps_Avg :: "percentile_stats \<Rightarrow> f64 option" where
  "ps_Avg this =
     (if ps_data this = [] then None
      else Some (fdiv (f_of_int (ps_sum this)) (f_of_int (int (length (ps_data this))))))"

definition ps_Clean :: "percentile_stats \<Rightarrow> percentile_stats" where
  "ps_Clean this = this\<lparr>ps_data := [], ps_sum := 0, ps_sorted := True\<rparr>"

fun lo_hi :: "nat \<Rightarrow> nat \<Rightarrow> int \<Rightarrow> int list \<Rightarrow> int \<times> int" where
  "lo_hi n k threshold [] = (int n, 0)"
| "lo_hi n k threshold (v # vs) =
     (if v > threshold then (int k, int n - int k) else lo_hi n (k + 1) threshold vs)"

definition ps_CountLoHi :: "int \<Rightarrow> percentile_stats \<Rightarrow> (int \<times> int) \<times> percentile_stats" where
  "ps_CountLoHi threshold this =
     (if length (ps_data this) < 1 then ((0, 0), this)
      else (let s = ps_sort this in (lo_hi (length (ps_data s)) 0 threshold (ps_data s), s)))"

subsection \<open>Utilisation buckets\<close>

record bucket_stats =
  bs_size :: "int list"
  bs_used :: "int list"
  bs_elements :: int
  bs_curr :: int

definition NewBucketStats :: "nat \<Rightarrow> bucket_stats" where
  "NewBucketStats n = \<lparr>bs_size = replicate n 0, bs_used = replicate n 0, bs_elements = int n, bs_curr = 0\<rparr>"

definition bs_Push :: "int \<Rightarrow> int \<Rightarrow> bucket_stats \<Rightarrow> bucket_stats go" where
  "bs_Push sz us this =
     (let i = nat (bs_curr this)
      in if i \<ge> length (bs_size this) then Inl IndexOutOfRange
         else
           Inr \<lparr>bs_size = (bs_size this)[i := bs_size this ! i + sz], bs_used = (bs_used this)[i := bs_used this ! i + us],
                bs_elements = bs_elements this,
                bs_curr = (if bs_curr this + 1 \<ge> bs_elements this then 0 else bs_curr this + 1)\<rparr>)"

definition bucket_symbol :: "int \<Rightarrow> int \<Rightarrow> string" where
  "bucket_symbol sz us =
     (if sz = 0 \<or> us = 0 then ''_''
      else
        (let perc = f_trunc (fdiv (f_of_int (us * 100)) (f_of_int sz))
         in if perc < 2 then ''&#x25E1;'' else if perc < 4 then ''&#x25CC;'' else if perc < 8 then ''&#x25CB;''
            else if perc < 12 then ''&#x25CE;'' else if perc < 25 then ''&#x25D4;''
            else if perc < 50 then ''&#x25D1;'' else if perc < 75 then ''&#x25D5;''
            else if perc < 90 then ''&#x1f311;''
            else ''<span style='' @ [CHR 0x27] @ ''color:red'' @ [CHR 0x27] @ ''>&#x1f311;</span>''))"

definition bs_Gen :: "bucket_stats \<Rightarrow> string" where
  "bs_Gen this =
     ''<pre style='' @ [CHR 0x27] @ ''font-family: monospace!important'' @ [CHR 0x27] @ ''> (?) ''
     @ concat (map2 bucket_symbol (bs_size this) (bs_used this)) @ ''</pre>''"

subsection \<open>Tables\<close>

record table_item =
  ti_item :: string
  ti_score :: string
  ti_usrdata :: "string list"

record tablegen =
  tg_header :: string
  tg_items :: "table_item list"
  tg_class :: string
  tg_header_data :: "string list"
  tg_row_data :: "string list list"

definition quoted :: "string \<Rightarrow> string" where
  "quoted s = [CHR 0x27] @ s @ [CHR 0x27]"

definition NewTableGen :: "string list \<Rightarrow> tablegen" where
  "NewTableGen hdr =
     \<lparr>tg_header = ''<tr><td>'' @ go_join ''</td><td>'' hdr @ ''</td></tr>'', tg_items = [], tg_class = [],
      tg_header_data = hdr, tg_row_data = []\<rparr>"

definition AddRow :: "string list \<Rightarrow> tablegen \<Rightarrow> tablegen" where
  "AddRow data this =
     (let d = ''<tr class='' @ quoted ''##class##'' @ ''><td>'' @ go_join ''</td><td>'' data @ ''</td></tr>'' @ [CHR 0x0A]
      in this\<lparr>tg_items := tg_items this @ [\<lparr>ti_item = d, ti_score = [], ti_usrdata = data\<rparr>],
              tg_row_data := tg_row_data this @ [data]\<rparr>)"

definition SetClass :: "string \<Rightarrow> tablegen \<Rightarrow> tablegen" where
  "SetClass className this = this\<lparr>tg_class := className\<rparr>"

text \<open>\<open>strings.Replace(s, old, new, 1)\<close>\<close>

definition replace_first :: "string \<Rightarrow> string \<Rightarrow> string \<Rightarrow> string" where
  "replace_first s old new =
     (case go_index_of s old of None \<Rightarrow> s | Some i \<Rightarrow> take i s @ new @ drop (i + length old) s)"

definition table_tag :: "tablegen \<Rightarrow> string" where
  "table_tag this =
     ''<table'' @ (if tg_class this \<noteq> [] then '' class='' @ quoted (tg_class this) else []) @ ''>''"

definition render_rows :: "table_item list \<Rightarrow> string" where
  "render_rows items =
     concat (map (\<lambda>(pos, v). replace_first (ti_item v) ''##class##'' (CHR ''r'' # itoa (int (pos mod 2))))
       (enumerate 0 items))"

definition Render :: "tablegen \<Rightarrow> string" where
  "Render this =
     table_tag this @ [CHR 0x0A] @ ''<thead>'' @ tg_header this @ ''</thead>'' @ [CHR 0x0A]
     @ ''<tbody>'' @ render_rows (tg_items this) @ ''</tbody>'' @ [CHR 0x0A] @ ''</table>''"

text \<open>Rendering on the side: the rows become columns. \<open>flat_cells\<close> stops at the first row that has no
  such column.\<close>

fun flat_cells :: "(string list \<Rightarrow> string) \<Rightarrow> nat \<Rightarrow> string list list \<Rightarrow> string" where
  "flat_cells cls col_no [] = []"
| "flat_cells cls col_no (row # rows) =
     (if col_no \<ge> length row then []
      else ''<td'' @ cls row @ ''>'' @ row ! col_no @ ''</td>'' @ flat_cells cls col_no rows)"

definition flat_class :: "bool \<Rightarrow> nat \<Rightarrow> string list \<Rightarrow> string" where
  "flat_class has_class n row =
     (if has_class \<and> length row \<ge> n + 1 then '' class='' @ quoted (row ! n) else [])"

definition flat_block :: "bool \<Rightarrow> string list \<Rightarrow> string list list \<Rightarrow> string" where
  "flat_block has_class hdr rows =
     concat (map (\<lambda>(col_no, v). ''<tr><td>'' @ v @ ''</td>''
         @ flat_cells (flat_class has_class (length hdr)) col_no rows @ ''</tr>'')
       (enumerate 0 hdr))"

text \<open>The loop over blocks of \<open>columns\<close> rows. It does not end when \<open>columns\<close> is not positive and there is
  a row: then no value is the result.\<close>

partial_function (option) block_loop :: "(string list list \<Rightarrow> string) \<Rightarrow> int \<Rightarrow> string list list \<Rightarrow> string option" where
  "block_loop f columns rows =
     (if rows = [] then Some []
      else Option.bind (block_loop f columns (drop (nat columns) rows)) (\<lambda>out. Some (f (take (nat columns) rows) @ out)))"

definition RenderHorizFlat :: "int \<Rightarrow> tablegen \<Rightarrow> (string option \<times> tablegen) go" where
  "RenderHorizFlat columns this =
     (if tg_header_data this = [] then Inl IndexOutOfRange
      else
        (let has_class = (last (tg_header_data this) = ''_class'');
             this1 = (if has_class then this\<lparr>tg_header_data := butlast (tg_header_data this)\<rparr> else this)
         in Inr (map_option (\<lambda>out. table_tag this @ out @ ''</table>'')
                   (block_loop (flat_block has_class (tg_header_data this1)) columns (tg_row_data this1)), this1)))"

definition horiz_block :: "string \<Rightarrow> string list \<Rightarrow> string list list \<Rightarrow> string" where
  "horiz_block tag hdr rows =
     tag @ ''<thead>''
     @ concat (map (\<lambda>(col_no, v). ''<tr><td>'' @ v @ ''</td>'' @ flat_cells (\<lambda>_. []) col_no rows
         @ (if col_no = 0 then ''</thead>'' else []) @ ''</tr>'') (enumerate 0 hdr))
     @ ''</table><br><br>''"

definition RenderHoriz :: "int \<Rightarrow> tablegen \<Rightarrow> string option" where
  "RenderHoriz columns this = block_loop (horiz_block (table_tag this) (tg_header_data this)) columns (tg_row_data this)"

text \<open>\<open>sort.Sort\<close> orders by the score, in no particular order where scores are equal: the sort is a
  parameter.\<close>

type_synonym item_sort = "table_item list \<Rightarrow> table_item list"

definition row_score :: "nat list \<Rightarrow> table_item \<Rightarrow> string" where
  "row_score columns v =
     concat (map (\<lambda>kcol. if length (ti_usrdata v) > kcol then ti_usrdata v ! kcol @ ''-'' else []) columns)"

definition RenderSorted :: "item_sort \<Rightarrow> nat list \<Rightarrow> tablegen \<Rightarrow> string \<times> tablegen" where
  "RenderSorted srt columns this =
     (let this1 = this\<lparr>tg_items := srt (map (\<lambda>v. v\<lparr>ti_score := row_score columns v\<rparr>) (tg_items this))\<rparr>
      in (Render this1, this1))"

definition RenderSortedRaw :: "item_sort \<Rightarrow> string list \<Rightarrow> tablegen \<Rightarrow> string \<times> tablegen" where
  "RenderSortedRaw srt scores this =
     (let this1 = this\<lparr>tg_items := srt (map (\<lambda>(pos, v). if pos < length scores then v\<lparr>ti_score := scores ! pos\<rparr> else v)
                                          (enumerate 0 (tg_items this)))\<rparr>
      in (Render this1, this1))"

subsection \<open>The fixed buffer and the clock\<close>

record fixed_buffer =
  fb_bytes :: string
  fb_cap :: nat

definition NewBuffer :: "string \<Rightarrow> nat \<Rightarrow> fixed_buffer" where
  "NewBuffer b capacity = \<lparr>fb_bytes = [], fb_cap = capacity\<rparr>"

definition WriteStr :: "string \<Rightarrow> fixed_buffer \<Rightarrow> fixed_buffer go" where
  "WriteStr a this =
     (if length (fb_bytes this) + length a > fb_cap this then Inl SliceOutOfRange
      else Inr (this\<lparr>fb_bytes := fb_bytes this @ a\<rparr>))"

definition TSNow :: "int \<Rightarrow> int \<Rightarrow> int" where
  "TSNow unixTS now = (if unixTS = 0 then now else unixTS)"

subsection \<open>Strings\<close>

definition prefix_gen :: "string \<Rightarrow> int \<Rightarrow> string \<Rightarrow> string go" where
  "prefix_gen s to_len w =
     (if int (length s) \<ge> to_len then Inr []
      else
        (let r0 = nat (to_len - int (length s)); r = (if length w > 1 then r0 div length w + 1 else r0)
         in go_slice (concat (replicate r w)) 0 r))"

definition StrPrefix :: "string \<Rightarrow> int \<Rightarrow> string \<Rightarrow> string go" where
  "StrPrefix s to_len w = go_bind (prefix_gen s to_len w) (\<lambda>p. Inr (p @ s))"

definition StrPostfix :: "string \<Rightarrow> int \<Rightarrow> string \<Rightarrow> string go" where
  "StrPostfix s to_len w = go_bind (prefix_gen s to_len w) (\<lambda>p. Inr (s @ p))"

text \<open>The loop of \<open>StrRealLen\<close> over the characters: a byte between 128 and 191 continues one.\<close>

definition continues :: "char \<Rightarrow> bool" where
  "continues c \<longleftrightarrow> 128 \<le> (of_char c :: nat) \<and> (of_char c :: nat) < 192"

fun real_len :: "bool \<Rightarrow> char \<Rightarrow> string \<Rightarrow> nat" where
  "real_len should_count last_char [] = 0"
| "real_len should_count last_char (c # cs) =
     (if continues c then real_len should_count last_char cs
      else if c = CHR ''>'' then real_len True c cs
      else
        (let sc = (if c = CHR ''<'' then False else should_count)
         in (if sc \<and> (c \<noteq> CHR '' '' \<or> last_char \<noteq> CHR '' '') then 1 else 0) + real_len sc c cs))"

definition StrRealLen :: "string \<Rightarrow> nat" where
  "StrRealLen s = (case s of [] \<Rightarrow> 0 | c # cs \<Rightarrow> real_len True c s)"

definition StrPrefixHTML :: "string \<Rightarrow> int \<Rightarrow> string \<Rightarrow> string go" where
  "StrPrefixHTML s to_len w =
     (let html_len = int (length s) - int (StrRealLen s)
      in go_bind (prefix_gen s (to_len + html_len) w) (\<lambda>p. Inr (p @ s)))"

definition StrPostfixHTML :: "string \<Rightarrow> int \<Rightarrow> string \<Rightarrow> string go" where
  "StrPostfixHTML s to_len w =
     (let html_len = int (length s) - int (StrRealLen s)
      in go_bind (prefix_gen s (to_len + html_len) w) (\<lambda>p. Inr (s @ p)))"

fun strip_loop :: "bool \<Rightarrow> string \<Rightarrow> string" where
  "strip_loop should_count [] = []"
| "strip_loop should_count (c # cs) =
     (if c = CHR ''>'' then strip_loop True cs
      else
        (let sc = (if c = CHR ''<'' then False else should_count)
         in (if sc then [c] else []) @ strip_loop sc cs))"

definition StripHTML :: "string \<Rightarrow> string" where
  "StripHTML s = strip_loop True s"

text \<open>A negative length makes the slice panic.\<close>

definition StrFirstChars :: "string \<Rightarrow> int \<Rightarrow> string go" where
  "StrFirstChars s max_len =
     (if max_len = 0 then Inr [] else if int (length s) \<le> max_len then Inr s
      else if max_len < 0 then Inl SliceOutOfRange
      else Inr (take (nat max_len) s @ ''...''))"

definition StrLastChars :: "string \<Rightarrow> int \<Rightarrow> string go" where
  "StrLastChars s max_len =
     (if max_len = 0 then Inr [] else if int (length s) \<le> max_len then Inr s
      else if max_len < 0 then Inl SliceOutOfRange
      else Inr (''...'' @ drop (length s - nat max_len) s))"

definition StrMidChars :: "string \<Rightarrow> int \<Rightarrow> string go" where
  "StrMidChars s max_len =
     (if max_len = 0 then Inr []
      else
        (let m = (max_len + 1) sdiv 2
         in if int (length s) \<le> m * 2 then Inr s
            else if m < 0 then Inl SliceOutOfRange
            else Inr (take (nat m) s @ ''...'' @ drop (length s - nat m) s)))"

end
