(* ===== verification/HsCommonCorrect.thy ===== *)
theory HsCommonCorrect
  imports HsCommon "HOL-Library.Sublist"
begin

text \<open>
  What the helpers of \<open>hscommon\<close> promise: the percentile statistics answer from the multiset of the
  values pushed whatever was asked before, addresses survive printing, durations are exact, the
  rendering on the side returns exactly for positive column counts, and stripped text has no tags.
\<close>

subsection \<open>Percentiles\<close>

datatype ps_op = PsPush int | PsGet int | PsCount int | PsClean

datatype ps_answer = Done | Value "int go" | Counts int int

fun ps_step :: "percentile_stats \<Rightarrow> ps_op \<Rightarrow> ps_answer \<times> percentile_stats" where
  "ps_step s (PsPush v) = (Done, ps_Push v s)"
| "ps_step s (PsGet p) = (let (r, s') = ps_Get p s in (Value r, s'))"
| "ps_step s (PsCount t) = (let ((a, b), s') = ps_CountLoHi t s in (Counts a b, s'))"
| "ps_step s PsClean = (Done, ps_Clean s)"

text \<open>The specification: a multiset of values.\<close>

definition rank_value :: "int multiset \<Rightarrow> int \<Rightarrow> int go" where
  "rank_value m p =
     (if size m < 5 then Inr 0
      else if ps_index (size m) p < 0 then Inl IndexOutOfRange
      else Inr (sorted_list_of_multiset m ! nat (ps_index (size m) p)))"

fun spec_step :: "int multiset \<Rightarrow> ps_op \<Rightarrow> ps_answer \<times> int multiset" where
  "spec_step m (PsPush v) = (Done, add_mset v m)"
| "spec_step m (PsGet p) = (Value (rank_value m p), m)"
| "spec_step m (PsCount t) = (Counts (int (size {# v \<in># m. v \<le> t #})) (int (size {# v \<in># m. v > t #})), m)"
| "spec_step m PsClean = (Done, {#})"

definition ps_inv :: "percentile_stats \<Rightarrow> bool" where
  "ps_inv s \<longleftrightarrow> (ps_sorted s \<longrightarrow> sorted (ps_data s)) \<and> ps_sum s = sum_list (ps_data s)"

lemma ps_sort_data: "ps_inv s \<Longrightarrow> ps_data (ps_sort s) = sort (ps_data s)"
  by (simp add: ps_sort_def ps_inv_def sorted_sort_id)

lemma ps_sort_inv: "ps_inv s \<Longrightarrow> ps_inv (ps_sort s)"
  by (simp add: ps_sort_def ps_inv_def sum_mset_sum_list [symmetric])

lemma lo_hi_counts:
  "sorted vs \<Longrightarrow> n = k + length vs \<Longrightarrow>
   lo_hi n k t vs = (int (k + length (filter (\<lambda>v. v \<le> t) vs)), int (length (filter (\<lambda>v. v > t) vs)))"
proof (induction vs arbitrary: k)
  case (Cons v vs)
  show ?case
  proof (cases "v > t")
    case True
    with Cons.prems(1) have gt: "\<forall>x \<in> set (v # vs). x > t" by auto
    then have "filter (\<lambda>v. v \<le> t) (v # vs) = []" "filter (\<lambda>v. v > t) (v # vs) = v # vs"
      by (auto simp: filter_empty_conv filter_id_conv)
    with True Cons.prems show ?thesis by (simp only: lo_hi.simps) simp
  next
    case False
    with Cons show ?thesis by simp
  qed
qed simp

lemma sort_of_mset: "sort xs = sorted_list_of_multiset (mset xs)"
  by simp

lemma ps_index_less: "0 < n \<Longrightarrow> ps_index n p < int n"
  by (simp add: ps_index_def Let_def)

lemma ps_step_refines:
  assumes "ps_inv s"
  shows "fst (ps_step s x) = fst (spec_step (mset (ps_data s)) x) \<and>
    mset (ps_data (snd (ps_step s x))) = snd (spec_step (mset (ps_data s)) x) \<and> ps_inv (snd (ps_step s x))"
proof (cases x)
  case (PsGet p)
  show ?thesis
  proof (cases "length (ps_data s) < 5")
    case True
    with assms PsGet show ?thesis by (simp add: ps_Get_def rank_value_def)
  next
    case False
    then have "0 < length (ps_data s)" by linarith
    from ps_index_less [OF this, of p] this have "nat (ps_index (length (ps_data s)) p) < length (ps_data s)"
      by linarith
    with False assms PsGet show ?thesis
      by (simp add: ps_Get_def rank_value_def Let_def ps_sort_data ps_sort_inv)
  qed
next
  case (PsCount t)
  have "size {#v \<in># mset xs. P v#} = length (filter P xs)" for P and xs :: "int list"
    by (simp flip: mset_filter)
  moreover have "length (filter P (sort xs)) = length (filter P xs)" for P and xs :: "int list"
    by (metis mset_filter mset_sort size_mset)
  ultimately show ?thesis
    using assms PsCount lo_hi_counts [of "sort (ps_data s)" "length (ps_data s)" 0 t]
    by (auto simp: ps_CountLoHi_def Let_def ps_sort_data ps_sort_inv)
qed (use assms in \<open>auto simp: ps_Push_def ps_Clean_def ps_inv_def\<close>)

text \<open>The percentile statistics refine a multiset: for any sequence of pushes, queries and resets, every
  answer is the one the multiset of the values pushed since the last reset gives, although queries
  reorder the data and the sorting is remembered.\<close>

theorem percentiles_refine:
  "fst (run_list ps_step NewPercentileStats xs) = fst (run_list spec_step {#} xs)"
proof -
  have "ps_inv s \<Longrightarrow> fst (run_list ps_step s xs) = fst (run_list spec_step (mset (ps_data s)) xs)" for s
  proof (induction xs arbitrary: s)
    case (Cons x xs)
    obtain a s' where "ps_step s x = (a, s')" by force
    moreover obtain b m where "spec_step (mset (ps_data s)) x = (b, m)" by force
    ultimately show ?case using ps_step_refines [OF Cons.prems, of x] Cons.IH [of s']
      by (auto simp: Let_def split: prod.splits)
  qed simp
  from this [of NewPercentileStats] show ?thesis by (simp add: NewPercentileStats_def ps_inv_def)
qed

subsection \<open>Addresses\<close>

lemma atoi_itoa_nat: "n < 256 \<Longrightarrow> fst (atoi (itoa (int n))) = int n"
  by (simp add: atoi_itoa)

lemma nat_digits_code: "c \<in> set (nat_digits n) \<Longrightarrow> 48 \<le> (of_char c :: nat) \<and> (of_char c :: nat) < 58"
  by (drule nat_digits_chars) auto

lemma ip_octets_rev: "ip_octets n ip = rev (map (\<lambda>k. unat ip div 256 ^ k mod 256) [0..<n])"
proof (induction n arbitrary: ip)
  case (Suc n)
  have d: "unat (drop_bit 8 ip) = unat ip div 256" by (subst unat_drop_bit_eq) (simp add: drop_bit_eq_div)
  have "[0..<Suc n] = 0 # map Suc [0..<n]" by (simp add: map_Suc_upt upt_conv_Cons del: upt_Suc)
  then show ?case unfolding ip_octets.simps Suc.IH by (simp add: d div_mult2_eq o_def del: upt_Suc)
qed simp

lemma ip_octets_4:
  "ip_octets 4 ip = map (\<lambda>k. unat ip div 2 ^ k mod 256) [24, 16, 8, 0]"
  by (simp add: ip_octets_rev upt_rec)

lemma base_256:
  fixes n :: nat
  shows "n div 16777216 * 16777216 + (n div 65536 mod 256) * 65536 + (n div 256 mod 256) * 256 + n mod 256 = n"
proof -
  have "n = n div 256 * 256 + n mod 256" by simp
  moreover have "n div 256 = n div 65536 * 256 + n div 256 mod 256"
    using div_mult_mod_eq [of "n div 256" 256] by (simp flip: div_mult2_eq)
  moreover have "n div 65536 = n div 16777216 * 256 + n div 65536 mod 256"
    using div_mult_mod_eq [of "n div 65536" 256] by (simp flip: div_mult2_eq)
  ultimately show ?thesis by linarith
qed

text \<open>An address survives printing and reading.\<close>

theorem inet_round_trip: "Inet_aton (Inet_ntoa ip) = ip"
proof -
  let ?n = "unat ip"
  have lt: "?n < 2 ^ 32" using unsigned_less [of ip] by simp
  let ?o = "\<lambda>k. ?n div 2 ^ k mod 256"
  have o: "?o k < 256" for k by simp
  let ?parts = "map (\<lambda>b. itoa (int b)) (ip_octets 4 ip)"
  have plain: "CHR ''.'' \<notin> set (itoa (int n))" "set (itoa (int n)) \<inter> set blanks = {}" for n
    using nat_digits_code [of _ n] by (fastforce simp: itoa_def blanks_def)+
  have "set (Inet_ntoa ip) \<inter> set blanks = {}"
    using plain(2) by (auto simp: Inet_ntoa_def ip_octets_4 blanks_def)
  then have "go_trim blanks (Inet_ntoa ip) = Inet_ntoa ip" by (rule go_trim_none)
  moreover have "go_split CHR ''.'' (Inet_ntoa ip) = ?parts"
    unfolding Inet_ntoa_def using plain(1) by (intro go_split_join) (auto simp: ip_octets_4)
  ultimately have "Inet_aton (Inet_ntoa ip) = inet_add 0 ?parts 0" by (simp add: Inet_aton_def)
  also have "\<dots> = word_of_nat (?o 24) * 2 ^ 24 + word_of_nat (?o 16) * 2 ^ 16 + word_of_nat (?o 8) * 2 ^ 8 + word_of_nat (?o 0)"
    by (simp only: ip_octets_4 list.map inet_add.simps atoi_itoa_nat [OF o] push_bit_eq_mult) simp
  also have "\<dots> = word_of_nat (?o 24 * 2 ^ 24 + ?o 16 * 2 ^ 16 + ?o 8 * 2 ^ 8 + ?o 0)" by simp
  also have "?o 24 * 2 ^ 24 + ?o 16 * 2 ^ 16 + ?o 8 * 2 ^ 8 + ?o 0 = ?n"
    using base_256 [of ?n] lt by simp
  also have "word_of_nat ?n = ip" by simp
  finally show ?thesis .
qed

subsection \<open>Durations\<close>

definition duration_part :: "int \<Rightarrow> string \<Rightarrow> string" where
  "duration_part v name = (if v = 0 then [] else itoa v @ '' '' @ name @ (if v > 1 then ''s'' else []))"

lemma time_unit_step:
  assumes "0 \<le> v" "0 \<le> rest" "rest < d" "0 < d"
  shows "time_unit (d, name) (out, d * v + rest) =
    (out @ duration_part v name, rest)"
proof -
  have "(d * v + rest) div d = v" "(d * v + rest) mod d = rest"
    using assms by (simp_all add: div_add1_eq)
  moreover have "0 \<le> d * v + rest" using assms by simp
  ultimately show ?thesis using assms by (simp add: time_unit_def duration_part_def)
qed

text \<open>A duration is printed exactly: the days, hours, minutes and seconds it consists of, those that are
  zero left out.\<close>

theorem format_time_exact:
  assumes "0 \<le> d" "0 \<le> h" "h < 24" "0 \<le> m" "m < 60" "0 \<le> s" "s < 60"
  shows "FormatTime (86400 * d + 3600 * h + 60 * m + s) =
    duration_part d ''day'' @ duration_part h ''hour'' @ duration_part m ''minute'' @ duration_part s ''second''"
proof -
  have "time_unit (86400, ''day'') ([], 86400 * d + (3600 * h + 60 * m + s)) = (duration_part d ''day'', 3600 * h + 60 * m + s)"
    using assms by (subst time_unit_step) simp_all
  moreover have "time_unit (3600, ''hour'') (out, 3600 * h + (60 * m + s)) = (out @ duration_part h ''hour'', 60 * m + s)" for out
    using assms by (intro time_unit_step) simp_all
  moreover have "time_unit (60, ''minute'') (out, 60 * m + s) = (out @ duration_part m ''minute'', s)" for out
    using assms by (intro time_unit_step) simp_all
  moreover have "time_unit (1, ''second'') (out, s) = (out @ duration_part s ''second'', 0)" for out
    using assms time_unit_step [of s 0 1 "''second''" out] by simp
  ultimately show ?thesis unfolding FormatTime_def by (simp add: add.assoc)
qed

subsection \<open>Tables on their side\<close>

lemma block_loop_positive:
  assumes "block_loop f columns rows = Some out"
  shows "0 < columns \<or> rows = []"
proof (rule block_loop.raw_induct [OF _ assms, where P = "\<lambda>f columns rows out. 0 < columns \<or> rows = []"])
  fix rec :: "(string list list \<Rightarrow> string) \<Rightarrow> int \<Rightarrow> string list list \<Rightarrow> string option" and f columns rows out
  assume IH: "\<And>f columns rows out. rec f columns rows = Some out \<Longrightarrow> 0 < columns \<or> rows = []"
    and "(if rows = [] then Some []
      else Option.bind (rec f columns (drop (nat columns) rows)) (\<lambda>out. Some (f (take (nat columns) rows) @ out))) = Some out"
  then show "0 < columns \<or> rows = []"
    using IH [of f columns "drop (nat columns) rows"] by (cases "0 < columns") (auto simp: bind_eq_Some_conv split: if_splits)
qed

lemma block_loop_Nil: "block_loop f columns [] = Some []"
  by (subst block_loop.simps) simp

lemma block_loop_ends: "0 < columns \<Longrightarrow> \<exists>out. block_loop f columns rows = Some out"
proof (induction "length rows" arbitrary: rows rule: less_induct)
  case less
  show ?case
  proof (cases "rows = []")
    case True
    then show ?thesis by (simp add: block_loop_Nil)
  next
    case False
    with less.prems have "length (drop (nat columns) rows) < length rows" by simp
    from less.hyps [OF this less.prems] obtain out where "block_loop f columns (drop (nat columns) rows) = Some out" ..
    with False show ?thesis by (subst block_loop.simps) simp
  qed
qed

text \<open>The table on its side is rendered exactly when the number of columns is positive or there is no row;
  otherwise the loop never ends.\<close>

theorem render_horiz_returns:
  "(\<exists>out. RenderHoriz columns this = Some out) \<longleftrightarrow> 0 < columns \<or> tg_row_data this = []"
  unfolding RenderHoriz_def
  using block_loop_ends [of columns] block_loop_positive [of _ columns "tg_row_data this"]
  by (metis block_loop_Nil)

text \<open>Rendering flat drops the class column from the header for good: the second time the same table is
  rendered without its classes.\<close>

lemma flat_render_drops_class:
  assumes "tg_header_data this = hdr @ [''_class'']" "hdr \<noteq> []" "last hdr \<noteq> ''_class''"
    "RenderHorizFlat columns this = Inr (out, this')"
  shows "RenderHorizFlat columns this' = Inr
    (map_option (\<lambda>out. table_tag this @ out @ ''</table>'') (block_loop (flat_block False hdr) columns (tg_row_data this)), this')"
  using assms by (auto simp: RenderHorizFlat_def Let_def table_tag_def)

subsection \<open>Strings\<close>

lemma strip_loop_no_tag: "c \<in> set (strip_loop b s) \<Longrightarrow> c \<noteq> CHR ''<'' \<and> c \<noteq> CHR ''>'' \<and> c \<in> set s"
  by (induction b s rule: strip_loop.induct) (auto simp: Let_def split: if_splits)

lemma strip_loop_plain: "CHR ''<'' \<notin> set s \<Longrightarrow> CHR ''>'' \<notin> set s \<Longrightarrow> strip_loop True s = s"
  by (induction s) auto

text \<open>Stripped text holds no tag, and text without tags is kept.\<close>

theorem strip_html_clean:
  "set (StripHTML s) \<inter> {CHR ''<'', CHR ''>''} = {} \<and>
   (StripHTML s = s \<longleftrightarrow> set s \<inter> {CHR ''<'', CHR ''>''} = {})"
proof
  show "set (StripHTML s) \<inter> {CHR ''<'', CHR ''>''} = {}"
    using strip_loop_no_tag [of _ True s] by (auto simp: StripHTML_def)
  then show "StripHTML s = s \<longleftrightarrow> set s \<inter> {CHR ''<'', CHR ''>''} = {}"
    using strip_loop_plain [of s] by (auto simp: StripHTML_def)
qed

lemma concat_replicate_single: "concat (replicate n [c]) = replicate n c"
  by (induction n) simp_all

text \<open>Padding with one character reaches the length asked for. With a longer filler the padding is cut to
  the number of repetitions, so it is too short.\<close>

lemma pad_single: "StrPostfix s to_len [c] = Inr (s @ replicate (nat to_len - length s) c)"
  by (auto simp: StrPostfix_def prefix_gen_def Let_def concat_replicate_single nat_diff_distrib')

lemma pad_long:
  assumes "1 < length w" "int (length s) < to_len"
  shows "\<exists>p. StrPostfix s to_len w = Inr (s @ p) \<and> length p = nat (to_len - int (length s)) div length w + 1"
proof -
  let ?r = "nat (to_len - int (length s)) div length w + 1"
  have "?r * 1 \<le> ?r * length w" using assms(1) by (intro mult_le_mono2) simp
  then have "?r \<le> length (concat (replicate ?r w))" by (simp add: length_concat sum_list_replicate)
  then show ?thesis using assms by (simp add: StrPostfix_def prefix_gen_def Let_def)
qed

lemma sublist_behind: "sublist x ys \<Longrightarrow> sublist x (zs @ ys)"
  by (auto simp: sublist_append)

end
