(* ===== verification/JsonPrint.thy ===== *)
theory JsonPrint
  imports NodeAdmin
begin

text \<open>
  Printing JSON: what \<open>json.Marshal\<close> writes for a value, and that the decoder of \<open>GoJson\<close> reads it back.
  The handlers build their answers from \<open>json_fields\<close> and \<open>json_map\<close>; both are instances of the printer,
  so their answers are JSON texts with the intended content.
\<close>

fun render :: "json \<Rightarrow> string" where
  "render JNull = ''null''"
| "render (JBool b) = json_bool b"
| "render (JNum s) = s"
| "render (JStr s) = json_string s"
| "render (JArr vs) = ''['' @ go_join '','' (map render vs) @ '']''"
| "render (JObj kvs) = ''{'' @ go_join '','' (map (\<lambda>(k, v). json_string k @ '':'' @ render v) kvs) @ ''}''"

text \<open>The numbers the handlers print: integers, and decimals with one digit.\<close>

definition num_ok :: "string \<Rightarrow> bool" where
  "num_ok s \<longleftrightarrow> (\<exists>i. s = itoa i) \<or> (\<exists>i d. d < 10 \<and> s = itoa i @ ''.'' @ nat_digits d)"

fun json_ok :: "json \<Rightarrow> bool" where
  "json_ok (JNum s) = num_ok s"
| "json_ok (JArr vs) = (\<forall>v \<in> set vs. json_ok v)"
| "json_ok (JObj kvs) = (\<forall>(k, v) \<in> set kvs. json_ok v)"
| "json_ok _ = True"

text \<open>What may follow a value inside a text.\<close>

definition delim :: "string \<Rightarrow> bool" where
  "delim r \<longleftrightarrow> r = [] \<or> hd r \<in> {CHR '','', CHR '']'', CHR ''}''}"

lemma delim_simps [simp]:
  "delim []" "delim (CHR '','' # r)" "delim (CHR '']'' # r)" "delim (CHR ''}'' # r)"
  by (simp_all add: delim_def)

subsection \<open>Numbers\<close>

lemma digit_is_digit: "c \<in> set (nat_digits n) \<Longrightarrow> is_digit c"
  using nat_digits_chars [of c n] by (auto simp: is_digit_def)

lemma nat_digits_zero: "hd (nat_digits n) = CHR ''0'' \<longleftrightarrow> n = 0"
proof (induction n rule: nat_digits.induct)
  case (1 n)
  show ?case
  proof (cases "n < 10")
    case True
    have "(char_of (48 + n) :: char) = CHR ''0'' \<longleftrightarrow> n = 0"
    proof
      assume "char_of (48 + n) = CHR ''0''"
      then have "(of_char (char_of (48 + n) :: char) :: nat) = of_char (CHR ''0'')" by (rule arg_cong)
      with True show "n = 0" by simp
    next
      assume "n = 0"
      have "char_of (of_char (CHR ''0'') :: nat) = CHR ''0''" by (simp only: char_of_char)
      with \<open>n = 0\<close> show "(char_of (48 + n) :: char) = CHR ''0''" by simp
    qed
    with True show ?thesis by (subst nat_digits.simps) simp
  next
    case False
    with 1 show ?thesis by (subst nat_digits.simps) simp
  qed
qed

lemma itoa_0: "itoa 0 = ''0''"
proof -
  have "char_of (of_char (CHR ''0'') :: nat) = CHR ''0''" by (simp only: char_of_char)
  then show ?thesis by (simp add: itoa_def nat_digits.simps)
qed

lemma takeWhile_digits:
  "\<forall>c \<in> set ds. is_digit c \<Longrightarrow> (r \<noteq> [] \<Longrightarrow> \<not> is_digit (hd r)) \<Longrightarrow> takeWhile is_digit (ds @ r) = ds"
  by (cases r) (simp_all add: takeWhile_append2)

lemma takeWhile_nat_digits [simp]: "takeWhile is_digit (nat_digits n) = nat_digits n"
  using digit_is_digit by (simp add: takeWhile_eq_all_conv)

lemma not_digits [simp]:
  "\<not> is_digit CHR '',''" "\<not> is_digit CHR '']''" "\<not> is_digit CHR ''}''" "\<not> is_digit CHR ''.''"
  "\<not> is_digit CHR ''-''" "\<not> is_digit CHR 0x22" "\<not> is_digit CHR ''{''" "\<not> is_digit CHR ''[''"
  "\<not> is_digit CHR ''n''" "\<not> is_digit CHR ''t''" "\<not> is_digit CHR ''f''" "\<not> is_digit CHR '' ''"
  "\<not> is_digit CHR 0x09" "\<not> is_digit CHR 0x0A" "\<not> is_digit CHR 0x0D"
  by (simp_all add: is_digit_def digit_val_def)

lemma delim_no_number: "delim r \<Longrightarrow> r \<noteq> [] \<Longrightarrow>
    \<not> is_digit (hd r) \<and> hd r \<noteq> CHR ''.'' \<and> hd r \<noteq> CHR ''e'' \<and> hd r \<noteq> CHR ''E''"
  by (auto simp: delim_def)

text \<open>The three parts of a number literal as \<open>parse_number\<close> reads them.\<close>

definition read_sign :: "string \<Rightarrow> string \<times> string" where
  "read_sign s = (case s of c # cs \<Rightarrow> if c = CHR ''-'' then ([c], cs) else ([], s) | [] \<Rightarrow> ([], []))"

definition read_int :: "string \<Rightarrow> string" where
  "read_int s = (if take 1 s = ''0'' then ''0'' else takeWhile is_digit s)"

definition read_tail :: "string \<Rightarrow> string \<Rightarrow> (string \<times> string) option" where
  "read_tail pre s2 =
     (let (fp, s3) = (case s2 of
            c # cs \<Rightarrow> if c = CHR ''.'' then (let d = takeWhile is_digit cs in (c # d, drop (length d) cs)) else ([], s2)
          | [] \<Rightarrow> ([], []))
      in if length fp = 1 then None
         else
           (case s3 of
              [] \<Rightarrow> Some (pre @ fp, [])
            | e # es \<Rightarrow>
                if e = CHR ''e'' \<or> e = CHR ''E'' then
                  (let (sg, es1) = (case es of
                         c # cs \<Rightarrow> if c = CHR ''+'' \<or> c = CHR ''-'' then ([c], cs) else ([], es) | [] \<Rightarrow> ([], []));
                       d = takeWhile is_digit es1
                   in if d = [] then None else Some (pre @ fp @ [e] @ sg @ d, drop (length d) es1))
                else Some (pre @ fp, s3)))"

lemma parse_number_parts:
  "parse_number s =
     (let (sign, s1) = read_sign s; ip = read_int s1
      in if ip = [] then None else read_tail (sign @ ip) (drop (length ip) s1))"
  by (simp only: parse_number_def read_sign_def read_int_def read_tail_def Let_def append_assoc)

lemma read_int_digits:
  assumes "r \<noteq> [] \<Longrightarrow> \<not> is_digit (hd r)"
  shows "read_int (nat_digits n @ r) = nat_digits n"
proof -
  obtain c cs where n: "nat_digits n = c # cs" using nat_digits_not_Nil [of n] by (cases "nat_digits n") auto
  show ?thesis
  proof (cases "n = 0")
    case True
    then have "nat_digits n = ''0''" using nat_digits_zero [of n] by (subst nat_digits.simps) (simp add: nat_digits.simps)
    then show ?thesis by (simp add: read_int_def)
  next
    case False
    then have "take 1 (nat_digits n @ r) \<noteq> ''0''" using nat_digits_zero [of n] n by simp
    then show ?thesis
      using takeWhile_digits [of "nat_digits n" r] assms digit_is_digit by (simp add: read_int_def)
  qed
qed

lemma read_sign_itoa:
  "read_sign (itoa i @ r) = (if i < 0 then ''-'' else [], nat_digits (nat \<bar>i\<bar>) @ r)"
proof (cases "i < 0")
  case False
  obtain c cs where n: "nat_digits (nat i) = c # cs" using nat_digits_not_Nil by (cases "nat_digits (nat i)") auto
  then have "is_digit c" using digit_is_digit [of c "nat i"] by simp
  then have "c \<noteq> CHR ''-''" by auto
  with False n show ?thesis by (simp add: read_sign_def itoa_def)
qed (simp add: read_sign_def itoa_def)

lemma itoa_sign: "(if i < 0 then ''-'' else []) @ nat_digits (nat \<bar>i\<bar>) = itoa i"
  by (simp add: itoa_def)

lemma parse_number_itoa:
  assumes "r \<noteq> [] \<Longrightarrow> \<not> is_digit (hd r)"
  shows "parse_number (itoa i @ r) = read_tail (itoa i) r"
  using read_int_digits [OF assms, of "nat \<bar>i\<bar>"]
  by (simp add: parse_number_parts read_sign_itoa itoa_sign del: append_assoc)

lemma read_tail_none: "delim r \<Longrightarrow> read_tail pre r = Some (pre, r)"
  using delim_no_number [of r] by (cases r) (auto simp: read_tail_def)

lemma read_tail_dec:
  assumes "delim r"
  shows "read_tail pre (CHR ''.'' # nat_digits d @ r) = Some (pre @ ''.'' @ nat_digits d, r)"
proof -
  have "takeWhile is_digit (nat_digits d @ r) = nat_digits d"
    using takeWhile_digits [of "nat_digits d" r] digit_is_digit delim_no_number [OF assms] by blast
  then show ?thesis using delim_no_number [OF assms] by (cases r) (simp_all add: read_tail_def Let_def)
qed

lemma parse_number_int: "delim r \<Longrightarrow> parse_number (itoa i @ r) = Some (itoa i, r)"
  using delim_no_number [of r] parse_number_itoa [of r i] read_tail_none by simp

lemma parse_number_dec: "delim r \<Longrightarrow> parse_number (itoa i @ CHR ''.'' # nat_digits d @ r) = Some (itoa i @ ''.'' @ nat_digits d, r)"
  using parse_number_itoa [of "CHR ''.'' # nat_digits d @ r" i] read_tail_dec [of r "itoa i" d] by simp

lemma num_ok_parse: "num_ok s \<Longrightarrow> delim r \<Longrightarrow> parse_number (s @ r) = Some (s, r)"
  using parse_number_int parse_number_dec by (auto simp: num_ok_def)

lemma num_ok_hd: "num_ok s \<Longrightarrow> \<exists>c cs. s = c # cs \<and> (is_digit c \<or> c = CHR ''-'')"
proof -
  have *: "\<exists>c cs. itoa i @ r = c # cs \<and> (is_digit c \<or> c = CHR ''-'')" for i r
    using nat_digits_not_Nil [of "nat i"] digit_is_digit [of _ "nat i"]
    by (cases "nat_digits (nat i)") (auto simp: itoa_def)
  show "num_ok s \<Longrightarrow> ?thesis" using * [of _ "[]"] * by (auto simp: num_ok_def)
qed

subsection \<open>Values\<close>

lemma num_no_prefix:
  assumes "is_digit c \<or> c = CHR ''-''"
  shows "c \<noteq> CHR ''{'' \<and> c \<noteq> CHR ''['' \<and> c \<noteq> CHR 0x22 \<and> c \<noteq> CHR ''n'' \<and> c \<noteq> CHR ''t'' \<and> c \<noteq> CHR ''f'' \<and>
    \<not> is_space c \<and> c \<noteq> CHR '']''"
  using assms by (auto simp: is_space_def)

text \<open>What the proof needs of the first character of a printed value.\<close>

lemma render_hd: "json_ok v \<Longrightarrow> \<exists>c cs. render v = c # cs \<and> \<not> is_space c \<and> c \<noteq> CHR '']''"
proof (cases v)
  case (JNum s)
  assume "json_ok v"
  with JNum num_ok_hd [of s] num_no_prefix show ?thesis by fastforce
qed (auto simp: json_bool_def json_string_def quote_def is_space_def)

lemma skip_ws_cons [simp]: "\<not> is_space c \<Longrightarrow> skip_ws (c # cs) = c # cs"
  by (simp add: skip_ws_def)

lemma no_space [simp]:
  "\<not> is_space CHR '',''" "\<not> is_space CHR '']''" "\<not> is_space CHR ''}''" "\<not> is_space CHR '':''"
  "\<not> is_space CHR 0x22" "\<not> is_space CHR ''{''" "\<not> is_space CHR ''[''"
  by (simp_all add: is_space_def)

definition reads_back :: "json \<Rightarrow> bool" where
  "reads_back v \<longleftrightarrow> (\<forall>n r. delim r \<and> 2 * length (render v) \<le> n \<longrightarrow> parse_value n (render v @ r) = Some (v, r))"

lemma reads_backD: "reads_back v \<Longrightarrow> delim r \<Longrightarrow> 2 * length (render v) \<le> n \<Longrightarrow> parse_value n (render v @ r) = Some (v, r)"
  by (simp add: reads_back_def)

lemma items_read_back:
  assumes "\<forall>v \<in> set vs. reads_back v" "vs \<noteq> []" "2 * length (go_join '','' (map render vs)) + 1 \<le> n"
  shows "parse_items n (go_join '','' (map render vs) @ CHR '']'' # r) = Some (vs, r)"
  using assms
proof (induction vs arbitrary: n)
  case (Cons v vs)
  then obtain m where n: "n = Suc m" by (cases n) auto
  show ?case
  proof (cases "vs = []")
    case True
    with Cons.prems n reads_backD [of v "CHR '']'' # r" m] show ?thesis by simp
  next
    case False
    then have j: "go_join '','' (map render (v # vs)) = render v @ CHR '','' # go_join '','' (map render vs)"
      by (simp add: go_join_Cons)
    with Cons.prems(3) n have m: "2 * length (render v) \<le> m" "2 * length (go_join '','' (map render vs)) + 1 \<le> m"
      by simp_all
    have "parse_value m (render v @ CHR '','' # go_join '','' (map render vs) @ CHR '']'' # r) =
        Some (v, CHR '','' # go_join '','' (map render vs) @ CHR '']'' # r)"
      using Cons.prems(1) m by (intro reads_backD) simp_all
    moreover have "parse_items m (go_join '','' (map render vs) @ CHR '']'' # r) = Some (vs, r)"
      using Cons.prems(1) False m by (intro Cons.IH) simp_all
    ultimately show ?thesis unfolding j n by simp
  qed
qed simp

lemma parse_key:
  "parse_string (Suc (length (concat (map json_escape_char k) @ CHR 0x22 # r))) (concat (map json_escape_char k) @ CHR 0x22 # r) =
    Some (k, r)"
proof -
  have "length k \<le> length (concat (map json_escape_char k))"
  proof (induction k)
    case (Cons a k)
    with length_json_escape [of a] show ?case by simp
  qed simp
  then show ?thesis by (intro parse_string_mono [OF parse_string_escaped]) simp
qed

lemma parse_member:
  assumes "parse_value n (t @ r) = Some (v, r)" "r = e # es" "\<not> is_space e"
  shows "parse_members (Suc n) (json_string k @ CHR '':'' # t @ r) =
    (if e = CHR ''}'' then Some ([(k, v)], es)
     else if e = CHR '','' then map_option (\<lambda>(kvs, r'). ((k, v) # kvs, r')) (parse_members n es) else None)"
proof -
  have "json_string k @ CHR '':'' # t @ r = CHR 0x22 # concat (map json_escape_char k) @ CHR 0x22 # CHR '':'' # t @ r"
    by (simp add: json_string_def quote_def)
  then show ?thesis
    using parse_key [of k "CHR '':'' # t @ r"] assms by (simp del: parse_string.simps)
qed

abbreviation member :: "string \<times> json \<Rightarrow> string" where
  "member \<equiv> (\<lambda>(k, v). json_string k @ '':'' @ render v)"

lemma members_read_back:
  assumes "\<forall>(k, v) \<in> set kvs. reads_back v" "kvs \<noteq> []" "2 * length (go_join '','' (map member kvs)) + 1 \<le> n"
  shows "parse_members n (go_join '','' (map member kvs) @ CHR ''}'' # r) = Some (kvs, r)"
  using assms
proof (induction kvs arbitrary: n)
  case (Cons kv kvs)
  then obtain m where n: "n = Suc m" by (cases n) auto
  obtain k v where kv: "kv = (k, v)" by (cases kv)
  show ?case
  proof (cases "kvs = []")
    case True
    have "parse_value m (render v @ CHR ''}'' # r) = Some (v, CHR ''}'' # r)"
      using Cons.prems True n kv by (intro reads_backD) simp_all
    from parse_member [OF this refl] True n kv show ?thesis by simp
  next
    case False
    let ?rest = "go_join '','' (map member kvs) @ CHR ''}'' # r"
    have j: "go_join '','' (map member (kv # kvs)) = json_string k @ CHR '':'' # render v @ CHR '','' # go_join '','' (map member kvs)"
      using False kv by (simp add: go_join_Cons)
    with Cons.prems(3) n have m: "2 * length (render v) \<le> m" "2 * length (go_join '','' (map member kvs)) + 1 \<le> m"
      by simp_all
    have "parse_value m (render v @ CHR '','' # ?rest) = Some (v, CHR '','' # ?rest)"
      using Cons.prems(1) kv m by (intro reads_backD) simp_all
    from parse_member [OF this refl, of k]
    have "parse_members n (json_string k @ CHR '':'' # render v @ CHR '','' # ?rest) =
        map_option (\<lambda>(kvs, r'). ((k, v) # kvs, r')) (parse_members m ?rest)"
      unfolding n by simp
    moreover have "parse_members m ?rest = Some (kvs, r)"
      using Cons.prems(1) False m by (intro Cons.IH) auto
    ultimately show ?thesis unfolding kv by (simp add: go_join_Cons False)
  qed
qed simp

lemma render_reads_back: "json_ok v \<Longrightarrow> reads_back v"
proof (induction v)
  case (JNum s)
  then have s: "num_ok s" by simp
  then obtain c cs where c: "s = c # cs" "is_digit c \<or> c = CHR ''-''" using num_ok_hd by blast
  show ?case unfolding reads_back_def
  proof (intro allI impI, elim conjE)
    fix n r
    assume r: "delim r" and n: "2 * length (render (JNum s)) \<le> n"
    with c obtain m where m: "n = Suc m" by (cases n) auto
    show "parse_value n (render (JNum s) @ r) = Some (JNum s, r)"
      using num_ok_parse [OF s r] num_no_prefix [OF c(2)] c(1) m by simp
  qed
next
  case (JStr s)
  show ?case unfolding reads_back_def
  proof (intro allI impI, elim conjE)
    fix n r
    assume "2 * length (render (JStr s)) \<le> n"
    then obtain m where m: "n = Suc m" by (cases n) (auto simp: json_string_def quote_def)
    show "parse_value n (render (JStr s) @ r) = Some (JStr s, r)" unfolding m render.simps by (rule parse_json_string)
  qed
next
  case (JArr vs)
  then have vs: "\<forall>v \<in> set vs. reads_back v" by auto
  show ?case unfolding reads_back_def
  proof (intro allI impI, elim conjE)
    fix n r
    assume n: "2 * length (render (JArr vs)) \<le> n"
    then obtain m where m: "n = Suc m" by (cases n) auto
    show "parse_value n (render (JArr vs) @ r) = Some (JArr vs, r)"
    proof (cases vs)
      case Nil
      then show ?thesis unfolding m by simp
    next
      case (Cons v ws)
      with JArr.prems obtain c cs where c: "render v = c # cs" "\<not> is_space c" "c \<noteq> CHR '']''" using render_hd [of v] by auto
      have "\<exists>ds. go_join '','' (map render vs) = c # ds" using c Cons by (cases ws) simp_all
      then obtain ds where ds: "go_join '','' (map render vs) = c # ds" ..
      have "parse_items m (go_join '','' (map render vs) @ CHR '']'' # r) = Some (vs, r)"
        using n m Cons by (intro items_read_back [OF vs]) simp_all
      then show ?thesis using c ds unfolding m by simp
    qed
  qed
next
  case (JObj kvs)
  then have kvs: "\<forall>(k, v) \<in> set kvs. reads_back v" by fastforce
  show ?case unfolding reads_back_def
  proof (intro allI impI, elim conjE)
    fix n r
    assume n: "2 * length (render (JObj kvs)) \<le> n"
    then obtain m where m: "n = Suc m" by (cases n) auto
    show "parse_value n (render (JObj kvs) @ r) = Some (JObj kvs, r)"
    proof (cases kvs)
      case Nil
      then show ?thesis unfolding m by simp
    next
      case (Cons kv ws)
      have "\<exists>ds. go_join '','' (map member kvs) = CHR 0x22 # ds"
        using Cons by (cases kv; cases ws) (simp_all add: json_string_def quote_def)
      then obtain ds where ds: "go_join '','' (map member kvs) = CHR 0x22 # ds" ..
      have "parse_members m (go_join '','' (map member kvs) @ CHR ''}'' # r) = Some (kvs, r)"
        using n m Cons by (intro members_read_back [OF kvs]) simp_all
      then show ?thesis using ds unfolding m by simp
    qed
  qed
next
  case JNull
  show ?case unfolding reads_back_def
  proof (intro allI impI)
    fix n r
    assume "delim r \<and> 2 * length (render JNull) \<le> n"
    then obtain m where "n = Suc m" by (cases n) auto
    then show "parse_value n (render JNull @ r) = Some (JNull, r)" by (simp add: is_space_def)
  qed
next
  case (JBool b)
  show ?case unfolding reads_back_def
  proof (intro allI impI)
    fix n r
    assume "delim r \<and> 2 * length (render (JBool b)) \<le> n"
    then obtain m where "n = Suc m" by (cases n) (auto simp: json_bool_def split: if_splits)
    then show "parse_value n (render (JBool b) @ r) = Some (JBool b, r)" by (simp add: is_space_def json_bool_def)
  qed
qed

text \<open>What the printer writes, the decoder reads back.\<close>

theorem json_round_trip:
  assumes "json_ok v"
  shows "json_unmarshal (render v) = Some v \<and> decode_first (render v) = Some v"
proof -
  have "parse_value (Suc (2 * length (render v))) (render v @ []) = Some (v, [])"
    by (rule reads_backD [OF render_reads_back [OF assms]]) simp_all
  then show ?thesis by (simp add: json_unmarshal_def decode_first_def skip_ws_def)
qed

end
