(* ===== verification/InfoHandler.thy ===== *)
theory InfoHandler
  imports JsonPrint UdpServer Float64
begin

text \<open>
  The information handler, \<open>gosol/solana/handle_solana_info\<close>: the block range of the nodes and what their
  throttles have left, summed over the public and over the private nodes. The registry is read
  several times by the code; the model reads one state. Next to it the echo handler
  (\<open>handle_echo\<close>) and the \<open>adv\<close> handler (\<open>gosol/passthrough\<close>), whose HTTP request is a parameter.
\<close>

subsection \<open>Sums of what is left\<close>

record limit_sums =
  sum_reqs :: int
  sum_single :: int
  sum_bytes :: int
  sum_used :: int
  sum_nodes :: int

definition no_limits :: limit_sums where
  "no_limits = \<lparr>sum_reqs = 0, sum_single = 0, sum_bytes = 0, sum_used = 0, sum_nodes = 0\<rparr>"

definition add_limits :: "solclient \<Rightarrow> limit_sums \<Rightarrow> limit_sums" where
  "add_limits c s =
     (let (a, b, d, u) = GetThrottleLimitsLeft c
      in \<lparr>sum_reqs = wrap64 (sum_reqs s + a), sum_single = wrap64 (sum_single s + b),
          sum_bytes = wrap64 (sum_bytes s + d), sum_used = wrap64 (sum_used s + u), sum_nodes = sum_nodes s + 1\<rparr>)"

definition all_limits :: "store \<Rightarrow> ref list \<Rightarrow> limit_sums" where
  "all_limits st cs = fold (\<lambda>r. add_limits (st r)) cs no_limits"

definition node_entry :: "string \<Rightarrow> solclient \<Rightarrow> nat \<Rightarrow> string \<times> string" where
  "node_entry kind c num =
     (let (a, b, d, u) = GetThrottleLimitsLeft c
      in (kind @ ''-'' @ itoa (int num), ''['' @ go_join '','' (map itoa [a, b, d, u]) @ '']''))"

definition node_entries :: "string \<Rightarrow> store \<Rightarrow> ref list \<Rightarrow> (string \<times> string) list" where
  "node_entries kind st cs = map (\<lambda>(num, r). node_entry kind (st r) num) (enumerate 0 cs)"

text \<open>\<open>_round\<close> cuts to tenths; \<open>json.Marshal\<close> prints tenths with at most one decimal. The used capacity is
  in hundredths of a percent and never negative.\<close>

definition round_tenths :: "f64 \<Rightarrow> int" where
  "round_tenths n = f_trunc (fmul n 1000) sdiv 100"

definition utilization :: "limit_sums \<Rightarrow> int" where
  "utilization s = round_tenths (fdiv (fdiv (f_of_int (sum_used s)) (f_of_int (sum_nodes s))) 100)"

definition tenths_text :: "int \<Rightarrow> string" where
  "tenths_text t = itoa (t div 10) @ (if t mod 10 = 0 then [] else ''.'' @ nat_digits (nat (t mod 10)))"

definition limits_text :: "limit_sums \<Rightarrow> string" where
  "limits_text s = json_map
     [(''requests_left'', itoa (sum_reqs s)), (''requests_single_left'', itoa (sum_single s)),
      (''byte_received_left'', itoa (sum_bytes s)),
      (''utilization_percent'', if sum_nodes s = 0 then ''0'' else tenths_text (utilization s)),
      (''node_count'', itoa (sum_nodes s))]"

definition public_private :: "int \<Rightarrow> int \<Rightarrow> string" where
  "public_private pub priv =
     json_map [(''public'', json_string (itoa pub)), (''private'', json_string (itoa priv))]"

definition info_comment :: string where
  "info_comment = ''Per node data is requests left / requests single left / bytes reveived left / utilization percentage''"

definition forced :: "hsparams \<Rightarrow> scheduler \<Rightarrow> scheduler" where
  "forced data sch =
     (let s1 = (if GetParamI data ''public'' 0 = 1 then ForcePublic sch True else sch)
      in if GetParamI data ''private'' 0 = 1 then ForcePrivate s1 True else s1)"

definition solana_info :: "store \<Rightarrow> ref list \<Rightarrow> hsparams \<Rightarrow> string go" where
  "solana_info st clients data =
     (let (pub, priv, pub_max, priv_max) = GetMinMaxBlocks st clients;
          sch = forced data (MakeScheduler clients)
      in go_bind (GetAll st sch True True) (\<lambda>pubs.
           go_bind (GetAll st sch False True) (\<lambda>privs.
             Inr (json_map
               ([(''first_available_block'', public_private pub priv),
                 (''last_available_block'', public_private pub_max priv_max)]
                @ node_entries ''pub'' st pubs @ node_entries ''priv'' st privs
                @ [(''public'', limits_text (all_limits st pubs)), (''private'', limits_text (all_limits st privs)),
                   (''comment'', json_string info_comment)])))))"

definition handle_solana_info :: "store \<Rightarrow> ref list \<Rightarrow> string \<Rightarrow> hsparams \<Rightarrow> (string \<times> hsparams) go" where
  "handle_solana_info st clients action data =
     (if action = ''getSolanaInfo'' then
        go_bind (solana_info st clients data) (\<lambda>out. Inr ([], FastReturnBNocopy data out))
      else if action = ''getFirstAvailableBlock'' then
        (let (pub, priv, _, _) = GetMinMaxBlocks st clients
         in Inr ([], FastReturnBNocopy data (public_private pub priv)))
      else Inr (''No function ?!'', data))"

subsection \<open>Echo and adv\<close>

definition echo_answer :: "hsparams \<Rightarrow> string" where
  "echo_answer data =
     (let inp = GetParam data ''data'' []; rep0 = GetParamI data ''repeat'' 1;
          (rep1, w1) = (if rep0 < 1 then (1, [(''warning'', json_string ''Repeat must be at least 1'')]) else (rep0, []));
          (rep2, w2) = (if rep1 > 500 then (500, [(''warning'', json_string ''Repeat must be at most 500'')]) else (rep1, w1))
      in json_map (w2 @ [(''data'', json_string (if rep2 > 1 then concat (replicate (nat rep2) inp) else inp))]))"

definition handle_echo :: "hsparams \<Rightarrow> string \<times> hsparams" where
  "handle_echo data = ([], FastReturnBNocopy data (echo_answer data))"

definition adv_url :: "string \<Rightarrow> string" where
  "adv_url url =
     (if \<not> go_contains (to_lower url) ''http://'' \<and> \<not> go_contains (to_lower url) ''https://'' then ''http://'' @ url else url)"

text \<open>\<open>http_get url query\<close> builds and runs the request: the error of any step, or the body.\<close>

definition handle_passthrough ::
  "(string \<Rightarrow> (string, string) gomap \<Rightarrow> string + string) \<Rightarrow> string \<Rightarrow> hsparams \<Rightarrow> string \<times> hsparams" where
  "handle_passthrough http_get url data =
     (if url = [] then (''Please specify PASSTHROUGH_URL'', data)
      else
        (case http_get (adv_url url) (GetParamsS data) of
           Inl e \<Rightarrow> (json_map [(''error'', json_string e)], data)
         | Inr body \<Rightarrow> ([], FastReturnBNocopy data body)))"

end
