(* ===== verification/InfoCorrect.thy ===== *)
theory InfoCorrect
  imports InfoHandler
begin

text \<open>
  The answers of the information handler: they are JSON with the intended content whatever the request
  forces, and the sums in them are exact and bounded when every node has a throttle, as every
  registered node has.
\<close>

subsection \<open>Maps of values\<close>

abbreviation rendered :: "(string \<times> json) list \<Rightarrow> (string \<times> string) list" where
  "rendered \<equiv> map (\<lambda>(k, v). (k, render v))"

lemma insort_key_map:
  "(\<And>x. key (f x) = key' x) \<Longrightarrow> insort_key key (f x) (map f xs) = map f (insort_key key' x xs)"
  by (induction xs) auto

lemma sort_key_map: "(\<And>x. key (f x) = key' x) \<Longrightarrow> sort_key key (map f xs) = map f (sort_key key' xs)"
  by (induction xs) (simp_all add: insort_key_map)

lemma json_map_render: "json_map (rendered kvs) = render (JObj (sort_key fst kvs))"
proof -
  have "sort_key fst (rendered kvs) = rendered (sort_key fst kvs)" by (rule sort_key_map) auto
  then show ?thesis by (simp add: json_map_def json_fields_def o_def split_def)
qed

lemma json_map_decodes:
  assumes "\<forall>(k, v) \<in> set kvs. json_ok v"
  shows "json_unmarshal (json_map (rendered kvs)) = Some (JObj (sort_key fst kvs))"
proof -
  have "json_ok (JObj (sort_key fst kvs))" using assms by simp
  then show ?thesis using json_round_trip [of "JObj (sort_key fst kvs)"] by (simp add: json_map_render)
qed

lemma num_ok_itoa [simp]: "num_ok (itoa i)"
  by (auto simp: num_ok_def)

lemma num_ok_tenths [simp]: "num_ok (tenths_text t)"
proof (cases "t mod 10 = 0")
  case False
  have "nat (t mod 10) < 10" by simp
  then have "num_ok (itoa (t div 10) @ ''.'' @ nat_digits (nat (t mod 10)))" unfolding num_ok_def by blast
  with False show ?thesis by (simp add: tenths_text_def)
qed (simp add: tenths_text_def)

subsection \<open>The answer as a value\<close>

definition limits_value :: "limit_sums \<Rightarrow> json" where
  "limits_value s = JObj (sort_key fst
     [(''requests_left'', JNum (itoa (sum_reqs s))), (''requests_single_left'', JNum (itoa (sum_single s))),
      (''byte_received_left'', JNum (itoa (sum_bytes s))),
      (''utilization_percent'', JNum (if sum_nodes s = 0 then itoa 0 else tenths_text (utilization s))),
      (''node_count'', JNum (itoa (sum_nodes s)))])"

definition pair_value :: "int \<Rightarrow> int \<Rightarrow> json" where
  "pair_value pub priv = JObj (sort_key fst [(''public'', JStr (itoa pub)), (''private'', JStr (itoa priv))])"

definition entry_value :: "string \<Rightarrow> solclient \<Rightarrow> nat \<Rightarrow> string \<times> json" where
  "entry_value kind c num =
     (let (a, b, d, u) = GetThrottleLimitsLeft c
      in (kind @ ''-'' @ itoa (int num), JArr (map (\<lambda>n. JNum (itoa n)) [a, b, d, u])))"

definition of_kind :: "store \<Rightarrow> bool \<Rightarrow> ref list \<Rightarrow> ref list" where
  "of_kind st is_public clients = filter (\<lambda>r. is_public_node (st r) = is_public) clients"

definition info_value :: "store \<Rightarrow> ref list \<Rightarrow> json" where
  "info_value st clients =
     (let (pub, priv, pub_max, priv_max) = GetMinMaxBlocks st clients
      in JObj (sort_key fst
           ([(''first_available_block'', pair_value pub priv), (''last_available_block'', pair_value pub_max priv_max)]
            @ map (\<lambda>(num, r). entry_value ''pub'' (st r) num) (enumerate 0 (of_kind st True clients))
            @ map (\<lambda>(num, r). entry_value ''priv'' (st r) num) (enumerate 0 (of_kind st False clients))
            @ [(''public'', limits_value (all_limits st (of_kind st True clients))),
               (''private'', limits_value (all_limits st (of_kind st False clients))),
               (''comment'', JStr info_comment)])))"

lemma limits_value_render: "limits_text s = render (limits_value s)"
proof -
  show ?thesis
    unfolding limits_text_def limits_value_def json_map_render [symmetric] by (simp add: itoa_0)
qed

lemma pair_value_render: "public_private pub priv = render (pair_value pub priv)"
  unfolding public_private_def pair_value_def json_map_render [symmetric] by simp

lemma entry_value_render:
  "node_entries kind st cs = rendered (map (\<lambda>(num, r). entry_value kind (st r) num) (enumerate 0 cs))"
  by (auto simp: node_entries_def node_entry_def entry_value_def Let_def split: prod.splits)

lemma limits_value_ok: "json_ok (limits_value s)" and pair_value_ok: "json_ok (pair_value p q)"
  by (simp_all add: limits_value_def pair_value_def)

lemma all_loop_fresh:
  "min_block_no sch = - 1 \<Longrightarrow> all_loop st sch is_public True (map Some cs) = Inr (of_kind st is_public cs)"
  by (induction cs) (auto simp: of_kind_def Let_def)

lemma GetAll_fresh:
  "min_block_no sch = - 1 \<Longrightarrow> sch_clients sch = map Some cs \<Longrightarrow>
   GetAll st sch is_public True = Inr (of_kind st is_public cs)"
  by (simp add: GetAll_def all_loop_fresh)

lemma forced_same:
  "min_block_no (forced data (MakeScheduler cs)) = - 1" "sch_clients (forced data (MakeScheduler cs)) = map Some cs"
  by (simp_all add: forced_def MakeScheduler_def ForcePublic_def ForcePrivate_def Let_def)

text \<open>The information handler always answers, with a JSON text whose content is the block range, the limits
  of every node and their sums. The parameters \<open>public\<close> and \<open>private\<close> have no effect: the forced
  scheduler still lists both kinds.\<close>

theorem solana_info_decodes:
  "\<exists>out. solana_info st clients data = Inr out \<and> json_unmarshal out = Some (info_value st clients)"
proof -
  obtain pub priv pub_max priv_max where mm: "GetMinMaxBlocks st clients = (pub, priv, pub_max, priv_max)"
    by (metis prod_cases4)
  let ?kvs = "[(''first_available_block'', pair_value pub priv), (''last_available_block'', pair_value pub_max priv_max)]
            @ map (\<lambda>(num, r). entry_value ''pub'' (st r) num) (enumerate 0 (of_kind st True clients))
            @ map (\<lambda>(num, r). entry_value ''priv'' (st r) num) (enumerate 0 (of_kind st False clients))
            @ [(''public'', limits_value (all_limits st (of_kind st True clients))),
               (''private'', limits_value (all_limits st (of_kind st False clients))),
               (''comment'', JStr info_comment)]"
  have "solana_info st clients data = Inr (json_map (rendered ?kvs))"
    by (simp add: solana_info_def mm GetAll_fresh forced_same limits_value_render pair_value_render entry_value_render)
  moreover have "\<forall>(k, v) \<in> set ?kvs. json_ok v"
    by (auto simp: limits_value_ok pair_value_ok entry_value_def Let_def split: prod.splits)
  ultimately show ?thesis using json_map_decodes [of ?kvs] by (simp add: info_value_def mm)
qed

subsection \<open>The sums\<close>

definition left_ok :: "int \<times> int \<times> int \<times> int \<Rightarrow> bool" where
  "left_ok = (\<lambda>(a, b, d, u). a \<in> {0..1073741824} \<and> b \<in> {0..1073741824} \<and> d \<in> {0..1073741824} \<and> u \<in> {0..10000})"

definition acc_ok :: "limits_left \<Rightarrow> bool" where
  "acc_ok acc \<longleftrightarrow> left_reqs acc \<in> {0..1073741824} \<and> left_reqs_fn acc \<in> {0..1073741824} \<and>
     left_data_rec acc \<in> {0..1073741824} \<and> 0 \<le> left_capacity acc"

lemma limits_step_ok: "acc_ok acc \<Longrightarrow> acc_ok (limits_step t v acc)"
  by (auto simp: limits_step_def acc_ok_def Let_def split: prod.splits)

lemma limits_fold_ok: "acc_ok acc \<Longrightarrow> acc_ok (fold (limits_step t) vs acc)"
  by (induction vs arbitrary: acc) (simp_all add: limits_step_ok)

lemma GetLimitsLeft_ok: "left_ok (GetLimitsLeft t)"
proof -
  let ?g = "1073741824 :: int"
  let ?acc = "fold (limits_step t) (limiters t) \<lparr>left_reqs = ?g, left_reqs_fn = ?g, left_data_rec = ?g, left_capacity = 0\<rparr>"
  have "acc_ok ?acc" by (rule limits_fold_ok) (simp add: acc_ok_def)
  then show ?thesis by (auto simp: GetLimitsLeft_def left_ok_def acc_ok_def Let_def)
qed

definition take_less :: "int \<times> int \<times> int \<times> int \<Rightarrow> int \<times> int \<times> int \<times> int \<Rightarrow> int \<times> int \<times> int \<times> int" where
  "take_less = (\<lambda>(a2, b2, c2, d2) (a, b, c, d).
     (if a2 < a then a2 else a, if b2 < b then b2 else b, if c2 < c then c2 else c, if d2 > d then d2 else d))"

lemma group_GetLimitsLeft_fold:
  "group_GetLimitsLeft ts = fold take_less (map GetLimitsLeft ts) (max_int64, max_int64, max_int64, 0)"
  by (simp add: group_GetLimitsLeft_def take_less_def fold_map o_def split_def Let_def)

lemma take_less_ok: "left_ok x \<Longrightarrow> left_ok y \<Longrightarrow> left_ok (take_less y x)"
  by (auto simp: left_ok_def take_less_def)

lemma fold_take_less_ok: "left_ok x \<Longrightarrow> \<forall>y \<in> set ys. left_ok y \<Longrightarrow> left_ok (fold take_less ys x)"
  by (induction ys arbitrary: x) (simp_all add: take_less_ok)

lemma group_limits_ok:
  assumes "ts \<noteq> []"
  shows "left_ok (group_GetLimitsLeft ts)"
proof -
  obtain t us where ts: "ts = t # us" using assms by (cases ts) auto
  have "take_less (GetLimitsLeft t) (max_int64, max_int64, max_int64, 0) = GetLimitsLeft t"
    using GetLimitsLeft_ok [of t] by (auto simp: left_ok_def take_less_def split: prod.splits)
  then show ?thesis
    using fold_take_less_ok [of "GetLimitsLeft t" "map GetLimitsLeft us"] GetLimitsLeft_ok
    by (simp add: group_GetLimitsLeft_fold ts)
qed

definition left_of :: "store \<Rightarrow> ref \<Rightarrow> int \<times> int \<times> int \<times> int" where
  "left_of st r = GetThrottleLimitsLeft (st r)"

lemma wrap64_add:
  assumes "0 \<le> x" "x \<le> 1073741824 * n" "n < 2 ^ 32" "0 \<le> a" "a \<le> 1073741824"
  shows "wrap64 (x + a) = x + a"
proof -
  have "x + a < 2 ^ 63" using assms by simp
  with assms show ?thesis by (simp add: wrap64_def)
qed

lemma all_limits_exact:
  assumes "\<forall>r \<in> set cs. throttle_grp (st r) \<noteq> []" "int (length cs) < 2 ^ 32"
  shows "all_limits st cs =
      \<lparr>sum_reqs = (\<Sum>r\<leftarrow>cs. fst (left_of st r)), sum_single = (\<Sum>r\<leftarrow>cs. fst (snd (left_of st r))),
       sum_bytes = (\<Sum>r\<leftarrow>cs. fst (snd (snd (left_of st r)))), sum_used = (\<Sum>r\<leftarrow>cs. snd (snd (snd (left_of st r)))),
       sum_nodes = int (length cs)\<rparr> \<and>
    (let s = all_limits st cs
     in sum_reqs s \<in> {0..1073741824 * int (length cs)} \<and> sum_single s \<in> {0..1073741824 * int (length cs)} \<and>
        sum_bytes s \<in> {0..1073741824 * int (length cs)} \<and> sum_used s \<in> {0..10000 * int (length cs)})"
  using assms
proof (induction cs rule: rev_induct)
  case (snoc r cs)
  obtain a b d u where l: "left_of st r = (a, b, d, u)" by (metis prod_cases4)
  have "left_ok (left_of st r)" using snoc.prems(1) group_limits_ok by (simp add: left_of_def GetThrottleLimitsLeft_def)
  then have "a \<in> {0..1073741824}" "b \<in> {0..1073741824}" "d \<in> {0..1073741824}" "u \<in> {0..10000}"
    by (simp_all add: l left_ok_def)
  moreover have len: "int (length cs) < 2 ^ 32" and cs: "\<forall>r \<in> set cs. throttle_grp (st r) \<noteq> []"
    using snoc.prems by simp_all
  note IH = snoc.IH [OF cs len, unfolded Let_def]
  define s where "s = all_limits st cs"
  have s: "0 \<le> sum_reqs s" "sum_reqs s \<le> 1073741824 * int (length cs)" "0 \<le> sum_single s"
      "sum_single s \<le> 1073741824 * int (length cs)" "0 \<le> sum_bytes s" "sum_bytes s \<le> 1073741824 * int (length cs)"
      "0 \<le> sum_used s" "sum_used s \<le> 10000 * int (length cs)"
    using IH [THEN conjunct2] unfolding s_def atLeastAtMost_iff by blast+
  have "sum_used s \<le> 1073741824 * int (length cs)" using s(7,8) by linarith
  ultimately have "add_limits (st r) s = \<lparr>sum_reqs = sum_reqs s + a, sum_single = sum_single s + b,
      sum_bytes = sum_bytes s + d, sum_used = sum_used s + u, sum_nodes = sum_nodes s + 1\<rparr>"
    using s len l by (simp add: add_limits_def left_of_def wrap64_add [where n = "int (length cs)"])
  moreover have "all_limits st (cs @ [r]) = add_limits (st r) s" by (simp add: all_limits_def s_def)
  ultimately show ?case using s \<open>a \<in> _\<close> \<open>b \<in> _\<close> \<open>d \<in> _\<close> \<open>u \<in> _\<close> l
      IH [THEN conjunct1, folded s_def] by (simp add: Let_def)
qed (simp add: all_limits_def no_limits_def)

lemma fl_upper: "0 \<le> x \<Longrightarrow> fl x \<le> x * (1 + 1 / 2 ^ 53)"
proof (cases "x = 0")
  case False
  assume "0 \<le> x"
  with False have x: "0 < x" by simp
  from fl_pos_error [OF this] have "fl_pos x \<le> x + x / 2 ^ 53" by linarith
  also have "\<dots> = x * (1 + 1 / 2 ^ 53)" by (simp add: algebra_simps)
  finally show ?thesis using x by (simp add: fl_def)
qed (simp add: fl_def)

lemma utilization_range:
  assumes "0 < k" "k < 2 ^ 32" "0 \<le> n" "n \<le> 10000 * k"
  shows "0 \<le> round_tenths (fdiv (fdiv (f_of_int n) (f_of_int k)) 100) \<and>
    round_tenths (fdiv (fdiv (f_of_int n) (f_of_int k)) 100) \<le> 1000"
proof -
  define e :: rat where "e = 1 + 1 / 2 ^ 53"
  have e: "0 < e" "e * e * e < 100001 / 100000" by (simp_all add: e_def power_one_over)
  have "f_of_int n = of_int n" "f_of_int k = of_int k" using assms by (simp_all add: f_of_int_exact)
  moreover define q :: rat where "q = of_int n / of_int k"
  ultimately have f: "fdiv (f_of_int n) (f_of_int k) = fl q" by (simp add: fdiv_def)
  have "(of_int n :: rat) \<le> of_int (10000 * k)" using assms(4) by (simp only: of_int_le_iff)
  then have q: "0 \<le> q" "q \<le> 10000" using assms by (simp_all add: q_def divide_le_eq)
  have a: "0 \<le> fl q" "fl q \<le> 10000 * e"
    using q e(1) fl_nonneg [OF q(1)] fl_upper [OF q(1)] mult_right_mono [OF q(2), of e] by (simp_all add: e_def)
  have b: "0 \<le> fl (fl q / 100)" "fl (fl q / 100) \<le> 100 * e * e"
    using a e(1) fl_nonneg [of "fl q / 100"] fl_upper [of "fl q / 100"] mult_right_mono [of "fl q / 100" "100 * e" e]
    by (simp_all add: e_def)
  have c: "0 \<le> fl (fl (fl q / 100) * 1000)" "fl (fl (fl q / 100) * 1000) \<le> 100000 * (e * e * e)"
    using b e(1) fl_nonneg [of "fl (fl q / 100) * 1000"] fl_upper [of "fl (fl q / 100) * 1000"]
      mult_right_mono [of "fl (fl q / 100) * 1000" "100000 * e * e" e]
    by (simp_all add: e_def)
  have "fl (fl (fl q / 100) * 1000) < 100001" using c(2) e(2) by linarith
  then have "\<lfloor>fl (fl (fl q / 100) * 1000)\<rfloor> \<le> 100000" "0 \<le> \<lfloor>fl (fl (fl q / 100) * 1000)\<rfloor>"
    using c(1) by linarith+
  then have "\<lfloor>fl (fl (fl q / 100) * 1000)\<rfloor> div 100 \<le> 1000" "0 \<le> \<lfloor>fl (fl (fl q / 100) * 1000)\<rfloor> div 100"
    by linarith+
  then show ?thesis unfolding f round_tenths_def using c(1)
    by (simp add: fmul_def fdiv_def f_trunc_def)
qed

text \<open>The sums in the answer are exact and cannot overflow: when every node has a throttle, each sum is
  the sum over the nodes, at most 1 GiB per node, and the utilisation lies between 0 and 100 percent.\<close>

theorem info_sums_exact:
  assumes "\<forall>r \<in> set cs. throttle_grp (st r) \<noteq> []" "int (length cs) < 2 ^ 32" "cs \<noteq> []"
  shows "sum_reqs (all_limits st cs) = (\<Sum>r\<leftarrow>cs. fst (GetThrottleLimitsLeft (st r))) \<and>
    sum_single (all_limits st cs) = (\<Sum>r\<leftarrow>cs. fst (snd (GetThrottleLimitsLeft (st r)))) \<and>
    sum_bytes (all_limits st cs) = (\<Sum>r\<leftarrow>cs. fst (snd (snd (GetThrottleLimitsLeft (st r))))) \<and>
    0 \<le> sum_reqs (all_limits st cs) \<and> sum_reqs (all_limits st cs) \<le> 2 ^ 30 * int (length cs) \<and>
    0 \<le> utilization (all_limits st cs) \<and> utilization (all_limits st cs) \<le> 1000"
proof -
  note ex = all_limits_exact [OF assms(1,2), unfolded Let_def]
  have "sum_nodes (all_limits st cs) = int (length cs)" using ex [THEN conjunct1] by simp
  then have "0 \<le> utilization (all_limits st cs) \<and> utilization (all_limits st cs) \<le> 1000"
    unfolding utilization_def using ex [THEN conjunct2] assms(2,3) by (intro utilization_range) simp_all
  moreover have "0 \<le> sum_reqs (all_limits st cs) \<and> sum_reqs (all_limits st cs) \<le> 2 ^ 30 * int (length cs)"
    using ex [THEN conjunct2] by simp
  ultimately show ?thesis using ex [THEN conjunct1] by (simp add: left_of_def)
qed

subsection \<open>The list of the admin module\<close>

definition client_value :: "solclientinfo \<Rightarrow> json" where
  "client_value i = JObj
     [(''ID'', JNum (itoa (ID i))), (''Endpoint'', JStr (Endpoint i)), (''Is_public_node'', JBool (Is_public_node i)),
      (''Available_block_first'', JNum (itoa (Available_block_first i))),
      (''Available_block_first_ts'', JNum (itoa (Available_block_first_ts i))),
      (''Available_block_last'', JNum (itoa (Available_block_last i))),
      (''Available_block_last_ts'', JNum (itoa (Available_block_last_ts i))),
      (''Is_disabled'', JBool (Is_disabled i)), (''Is_throttled'', JBool (Is_throttled i)),
      (''Is_paused'', JBool (Is_paused i)), (''Attr'', JNum (itoa (Attr i))), (''Score'', JNum (itoa (info_Score i)))]"

lemma client_value_render: "info_json i = render (client_value i)"
  by (simp add: info_json_def client_value_def json_fields_def)

lemma client_value_ok: "json_ok (client_value i)"
  by (simp add: client_value_def)

lemma gm_set_rendered: "gm_set (rendered m) k (render v) = rendered (gm_set m k v)"
  unfolding gm_set_def by (induction m) auto

definition listed :: "store \<Rightarrow> ref list \<Rightarrow> (string \<times> json) list" where
  "listed st cs = fold (\<lambda>r m. gm_set m (''client_#'' @ itoa (cl_id (st r))) (client_value (GetInfo (st r)))) cs []"

lemma listed_render:
  "fold (\<lambda>r m. gm_set m (''client_#'' @ itoa (cl_id (st r))) (info_json (GetInfo (st r)))) cs (rendered m) =
   rendered (fold (\<lambda>r m. gm_set m (''client_#'' @ itoa (cl_id (st r))) (client_value (GetInfo (st r)))) cs m)"
  by (induction cs arbitrary: m) (simp_all add: client_value_render gm_set_rendered)

lemma set_gm_set: "set (gm_set m k v) \<subseteq> insert (k, v) (set m)"
  unfolding gm_set_def by (induction m) auto

lemma listed_ok: "\<forall>(k, v) \<in> set m. json_ok v \<Longrightarrow>
   \<forall>(k, v) \<in> set (fold (\<lambda>r m. gm_set m (''client_#'' @ itoa (cl_id (st r))) (client_value (GetInfo (st r)))) cs m). json_ok v"
proof (induction cs arbitrary: m)
  case (Cons r cs)
  have "\<forall>(k, v) \<in> set (gm_set m (''client_#'' @ itoa (cl_id (st r))) (client_value (GetInfo (st r)))). json_ok v"
    using set_gm_set [of m] Cons.prems client_value_ok by fastforce
  from Cons.IH [OF this] show ?case by simp
qed simp

text \<open>The list of the admin module is JSON: one object with every registered client under its number, the
  public ones and the private ones.\<close>

theorem admin_list_decodes:
  "\<exists>out. admin_list ns = Inr out \<and>
     json_unmarshal out = Some (JObj (sort_key fst
       (listed (node_store ns) (of_kind (node_store ns) True (registry ns) @ of_kind (node_store ns) False (registry ns)))))"
proof -
  let ?st = "node_store ns" and ?sch = "MakeScheduler (registry ns)"
  let ?cs = "of_kind ?st True (registry ns) @ of_kind ?st False (registry ns)"
  have "GetAll ?st ?sch b True = Inr (of_kind ?st b (registry ns))" for b
    by (rule GetAll_fresh) (simp_all add: MakeScheduler_def)
  then have "admin_list ns = Inr (json_map (rendered (listed ?st ?cs)))"
    using listed_render [of ?st ?cs "[]"] by (simp add: admin_list_def listed_def Let_def)
  moreover have "\<forall>(k, v) \<in> set (listed ?st ?cs). json_ok v"
    unfolding listed_def by (rule listed_ok) simp
  ultimately show ?thesis using json_map_decodes by blast
qed

subsection \<open>Echo\<close>

text \<open>The echo handler answers with at most 500 copies of the data.\<close>

theorem echo_bounded:
  "\<exists>k w. 1 \<le> k \<and> k \<le> 500 \<and>
     json_unmarshal (echo_answer data) =
       Some (JObj ((''data'', JStr (concat (replicate k (GetParam data ''data'' [])))) # w))"
proof -
  let ?inp = "GetParam data ''data'' []" and ?r = "GetParamI data ''repeat'' 1"
  let ?k = "nat (if ?r < 1 then 1 else if ?r > 500 then 500 else ?r)"
  let ?w = "if ?r < 1 then [(''warning'', JStr ''Repeat must be at least 1'')]
    else if ?r > 500 then [(''warning'', JStr ''Repeat must be at most 500'')] else []"
  let ?kvs = "?w @ [(''data'', JStr (concat (replicate ?k ?inp)))]"
  have "echo_answer data = json_map (rendered ?kvs)"
    by (auto simp: echo_answer_def Let_def)
  moreover have "\<forall>(k, v) \<in> set ?kvs. json_ok v" by auto
  moreover have "sort_key fst ?kvs = (''data'', JStr (concat (replicate ?k ?inp))) # ?w"
    by (auto simp: less_eq_list_code)
  ultimately have "json_unmarshal (echo_answer data) = Some (JObj ((''data'', JStr (concat (replicate ?k ?inp))) # ?w))"
    using json_map_decodes [of ?kvs] by simp
  moreover have "1 \<le> ?k" "?k \<le> 500" by auto
  ultimately show ?thesis by blast
qed

subsection \<open>Witness\<close>

lemma info_sums_exact_witness:
  "sum_reqs (all_limits (\<lambda>_. sample_client\<lparr>throttle_grp := [sample_throttle 0]\<rparr>) [0, 1]) = 4"
proof -
  let ?st = "\<lambda>_ :: ref. sample_client\<lparr>throttle_grp := [sample_throttle 0]\<rparr>"
  have "GetLimitsLeft (sample_throttle 0) = (2, 1073741824, 1073741824, 0)" by code_simp
  then have "GetThrottleLimitsLeft (?st r) = (2, 1073741824, 1073741824, 0)" for r
    by (simp add: GetThrottleLimitsLeft_def group_GetLimitsLeft_def)
  then show ?thesis using info_sums_exact [where st = ?st and cs = "[0, 1]"] by simp
qed

end
