(* ===== verification/Plugins.thy ===== *)
theory Plugins
  imports KVStore HsCommon ConfigFile
begin

text \<open>
  The plugins of \<open>gosol/plugins\<close>: the runner of \<open>common/common.go\<close>, which lets at most one run of a plugin
  go on at a time and tells it how long ago the last successful one was; the registration of
  \<open>plugin_manager.go\<close>, whose timer starts a run of every plugin each second; and the Genesys plugin
  (\<open>genesys/genesys.go\<close>, \<open>get_token.go\<close>), which keeps an access token in the key value store. The
  registration of the Genesys plugin is commented out in the code; the signing of a message with a
  private key belongs to the library \<open>solana-go\<close> and is a parameter, as are its HTTP requests.
\<close>

subsection \<open>The runner\<close>

record plugin =
  pl_running :: bool
  pl_check :: nat
  pl_run :: nat
  pl_skip :: nat
  pl_last :: int

definition PluginFactory :: plugin where
  "PluginFactory = \<lparr>pl_running = False, pl_check = 0, pl_run = 0, pl_skip = 0, pl_last = 0\<rparr>"

text \<open>The two critical sections of \<open>Run\<close>: entering gives the age of the last run, \<open>None\<close> for a call that is
  skipped; leaving takes what the plugin's own \<open>Run\<close> returned.\<close>

definition run_enter :: "int \<Rightarrow> plugin \<Rightarrow> int option \<times> plugin" where
  "run_enter now this =
     (if pl_running this then (None, this\<lparr>pl_skip := pl_skip this + 1\<rparr>)
      else (Some (if pl_last this = 0 then - 1 else now - pl_last this), this\<lparr>pl_running := True\<rparr>))"

definition run_leave :: "int \<Rightarrow> bool \<Rightarrow> plugin \<Rightarrow> plugin" where
  "run_leave now r this =
     (if r then this\<lparr>pl_last := now, pl_run := pl_run this + 1, pl_running := False\<rparr>
      else this\<lparr>pl_check := pl_check this + 1, pl_running := False\<rparr>)"

subsection \<open>Genesys\<close>

record genesys =
  ge_client_id :: string
  ge_public_key :: string
  ge_signed_message :: string
  ge_comment :: string
  ge_last_updated :: int

text \<open>\<open>Init\<close>: \<open>sign\<close> gives the signed message and the public key for a private key.\<close>

definition attr_string :: "cfg \<Rightarrow> string \<Rightarrow> string \<Rightarrow> string go" where
  "attr_string c att sub =
     go_bind (GetSubattrString c att sub) (\<lambda>r. Inr (case r of Inl _ \<Rightarrow> [] | Inr s \<Rightarrow> s))"

definition genesys_Init :: "cfg \<Rightarrow> (string \<Rightarrow> string \<times> string) \<Rightarrow> string \<Rightarrow> genesys option go" where
  "genesys_Init c sign att =
     go_bind (attr_string c att ''client_id'') (\<lambda>i.
       if i = [] then Inr None
       else
         go_bind (attr_string c att ''pk'') (\<lambda>pk.
           if pk \<noteq> [] then
             (let (msg, key) = sign pk
              in Inr (Some \<lparr>ge_client_id = i, ge_public_key = key, ge_signed_message = msg, ge_comment = [], ge_last_updated = 0\<rparr>))
           else
             go_bind (attr_string c att ''msg'') (\<lambda>msg.
               go_bind (attr_string c att ''public_key'') (\<lambda>key.
                 if msg \<noteq> [] \<and> key \<noteq> [] then
                   Inr (Some \<lparr>ge_client_id = i, ge_public_key = key, ge_signed_message = msg, ge_comment = [], ge_last_updated = 0\<rparr>)
                 else Inr None))))"

text \<open>\<open>_getToken\<close>: the two requests give an error or a body. A decoding error is given by \<open>decode_error\<close>.
  The second response is used even after an error: without one the code dereferences nil, and a token
  that is no string fails the type assertion; both panics are recovered into one message.\<close>

record token_net =
  signin :: "string \<Rightarrow> string + string"
  fetch_token :: "string \<Rightarrow> string \<Rightarrow> string + string"
  decode_error :: "string \<Rightarrow> string"

fun double_quotes :: "nat \<Rightarrow> string \<Rightarrow> string" where
  "double_quotes n [] = []"
| "double_quotes n (c # cs) =
     (if n > 0 \<and> c = CHR 0x27 then CHR 0x22 # double_quotes (n - 1) cs else c # double_quotes n cs)"

definition signin_body :: "genesys \<Rightarrow> string" where
  "signin_body this =
     double_quotes 999
       (''{'' @ quoted ''message'' @ '':'' @ quoted (ge_signed_message this) @ '',''
        @ quoted ''signer'' @ '':'' @ quoted (ge_public_key this) @ ''}'')"

definition map_result :: "string \<Rightarrow> (string \<times> json) list option" where
  "map_result body = (case decode_first body of Some (JObj kvs) \<Rightarrow> Some kvs | Some JNull \<Rightarrow> Some [] | _ \<Rightarrow> None)"

definition token_of :: "(string \<times> json) list \<Rightarrow> string option" where
  "token_of kvs = (case map_of (rev kvs) ''token'' of Some (JStr t) \<Rightarrow> Some t | _ \<Rightarrow> None)"

definition recovered :: "string \<times> string" where
  "recovered = ([], ''Error getting genesys token'')"

definition getToken :: "token_net \<Rightarrow> genesys \<Rightarrow> string \<times> string" where
  "getToken w this =
     (case signin w (signin_body this) of
        Inl e \<Rightarrow> ([], ''Error: '' @ e)
      | Inr body \<Rightarrow>
          (case map_result body of
             None \<Rightarrow> ([], ''Error: '' @ decode_error w body)
           | Some res \<Rightarrow>
               (case token_of res of
                  None \<Rightarrow> ([], ''Error: Cannot read sign-in token (1)'')
                | Some token \<Rightarrow>
                    (case fetch_token w (ge_client_id this) token of
                       Inl e \<Rightarrow> recovered
                     | Inr body2 \<Rightarrow>
                         (case map_result body2 of
                            None \<Rightarrow> recovered
                          | Some res2 \<Rightarrow> (case token_of res2 of None \<Rightarrow> recovered | Some t \<Rightarrow> (t, [])))))))"

text \<open>\<open>Run\<close>: two hours are \<open>3600 * 2000\<close> milliseconds. The key value store is updated without an expiry.\<close>

definition genesys_due :: "int \<Rightarrow> bool" where
  "genesys_due age_ms \<longleftrightarrow> age_ms > 3600 * 2000 \<or> age_ms = - 1"

definition midchars :: "string \<Rightarrow> int \<Rightarrow> string" where
  "midchars s n = (case StrMidChars s n of Inr t \<Rightarrow> t | Inl _ \<Rightarrow> [])"

definition genesys_key :: "genesys \<Rightarrow> string" where
  "genesys_key this = ''genesys-'' @ ge_client_id this"

definition genesys_Run :: "token_net \<Rightarrow> int \<Rightarrow> int \<Rightarrow> genesys \<Rightarrow> pools \<Rightarrow> bool \<times> genesys \<times> pools" where
  "genesys_Run w now age_ms this pools =
     (if genesys_due age_ms then
        (let (token, error_comment) = getToken w this
         in if token \<noteq> [] then
              (True, this\<lparr>ge_comment := ''Received token '' @ midchars token 5, ge_last_updated := now\<rparr>,
               KeySet now (genesys_key this) (Some token) 0 True pools)
            else (False, this\<lparr>ge_comment := error_comment\<rparr>, pools))
      else (False, this, pools))"

definition genesys_Status :: "int \<Rightarrow> genesys \<Rightarrow> string" where
  "genesys_Status now this =
     go_join [CHR 0x0A]
       [''Genesys plugin for Client ID: '' @ ge_client_id this,
        '' Signed message: '' @ midchars (ge_signed_message this) 3,
        '' Comment: '' @ ge_comment this,
        '' Last Successfull Update: ''
        @ (if ge_last_updated this \<noteq> 0 then FormatTime (now - ge_last_updated this) @ '' ago'' else ''Never'')]"

definition plugin_Status :: "plugin \<Rightarrow> string \<Rightarrow> string" where
  "plugin_Status this inner =
     ''Run: '' @ itoa (int (pl_run this)) @ '', Check: '' @ itoa (int (pl_check this)) @ '', Skipped: ''
     @ itoa (int (pl_skip this)) @ [CHR 0x0A] @ inner"

definition plugins_status :: "string list \<Rightarrow> string" where
  "plugins_status ps =
     ''<pre>'' @ (if ps = [] then ''No plugins installed!'' else []) @ concat (map (\<lambda>p. p @ [CHR 0x0A]) ps) @ ''</pre>''"

subsection \<open>A registered plugin at work\<close>

text \<open>The runs of the plugin are goroutines: the first is started by \<open>register\<close>, the others by the timer. A
  run enters, calls the plugin and leaves; others may come and go meanwhile. \<open>sy_active\<close> holds the runs
  inside, each with the time it read and the age it was told; \<open>sy_entered\<close> and \<open>sy_log\<close> record the times of
  the runs that entered and of those that succeeded, latest first.\<close>

record plugin_sys =
  sy_plugin :: plugin
  sy_active :: "(int \<times> int) list"
  sy_genesys :: genesys
  sy_pools :: pools
  sy_entered :: "int list"
  sy_log :: "int list"

definition sys_enter :: "int \<Rightarrow> plugin_sys \<Rightarrow> plugin_sys" where
  "sys_enter now s =
     (case run_enter now (sy_plugin s) of
        (None, p) \<Rightarrow> s\<lparr>sy_plugin := p\<rparr>
      | (Some age, p) \<Rightarrow> s\<lparr>sy_plugin := p, sy_active := (now, age) # sy_active s, sy_entered := now # sy_entered s\<rparr>)"

definition sys_leave :: "token_net \<Rightarrow> int \<Rightarrow> int \<times> int \<Rightarrow> plugin_sys \<Rightarrow> plugin_sys" where
  "sys_leave w ts = (\<lambda>(now, age) s.
     (let (r, g, ps) = genesys_Run w ts age (sy_genesys s) (sy_pools s)
      in s\<lparr>sy_plugin := run_leave now r (sy_plugin s), sy_active := remove1 (now, age) (sy_active s),
           sy_genesys := g, sy_pools := ps, sy_log := (if r then now # sy_log s else sy_log s)\<rparr>))"

inductive plugin_step :: "plugin_sys \<Rightarrow> plugin_sys \<Rightarrow> bool" where
  Enter: "plugin_step s (sys_enter now s)"
| Leave: "a \<in> set (sy_active s) \<Longrightarrow> plugin_step s (sys_leave w ts a s)"

definition registered :: "genesys \<Rightarrow> pools \<Rightarrow> plugin_sys" where
  "registered g ps =
     \<lparr>sy_plugin = PluginFactory, sy_active = [], sy_genesys = g, sy_pools = ps, sy_entered = [], sy_log = []\<rparr>"

inductive_cases plugin_stepE: "plugin_step s s'"

subsection \<open>At most one run at a time\<close>

definition exclusive :: "plugin_sys \<Rightarrow> bool" where
  "exclusive s \<longleftrightarrow> length (sy_active s) = (if pl_running (sy_plugin s) then 1 else 0) \<and>
     pl_run (sy_plugin s) = length (sy_log s) \<and>
     pl_run (sy_plugin s) + pl_check (sy_plugin s) + length (sy_active s) = length (sy_entered s)"

lemma exclusive_enter: "exclusive s \<Longrightarrow> exclusive (sys_enter now s)"
  by (auto simp: exclusive_def sys_enter_def run_enter_def)

lemma exclusive_leave:
  assumes "exclusive s" "a \<in> set (sy_active s)"
  shows "exclusive (sys_leave w ts a s)"
proof -
  from assms have "sy_active s = [a]" "pl_running (sy_plugin s)"
    by (auto simp: exclusive_def length_Suc_conv split: if_splits)
  with assms show ?thesis
    by (cases a) (auto simp: exclusive_def sys_leave_def run_leave_def split: prod.splits)
qed

text \<open>A plugin is never run twice at the same time, however its goroutines interleave, and its counters
  tell what happened: one for every run that succeeded and one for every other that came back.\<close>

theorem plugin_runs_exclusive:
  assumes "plugin_step\<^sup>*\<^sup>* (registered g ps) s"
  shows "length (sy_active s) \<le> 1 \<and> (sy_active s \<noteq> [] \<longleftrightarrow> pl_running (sy_plugin s)) \<and>
    pl_run (sy_plugin s) = length (sy_log s) \<and>
    pl_run (sy_plugin s) + pl_check (sy_plugin s) + length (sy_active s) = length (sy_entered s)"
proof -
  from assms have "exclusive s"
  proof (induction rule: rtranclp_induct)
    case base
    then show ?case by (simp add: registered_def exclusive_def PluginFactory_def)
  next
    case (step s s')
    from step(2) step(3) show ?case by (cases rule: plugin_stepE) (auto intro: exclusive_enter exclusive_leave)
  qed
  then show ?thesis by (auto simp: exclusive_def split: if_splits)
qed

subsection \<open>The token is refreshed every two hours at most\<close>

definition spaced :: "int list \<Rightarrow> bool" where
  "spaced ts \<longleftrightarrow> sorted_wrt (\<lambda>a b. a > b + 3600 * 2000) ts"

definition refresh_inv :: "plugin_sys \<Rightarrow> bool" where
  "refresh_inv s \<longleftrightarrow> exclusive s \<and>
     (sorted_wrt (\<ge>) (sy_entered s) \<and> (\<forall>t \<in> set (sy_entered s). t > 0) \<longrightarrow>
        spaced (sy_log s) \<and> set (sy_log s) \<subseteq> set (sy_entered s) \<and>
        pl_last (sy_plugin s) = (case sy_log s of [] \<Rightarrow> 0 | t # _ \<Rightarrow> t) \<and>
        (\<forall>(now, age) \<in> set (sy_active s). now \<in> set (sy_entered s) \<and>
           age = (case sy_log s of [] \<Rightarrow> - 1 | t # _ \<Rightarrow> now - t) \<and> (\<forall>t \<in> set (sy_log s). t \<le> now)))"

lemma genesys_Run_due: "genesys_Run w ts age g ps = (r, g', ps') \<Longrightarrow> r \<Longrightarrow> genesys_due age"
  by (auto simp: genesys_Run_def split: if_splits prod.splits)

lemma refresh_enter: "refresh_inv s \<Longrightarrow> refresh_inv (sys_enter now s)"
proof (cases "pl_running (sy_plugin s)")
  case True
  then show "refresh_inv s \<Longrightarrow> ?thesis"
    using exclusive_enter [of s now] by (auto simp: refresh_inv_def sys_enter_def run_enter_def)
next
  case False
  assume inv: "refresh_inv s"
  then have "sy_active s = []" using False by (simp add: refresh_inv_def exclusive_def)
  moreover have "exclusive (sys_enter now s)" using inv exclusive_enter by (simp add: refresh_inv_def)
  ultimately show ?thesis
    using inv False
    by (auto simp: refresh_inv_def sys_enter_def run_enter_def split: list.splits)
qed

lemma refresh_leave:
  assumes "refresh_inv s" "a \<in> set (sy_active s)"
  shows "refresh_inv (sys_leave w ts a s)"
proof -
  obtain now age where a: "a = (now, age)" by (cases a)
  obtain r g ps where run: "genesys_Run w ts age (sy_genesys s) (sy_pools s) = (r, g, ps)" by (metis prod_cases3)
  have ex: "exclusive s" "exclusive (sys_leave w ts a s)"
    using assms exclusive_leave by (simp_all add: refresh_inv_def)
  then have act: "sy_active s = [(now, age)]" using assms(2) a
    by (auto simp: exclusive_def length_Suc_conv split: if_splits)
  have s': "sys_leave w ts a s = s\<lparr>sy_plugin := run_leave now r (sy_plugin s), sy_active := [],
      sy_genesys := g, sy_pools := ps, sy_log := (if r then now # sy_log s else sy_log s)\<rparr>"
    by (simp add: sys_leave_def a run act)
  show ?thesis
  proof (cases r)
    case False
    with assms(1) ex show ?thesis unfolding s' by (auto simp: refresh_inv_def run_leave_def)
  next
    case True
    with run have due: "genesys_due age" using genesys_Run_due by blast
    show ?thesis unfolding refresh_inv_def
    proof (intro conjI impI)
      assume "sorted_wrt (\<ge>) (sy_entered (sys_leave w ts a s)) \<and> (\<forall>t \<in> set (sy_entered (sys_leave w ts a s)). t > 0)"
      then have i: "spaced (sy_log s)" "set (sy_log s) \<subseteq> set (sy_entered s)" "now \<in> set (sy_entered s)"
        "age = (case sy_log s of [] \<Rightarrow> - 1 | t # _ \<Rightarrow> now - t)" "\<forall>t \<in> set (sy_log s). t \<le> now"
        using assms(1) act by (auto simp: refresh_inv_def s')
      show "spaced (sy_log (sys_leave w ts a s))"
      proof (cases "sy_log s")
        case Nil
        then show ?thesis using True by (simp add: s' spaced_def)
      next
        case (Cons t ts')
        with i(4,5) due have "now > t + 3600 * 2000" by (auto simp: genesys_due_def)
        with i(1) Cons True show ?thesis by (auto simp: s' spaced_def)
      qed
      show "set (sy_log (sys_leave w ts a s)) \<subseteq> set (sy_entered (sys_leave w ts a s))" using i True by (simp add: s')
    qed (use ex True in \<open>simp_all add: s' run_leave_def\<close>)
  qed
qed

text \<open>The Genesys plugin asks for a new token at most every two hours: as long as the runs read the clock
  in the order in which they enter, and it is past its zero, two successful runs started more than two
  hours apart. (A run that reads the clock one millisecond before the last successful one is told the age
  -1, which stands for never, and refreshes at once.)\<close>

theorem token_refresh_spaced:
  assumes "plugin_step\<^sup>*\<^sup>* (registered g ps) s" "sorted_wrt (\<ge>) (sy_entered s)" "\<forall>t \<in> set (sy_entered s). t > 0"
    "sy_log s = later @ [t2, t1] @ earlier"
  shows "t2 > t1 + 2 * 60 * 60 * 1000"
proof -
  from assms(1) have "refresh_inv s"
  proof (induction rule: rtranclp_induct)
    case base
    then show ?case by (simp add: registered_def refresh_inv_def exclusive_def PluginFactory_def spaced_def)
  next
    case (step s s')
    from step(2) step(3) show ?case by (cases rule: plugin_stepE) (auto intro: refresh_enter refresh_leave)
  qed
  with assms(2-4) show ?thesis by (simp add: refresh_inv_def spaced_def sorted_wrt_append)
qed

subsection \<open>The token stays secret\<close>

definition stored :: "plugin_sys \<Rightarrow> string \<Rightarrow> bool" where
  "stored s k \<longleftrightarrow> pools_ok (sy_pools s) \<and> genesys_key (sy_genesys s) = k \<and>
     (sy_log s \<noteq> [] \<longrightarrow>
       (\<exists>t. t \<noteq> [] \<and> gm_get zero_item (sy_pools s ! getpool k) k = \<lparr>item_data = Some t, item_expires = 0, item_sensitive = True\<rparr>))"

lemma stored_enter: "stored s k \<Longrightarrow> stored (sys_enter now s) k"
  by (auto simp: stored_def sys_enter_def split: prod.splits option.splits)

lemma stored_leave:
  assumes "stored s k"
  shows "stored (sys_leave w ts a s) k"
proof -
  obtain now age where a: "a = (now, age)" by (cases a)
  have "pools_ok ps \<Longrightarrow> getpool k < length ps" for ps using getpool_bound [of k] by (simp add: pools_ok_def)
  with assms show ?thesis
    by (auto simp: a stored_def sys_leave_def genesys_Run_def genesys_key_def KeySet_def pools_ok_def Let_def
        split: prod.splits)
qed

text \<open>Once the plugin has received a token, the key value store holds a token under the plugin's key that does not
  expire, and the handler of the store refuses to return it to a client.\<close>

theorem token_never_served:
  assumes "plugin_step\<^sup>*\<^sup>* (registered g ps) s" "pools_ok ps" "sy_log s \<noteq> []" "GetParam data ''k'' [] = genesys_key g"
  shows "(\<exists>t. t \<noteq> [] \<and> KeyGet now (genesys_key g) def (sy_pools s) = Some t) \<and>
    handle_kvstore now ''keyGet'' data (sy_pools s) = (''Cannot retrieve sensitive data'', data, sy_pools s)"
proof -
  from assms(1) have "stored s (genesys_key g)"
  proof (induction rule: rtranclp_induct)
    case base
    then show ?case using assms(2) by (simp add: registered_def stored_def)
  next
    case (step s s')
    from step(2) step(3) show ?case by (cases rule: plugin_stepE) (auto intro: stored_enter stored_leave)
  qed
  then show ?thesis using assms(3,4) by (auto simp: stored_def KeyGet_def keyGet_def handle_kvstore_def Let_def)
qed

subsection \<open>Witnesses\<close>

text \<open>A run that receives a token, one that comes two hours and a millisecond later, and one that comes
  between them.\<close>

definition demo_net :: token_net where
  "demo_net = \<lparr>signin = \<lambda>_. Inr ''{\"token\":\"a\"}'', fetch_token = \<lambda>_ _. Inr ''{\"token\":\"b\"}'', decode_error = \<lambda>_. []\<rparr>"

definition demo_genesys :: genesys where
  "demo_genesys = \<lparr>ge_client_id = ''c'', ge_public_key = ''p'', ge_signed_message = ''m'', ge_comment = [], ge_last_updated = 0\<rparr>"

definition demo_pools :: pools where
  "demo_pools = replicate (unat pool_count) []"

lemma demo_token: "ge_client_id g = ''c'' \<Longrightarrow> getToken demo_net g = (''b'', [])"
proof -
  have "decode_first ''{\"token\":\"a\"}'' = Some (JObj [(''token'', JStr ''a'')])"
    "decode_first ''{\"token\":\"b\"}'' = Some (JObj [(''token'', JStr ''b'')])" by code_simp+
  then show ?thesis by (simp add: getToken_def demo_net_def map_result_def token_of_def)
qed

definition demo_start :: plugin_sys where
  "demo_start = registered demo_genesys demo_pools"

definition demo_once :: plugin_sys where
  "demo_once = sys_leave demo_net 0 (5, - 1) (sys_enter 5 demo_start)"

definition demo_twice :: plugin_sys where
  "demo_twice = sys_leave demo_net 7200 (7200006, 7200001) (sys_enter 7200006 demo_once)"

lemma demo_run: "ge_client_id g = ''c'' \<Longrightarrow> genesys_due age \<Longrightarrow>
   genesys_Run demo_net now age g ps =
     (True, g\<lparr>ge_comment := ''Received token '' @ midchars ''b'' 5, ge_last_updated := now\<rparr>,
      KeySet now ''genesys-c'' (Some ''b'') 0 True ps)"
  by (simp add: genesys_Run_def demo_token genesys_key_def)

lemma demo_once_simps:
  "pl_running (sy_plugin demo_once) = False" "pl_last (sy_plugin demo_once) = 5" "sy_active demo_once = []"
  "sy_entered demo_once = [5]" "sy_log demo_once = [5]" "ge_client_id (sy_genesys demo_once) = ''c''"
  by (simp_all add: demo_once_def demo_start_def registered_def sys_leave_def sys_enter_def run_enter_def run_leave_def
      PluginFactory_def genesys_due_def demo_run demo_genesys_def)

lemma demo_once_reached: "plugin_step\<^sup>*\<^sup>* demo_start demo_once"
proof -
  have "(5, - 1) \<in> set (sy_active (sys_enter 5 demo_start))"
    by (simp add: sys_enter_def run_enter_def demo_start_def registered_def PluginFactory_def)
  then have "plugin_step (sys_enter 5 demo_start) demo_once" unfolding demo_once_def by (rule Leave)
  moreover have "plugin_step demo_start (sys_enter 5 demo_start)" by (rule Enter)
  ultimately show ?thesis by (meson converse_rtranclp_into_rtranclp rtranclp.rtrancl_refl)
qed

lemma demo_twice_reached: "plugin_step\<^sup>*\<^sup>* demo_start demo_twice"
proof -
  have "(7200006, 7200001) \<in> set (sy_active (sys_enter 7200006 demo_once))"
    by (simp add: sys_enter_def run_enter_def demo_once_simps)
  then have "plugin_step (sys_enter 7200006 demo_once) demo_twice" unfolding demo_twice_def by (rule Leave)
  moreover have "plugin_step demo_once (sys_enter 7200006 demo_once)" by (rule Enter)
  ultimately show ?thesis using demo_once_reached by (meson rtranclp.rtrancl_into_rtrancl)
qed

lemma demo_twice_simps: "sy_entered demo_twice = [7200006, 5]" "sy_log demo_twice = [7200006, 5]"
  by (simp_all add: demo_twice_def sys_leave_def sys_enter_def run_enter_def demo_once_simps demo_run genesys_due_def)

lemma plugin_runs_exclusive_witness:
  "pl_run (sy_plugin demo_twice) = 2 \<and> length (sy_active demo_twice) \<le> 1"
  using plugin_runs_exclusive [OF demo_twice_reached [unfolded demo_start_def]] by (simp add: demo_twice_simps)

lemma token_refresh_spaced_witness: "(7200006::int) > 5 + 2 * 60 * 60 * 1000 \<and> sy_log demo_twice = [7200006, 5]"
  using token_refresh_spaced [OF demo_twice_reached [unfolded demo_start_def], of "[]" 7200006 5 "[]"]
  by (simp add: demo_twice_simps)

lemma token_never_served_witness:
  "handle_kvstore 9 ''keyGet'' (SetParam CreateHSParams ''k'' ''genesys-c'') (sy_pools demo_once) =
     (''Cannot retrieve sensitive data'', SetParam CreateHSParams ''k'' ''genesys-c'', sy_pools demo_once)"
  using token_never_served [OF demo_once_reached [unfolded demo_start_def], of "SetParam CreateHSParams ''k'' ''genesys-c''" 9]
  by (simp add: demo_once_simps demo_pools_def pools_ok_def genesys_key_def demo_genesys_def GetParam_def SetParam_def
      map_of_gm_set CreateHSParams_def)

end
