(* ===== verification/NodeStatus.thy ===== *)
theory NodeStatus
  imports ClientCorrect HsCommonCorrect
begin

text \<open>
  The status section of a node: \<open>GetStatus\<close> of \<open>client/status.go\<close> and \<open>throttle/status.go\<close>, \<open>Info\<close> of
  \<open>last_error.go\<close>, the layout of \<open>client/status/status.go\<close> and the page of \<open>solana_proxy/status.go\<close>. The
  formatting of dates is a parameter. Characters outside ASCII are written as their UTF-8 bytes.
\<close>

subsection \<open>The layout of a node\<close>

record node_status =
  ns_header :: string
  ns_color :: string
  ns_icon :: string
  ns_icon_color :: string
  ns_badges :: "(string \<times> string \<times> string) list"
  ns_content :: string

definition Create :: "bool \<Rightarrow> bool \<Rightarrow> bool \<Rightarrow> node_status \<times> string" where
  "Create paused throttled unhealthy =
     (let mk = (\<lambda>icon icon_color color. \<lparr>ns_header = [], ns_color = color, ns_icon = icon, ns_icon_color = icon_color,
            ns_badges = [], ns_content = []\<rparr>)
      in if unhealthy then (mk ''&#9632;'' ''#dd4444'' ''#ffdddd'', ''This node is not healthy, recent requests failed'')
         else if paused then (mk ''&#9208;'' ''#666666'' ''#aaaaaa'', ''This node is paused'')
         else if throttled then (mk ''&#x29D6;'' ''#dddd44'' ''#ffffdd'', ''This node is throttled, please wait'')
         else (mk ''&#9654;'' ''#449944'' ''#ddffdd'', ''This node is processing requests normally''))"

definition SetHeader :: "string \<Rightarrow> node_status \<Rightarrow> node_status" where
  "SetHeader content this = this\<lparr>ns_header := content\<rparr>"

definition AddContent :: "string \<Rightarrow> node_status \<Rightarrow> node_status" where
  "AddContent content this = this\<lparr>ns_content := ns_content this @ content\<rparr>"

definition AddBadge :: "string \<Rightarrow> string \<Rightarrow> string \<Rightarrow> node_status \<Rightarrow> node_status" where
  "AddBadge txt color info this = this\<lparr>ns_badges := ns_badges this @ [(txt, color, info)]\<rparr>"

definition style :: "string \<Rightarrow> string" where
  "style css = '' style='' @ quoted css"

definition render_badge :: "string \<times> string \<times> string \<Rightarrow> string" where
  "render_badge = (\<lambda>(txt, color, info).
     ''<span'' @ style (''background: '' @ color) @ ''>'' @ txt @ ''<div>'' @ info @ ''</div></span> '')"

definition status_Render :: "node_status \<Rightarrow> string" where
  "status_Render this =
     ''<div class='' @ quoted ''node'' @ style (''background: '' @ ns_color this) @ ''>''
     @ ''<div class='' @ quoted ''state'' @ style (''color: '' @ ns_icon_color this) @ ''>'' @ ns_icon this @ ''</div>''
     @ ''<pre class='' @ quoted ''info'' @ ''>'' @ ns_header this @ ''</pre>''
     @ ''<div class='' @ quoted ''addl'' @ ''>'' @ concat (map render_badge (ns_badges this)) @ ''</div></div>''
     @ ''<pre'' @ style ''padding-left: 30px'' @ ''>'' @ ns_content this @ ''</pre>''"

subsection \<open>The status of a throttle\<close>

definition filled_circle :: string where "filled_circle = [CHR 0xE2, CHR 0xAC, CHR 0xA4]"
definition crossed_circle :: string where "crossed_circle = [CHR 0xE2, CHR 0xAE, CHR 0xBF]"
definition filled_diamond :: string where "filled_diamond = [CHR 0xE2, CHR 0x97, CHR 0x86]"
definition empty_diamond :: string where "empty_diamond = [CHR 0xE2, CHR 0x97, CHR 0x87]"
definition play_sign :: string where "play_sign = [CHR 0xE2, CHR 0x8F, CHR 0xB5, CHR 0xEF, CHR 0xB8, CHR 0x8E]"

definition progress :: "int \<Rightarrow> string" where
  "progress p0 =
     (let p = (if p0 > 100 then 100 else p0) sdiv 10
      in concat (replicate (nat p) filled_diamond)
         @ (if p < 10 \<and> 10 - p > 0 then concat (replicate (nat (10 - p)) empty_diamond) else []))"

text \<open>Padding with blanks never panics.\<close>

definition pad_html :: "string \<Rightarrow> int \<Rightarrow> string" where
  "pad_html s n = (case StrPostfixHTML s n '' '' of Inr t \<Rightarrow> t | Inl _ \<Rightarrow> [])"

definition pad_plain :: "string \<Rightarrow> int \<Rightarrow> string" where
  "pad_plain s n = (case StrPostfix s n '' '' of Inr t \<Rightarrow> t | Inl _ \<Rightarrow> [])"

text \<open>\<open>%.01f\<close>, for a number that is not negative.\<close>

definition fixed1 :: "f64 \<Rightarrow> string" where
  "fixed1 x = (let n = round_even (x * 10) in itoa (n div 10) @ ''.'' @ itoa (n mod 10))"

definition mono :: "string \<Rightarrow> string" where
  "mono color = ''<span'' @ style (''color: '' @ color @ ''; font-family: monospace'') @ ''>''"

definition throttle_title :: "throttle \<Rightarrow> string" where
  "throttle_title this =
     (let layout = itoa (int (length (stats this))) @ ''x'' @ itoa (stats_window_size_seconds this) @ ''s''
      in if limiters this = [] then
           mono ''#449944'' @ '' <b>'' @ filled_circle @ ''</b> Throttling disabled ('' @ layout @ '') ''
           @ play_sign @ play_sign @ play_sign @ ''</span>''
         else if status_throttled this then
           mono ''#dd4444'' @ '' <b>'' @ crossed_circle @ ''</b> Throttling group ('' @ layout @ ''), exhausted</span>''
         else mono ''#449944'' @ ''<b>'' @ filled_circle @ ''</b> Throttling group ('' @ layout @ '')</span>'')"

definition limiter_line :: "throttle \<Rightarrow> nat \<Rightarrow> limiter \<Rightarrow> string" where
  "limiter_line this k v =
     (let kind = (case limiter_t v of L_REQUESTS \<Rightarrow> ''requests'' | L_REQUESTS_PER_FN \<Rightarrow> ''requests for single function''
                  | L_DATA_RECEIVED \<Rightarrow> ''bytes received'');
          s = in_time_windows v * stats_window_size_seconds this;
          txt = ''Throtting #'' @ itoa (int k) @ '': '' @ itoa s @ '' second(s), maximum '' @ itoa (maximum v) @ '' '' @ kind;
          (amt, perc) = getThrottleStatus this v;
          (color, symbol) = (if perc \<ge> 10000 then (''#dd4444'', crossed_circle) else (''#000000'', filled_circle))
      in pad_plain txt 80 @ progress (perc sdiv 100) @ [CHR 0x09]
         @ mono color @ ''<b>'' @ symbol @ ''</b> '' @ itoa amt @ ''/'' @ itoa (maximum v)
         @ '' ('' @ fixed1 (fdiv (f_of_int perc) 100) @ ''%) <i>+'' @ itoa perc @ ''</i></span>'' @ [CHR 0x0A])"

definition throttle_GetStatus :: "throttle \<Rightarrow> string" where
  "throttle_GetStatus this =
     pad_html (throttle_title this) 80
     @ ''Group Score: '' @ itoa (status_score this) @ '' (Modifier: '' @ itoa (score_modifier this) @ '')'' @ [CHR 0x0A]
     @ concat (map (\<lambda>(k, v). limiter_line this k v) (enumerate 0 (limiters this)))"

subsection \<open>The last error\<close>

definition html_escape :: "string \<Rightarrow> string" where
  "html_escape s = concat (map (\<lambda>c.
     if c = CHR ''&'' then ''&amp;'' else if c = CHR 0x27 then ''&#39;'' else if c = CHR ''<'' then ''&lt;''
     else if c = CHR ''>'' then ''&gt;'' else if c = CHR 0x22 then ''&#34;'' else [c]) s)"

definition last_error_Info :: "(int \<Rightarrow> string) \<Rightarrow> last_error \<Rightarrow> string \<times> string" where
  "last_error_Info date_us e =
     (''Error '' @ itoa (le_counter e) @ '' @'' @ date_us (le_call_ts e) @ '' / '' @ le_str e,
      ''Request Data:'' @ le_call e @ [CHR 0x0A, CHR 0x0A] @ le_details e)"

definition last_error_String :: "(int \<Rightarrow> string) \<Rightarrow> last_error \<Rightarrow> string" where
  "last_error_String date_us e = (let (h, d) = last_error_Info date_us e in h @ [CHR 0x0A] @ d)"

subsection \<open>The section of a node\<close>

text \<open>The value of an authorization header is masked.\<close>

definition mask_header :: "string \<Rightarrow> string \<Rightarrow> string" where
  "mask_header k vv =
     (if go_contains (to_lower k) ''authorization'' \<and> length vv > 5 then
        (if has_prefix (to_lower vv) ''bearer'' then take 6 vv @ '' '' else []) @ ''****'' @ drop (length vv - 5) vv
      else vv)"

definition header_info :: "http_header \<Rightarrow> string" where
  "header_info hdr = concat (map (\<lambda>(k, v). k @ '': '' @ mask_header k (go_join '', '' v) @ ''<br>'') hdr)"

text \<open>\<open>%.02f\<close> of a quotient; without requests or time it is no number or infinite.\<close>

definition ratio2 :: "int \<Rightarrow> int \<Rightarrow> f64 \<Rightarrow> string" where
  "ratio2 a b scale =
     (if b = 0 then (if a = 0 then ''NaN'' else if a < 0 then ''-Inf'' else ''+Inf'')
      else fixed2 itoa (fdiv (fdiv (f_of_int a) (f_of_int b)) scale))"

definition megabytes :: "int \<Rightarrow> string" where
  "megabytes n = fixed2 itoa (fdiv (fdiv (f_of_int n) 1000) 1000) @ ''MB''"

definition stat_row :: "string \<Rightarrow> cstat \<Rightarrow> int \<Rightarrow> string list \<Rightarrow> string list" where
  "stat_row label s time_running addl =
     [label, itoa (st_done s), ratio2 (st_done s) time_running 1, ratio2 (uint (st_ns_total s)) (st_done s) 1000 @ '' ms'']
     @ addl
     @ map itoa [st_error_json_marshal s, st_error_req s, st_error_resp s, st_error_resp_read s, st_error_json_decode s]
     @ [megabytes (st_bytes_sent s), megabytes (st_bytes_received s)]"

record clock =
  date_ms :: "int \<Rightarrow> string"
  date_us :: "int \<Rightarrow> string"
  running_for :: int

definition status_header :: "solclient \<Rightarrow> string \<Rightarrow> string" where
  "status_header this description =
     (let t = group_GetThrottleScore (throttle_grp this)
      in ''<b>'' @ (if is_public_node this then ''Public'' else ''Private'') @ '' Node #'' @ itoa (cl_id this)
         @ ''</b>, Score: '' @ itoa (Score t) @ '', Utilization: ''
         @ fixed2 itoa (fdiv (f_of_int (CapacityUsed t)) 100) @ ''%, '' @ endpoint this @ [CHR 0x0A]
         @ description @ [CHR 0x0A] @ probe_log this)"

definition status_badges :: "clock \<Rightarrow> solclient \<Rightarrow> (string \<times> string \<times> string) list" where
  "status_badges w this =
     (let nl = [CHR 0x0A]; hdr = (case header this of None \<Rightarrow> [] | Some h \<Rightarrow> h);
          (dead, r, e, cmt) = statsIsDead this;
          next_comment = ''Node status which will be applied during the next update:'' @ nl @ cmt;
          counts = '' ('' @ itoa r @ ''R/'' @ itoa e @ ''E)''
      in (if version this \<noteq> [] then
            [(''Version: '' @ version this, ''#666666'', ''Version number was updated on: '' @ date_ms w (version_ts this))] else [])
         @ (if hdr \<noteq> [] then [(itoa (int (length hdr)) @ '' Header(s) defined'', ''#666666'', header_info hdr)] else [])
         @ [(itoa (stat_running this) @ '' Requests Running'', ''#666666'', ''Number of requests currently being processed.'')]
         @ (if probe_time this \<ge> 10 then
              [(''Conserve Requests'', ''#449944'', ''Health checks are limited for'' @ nl @ ''this node to conserve requests.'' @ nl @ nl
                 @ ''If you'' @ [CHR 0x27] @ ''re paying per-request'' @ nl @ ''it'' @ [CHR 0x27] @ ''s good to enable this mode.'')]
            else [])
         @ (if le_counter (cl_last_error this) > 0 then
              (let (h, d) = last_error_Info (date_us w) (cl_last_error this)
               in [(''Has Errors: '' @ itoa (le_counter (cl_last_error this)), ''#cc6a00'', html_escape h @ nl @ html_escape d)])
            else [])
         @ (if dead then [(''Predicted Not Healthy'' @ counts, ''#dd4444'', next_comment)]
            else [(''Predicted Healthy'' @ counts, ''#449944'', next_comment)])
         @ (if is_paused this then
              [(''Paused'', ''#666666'',
                ''Node is paused'' @ (if is_paused_comment this \<noteq> [] then '', reason:'' @ nl @ is_paused_comment this
                                  else '', no additional info present''))]
            else []))"

definition stat_table :: "clock \<Rightarrow> solclient \<Rightarrow> string" where
  "stat_table w this =
     (let t0 = SetClass ''tab sol'' (NewTableGen [''Time'', ''Requests'', ''Req/s'', ''Avg Time'', ''First Block'', ''Last Block'',
            ''Err JM'', ''Err Req'', ''Err Resp'', ''Err RResp'', ''Err Decode'', ''Sent'', ''Received'']);
          t1 = AddRow (stat_row ''Last 10s'' (statsGetAggr this 10) 10 [''-'', ''-'']) t0;
          t2 = AddRow (stat_row ''Last 60s'' (statsGetAggr this 60) 60 [''-'', ''-'']) t1
      in Render (AddRow (stat_row ''Total'' (stat_total this) (running_for w)
           [itoa (available_block_first this), itoa (available_block_last this)]) t2))"

definition client_GetStatus :: "clock \<Rightarrow> solclient \<Rightarrow> string" where
  "client_GetStatus w this =
     (let (out, description) = Create (is_paused this) (Throttled (group_GetThrottleScore (throttle_grp this))) (is_disabled this);
          out1 = SetHeader (status_header this description) out;
          out2 = fold (\<lambda>(t, c, i). AddBadge t c i) (status_badges w this) out1;
          out3 = AddContent (concat (map throttle_GetStatus (throttle_grp this))) out2
      in [CHR 0x0A] @ status_Render (AddContent (stat_table w this) out3))"

end
