(* ===== verification/NodeStatusCorrect.thy ===== *)
theory NodeStatusCorrect
  imports NodeStatus Scheduler SchedulerCorrect
begin

text \<open>
  The page of \<open>solana_proxy/status.go\<close> and what the status pages show: every registered client once, an
  authorization header only by its last five characters, the last error escaped, and the version a node
  reports as it is, markup included.
\<close>

subsection \<open>The page of the proxy\<close>

definition proxy_info :: string where
  "proxy_info =
     ''This section represents individual SOLANA nodes, with number of requests and errors'' @ [CHR 0x0A]
     @ ''<b>Err JM</b> - Json Marshall error. We were unable to build JSON payload required for your request'' @ [CHR 0x0A]
     @ ''<b>Err Req</b> - Request Error. We were unable to send request to host'' @ [CHR 0x0A]
     @ ''<b>Err Resp</b> - Response Error. We were unable to get server response'' @ [CHR 0x0A]
     @ ''<b>Err RResp</b> - Response Reading Error. We were unable to read server response'' @ [CHR 0x0A]
     @ ''<b>Err Decode</b> - Json Decode Error. We were unable read received JSON'' @ [CHR 0x0A]"

definition proxy_get_status :: "clock \<Rightarrow> store \<Rightarrow> ref list \<Rightarrow> (string \<times> string) go" where
  "proxy_get_status w st clients =
     (let sh = MakeScheduler clients; sections = (\<lambda>rs. concat (map (\<lambda>r. client_GetStatus w (st r)) rs))
      in go_bind (GetAll st sh True True) (\<lambda>pub.
         go_bind (GetAll st sh False True) (\<lambda>priv.
           Inr (''Solana Proxy'', ''<pre>'' @ proxy_info @ (sections pub @ sections priv) @ ''</pre>''))))"

lemma proxy_page:
  "proxy_get_status w st clients =
     Inr (''Solana Proxy'', ''<pre>'' @ proxy_info
       @ concat (map (\<lambda>r. client_GetStatus w (st r)) (filter (\<lambda>r. is_public_node (st r)) clients @
           filter (\<lambda>r. \<not> is_public_node (st r)) clients)) @ ''</pre>'')"
proof -
  have "GetAll st (MakeScheduler clients) pub True = Inr (filter (\<lambda>r. is_public_node (st r) = pub) clients)" for pub
    by (simp add: GetAll_def MakeScheduler_def all_loop_Some listed_def [abs_def])
  then show ?thesis by (simp add: proxy_get_status_def Let_def)
qed

theorem proxy_page_complete:
  "\<exists>rs. mset rs = mset clients \<and>
     proxy_get_status w st clients =
       Inr (''Solana Proxy'', ''<pre>'' @ proxy_info @ concat (map (\<lambda>r. client_GetStatus w (st r)) rs) @ ''</pre>'')"
proof (intro exI conjI)
  show "mset (filter (\<lambda>r. is_public_node (st r)) clients @ filter (\<lambda>r. \<not> is_public_node (st r)) clients) = mset clients"
    by (simp add: multiset_partition [symmetric])
qed (rule proxy_page)

subsection \<open>Credentials\<close>

text \<open>Two headers of the same name: equal, or authorization values the mask makes equal.\<close>

definition is_bearer :: "string \<Rightarrow> bool" where
  "is_bearer v = has_prefix (to_lower v) ''bearer''"

definition masked_alike :: "string \<Rightarrow> string \<Rightarrow> bool" where
  "masked_alike a b \<longleftrightarrow>
     5 < length a \<and> 5 < length b \<and> drop (length a - 5) a = drop (length b - 5) b \<and>
     (is_bearer a \<longleftrightarrow> is_bearer b) \<and> (is_bearer a \<longrightarrow> take 6 a = take 6 b)"

fun same_but_secret :: "string \<times> string list \<Rightarrow> string \<times> string list \<Rightarrow> bool" where
  "same_but_secret (k, v) (k', v') \<longleftrightarrow>
     k = k' \<and> (v = v' \<or> go_contains (to_lower k) ''authorization'' \<and> masked_alike (go_join '', '' v) (go_join '', '' v'))"

lemma mask_alike:
  "same_but_secret (k, v) (k', v') \<Longrightarrow> k = k' \<and> mask_header k (go_join '', '' v) = mask_header k' (go_join '', '' v')"
  by (auto simp: mask_header_def masked_alike_def is_bearer_def)

lemma header_info_alike: "list_all2 same_but_secret h h' \<Longrightarrow> header_info h = header_info h'"
  unfolding header_info_def
  by (induction rule: list_all2_induct) (use mask_alike in fastforce)+

lemma badges_header:
  assumes "list_all2 same_but_secret h h'"
  shows "status_badges w (c\<lparr>header := Some h\<rparr>) = status_badges w (c\<lparr>header := Some h'\<rparr>)"
proof -
  have "statsIsDead (c\<lparr>header := x\<rparr>) = statsIsDead c" for x by (simp add: statsIsDead_def)
  moreover have "h = [] \<longleftrightarrow> h' = []" "length h = length h'"
    using list_all2_lengthD [OF assms] by auto
  ultimately show ?thesis
    using header_info_alike [OF assms] by (simp add: status_badges_def Let_def)
qed


definition secret_header :: "string \<Rightarrow> http_header" where
  "secret_header secret = [(''Authorization'', [''Bearer '' @ secret]), (''Accept'', [''text/plain''])]"


subsection \<open>Markup\<close>

lemma html_escape_clean:
  "c \<in> set (html_escape s) \<Longrightarrow> c \<noteq> CHR ''<'' \<and> c \<noteq> CHR ''>'' \<and> c \<noteq> CHR 0x22 \<and> c \<noteq> CHR 0x27"
  by (auto simp: html_escape_def split: if_splits)

lemma fold_AddBadge: "ns_badges (fold (\<lambda>(t, c, i). AddBadge t c i) bs s) = ns_badges s @ bs"
  by (induction bs arbitrary: s) (auto simp: AddBadge_def)

lemma render_badges: "b \<in> set (ns_badges s) \<Longrightarrow> sublist (fst b) (status_Render s)"
proof -
  assume "b \<in> set (ns_badges s)"
  then obtain ys zs where "ns_badges s = ys @ b # zs" by (meson split_list)
  then have "sublist (render_badge b) (status_Render s)"
    unfolding status_Render_def
    by (simp only: map_append list.map concat_append concat.simps append_assoc)
      (rule sublist_append_rightI | rule sublist_behind)+
  moreover have "sublist (fst b) (render_badge b)"
    by (cases b) (simp only: render_badge_def prod.case fst_conv, (rule sublist_append_rightI | rule sublist_behind)+)
  ultimately show ?thesis by (rule sublist_order.order_trans [rotated])
qed

lemma badge_in_page:
  assumes "b \<in> set (status_badges w c)"
  shows "sublist (fst b) (client_GetStatus w c)"
proof -
  have "ns_badges (AddContent x s) = ns_badges s" "ns_badges (SetHeader x s) = ns_badges s" for x s
    by (simp_all add: AddContent_def SetHeader_def)
  with assms show ?thesis
    unfolding client_GetStatus_def Let_def
    by (cases "Create (is_paused c) (Throttled (group_GetThrottleScore (throttle_grp c))) (is_disabled c)")
      (simp only: prod.case, intro sublist_behind render_badges, simp add: fold_AddBadge)
qed

lemma version_shown_raw:
  assumes "version c \<noteq> []"
  shows "sublist (version c) (client_GetStatus w c)"
proof -
  have "(''Version: '' @ version c, ''#666666'', ''Version number was updated on: '' @ date_ms w (version_ts c))
      \<in> set (status_badges w c)"
    using assms by (cases "statsIsDead c") (simp add: status_badges_def Let_def)
  from badge_in_page [OF this] have "sublist (''Version: '' @ version c) (client_GetStatus w c)" by simp
  then show ?thesis by (rule sublist_order.order_trans [rotated]) (rule sublist_append_leftI)
qed

subsection \<open>The bar of a limiter\<close>

lemma progress_length:
  assumes "0 \<le> p"
  shows "length (progress p) = 30"
proof -
  have sym: "length (concat (replicate n xs)) = n * length xs" for n :: nat and xs :: string
    by (simp add: length_concat sum_list_replicate)
  have "p sdiv 10 = p div 10" if "0 \<le> p" for p :: int using that by (simp add: signed_divide_int_def sgn_if)
  moreover have "p div 10 < 10 \<Longrightarrow> nat (p div 10) + nat (10 - p div 10) = 10"
    using assms by (simp add: pos_imp_zdiv_nonneg_iff flip: nat_add_distrib)
  ultimately show ?thesis
    using assms by (auto simp: progress_def Let_def sym filled_diamond_def empty_diamond_def)
qed

end
