(* ===== verification/Byteslabs2.thy ===== *)
theory Byteslabs2
  imports Byteslabs
begin

text \<open>
  The slab allocator \<open>handler_socket2/byteslabs2\<close>, whose chunks and sizes belong to a manager. The loops are
  written as in its code, with -1 for nothing found; the records of a chunk and of an allocator are those
  of \<open>Byteslabs\<close>, whose fields are the same. The last theorem says that a manager behaves as the allocator of
  \<open>Byteslabs\<close> on its chunks, so everything proved there holds for it.
\<close>

record bsmanager =
  bm_chunks :: "mem_chunk list"
  conf_slab_size :: nat
  conf_slab_count :: nat

definition bs2_Make :: "nat \<Rightarrow> nat \<Rightarrow> nat \<Rightarrow> bsmanager" where
  "bs2_Make mem_chunks_count size_of_slab count_of_slabs =
     \<lparr>bm_chunks = map (\<lambda>_. \<lparr>slab_used = replicate count_of_slabs False, used_slab_count = 0, stat_alloc_full = 0,
          stat_alloc_full_small = 0, stat_alloc_tail = 0, stat_oom = 0, stat_routed = 0, stat_routed_alloc = 0\<rparr>)
        [0..<mem_chunks_count],
      conf_slab_size = size_of_slab, conf_slab_count = count_of_slabs\<rparr>"

text \<open>The counter is shared by all managers and counts modulo \<open>2 ^ 32\<close>; without chunks the remainder panics.\<close>

definition bs2_MakeAllocator :: "bsmanager \<Rightarrow> nat \<Rightarrow> allocator option \<times> nat" where
  "bs2_MakeAllocator this curr_mem_chunk =
     (let n = (curr_mem_chunk + 1) mod 2 ^ 32
      in (if bm_chunks this = [] then None
          else Some \<lparr>main_alloc = \<lparr>al_chunk = n mod length (bm_chunks this), al_slabs = [], al_free = [], is_additional = False\<rparr>,
                     addl_alloc = None\<rparr>, n))"

fun bs2_best_slab :: "int \<Rightarrow> mem_chunk list \<Rightarrow> nat \<Rightarrow> nat \<Rightarrow> int \<Rightarrow> int \<times> int \<Rightarrow> int \<times> int" where
  "bs2_best_slab cnt [] i own need acc = acc"
| "bs2_best_slab cnt (mc # mcs) i own need acc =
     (if i = own then bs2_best_slab cnt mcs (i + 1) own need acc
      else
        (let free = cnt - used_slab_count mc
         in bs2_best_slab cnt mcs (i + 1) own need (if free \<ge> need \<and> free > snd acc then (int i, free) else acc)))"

definition bs2_take_additional :: "bsmanager \<Rightarrow> int \<Rightarrow> allocator \<Rightarrow> allocator" where
  "bs2_take_additional m slab_needed this =
     (if is_additional (main_alloc this) \<or> addl_alloc this \<noteq> None then this
      else
        (let (best_slab, _) =
           bs2_best_slab (int (conf_slab_count m)) (bm_chunks m) 0 (al_chunk (main_alloc this)) slab_needed (- 1, - 1)
         in if best_slab = - 1 then this
            else this\<lparr>addl_alloc := Some \<lparr>al_chunk = nat best_slab, al_slabs = [], al_free = [], is_additional = True\<rparr>\<rparr>))"

text \<open>One critical section of \<open>Release\<close>; the additional allocator is released after it, by a call that does
  nothing when it holds no slab.\<close>

definition bs2_release_one :: "sub_alloc \<Rightarrow> bsmanager \<Rightarrow> bsmanager" where
  "bs2_release_one al m =
     (let mc = bm_chunks m ! al_chunk al
      in m\<lparr>bm_chunks := (bm_chunks m)[al_chunk al :=
           mc\<lparr>slab_used := fold (\<lambda>v u. u[v := False]) (al_slabs al) (slab_used mc),
              used_slab_count := used_slab_count mc - int (length (al_slabs al))\<rparr>]\<rparr>)"

definition bs2_Release :: "allocator \<Rightarrow> bsmanager \<Rightarrow> allocator \<times> bsmanager" where
  "bs2_Release this m =
     (if length (al_slabs (main_alloc this)) = 0 \<and> addl_alloc this = None then (this, m)
      else
        (let m1 = bs2_release_one (main_alloc this) m;
             this1 = \<lparr>main_alloc = (main_alloc this)\<lparr>al_slabs := [], al_free := []\<rparr>, addl_alloc = None\<rparr>
         in (this1,
             case addl_alloc this of
               None \<Rightarrow> m1
             | Some ad \<Rightarrow> if length (al_slabs ad) = 0 then m1 else bs2_release_one ad m1)))"

text \<open>\<open>_alloc\<close>, counting \<open>slabs_needed\<close> down.\<close>

fun bs2_alloc :: "nat \<Rightarrow> nat \<Rightarrow> nat \<Rightarrow> sub_alloc \<times> mem_chunk \<Rightarrow> sub_alloc \<times> mem_chunk" where
  "bs2_alloc slab_num slabs_needed slab_free (al, mc) =
     (if slabs_needed > 0 then
        bs2_alloc (slab_num + 1) (slabs_needed - 1) slab_free
          (al\<lparr>al_slabs := al_slabs al @ [slab_num],
              al_free := al_free al @ (if slabs_needed = 1 then [slab_free] else [0])\<rparr>,
           mc\<lparr>slab_used := (slab_used mc)[slab_num := True]\<rparr>)
      else (al, mc))"

declare bs2_alloc.simps [simp del]

text \<open>The loops of \<open>allocate_slab\<close>: the smallest tail that fits, the last free slab, the end of a free run.\<close>

fun bs2_min_tail :: "nat list \<Rightarrow> nat \<Rightarrow> int \<Rightarrow> int \<times> int \<Rightarrow> int \<times> int" where
  "bs2_min_tail [] req k acc = acc"
| "bs2_min_tail (v # vs) req k (min_space, min_key) =
     bs2_min_tail vs req (k + 1)
       (if v \<ge> req \<and> (min_space = - 1 \<or> int v < min_space) then (int v, k) else (min_space, min_key))"

fun bs2_last_free :: "bool list \<Rightarrow> nat \<Rightarrow> int" where
  "bs2_last_free used 0 = - 1"
| "bs2_last_free used (Suc pos) = (if \<not> used ! pos then int pos else bs2_last_free used pos)"

fun bs2_run :: "bool list \<Rightarrow> nat \<Rightarrow> nat \<Rightarrow> nat \<Rightarrow> nat \<times> nat" where
  "bs2_run [] slabs_needed free_slabs pos = (free_slabs, pos)"
| "bs2_run (u # us) slabs_needed free_slabs pos =
     (if \<not> u then
        (if free_slabs + 1 = slabs_needed then (free_slabs + 1, pos) else bs2_run us slabs_needed (free_slabs + 1) (pos + 1))
      else bs2_run us slabs_needed 0 (pos + 1))"

definition routed :: "sub_alloc \<Rightarrow> mem_chunk \<Rightarrow> mem_chunk" where
  "routed al mc = (if is_additional al then mc\<lparr>stat_routed_alloc := stat_routed_alloc mc + 1\<rparr> else mc)"

definition bs2_allocate_slab :: "bsmanager \<Rightarrow> sub_alloc \<Rightarrow> mem_chunk \<Rightarrow> nat \<Rightarrow> (nat \<times> nat) option \<times> sub_alloc \<times> mem_chunk" where
  "bs2_allocate_slab m al mc req =
     (let ss = conf_slab_size m;
          slab_free = (ss - req mod ss) mod ss;
          slabs_needed = (if slab_free > 0 then req div ss + 1 else req div ss);
          (min_space, min_key) = (if slabs_needed \<le> 1 then bs2_min_tail (al_free al) req 0 (- 1, - 1) else (- 1, - 1));
          pos1 = (if slabs_needed \<le> 1 then bs2_last_free (slab_used mc) (length (slab_used mc)) else - 1);
          (free_slabs, pos) = bs2_run (slab_used mc) slabs_needed 0 0
      in if int slabs_needed > int (conf_slab_count m) - used_slab_count mc then
           (None, al, mc\<lparr>stat_oom := stat_oom mc + 1\<rparr>)
         else if min_key > - 1 then
           (Some (al_slabs al ! nat min_key * ss + (ss - nat min_space), req),
            al\<lparr>al_free := (al_free al)[nat min_key := al_free al ! nat min_key - req]\<rparr>,
            routed al (mc\<lparr>stat_alloc_tail := stat_alloc_tail mc + 1\<rparr>))
         else if pos1 > - 1 then
           (let mc1 = routed al (mc\<lparr>stat_alloc_full_small := stat_alloc_full_small mc + 1\<rparr>);
                mc2 = mc1\<lparr>used_slab_count := used_slab_count mc1 + int slabs_needed\<rparr>
            in (Some (nat pos1 * ss, req), bs2_alloc (nat pos1) slabs_needed slab_free (al, mc2)))
         else if slabs_needed > 1 \<and> free_slabs = slabs_needed then
           (let mc1 = routed al (mc\<lparr>stat_alloc_full := stat_alloc_full mc + 1\<rparr>);
                mc2 = mc1\<lparr>used_slab_count := used_slab_count mc1 + int slabs_needed\<rparr>;
                first = pos + 1 - slabs_needed
            in (Some (first * ss, req), bs2_alloc first slabs_needed slab_free (al, mc2)))
         else (None, al, mc\<lparr>stat_oom := stat_oom mc + 1\<rparr>))"

text \<open>One critical section of \<open>Allocate\<close>: an allocation on the chunk of \<open>al\<close>.\<close>

definition bs2_section :: "bsmanager \<Rightarrow> sub_alloc \<Rightarrow> nat \<Rightarrow> slice option \<times> sub_alloc \<times> bsmanager" where
  "bs2_section m al req =
     (let (r, al', mc) = bs2_allocate_slab m al (bm_chunks m ! al_chunk al) req
      in (map_option (\<lambda>(st, n). Slab (al_chunk al) st n) r, al', m\<lparr>bm_chunks := (bm_chunks m)[al_chunk al := mc]\<rparr>))"

definition bs2_Allocate :: "bsmanager \<Rightarrow> allocator \<Rightarrow> nat \<Rightarrow> slice \<times> allocator \<times> bsmanager" where
  "bs2_Allocate m this req =
     (if req \<le> 96 then (HeapMem req, this, m)
      else
        (let (slb_mem, al, m1) = bs2_section m (main_alloc this) req; this1 = this\<lparr>main_alloc := al\<rparr>
         in case slb_mem of
              Some sl \<Rightarrow> (sl, this1, m1)
            | None \<Rightarrow>
                (let this2 = (if addl_alloc this1 = None \<and> \<not> is_additional al
                              then bs2_take_additional m1 (int (req div conf_slab_size m1) + 5) this1 else this1)
                 in case addl_alloc this2 of
                      None \<Rightarrow> (HeapMem req, this2, m1)
                    | Some ad \<Rightarrow>
                        (let c = al_chunk (main_alloc this); mc = bm_chunks m1 ! c;
                             m2 = m1\<lparr>bm_chunks := (bm_chunks m1)[c := mc\<lparr>stat_routed := stat_routed mc + 1\<rparr>]\<rparr>;
                             (slb_mem2, ad', m3) = bs2_section m2 ad req;
                             this3 = this2\<lparr>addl_alloc := Some ad'\<rparr>
                         in (case slb_mem2 of Some sl \<Rightarrow> sl | None \<Rightarrow> HeapMem req, this3, m3)))))"

subsection \<open>Agreement with \<open>Byteslabs\<close>\<close>

definition bm_conf :: "bsmanager \<Rightarrow> bs_conf" where
  "bm_conf m = \<lparr>chunk_count = length (bm_chunks m), slab_size = conf_slab_size m, slab_count = conf_slab_count m\<rparr>"

lemma bm_conf_sel [simp]:
  "slab_size (bm_conf m) = conf_slab_size m" "slab_count (bm_conf m) = conf_slab_count m"
  "length xs = length (bm_chunks m) \<Longrightarrow> bm_conf (m\<lparr>bm_chunks := xs\<rparr>) = bm_conf m"
  by (simp_all add: bm_conf_def)

lemma best_slab_agrees:
  "bs2_best_slab (int (slab_count cf)) mcs i own need (case best of None \<Rightarrow> (- 1, - 1) | Some (j, f) \<Rightarrow> (int j, f)) =
     (case best_chunk cf mcs i own need best of None \<Rightarrow> (- 1, - 1) | Some (j, f) \<Rightarrow> (int j, f))"
proof (induction mcs arbitrary: i best)
  case (Cons mc mcs)
  show ?case
    using Cons.IH [of "i + 1" best] Cons.IH [of "i + 1" "Some (i, int (slab_count cf) - used_slab_count mc)"]
    by (auto simp: Let_def split: option.splits)
qed (auto split: option.splits)

lemma min_tail_agrees:
  "bs2_min_tail vs req (int k) (case best of None \<Rightarrow> (- 1, - 1) | Some (j, v) \<Rightarrow> (int v, int j)) =
     (case best_tail vs req k best of None \<Rightarrow> (- 1, - 1) | Some (j, v) \<Rightarrow> (int v, int j))"
proof (induction vs arbitrary: k best)
  case (Cons v vs)
  show ?case
    using Cons.IH [of "k + 1" best] Cons.IH [of "k + 1" "Some (k, v)"]
    by (cases best) (auto simp: add.commute)
qed simp

lemma last_free_agrees: "bs2_last_free used n = (case last_free used n of None \<Rightarrow> - 1 | Some i \<Rightarrow> int i)"
  by (induction n) auto

lemma run_agrees:
  "free < need \<Longrightarrow> find_run us need pos free = (case bs2_run us need free pos of (f, p) \<Rightarrow> if f = need then Some p else None)"
proof (induction us arbitrary: pos free)
  case (Cons u us)
  then show ?case by (cases "free + 1 = need") (auto split: prod.splits)
qed simp

lemma alloc_agrees: "bs2_alloc slab_num n slab_free (al, mc) = take_slabs slab_num n slab_free al mc"
proof (induction n arbitrary: slab_num al mc)
  case (Suc n)
  then show ?case by (subst bs2_alloc.simps) (simp add: if_distrib cong: if_cong)
qed (simp add: bs2_alloc.simps)

lemma best_tail_value:
  "best_tail vs req 0 None = Some (k, v) \<Longrightarrow> vs ! k = v"
  by (drule best_tail_spec) simp

lemma routed_sel:
  "(routed al mc)\<lparr>used_slab_count := used_slab_count (routed al mc) + n\<rparr> =
     mc\<lparr>used_slab_count := used_slab_count mc + n, stat_routed_alloc := stat_routed_alloc mc + (if is_additional al then 1 else 0)\<rparr>"
  "routed al mc = mc\<lparr>stat_routed_alloc := stat_routed_alloc mc + (if is_additional al then 1 else 0)\<rparr>"
  by (simp_all add: routed_def)

lemma routed_first:
  "mc\<lparr>stat_routed_alloc := r, used_slab_count := u\<rparr> = mc\<lparr>used_slab_count := u, stat_routed_alloc := r\<rparr>"
  by (cases mc) simp

lemma allocate_slab_agrees: "bs2_allocate_slab m al mc req = allocate_slab (bm_conf m) al mc req"
proof -
  define ss where "ss = conf_slab_size m"
  define fr where "fr = slab_tail (bm_conf m) req"
  define need where "need = slabs_for (bm_conf m) req"
  have e: "(ss - req mod ss) mod ss = fr" "(if fr > 0 then req div ss + 1 else req div ss) = need"
    by (simp_all add: ss_def fr_def need_def slab_tail_def slabs_for_def)
  have tail: "bs2_min_tail (al_free al) req 0 (- 1, - 1) =
      (case best_tail (al_free al) req 0 None of None \<Rightarrow> (- 1, - 1) | Some (j, v) \<Rightarrow> (int v, int j))"
    using min_tail_agrees [of "al_free al" req 0 None] by simp
  have run: "need > 1 \<Longrightarrow> find_run (slab_used mc) need 0 0 =
      (case bs2_run (slab_used mc) need 0 0 of (f, p) \<Rightarrow> if f = need then Some p else None)"
    by (rule run_agrees) simp
  show ?thesis
    unfolding bs2_allocate_slab_def allocate_slab_def
    unfolding ss_def [symmetric] fr_def [symmetric] need_def [symmetric] Let_def e
    using run
    by (auto simp: tail last_free_agrees alloc_agrees routed_sel routed_first alloc_full_def out_of_memory_def ss_def best_tail_value
        split: option.splits prod.splits)
qed

lemma section_agrees:
  "bs2_section m al req =
     (let (r, al', mc) = allocate_slab (bm_conf m) al (bm_chunks m ! al_chunk al) req
      in (map_option (\<lambda>(st, n). Slab (al_chunk al) st n) r, al', m\<lparr>bm_chunks := (bm_chunks m)[al_chunk al := mc]\<rparr>))"
  by (simp add: bs2_section_def allocate_slab_agrees)

lemma take_additional_agrees: "bs2_take_additional m need this = take_additional (bm_conf m) (bm_chunks m) need this"
  using best_slab_agrees [of "bm_conf m" "bm_chunks m" 0 "al_chunk (main_alloc this)" need None]
  by (auto simp: bs2_take_additional_def take_additional_def new_sub_def split: option.splits prod.splits)

lemma release_one_agrees: "bm_chunks (bs2_release_one al m) = snd (release_sub al (bm_chunks m))"
  by (simp add: bs2_release_one_def release_sub_def Let_def)

lemma bs2_Make_agrees: "bm_chunks (bs2_Make n sz ct) = bs_make (bm_conf (bs2_Make n sz ct))"
  by (simp add: bs2_Make_def bs_make_def bm_conf_def new_chunk_def map_replicate_const)

lemma bs2_MakeAllocator_agrees:
  "fst (bs2_MakeAllocator m k) =
     (if bm_chunks m = [] then None else Some (MakeAllocator (bm_chunks m) ((k + 1) mod 2 ^ 32)))"
  by (simp add: bs2_MakeAllocator_def MakeAllocator_def new_sub_def Let_def)

lemma bs2_Allocate_agrees:
  "let (sl, a', m') = bs2_Allocate m a req
   in Allocate (bm_conf m) (bm_chunks m) a req = (sl, a', bm_chunks m') \<and> bm_conf m' = bm_conf m"
  by (auto simp: bs2_Allocate_def Allocate_def section_agrees take_additional_agrees Let_def
      split: prod.splits option.splits)

lemma bs2_Release_agrees:
  "let (a', m') = bs2_Release a m
   in Release a (bm_chunks m) = (a', bm_chunks m') \<and> bm_conf m' = bm_conf m"
  by (auto simp: bs2_Release_def Release_def bs2_release_one_def release_sub_def Let_def
      split: prod.splits option.splits)

text \<open>C25. byteslabs2 is byteslabs with its sizes in a manager.\<close>

theorem byteslabs2_agrees:
  "bm_chunks (bs2_Make n sz ct) = bs_make (bm_conf (bs2_Make n sz ct)) \<and>
   fst (bs2_MakeAllocator m k) =
     (if bm_chunks m = [] then None else Some (MakeAllocator (bm_chunks m) ((k + 1) mod 2 ^ 32))) \<and>
   (let (sl, a', m') = bs2_Allocate m a req
    in Allocate (bm_conf m) (bm_chunks m) a req = (sl, a', bm_chunks m') \<and> bm_conf m' = bm_conf m) \<and>
   (let (a', m') = bs2_Release a m
    in Release a (bm_chunks m) = (a', bm_chunks m') \<and> bm_conf m' = bm_conf m)"
  by (intro conjI bs2_Make_agrees bs2_MakeAllocator_agrees bs2_Allocate_agrees bs2_Release_agrees)

end
