(* ===== verification/RequestMemory.thy ===== *)
theory RequestMemory
  imports ByteslabsCorrect HSParams
begin

text \<open>
  The memory of requests: the part of \<open>hs_params.go\<close> that takes memory from the slab allocator
  (\<open>GetAllocator\<close>, \<open>Allocate\<close>, \<open>FastReturnB\<close>, \<open>FastReturnS\<close>, \<open>Cleanup\<close>) and the buffer of a long message
  (\<open>getStreamBuffer\<close> in \<open>handler_socket.go\<close>), over a store of bytes. Allocators are objects a request refers
  to by their place in \<open>bs_allocs\<close>. Proved: whatever the requests of all connections do, an answer
  keeps its bytes until its own request is cleaned up; and requests that break off keep their slabs
  for ever.
\<close>

subsection \<open>Buffers\<close>

datatype buffer = Heap string | SlabBuf nat nat nat

type_synonym slab_bytes = "nat \<Rightarrow> nat \<Rightarrow> char"

fun read_buffer :: "slab_bytes \<Rightarrow> buffer \<Rightarrow> string" where
  "read_buffer mem (Heap s) = s"
| "read_buffer mem (SlabBuf c st n) = map (mem c) [st..<st + n]"

definition write_slab :: "nat \<Rightarrow> nat \<Rightarrow> string \<Rightarrow> slab_bytes \<Rightarrow> slab_bytes" where
  "write_slab c st s mem = mem(c := (\<lambda>i. if st \<le> i \<and> i < st + length s then s ! (i - st) else mem c i))"

text \<open>Filling the slice that \<open>Allocate\<close> gave with bytes of its size.\<close>

fun fill_slice :: "slice \<Rightarrow> string \<Rightarrow> slab_bytes \<Rightarrow> buffer \<times> slab_bytes" where
  "fill_slice (HeapMem n) s mem = (Heap s, mem)"
| "fill_slice (Slab c st n) s mem = (SlabBuf c st n, write_slab c st s mem)"

subsection \<open>The operations\<close>

text \<open>\<open>pm_set\<close> is what the handler passed last; it is not part of the code.\<close>

record params_mem =
  pm_alloc :: "nat option"
  pm_return :: "buffer option"
  pm_set :: string

definition new_params :: params_mem where
  "new_params = \<lparr>pm_alloc = None, pm_return = None, pm_set = []\<rparr>"

definition pm_GetAllocator :: "params_mem \<Rightarrow> bs_sys \<Rightarrow> nat \<times> params_mem \<times> bs_sys" where
  "pm_GetAllocator p s =
     (case pm_alloc p of
        Some i \<Rightarrow> (i, p, s)
      | None \<Rightarrow>
          (let i = length (bs_allocs s); k = (bs_counter s + 1) mod 2 ^ 32
           in (i, p\<lparr>pm_alloc := Some i\<rparr>,
               s\<lparr>bs_counter := k, bs_allocs := bs_allocs s @ [(MakeAllocator (bs_chunks s) k, [])]\<rparr>)))"

definition pm_Allocate :: "bs_conf \<Rightarrow> nat \<Rightarrow> params_mem \<Rightarrow> bs_sys \<Rightarrow> slice \<times> params_mem \<times> bs_sys" where
  "pm_Allocate cf req p s =
     (let (i, p1, s1) = pm_GetAllocator p s; (a, live) = bs_allocs s1 ! i; (sl, a', ch) = Allocate cf (bs_chunks s1) a req
      in (sl, p1, s1\<lparr>bs_chunks := ch, bs_allocs := (bs_allocs s1)[i := (a', sl # live)]\<rparr>))"

definition pm_FastReturnB ::
  "bs_conf \<Rightarrow> string \<Rightarrow> params_mem \<Rightarrow> bs_sys \<Rightarrow> slab_bytes \<Rightarrow> params_mem \<times> bs_sys \<times> slab_bytes" where
  "pm_FastReturnB cf x p s mem =
     (if length x < 64 \<or> (pm_alloc p = None \<and> length x < 128) then (p\<lparr>pm_return := Some (Heap x), pm_set := x\<rparr>, s, mem)
      else
        (let (sl, p1, s1) = pm_Allocate cf (length x) p s; (b, mem1) = fill_slice sl x mem
         in (p1\<lparr>pm_return := Some b, pm_set := x\<rparr>, s1, mem1)))"

definition pm_FastReturnS ::
  "bs_conf \<Rightarrow> string \<Rightarrow> params_mem \<Rightarrow> bs_sys \<Rightarrow> slab_bytes \<Rightarrow> params_mem \<times> bs_sys \<times> slab_bytes" where
  "pm_FastReturnS cf x p s mem =
     (let (sl, p1, s1) = pm_Allocate cf (length x) p s; (b, mem1) = fill_slice sl x mem
      in (p1\<lparr>pm_return := Some b, pm_set := x\<rparr>, s1, mem1))"

definition pm_Cleanup :: "params_mem \<Rightarrow> bs_sys \<Rightarrow> params_mem \<times> bs_sys" where
  "pm_Cleanup p s =
     (p\<lparr>pm_alloc := None, pm_return := None\<rparr>,
      case pm_alloc p of
        None \<Rightarrow> s
      | Some i \<Rightarrow> (let (a', ch) = Release (fst (bs_allocs s ! i)) (bs_chunks s)
                   in s\<lparr>bs_chunks := ch, bs_allocs := (bs_allocs s)[i := (a', [])]\<rparr>))"

text \<open>The buffer for a message of the size in its header: the shared memory of 32 kB when it is large
  enough, else memory of the request.\<close>

definition stream_memory :: "bs_conf \<Rightarrow> nat \<Rightarrow> params_mem \<Rightarrow> bs_sys \<Rightarrow> params_mem \<times> bs_sys" where
  "stream_memory cf n p s =
     (let n' = (if n > 1024 * 1024 * 16 then 1024 * 1024 * 16 else n)
      in if n' < 1024 * 32 then (p, s) else snd (pm_Allocate cf n' p s))"

subsection \<open>Many requests\<close>

record mem_sys =
  ms_bs :: bs_sys
  ms_bytes :: slab_bytes
  ms_params :: "params_mem list"

text \<open>The requests of all connections. \<open>Use\<close> writes into a slice of the request that is not its answer, as
  reading a message or compressing an answer does; \<open>Drop\<close> is a connection that ends inside a request.\<close>

inductive mem_step :: "bs_conf \<Rightarrow> mem_sys \<Rightarrow> mem_sys \<Rightarrow> bool" for cf where
  Open: "mem_step cf s (s\<lparr>ms_params := ms_params s @ [new_params]\<rparr>)"
| Take: "ms_params s = ps @ p # qs \<Longrightarrow> pm_Allocate cf req p (ms_bs s) = (sl, p', b) \<Longrightarrow>
    mem_step cf s (s\<lparr>ms_bs := b, ms_params := ps @ p' # qs\<rparr>)"
| ReturnB: "ms_params s = ps @ p # qs \<Longrightarrow> pm_FastReturnB cf x p (ms_bs s) (ms_bytes s) = (p', b, mem) \<Longrightarrow>
    mem_step cf s \<lparr>ms_bs = b, ms_bytes = mem, ms_params = ps @ p' # qs\<rparr>"
| ReturnS: "ms_params s = ps @ p # qs \<Longrightarrow> pm_FastReturnS cf x p (ms_bs s) (ms_bytes s) = (p', b, mem) \<Longrightarrow>
    mem_step cf s \<lparr>ms_bs = b, ms_bytes = mem, ms_params = ps @ p' # qs\<rparr>"
| Use: "ms_params s = ps @ p # qs \<Longrightarrow> pm_alloc p = Some i \<Longrightarrow> Slab c st n \<in> set (snd (bs_allocs (ms_bs s) ! i)) \<Longrightarrow>
    pm_return p \<noteq> Some (SlabBuf c st n) \<Longrightarrow> length x \<le> n \<Longrightarrow>
    mem_step cf s (s\<lparr>ms_bytes := write_slab c st x (ms_bytes s)\<rparr>)"
| Clean: "ms_params s = ps @ p # qs \<Longrightarrow> pm_Cleanup p (ms_bs s) = (p', b) \<Longrightarrow>
    mem_step cf s (s\<lparr>ms_bs := b, ms_params := ps @ p' # qs\<rparr>)"
| Drop: "ms_params s = ps @ p # qs \<Longrightarrow> mem_step cf s (s\<lparr>ms_params := ps @ qs\<rparr>)"

definition mem_start :: "bs_conf \<Rightarrow> slab_bytes \<Rightarrow> mem_sys" where
  "mem_start cf mem = \<lparr>ms_bs = bs_init cf, ms_bytes = mem, ms_params = []\<rparr>"

subsection \<open>Live slices are disjoint\<close>

lemma reachable_disjoint:
  assumes "bs_reachable cf s" "0 < slab_size cf" "0 < chunk_count cf"
  shows "sorted_wrt (\<lambda>x y. slice_bytes x \<inter> slice_bytes y = {}) (concat (map snd (bs_allocs s)))"
proof -
  have "bs_inv cf s" using bs_inv_reachable assms by blast
  then have "bs_ok cf (bs_chunks s) (all_subs (bs_allocs s))" "\<forall>al \<in> set (bs_allocs s). live_ok cf al"
    by (simp_all add: bs_inv_def)
  from live_disjoint [OF bs_ok_disjoint [OF this(1)] this(2)] show ?thesis by blast
qed

lemma sorted_wrt_concat:
  assumes "sorted_wrt R (concat xss)" "\<And>x y. R x y \<Longrightarrow> R y x"
  shows "\<lbrakk>i < length xss; j < length xss; i \<noteq> j; x \<in> set (xss ! i); y \<in> set (xss ! j)\<rbrakk> \<Longrightarrow> R x y"
  using assms(1)
proof (induction xss arbitrary: i j)
  case (Cons xs xss)
  have one: "R a b" if "a \<in> set xs" "k < length xss" "b \<in> set (xss ! k)" for a b k
    using Cons(7) that by (auto simp: sorted_wrt_append dest: nth_mem)
  show ?case
  proof (cases i)
    case 0
    with Cons(2-6) show ?thesis by (cases j) (auto intro: one)
  next
    case (Suc i')
    with Cons show ?thesis by (cases j) (auto intro: one assms(2) simp: sorted_wrt_append)
  qed
qed simp

lemma sorted_wrt_pair:
  assumes "sorted_wrt R xs" "x \<in> set xs" "y \<in> set xs" "x \<noteq> y" "\<And>x y. R x y \<Longrightarrow> R y x"
  shows "R x y"
  using assms by (induction xs) auto

lemma live_apart:
  assumes "bs_reachable cf s" "0 < slab_size cf" "0 < chunk_count cf" "i < length (bs_allocs s)" "k < length (bs_allocs s)"
    "x \<in> set (snd (bs_allocs s ! i))" "y \<in> set (snd (bs_allocs s ! k))" "i \<noteq> k \<or> x \<noteq> y"
  shows "slice_bytes x \<inter> slice_bytes y = {}"
proof (cases "i = k")
  case True
  with assms have "x \<in> set (concat (map snd (bs_allocs s)))" "y \<in> set (concat (map snd (bs_allocs s)))" "x \<noteq> y"
    by auto
  from sorted_wrt_pair [OF reachable_disjoint [OF assms(1-3)] this] show ?thesis by blast
next
  case False
  from sorted_wrt_concat [OF reachable_disjoint [OF assms(1-3)], of i k x y] False assms(4-7) show ?thesis by auto
qed

subsection \<open>What the operations do to the allocators\<close>

abbreviation live :: "bs_sys \<Rightarrow> nat \<Rightarrow> slice set" where
  "live s i \<equiv> set (snd (bs_allocs s ! i))"

definition alloc_ok :: "bs_sys \<Rightarrow> params_mem \<Rightarrow> bool" where
  "alloc_ok s p \<longleftrightarrow> (case pm_alloc p of None \<Rightarrow> True | Some i \<Rightarrow> i < length (bs_allocs s))"

text \<open>Allocator \<open>i\<close> was added or gave out \<open>sl\<close>; nothing else happened.\<close>

definition took :: "nat \<Rightarrow> slice \<Rightarrow> bs_sys \<Rightarrow> bs_sys \<Rightarrow> bool" where
  "took i sl s s' \<longleftrightarrow> i < length (bs_allocs s') \<and> sl \<in> live s' i \<and> length (bs_allocs s) \<le> length (bs_allocs s') \<and>
     (\<forall>k < length (bs_allocs s). live s' k = (if k = i then insert sl (live s k) else live s k))"

lemma allocate_slab_size: "allocate_slab cf al mc req = (Some (st, n), al', mc') \<Longrightarrow> n = req"
  unfolding allocate_slab_def alloc_full_def out_of_memory_def Let_def
  by (simp split: if_split_asm prod.split_asm option.split_asm)

lemma Allocate_size: "Allocate cf ch a req = (Slab c st n, a', ch') \<Longrightarrow> n = req"
  unfolding Allocate_def Let_def
  by (auto dest: allocate_slab_size split: if_split_asm prod.split_asm option.split_asm)

lemma get_allocator:
  assumes "bs_reachable cf s" "alloc_ok s p" "pm_GetAllocator p s = (i, p', s')"
  shows "bs_reachable cf s'" "pm_alloc p' = Some i" "i < length (bs_allocs s')" "pm_return p' = pm_return p"
    "pm_set p' = pm_set p" "length (bs_allocs s) \<le> length (bs_allocs s')"
    "\<forall>k < length (bs_allocs s). bs_allocs s' ! k = bs_allocs s ! k"
    "pm_alloc p = Some i \<or> pm_alloc p = None \<and> i = length (bs_allocs s)"
  using assms bs_reachable.step [OF assms(1) bs_step.make [OF refl]]
  by (auto simp: pm_GetAllocator_def alloc_ok_def Let_def nth_append split: option.splits)

lemma pm_Allocate_facts:
  assumes "bs_reachable cf s" "alloc_ok s p" "pm_Allocate cf req p s = (sl, p', s')"
  obtains i where "bs_reachable cf s'" "pm_alloc p' = Some i" "pm_return p' = pm_return p" "pm_set p' = pm_set p"
    "pm_alloc p = Some i \<or> pm_alloc p = None \<and> i = length (bs_allocs s)" "took i sl s s'"
    "\<forall>c st n. sl = Slab c st n \<longrightarrow> n = req"
proof -
  obtain i p1 s1 where g: "pm_GetAllocator p s = (i, p1, s1)" by (metis prod_cases3)
  note f = get_allocator [OF assms(1,2) g]
  obtain a lv where al: "bs_allocs s1 ! i = (a, lv)" by (cases "bs_allocs s1 ! i")
  obtain sl' a' ch where A: "Allocate cf (bs_chunks s1) a req = (sl', a', ch)" by (metis prod_cases3)
  from assms(3) g al A have e: "sl = sl'" "p' = p1"
    "s' = s1\<lparr>bs_chunks := ch, bs_allocs := (bs_allocs s1)[i := (a', sl # lv)]\<rparr>"
    by (auto simp: pm_Allocate_def)
  have "bs_allocs s1 = take i (bs_allocs s1) @ (a, lv) # drop (Suc i) (bs_allocs s1)"
    using id_take_nth_drop [OF f(3)] al by simp
  from bs_reachable.step [OF f(1) bs_step.alloc [OF this A]] have "bs_reachable cf s'"
    using e upd_conv_take_nth_drop [OF f(3)] by simp
  moreover have "took i sl s s'"
    using f(3,6,7) e al by (auto simp: took_def nth_list_update)
  ultimately show thesis using that f e Allocate_size A by metis
qed

lemma pm_Cleanup_facts:
  assumes "bs_reachable cf s" "alloc_ok s p" "pm_Cleanup p s = (p', s')"
  shows "bs_reachable cf s'" "pm_alloc p' = None" "pm_return p' = None" "length (bs_allocs s') = length (bs_allocs s)"
    "\<forall>k < length (bs_allocs s). pm_alloc p \<noteq> Some k \<longrightarrow> bs_allocs s' ! k = bs_allocs s ! k"
proof -
  show "pm_alloc p' = None" "pm_return p' = None" using assms(3) by (auto simp: pm_Cleanup_def)
  show "bs_reachable cf s'"
  proof (cases "pm_alloc p")
    case (Some i)
    obtain a lv where al: "bs_allocs s ! i = (a, lv)" by (cases "bs_allocs s ! i")
    obtain a' ch where R: "Release a (bs_chunks s) = (a', ch)" by (cases "Release a (bs_chunks s)")
    have i: "i < length (bs_allocs s)" using assms(2) Some by (simp add: alloc_ok_def)
    have "bs_allocs s = take i (bs_allocs s) @ (a, lv) # drop (Suc i) (bs_allocs s)"
      using id_take_nth_drop [OF i] al by simp
    from bs_reachable.step [OF assms(1) bs_step.release [OF this R]] show ?thesis
      using assms(3) Some al R upd_conv_take_nth_drop [OF i] by (simp add: pm_Cleanup_def)
  qed (use assms in \<open>simp add: pm_Cleanup_def\<close>)
  show "length (bs_allocs s') = length (bs_allocs s)"
    "\<forall>k < length (bs_allocs s). pm_alloc p \<noteq> Some k \<longrightarrow> bs_allocs s' ! k = bs_allocs s ! k"
    using assms(3) by (auto simp: pm_Cleanup_def split: option.splits prod.splits)
qed

subsection \<open>The answers\<close>

definition return_ok :: "bs_sys \<Rightarrow> slab_bytes \<Rightarrow> params_mem \<Rightarrow> bool" where
  "return_ok s mem p \<longleftrightarrow>
     (case pm_return p of
        None \<Rightarrow> True
      | Some b \<Rightarrow> read_buffer mem b = pm_set p \<and>
          (\<forall>c st n. b = SlabBuf c st n \<longrightarrow> (\<exists>i. pm_alloc p = Some i \<and> Slab c st n \<in> live s i)))"

definition apart :: "params_mem \<Rightarrow> params_mem \<Rightarrow> bool" where
  "apart p q \<longleftrightarrow> pm_alloc p = None \<or> pm_alloc p \<noteq> pm_alloc q"

definition mem_inv :: "bs_conf \<Rightarrow> mem_sys \<Rightarrow> bool" where
  "mem_inv cf s \<longleftrightarrow> bs_reachable cf (ms_bs s) \<and> sorted_wrt apart (ms_params s) \<and>
     (\<forall>p \<in> set (ms_params s). alloc_ok (ms_bs s) p \<and> return_ok (ms_bs s) (ms_bytes s) p)"

lemma read_write_other:
  assumes "slice_bytes (Slab c st n) \<inter> slice_bytes (Slab d tt m) = {}" "length x \<le> m"
  shows "read_buffer (write_slab d tt x mem) (SlabBuf c st n) = read_buffer mem (SlabBuf c st n)"
proof -
  have "write_slab d tt x mem c i = mem c i" if "st \<le> i" "i < st + n" for i
  proof -
    have "(c, i) \<in> slice_bytes (Slab c st n)" using that by simp
    with assms(1) have "(c, i) \<notin> slice_bytes (Slab d tt m)" by blast
    with assms(2) show ?thesis by (auto simp: write_slab_def)
  qed
  then show ?thesis by simp
qed

lemma read_write_own: "read_buffer (write_slab c st x mem) (SlabBuf c st (length x)) = x"
  by (rule nth_equalityI) (simp_all add: write_slab_def)

declare read_buffer.simps(2) [simp del]

lemma alloc_ok_took: "alloc_ok s q \<Longrightarrow> took i sl s s' \<Longrightarrow> alloc_ok s' q"
  unfolding alloc_ok_def took_def by (cases "pm_alloc q") simp_all

lemma return_ok_took:
  assumes "return_ok s mem q" "alloc_ok s q" "took i sl s s'"
  shows "return_ok s' mem q"
  using assms by (auto simp: return_ok_def alloc_ok_def took_def split: option.splits)

lemma return_ok_other:
  assumes "return_ok s mem q" "alloc_ok s q" "bs_reachable cf s'" "0 < slab_size cf" "0 < chunk_count cf"
    "took i (Slab d tt m) s s'" "pm_alloc q \<noteq> Some i" "length x \<le> m"
  shows "return_ok s' (write_slab d tt x mem) q"
proof (cases "pm_return q")
  case (Some b)
  show ?thesis
  proof (cases b)
    case (SlabBuf c st n)
    with assms(1) Some obtain k where k: "pm_alloc q = Some k" "Slab c st n \<in> live s k" by (auto simp: return_ok_def)
    with assms(2,6,7) have l: "k \<noteq> i" "k < length (bs_allocs s')" "Slab c st n \<in> live s' k"
      by (auto simp: took_def alloc_ok_def)
    with live_apart [OF assms(3-5), of k i "Slab c st n" "Slab d tt m"] assms(6)
    have "slice_bytes (Slab c st n) \<inter> slice_bytes (Slab d tt m) = {}" by (simp add: took_def)
    with read_write_other [OF this assms(8), of mem] assms(1) Some SlabBuf k l(3) show ?thesis
      by (auto simp: return_ok_def)
  qed (use assms(1) Some in \<open>simp add: return_ok_def\<close>)
qed (simp add: return_ok_def)

text \<open>The request that took the slice is the only one with that allocator.\<close>

lemma others_differ:
  assumes "sorted_wrt apart (ps @ p # qs)" "\<forall>q \<in> set (ps @ p # qs). alloc_ok s q"
    "pm_alloc p = Some i \<or> pm_alloc p = None \<and> i = length (bs_allocs s)" "q \<in> set ps \<union> set qs"
  shows "pm_alloc q \<noteq> Some i"
  using assms by (auto simp: sorted_wrt_append apart_def alloc_ok_def split: option.splits)

lemma apart_update:
  assumes "sorted_wrt apart (ps @ p # qs)" "\<forall>q \<in> set ps \<union> set qs. pm_alloc q \<noteq> pm_alloc p' \<or> pm_alloc q = None"
  shows "sorted_wrt apart (ps @ p' # qs)"
  using assms by (fastforce simp: sorted_wrt_append apart_def)

text \<open>One request changes from \<open>p\<close> to \<open>p'\<close>.\<close>

lemma inv_change:
  assumes "ms_params s' = ps @ p' # qs" "bs_reachable cf (ms_bs s')" "sorted_wrt apart (ps @ p # qs)"
    "\<forall>q \<in> set ps \<union> set qs. pm_alloc q \<noteq> pm_alloc p' \<or> pm_alloc q = None"
    "alloc_ok (ms_bs s') p'" "return_ok (ms_bs s') (ms_bytes s') p'"
    "\<And>q. q \<in> set ps \<union> set qs \<Longrightarrow> alloc_ok (ms_bs s') q"
    "\<And>q. q \<in> set ps \<union> set qs \<Longrightarrow> return_ok (ms_bs s') (ms_bytes s') q"
  shows "mem_inv cf s'"
  using assms apart_update [OF assms(3,4)] unfolding mem_inv_def by auto

lemma mem_inv_parts:
  assumes "mem_inv cf s" "ms_params s = ps @ p # qs"
  shows "bs_reachable cf (ms_bs s)" "alloc_ok (ms_bs s) p" "return_ok (ms_bs s) (ms_bytes s) p"
    "sorted_wrt apart (ps @ p # qs)" "\<forall>q \<in> set (ps @ p # qs). alloc_ok (ms_bs s) q"
    "\<forall>q \<in> set ps \<union> set qs. alloc_ok (ms_bs s) q \<and> return_ok (ms_bs s) (ms_bytes s) q"
  using assms by (auto simp: mem_inv_def)

lemma inv_take:
  assumes inv: "mem_inv cf s" "ms_params s = ps @ p # qs" and a: "pm_Allocate cf req p (ms_bs s) = (sl, p', b)"
  shows "mem_inv cf (s\<lparr>ms_bs := b, ms_params := ps @ p' # qs\<rparr>)"
proof -
  note ok = mem_inv_parts [OF inv]
  from pm_Allocate_facts [OF ok(1,2) a] obtain i where f: "bs_reachable cf b" "pm_alloc p' = Some i"
      "pm_return p' = pm_return p" "pm_set p' = pm_set p"
      "pm_alloc p = Some i \<or> pm_alloc p = None \<and> i = length (bs_allocs (ms_bs s))" "took i sl (ms_bs s) b"
    by metis
  have "return_ok b (ms_bytes s) p'"
    using return_ok_took [OF ok(3,2) f(6)] f(2-5) ok(3)
    by (auto simp: return_ok_def split: option.splits)
  moreover have "alloc_ok b p'" using f(2,6) by (simp add: alloc_ok_def took_def)
  ultimately show ?thesis
    using f(1,2) others_differ [OF ok(4,5) f(5)] ok(6) alloc_ok_took [OF _ f(6)] return_ok_took [OF _ _ f(6)]
    by (intro inv_change [where p' = p' and ps = ps and qs = qs and p = p]) (use ok(4) in auto)
qed

lemma inv_fill:
  assumes inv: "mem_inv cf s" "ms_params s = ps @ p # qs" and pos: "0 < slab_size cf" "0 < chunk_count cf"
    and a: "pm_Allocate cf (length x) p (ms_bs s) = (sl, p', b)" and fl: "fill_slice sl x (ms_bytes s) = (buf, mem)"
  shows "mem_inv cf \<lparr>ms_bs = b, ms_bytes = mem, ms_params = ps @ p'\<lparr>pm_return := Some buf, pm_set := x\<rparr> # qs\<rparr>"
proof -
  note ok = mem_inv_parts [OF inv]
  let ?p = "p'\<lparr>pm_return := Some buf, pm_set := x\<rparr>"
  from pm_Allocate_facts [OF ok(1,2) a] obtain i where f: "bs_reachable cf b" "pm_alloc p' = Some i"
      "pm_alloc p = Some i \<or> pm_alloc p = None \<and> i = length (bs_allocs (ms_bs s))" "took i sl (ms_bs s) b"
      "\<forall>c st n. sl = Slab c st n \<longrightarrow> n = length x"
    by metis
  note d = others_differ [OF ok(4,5) f(3)]
  have "return_ok b mem ?p \<and> (\<forall>q \<in> set ps \<union> set qs. return_ok b mem q)"
  proof (cases sl)
    case (Slab c st n)
    with f(5) fl have e: "n = length x" "buf = SlabBuf c st n" "mem = write_slab c st x (ms_bytes s)" by simp_all
    have "return_ok b mem ?p"
      using e Slab f(2,4) read_write_own [of c st x "ms_bytes s"] by (auto simp: return_ok_def took_def)
    moreover have "return_ok b mem q" if "q \<in> set ps \<union> set qs" for q
      using return_ok_other [of "ms_bs s" "ms_bytes s" q cf b i c st n x] ok(6) d f(1,4) pos e Slab that by simp
    ultimately show ?thesis by blast
  next
    case (HeapMem m)
    with fl have "buf = Heap x" "mem = ms_bytes s" by simp_all
    with return_ok_took [OF _ _ f(4)] ok(6) show ?thesis by (simp add: return_ok_def)
  qed
  moreover have "alloc_ok b ?p" using f(2,4) by (simp add: alloc_ok_def took_def)
  moreover have "alloc_ok b q" if "q \<in> set ps \<union> set qs" for q using ok(6) that alloc_ok_took [OF _ f(4)] by blast
  ultimately show ?thesis
    using f(1,2) d ok(4) by (intro inv_change [where p' = ?p and ps = ps and qs = qs and p = p]) auto
qed

lemma inv_heap:
  assumes "mem_inv cf s" "ms_params s = ps @ p # qs"
  shows "mem_inv cf \<lparr>ms_bs = ms_bs s, ms_bytes = ms_bytes s, ms_params = ps @ p\<lparr>pm_return := Some (Heap x), pm_set := x\<rparr> # qs\<rparr>"
  using assms by (auto simp: mem_inv_def sorted_wrt_append apart_def return_ok_def alloc_ok_def)

lemma inv_use:
  assumes inv: "mem_inv cf s" "ms_params s = ps @ p # qs" and pos: "0 < slab_size cf" "0 < chunk_count cf"
    and u: "pm_alloc p = Some i" "Slab c st n \<in> live (ms_bs s) i" "pm_return p \<noteq> Some (SlabBuf c st n)" "length x \<le> n"
  shows "mem_inv cf (s\<lparr>ms_bytes := write_slab c st x (ms_bytes s)\<rparr>)"
proof -
  note ok = mem_inv_parts [OF inv]
  have i: "i < length (bs_allocs (ms_bs s))" using ok(2) u(1) by (simp add: alloc_ok_def)
  with u(2) have t: "took i (Slab c st n) (ms_bs s) (ms_bs s)" by (auto simp: took_def)
  have "return_ok (ms_bs s) (write_slab c st x (ms_bytes s)) p"
  proof (cases "pm_return p")
    case (Some b)
    show ?thesis
    proof (cases b)
      case (SlabBuf d tt m)
      with ok(3) Some u(1) have "Slab d tt m \<in> live (ms_bs s) i" by (auto simp: return_ok_def)
      with live_apart [OF ok(1) pos i i this u(2)] u(3) Some SlabBuf
      have "slice_bytes (Slab d tt m) \<inter> slice_bytes (Slab c st n) = {}" by simp
      from read_write_other [OF this u(4), of "ms_bytes s"] ok(3) Some SlabBuf show ?thesis
        by (auto simp: return_ok_def)
    qed (use ok(3) Some in \<open>simp add: return_ok_def\<close>)
  qed (simp add: return_ok_def)
  moreover have "return_ok (ms_bs s) (write_slab c st x (ms_bytes s)) q" if "q \<in> set ps \<union> set qs" for q
    using return_ok_other [OF _ _ ok(1) pos t _ u(4)] ok(6) that others_differ [OF ok(4,5) disjI1 [OF u(1)]] by blast
  ultimately show ?thesis using inv by (auto simp: mem_inv_def)
qed

lemma inv_clean:
  assumes inv: "mem_inv cf s" "ms_params s = ps @ p # qs" and a: "pm_Cleanup p (ms_bs s) = (p', b)"
  shows "mem_inv cf (s\<lparr>ms_bs := b, ms_params := ps @ p' # qs\<rparr>)"
proof -
  note ok = mem_inv_parts [OF inv]
  note f = pm_Cleanup_facts [OF ok(1,2) a]
  have "alloc_ok b q \<and> return_ok b (ms_bytes s) q" if q: "q \<in> set ps \<union> set qs" for q
  proof -
    have "apart p q \<or> apart q p" using ok(4) q by (auto simp: sorted_wrt_append)
    moreover have al: "alloc_ok (ms_bs s) q" and re: "return_ok (ms_bs s) (ms_bytes s) q" using ok(6) q by blast+
    ultimately have "bs_allocs b ! k = bs_allocs (ms_bs s) ! k" if "pm_alloc q = Some k" for k
      using f(5) that by (auto simp: apart_def alloc_ok_def)
    with al re f(4) show ?thesis
      by (cases "pm_alloc q"; cases "pm_return q") (auto simp: return_ok_def alloc_ok_def)
  qed
  moreover have "alloc_ok b p'" "return_ok b (ms_bytes s) p'" using f(2,3) by (simp_all add: alloc_ok_def return_ok_def)
  ultimately show ?thesis
    using f(1,2) ok(4) by (intro inv_change [where p' = p' and ps = ps and qs = qs and p = p]) auto
qed

lemma inv_step:
  assumes "mem_inv cf s" "mem_step cf s s'" and pos: "0 < slab_size cf" "0 < chunk_count cf"
  shows "mem_inv cf s'"
  using assms(2)
proof cases
  case Open
  then show ?thesis
    using assms(1) by (auto simp: mem_inv_def new_params_def sorted_wrt_append apart_def alloc_ok_def return_ok_def)
next
  case (Take ps p qs req sl p' b)
  then show ?thesis using inv_take [OF assms(1)] by simp
next
  case (ReturnB ps p qs x p' b mem)
  show ?thesis
  proof (cases "length x < 64 \<or> (pm_alloc p = None \<and> length x < 128)")
    case True
    with ReturnB inv_heap [OF assms(1)] show ?thesis by (auto simp: pm_FastReturnB_def)
  next
    case False
    with ReturnB inv_fill [OF assms(1) _ pos] show ?thesis
      by (auto simp: pm_FastReturnB_def Let_def split: prod.splits)
  qed
next
  case (ReturnS ps p qs x p' b mem)
  with inv_fill [OF assms(1) _ pos] show ?thesis by (auto simp: pm_FastReturnS_def Let_def split: prod.splits)
next
  case (Use ps p qs i c st n x)
  then show ?thesis using inv_use [OF assms(1) _ pos] by simp
next
  case (Clean ps p qs p' b)
  then show ?thesis using inv_clean [OF assms(1)] by simp
next
  case (Drop ps p qs)
  then show ?thesis using assms(1) by (auto simp: mem_inv_def sorted_wrt_append)
qed

lemma inv_reachable:
  assumes "(mem_step cf)\<^sup>*\<^sup>* (mem_start cf mem) s" "0 < slab_size cf" "0 < chunk_count cf"
  shows "mem_inv cf s"
  using assms(1)
proof (induction rule: rtranclp_induct)
  case base
  show ?case by (simp add: mem_start_def mem_inv_def bs_reachable.init)
next
  case (step s s')
  then show ?case using inv_step assms(2,3) by blast
qed

text \<open>C23. Answers are never mixed up. In any run of any number of requests that take memory, answer with
  \<open>FastReturnB\<close> or \<open>FastReturnS\<close>, write into their other buffers, are cleaned up or break off, the answer of
  a request reads as what its handler passed, until the request itself is cleaned up or answers anew.\<close>

theorem answers_intact:
  assumes "(mem_step cf)\<^sup>*\<^sup>* (mem_start cf mem) s" "0 < slab_size cf" "0 < chunk_count cf"
    "p \<in> set (ms_params s)" "pm_return p = Some b"
  shows "read_buffer (ms_bytes s) b = pm_set p"
  using inv_reachable [OF assms(1-3)] assms(4,5) by (auto simp: mem_inv_def return_ok_def)

subsection \<open>Requests that break off\<close>

definition dropped_frame :: "bs_conf \<Rightarrow> nat \<Rightarrow> bs_sys \<Rightarrow> bs_sys" where
  "dropped_frame cf n s = snd (stream_memory cf n new_params s)"

lemma find_run_fresh:
  "free < need \<Longrightarrow> need \<le> free + n \<Longrightarrow> find_run (replicate n False) need pos free = Some (pos + need - free - 1)"
proof (induction n arbitrary: pos free)
  case (Suc n)
  then show ?case by (cases "free + 1 = need") (auto simp: less_Suc_eq_le)
qed simp

lemma whole_chunk:
  assumes "0 < slab_size cf" "1 < slab_count cf"
  shows "\<exists>al mc. allocate_slab cf (new_sub c False) (new_chunk cf) (slab_count cf * slab_size cf) =
      (Some (0, slab_count cf * slab_size cf), al, mc) \<and> used_slab_count mc = int (slab_count cf)"
proof -
  have "slab_tail cf (slab_count cf * slab_size cf) = 0" "slabs_for cf (slab_count cf * slab_size cf) = slab_count cf"
    using assms by (simp_all add: slab_tail_def slabs_for_def)
  with assms find_run_fresh [of 0 "slab_count cf" "slab_count cf" 0] show ?thesis
    by (simp add: allocate_slab_def new_chunk_def alloc_full_def take_slabs_spec Let_def)
qed

lemma full_refuses:
  assumes "\<forall>mc \<in> set ch. used_slab_count mc = int (slab_count cf)" "al_chunk (main_alloc a) < length ch"
    "addl_alloc a = None" "0 < slab_size cf" "96 < req"
  shows "fst (Allocate cf ch a req) = HeapMem req"
proof -
  let ?c = "al_chunk (main_alloc a)"
  have "0 < slabs_for cf req"
  proof (cases "req < slab_size cf")
    case True
    with assms(5) have "slab_tail cf req > 0" by (simp add: slab_tail_def)
    then show ?thesis by (simp add: slabs_for_def)
  next
    case False
    then show ?thesis using assms(4) by (simp add: slabs_for_def div_greater_zero_iff)
  qed
  moreover have "used_slab_count (ch ! ?c) = int (slab_count cf)" using assms(1,2) by simp
  ultimately have o: "allocate_slab cf (main_alloc a) (ch ! ?c) req = out_of_memory (main_alloc a) (ch ! ?c)"
    by (simp add: allocate_slab_def)
  have n: "best_chunk cf mcs i own need None = None"
    if "\<forall>mc \<in> set mcs. used_slab_count mc = int (slab_count cf)" "0 < need" for mcs i own need
    using that by (induction mcs arbitrary: i) (simp_all add: Let_def)
  let ?ch = "ch[?c := (ch ! ?c)\<lparr>stat_oom := stat_oom (ch ! ?c) + 1\<rparr>]"
  have "\<forall>mc \<in> set ?ch. used_slab_count mc = int (slab_count cf)"
    using assms(1,2) by (auto dest!: set_update_subset_insert [THEN subsetD])
  from n [OF this] have "take_additional cf ?ch (int (req div slab_size cf) + 5) (a\<lparr>main_alloc := main_alloc a\<rparr>) = a"
    by (simp add: take_additional_def)
  with o assms(3,5) show ?thesis by (simp add: Allocate_def out_of_memory_def Let_def)
qed

text \<open>After \<open>k\<close> dropped messages that fill a chunk, the chunks 1 to \<open>k\<close> are full; the eighth is chunk 0.\<close>

definition exhausted :: "bs_conf \<Rightarrow> nat \<Rightarrow> bs_sys \<Rightarrow> bool" where
  "exhausted cf k s \<longleftrightarrow> bs_counter s = k \<and> length (bs_chunks s) = chunk_count cf \<and>
     (\<forall>j \<in> {1..chunk_count cf}. if j \<le> k then used_slab_count (bs_chunks s ! (j mod chunk_count cf)) = int (slab_count cf)
        else bs_chunks s ! (j mod chunk_count cf) = new_chunk cf)"

lemma exhausted_step:
  assumes "exhausted cf k s" "k < chunk_count cf" "chunk_count cf < 2 ^ 32" "0 < slab_size cf" "1 < slab_count cf"
    "1024 * 32 \<le> slab_count cf * slab_size cf" "slab_count cf * slab_size cf \<le> 1024 * 1024 * 16"
  shows "exhausted cf (Suc k) (dropped_frame cf (slab_count cf * slab_size cf) s)"
proof -
  let ?n = "chunk_count cf" and ?j = "Suc k mod chunk_count cf"
  let ?req = "slab_count cf * slab_size cf"
  from assms(1) have s: "bs_counter s = k" "length (bs_chunks s) = ?n" "bs_chunks s ! ?j = new_chunk cf"
    using assms(2) by (auto simp: exhausted_def dest: bspec [of _ _ "Suc k"])
  have k: "(k + 1) mod 2 ^ 32 = Suc k" using assms(2,3) by simp
  from whole_chunk [OF assms(4,5)] obtain al mc where w:
    "allocate_slab cf (new_sub ?j False) (new_chunk cf) ?req = (Some (0, ?req), al, mc)"
    "used_slab_count mc = int (slab_count cf)" by blast
  have "\<not> ?req \<le> 96" using assms(6) by simp
  then have A: "Allocate cf (bs_chunks s) (MakeAllocator (bs_chunks s) (Suc k)) ?req =
      (Slab ?j 0 ?req, \<lparr>main_alloc = al, addl_alloc = None\<rparr>, (bs_chunks s)[?j := mc])"
    using w(1) s(2,3) by (simp add: Allocate_def MakeAllocator_def new_sub_def Let_def)
  let ?s = "dropped_frame cf ?req s"
  have d: "bs_counter ?s = Suc k" "bs_chunks ?s = (bs_chunks s)[?j := mc]"
    using assms(6,7) s A k
    by (simp_all add: dropped_frame_def stream_memory_def pm_Allocate_def pm_GetAllocator_def new_params_def Let_def)
  have m: "j mod ?n = ?j \<longleftrightarrow> j = Suc k" if "j \<in> {1..?n}" for j
    using that assms(2) by (cases "j = ?n"; cases "Suc k = ?n") auto
  have "if j \<le> Suc k then used_slab_count (bs_chunks ?s ! (j mod ?n)) = int (slab_count cf)
        else bs_chunks ?s ! (j mod ?n) = new_chunk cf" if j: "j \<in> {1..?n}" for j
  proof (cases "j = Suc k")
    case True
    have "?j < length (bs_chunks s)" using assms(2) s(2) by simp
    with True show ?thesis by (simp add: d(2) w(2))
  next
    case False
    with m [OF j] have "bs_chunks ?s ! (j mod ?n) = bs_chunks s ! (j mod ?n)" by (simp add: d(2))
    moreover have "j \<le> Suc k \<longleftrightarrow> j \<le> k" using False by auto
    ultimately show ?thesis using assms(1) j by (simp add: exhausted_def)
  qed
  moreover have "length (bs_chunks ?s) = ?n" using d(2) s(2) by simp
  ultimately show ?thesis using d(1) unfolding exhausted_def by blast
qed

lemma exhausted_all:
  assumes "k \<le> chunk_count cf" "chunk_count cf < 2 ^ 32" "0 < slab_size cf" "1 < slab_count cf"
    "1024 * 32 \<le> slab_count cf * slab_size cf" "slab_count cf * slab_size cf \<le> 1024 * 1024 * 16"
  shows "exhausted cf k ((dropped_frame cf (slab_count cf * slab_size cf) ^^ k) (bs_init cf))"
  using assms
proof (induction k)
  case 0
  then show ?case by (auto simp: exhausted_def bs_init_def bs_make_def)
next
  case (Suc k)
  then show ?case using exhausted_step [of cf k] by simp
qed

lemma exhausted_full:
  assumes "exhausted cf (chunk_count cf) s" "0 < chunk_count cf"
  shows "\<forall>mc \<in> set (bs_chunks s). used_slab_count mc = int (slab_count cf)"
proof
  fix mc assume "mc \<in> set (bs_chunks s)"
  then obtain c where c: "c < chunk_count cf" "mc = bs_chunks s ! c"
    using assms(1) by (auto simp: exhausted_def in_set_conv_nth)
  define j where "j = (if c = 0 then chunk_count cf else c)"
  have "j \<in> {1..chunk_count cf}" "j mod chunk_count cf = c" using c(1) assms(2) by (auto simp: j_def)
  with assms(1) c(2) show "used_slab_count mc = int (slab_count cf)" by (auto simp: exhausted_def)
qed

text \<open>C24. A connection that ends inside a message leaves without \<open>Cleanup\<close>, and the slabs its buffer took are
  never released. Eight connections that announce a message of 4,000,000 bytes and close are enough:
  all slabs of the server are taken, and every later request gets its memory from the heap.\<close>

theorem dropped_frames_exhaust_slabs:
  "let s = (dropped_frame byteslabs_conf 4000000 ^^ 8) (bs_init byteslabs_conf)
   in map used_slab_count (bs_chunks s) = replicate 8 100 \<and>
      fst (Allocate byteslabs_conf (bs_chunks s) (MakeAllocator (bs_chunks s) k) req) = HeapMem req"
proof -
  define s where "s = (dropped_frame byteslabs_conf 4000000 ^^ 8) (bs_init byteslabs_conf)"
  have "exhausted byteslabs_conf 8 s"
    using exhausted_all [of 8 byteslabs_conf] by (simp add: s_def byteslabs_conf_def)
  then have f: "\<forall>mc \<in> set (bs_chunks s). used_slab_count mc = 100" "length (bs_chunks s) = 8"
    using exhausted_full [of byteslabs_conf s] by (simp_all add: byteslabs_conf_def exhausted_def)
  then have "map used_slab_count (bs_chunks s) = replicate 8 100"
    by (metis map_replicate_const map_cong)
  moreover have "fst (Allocate byteslabs_conf (bs_chunks s) (MakeAllocator (bs_chunks s) k) req) = HeapMem req"
  proof (cases "req \<le> 96")
    case True
    then show ?thesis by (simp add: Allocate_def)
  next
    case False
    with f show ?thesis
      by (intro full_refuses) (simp_all add: byteslabs_conf_def MakeAllocator_def new_sub_def)
  qed
  ultimately show ?thesis by (simp add: s_def Let_def)
qed

subsection \<open>Witness\<close>

text \<open>Two requests answer, with 200 and with 300 bytes.\<close>

definition ex_answer :: "nat \<Rightarrow> string \<Rightarrow> mem_sys \<Rightarrow> mem_sys" where
  "ex_answer j x s =
     (let (p, b, mem) = pm_FastReturnB ex_conf x (ms_params s ! j) (ms_bs s) (ms_bytes s)
      in \<lparr>ms_bs = b, ms_bytes = mem, ms_params = take j (ms_params s) @ p # drop (Suc j) (ms_params s)\<rparr>)"

definition ex_open :: "mem_sys \<Rightarrow> mem_sys" where
  "ex_open s = s\<lparr>ms_params := ms_params s @ [new_params]\<rparr>"

lemma ex_answer_step:
  "j < length (ms_params s) \<Longrightarrow> mem_step ex_conf s (ex_answer j x s)"
proof -
  assume j: "j < length (ms_params s)"
  obtain p b mem where r: "pm_FastReturnB ex_conf x (ms_params s ! j) (ms_bs s) (ms_bytes s) = (p, b, mem)"
    by (metis prod_cases3)
  from ReturnB [OF id_take_nth_drop [OF j] r] show ?thesis by (simp add: ex_answer_def r)
qed

lemma ex_open_step: "mem_step ex_conf s (ex_open s)"
  unfolding ex_open_def by (rule Open)

lemma ex_answer_params [simp]:
  "j < length (ms_params s) \<Longrightarrow> length (ms_params (ex_answer j x s)) = length (ms_params s)"
  "j < length (ms_params s) \<Longrightarrow> pm_set (ms_params (ex_answer j x s) ! j) = x"
  "j < length (ms_params s) \<Longrightarrow> \<exists>b. pm_return (ms_params (ex_answer j x s) ! j) = Some b"
  "j < length (ms_params s) \<Longrightarrow> k < length (ms_params s) \<Longrightarrow> k \<noteq> j \<Longrightarrow>
     ms_params (ex_answer j x s) ! k = ms_params s ! k"
  by (auto simp: ex_answer_def pm_FastReturnB_def nth_append Let_def min_def split: prod.split nat_diff_split)

definition ex_mem :: mem_sys where
  "ex_mem = ex_answer 1 (replicate 300 CHR ''b'')
     (ex_answer 0 (replicate 200 CHR ''a'') (ex_open (ex_open (mem_start ex_conf (\<lambda>_ _. CHR ''z'')))))"

lemma ex_mem_reachable: "(mem_step ex_conf)\<^sup>*\<^sup>* (mem_start ex_conf (\<lambda>_ _. CHR ''z'')) ex_mem"
proof -
  let ?s0 = "mem_start ex_conf (\<lambda>_ _. CHR ''z'')"
  have n: "length (ms_params (ex_open (ex_open ?s0))) = 2" by (simp add: ex_open_def mem_start_def)
  have "(mem_step ex_conf)\<^sup>*\<^sup>* ?s0 (ex_open (ex_open ?s0))"
    using ex_open_step by (meson rtranclp.rtrancl_into_rtrancl rtranclp.rtrancl_refl)
  moreover have "mem_step ex_conf (ex_open (ex_open ?s0)) (ex_answer 0 (replicate 200 CHR ''a'') (ex_open (ex_open ?s0)))"
    using n by (intro ex_answer_step) simp
  moreover have "mem_step ex_conf (ex_answer 0 (replicate 200 CHR ''a'') (ex_open (ex_open ?s0))) ex_mem"
    unfolding ex_mem_def using n by (intro ex_answer_step) simp
  ultimately show ?thesis by (meson rtranclp.rtrancl_into_rtrancl)
qed

lemma answers_intact_witness:
  "\<exists>b. pm_return (ms_params ex_mem ! 0) = Some b \<and> read_buffer (ms_bytes ex_mem) b = replicate 200 CHR ''a''"
proof -
  let ?s = "ex_answer 0 (replicate 200 CHR ''a'') (ex_open (ex_open (mem_start ex_conf (\<lambda>_ _. CHR ''z''))))"
  have n: "length (ms_params ?s) = 2" "0 < length (ms_params (ex_open (ex_open (mem_start ex_conf (\<lambda>_ _. CHR ''z'')))))"
    by (simp_all add: ex_open_def mem_start_def)
  have e: "ms_params ex_mem ! 0 = ms_params ?s ! 0" unfolding ex_mem_def using n(1) by simp
  have m: "ms_params ex_mem ! 0 \<in> set (ms_params ex_mem)" unfolding ex_mem_def using n(1) by (intro nth_mem) simp
  obtain b where b: "pm_return (ms_params ex_mem ! 0) = Some b" using ex_answer_params(3) [OF n(2)] unfolding e by blast
  from answers_intact [OF ex_mem_reachable _ _ m b] have "read_buffer (ms_bytes ex_mem) b = pm_set (ms_params ex_mem ! 0)"
    by (simp add: ex_conf_def)
  with b ex_answer_params(2) [OF n(2)] show ?thesis unfolding e by simp
qed

end
