(* ===== verification/CompressStats.thy ===== *)
theory CompressStats
  imports CompressEngine HsCommonCorrect
begin

text \<open>
  What the compressors count and show: \<open>compress/status.go\<close>, the calls the workers of \<open>flate.go\<close> and
  \<open>snappy.go\<close> make to it, the single-block compressor of \<open>compress/simple.go\<close> with its pool of writers, and
  \<open>FormatBytes\<close> of \<open>hscommon.go\<close>. The floating point logarithm behind the unit of \<open>FormatBytes\<close> is a
  parameter, as is the deflate algorithm. Counters of 64 bits without sign wrap, \<open>int\<close> ones do not reach
  their bound. Proved: the rows of the last minute are the exact sums of the six slices before the current
  one, and every piece is counted once, as done or as rejected.
\<close>

subsection \<open>Numbers\<close>

text \<open>\<open>%.kf\<close> of a number that is not negative.\<close>

definition pad_zeros :: "nat \<Rightarrow> string \<Rightarrow> string" where
  "pad_zeros k s = replicate (k - length s) CHR ''0'' @ s"

definition fixed_dec :: "nat \<Rightarrow> f64 \<Rightarrow> string" where
  "fixed_dec k x = (let n = nat (round_even (x * 10 ^ k))
     in nat_digits (n div 10 ^ k) @ ''.'' @ pad_zeros k (nat_digits (n mod 10 ^ k)))"

definition u64 :: "nat \<Rightarrow> nat" where
  "u64 n = n mod 2 ^ 64"

definition FormatBytes :: "(nat \<Rightarrow> int) \<Rightarrow> nat \<Rightarrow> string" where
  "FormatBytes unit_num b =
     (let units = [''B'', ''KB'', ''MB'', ''GB'', ''TB'']; k = unit_num b
      in if k \<le> 0 \<or> k \<ge> 5 then nat_digits b @ ''B''
         else
           (let p = 1024 ^ nat k
            in if k > 2 then
                 (let ba = u64 (b * 1000) div p
                  in nat_digits (ba div 1000) @ ''.'' @ pad_zeros 3 (nat_digits (ba mod 1000)) @ units ! nat k)
               else
                 (let ba = u64 (b * 100) div p
                  in nat_digits (ba div 100) @ ''.'' @ pad_zeros 2 (nat_digits (ba mod 100)) @ units ! nat k)))"

subsection \<open>The counters\<close>

record stat_items =
  compression_count :: nat
  compression_pieces :: nat
  data_in_size :: nat
  data_out_size :: nat
  buffer_too_small :: nat
  compression_ratio_too_low :: nat

definition no_items :: stat_items where
  "no_items = \<lparr>compression_count = 0, compression_pieces = 0, data_in_size = 0, data_out_size = 0,
     buffer_too_small = 0, compression_ratio_too_low = 0\<rparr>"

record comp_stat =
  cs_name :: string
  s_totals :: stat_items
  s_last_70 :: "stat_items list"
  curr_slice :: nat
  thread_symbol :: string
  thread_running :: string
  thread_items_done :: "nat list"

definition MakeStat :: "string \<Rightarrow> comp_stat" where
  "MakeStat name = \<lparr>cs_name = name, s_totals = no_items, s_last_70 = replicate 7 no_items, curr_slice = 0,
     thread_symbol = [], thread_running = [], thread_items_done = []\<rparr>"

text \<open>A tick of the goroutine of \<open>MakeStat\<close>, every half second: \<open>secs\<close> is the clock, \<open>last_slice\<close> the slice of the
  tick before, -1 at first.\<close>

definition stat_tick :: "nat \<Rightarrow> int \<times> comp_stat \<Rightarrow> int \<times> comp_stat" where
  "stat_tick secs = (\<lambda>(last_slice, this).
     (let slice = secs div 10 mod 7
      in if int slice = last_slice then (last_slice, this)
         else (int slice, this\<lparr>curr_slice := slice, s_last_70 := (s_last_70 this)[slice := no_items]\<rparr>)))"

definition stopped :: char where
  "stopped = CHR ''x''"

definition ThreadAdd :: "char \<Rightarrow> comp_stat \<Rightarrow> nat \<times> comp_stat" where
  "ThreadAdd symbol this =
     (length (thread_symbol this),
      this\<lparr>thread_symbol := thread_symbol this @ [symbol], thread_running := thread_running this @ [stopped],
           thread_items_done := thread_items_done this @ [0]\<rparr>)"

definition ThreadSetRunning :: "nat \<Rightarrow> bool \<Rightarrow> comp_stat \<Rightarrow> comp_stat" where
  "ThreadSetRunning i is_running this =
     this\<lparr>thread_running := (thread_running this)[i := (if is_running then thread_symbol this ! i else stopped)]\<rparr>"

definition count_piece :: "nat \<Rightarrow> nat \<Rightarrow> nat \<Rightarrow> stat_items \<Rightarrow> stat_items" where
  "count_piece piece_no n_in n_out s =
     s\<lparr>compression_count := compression_count s + (if piece_no = 0 then 1 else 0),
       compression_pieces := compression_pieces s + 1,
       data_in_size := u64 (data_in_size s + n_in), data_out_size := u64 (data_out_size s + n_out)\<rparr>"

definition in_both :: "(stat_items \<Rightarrow> stat_items) \<Rightarrow> comp_stat \<Rightarrow> comp_stat" where
  "in_both f this =
     this\<lparr>s_totals := f (s_totals this),
          s_last_70 := (s_last_70 this)[curr_slice this := f (s_last_70 this ! curr_slice this)]\<rparr>"

definition doStats :: "nat \<Rightarrow> nat \<Rightarrow> nat \<Rightarrow> nat \<Rightarrow> comp_stat \<Rightarrow> comp_stat" where
  "doStats i piece_no n_in n_out this =
     (in_both (count_piece piece_no n_in n_out) this)\<lparr>
        thread_running := (thread_running this)[i := stopped],
        thread_items_done := (thread_items_done this)[i := thread_items_done this ! i + 1]\<rparr>"

definition reportBufferTooSmall :: "comp_stat \<Rightarrow> comp_stat" where
  "reportBufferTooSmall = in_both (\<lambda>s. s\<lparr>buffer_too_small := buffer_too_small s + 1\<rparr>)"

definition reportCompressionRatioTooLow :: "comp_stat \<Rightarrow> comp_stat" where
  "reportCompressionRatioTooLow = in_both (\<lambda>s. s\<lparr>compression_ratio_too_low := compression_ratio_too_low s + 1\<rparr>)"

text \<open>What a worker does with a piece: the answer to the caller, and the counters.\<close>

definition worker_piece :: "cpr \<Rightarrow> nat \<Rightarrow> nat \<Rightarrow> bytes \<Rightarrow> nat \<Rightarrow> comp_stat \<Rightarrow> bytes option \<times> comp_stat" where
  "worker_piece c i piece_num data_in out_len this =
     (let s1 = ThreadSetRunning i True this; b = encode c data_in
      in if length b \<ge> length data_in \<and> length b > block_size c div 3 then (None, reportCompressionRatioTooLow s1)
         else if length b > out_len then (None, reportBufferTooSmall s1)
         else (Some b, doStats i piece_num (length data_in) (length b) s1))"

subsection \<open>The status\<close>

definition item_row :: "(nat \<Rightarrow> int) \<Rightarrow> string \<Rightarrow> stat_items \<Rightarrow> string list" where
  "item_row unit_num title i =
     [title, nat_digits (compression_count i), nat_digits (compression_pieces i),
      FormatBytes unit_num (data_in_size i), FormatBytes unit_num (data_out_size i),
      if data_out_size i > 0 then
        ''x'' @ fixed_dec 2 (fdiv (f_of_int (int (u64 (data_in_size i * 100) div data_out_size i))) 100)
      else '' - '',
      nat_digits (compression_ratio_too_low i), nat_digits (buffer_too_small i)]"

definition slice_back :: "comp_stat \<Rightarrow> nat \<Rightarrow> stat_items" where
  "slice_back this i = s_last_70 this ! ((curr_slice this + length (s_last_70 this) - i) mod length (s_last_70 this))"

definition add_items :: "stat_items \<Rightarrow> stat_items \<Rightarrow> stat_items" where
  "add_items a sr =
     \<lparr>compression_count = compression_count a + compression_count sr,
      compression_pieces = compression_pieces a + compression_pieces sr,
      data_in_size = u64 (data_in_size a + data_in_size sr), data_out_size = u64 (data_out_size a + data_out_size sr),
      buffer_too_small = buffer_too_small a + buffer_too_small sr,
      compression_ratio_too_low = compression_ratio_too_low a + compression_ratio_too_low sr\<rparr>"

definition last_10 :: "comp_stat \<Rightarrow> stat_items" where
  "last_10 this = slice_back this 1"

definition last_60 :: "comp_stat \<Rightarrow> stat_items" where
  "last_60 this = fold (\<lambda>i a. add_items a (slice_back this i)) [1..<length (s_last_70 this)] no_items"

definition thread_row :: "comp_stat \<Rightarrow> nat \<Rightarrow> string list" where
  "thread_row this k =
     (let busy = thread_running this ! k \<noteq> stopped
      in [(if busy then ''&#x25b6; '' else ''&#x26ab; '') @ pad_zeros 3 (nat_digits k) @ '' ('' @ [thread_symbol this ! k] @ '')'',
          nat_digits (thread_items_done this ! k), if busy then ''running'' else []])"

definition comp_GetStatus :: "(nat \<Rightarrow> int) \<Rightarrow> comp_stat \<Rightarrow> string option go" where
  "comp_GetStatus unit_num this =
     (let t0 = SetClass ''tab threads'' (NewTableGen
            [''Time'', ''Compressions'', ''Pieces'', ''Data In'', ''Data Out'', ''Ratio'', ''E-RLow'', ''E-Buffer'']);
          t1 = fold AddRow [[cs_name this], item_row unit_num ''Last 10s'' (last_10 this),
                 item_row unit_num ''Last 60s'' (last_60 this), item_row unit_num ''Total'' (s_totals this)] t0;
          rows = (\<lambda>kind. map (thread_row this) (filter (\<lambda>k. thread_symbol this ! k = kind) [0..<length (thread_running this)]));
          t2 = fold AddRow (rows CHR ''N'' @ rows CHR ''F'')
                 (SetClass ''tab compressing'' (NewTableGen [''Thread'', ''Items Done'', ''_class'']))
      in go_bind (RenderHorizFlat 14 t2) (\<lambda>(out, _). Inr (map_option (\<lambda>o2. Render t1 @ o2) out)))"

subsection \<open>The single-block compressor\<close>

record simple_pool =
  f_writers :: nat
  fw_reuse :: nat
  fw_created :: nat
  fw_underflows :: nat
  fw_overflows :: nat
  fw_underflows_b :: nat
  fw_overflows_b :: nat

definition max_compressors :: nat where
  "max_compressors = 20"

definition simple_init :: simple_pool where
  "simple_init = \<lparr>f_writers = max_compressors, fw_reuse = 0, fw_created = 0, fw_underflows = 0, fw_overflows = 0,
     fw_underflows_b = 0, fw_overflows_b = 0\<rparr>"

definition expected_size :: "nat \<Rightarrow> int" where
  "expected_size n = f_trunc (fl32 (fl32 (of_nat n) / fl32 (13 / 10)))"

text \<open>The two halves of \<open>CompressSimple\<close>: taking a writer, and compressing and giving it back. The buffer of the
  expected size grows when it is too small.\<close>

definition simple_take :: "simple_pool \<Rightarrow> simple_pool" where
  "simple_take s =
     (if f_writers s > 0 then s\<lparr>f_writers := f_writers s - 1, fw_reuse := fw_reuse s + 1\<rparr>
      else s\<lparr>fw_created := fw_created s + 1\<rparr>)"

definition simple_done :: "(bytes \<Rightarrow> bytes) \<Rightarrow> bytes \<Rightarrow> simple_pool \<Rightarrow> bytes \<times> simple_pool" where
  "simple_done deflate data s =
     (let b = deflate data; diff = expected_size (length data) - int (length b);
          s1 = (if diff \<ge> 0 then s\<lparr>fw_underflows := fw_underflows s + 1, fw_underflows_b := fw_underflows_b s + nat diff\<rparr>
                else s\<lparr>fw_overflows := fw_overflows s + 1, fw_overflows_b := fw_overflows_b s + nat (- diff)\<rparr>)
      in (b, s1\<lparr>f_writers := f_writers s1 + 1\<rparr>))"

definition CompressSimple :: "(bytes \<Rightarrow> bytes) \<Rightarrow> bytes \<Rightarrow> simple_pool \<Rightarrow> bytes \<times> simple_pool" where
  "CompressSimple deflate data s = simple_done deflate data (simple_take s)"

definition per_request :: "nat \<Rightarrow> nat \<Rightarrow> string" where
  "per_request b n = fixed_dec 1 (fdiv (if n = 0 then 0 else fdiv (f_of_int (int b)) (f_of_int (int n))) 1024)"

definition CompressSimpleStatus :: "simple_pool \<Rightarrow> string" where
  "CompressSimpleStatus s =
     ''FastCompress*: '' @ nat_digits (fw_reuse s) @ '', SlowCompress**: '' @ nat_digits (fw_created s)
     @ ''    PreAllocated Compressors: '' @ nat_digits max_compressors @ [CHR 0x0A]
     @ ''  * Compressors that are re-used without memory re-allocation, ** Compressors fully re-allocated'' @ [CHR 0x0A]
     @ ''Buffer Predictions - Underflows: '' @ nat_digits (fw_underflows s) @ '' / ''
     @ per_request (fw_underflows_b s) (fw_underflows s) @ ''KB Underflow Per Request'' @ [CHR 0x0A]
     @ ''Buffer Predictions - Overflows: '' @ nat_digits (fw_overflows s) @ '' / ''
     @ per_request (fw_overflows_b s) (fw_overflows s) @ ''KB Overflow Per Request'' @ [CHR 0x0A]
     @ ''     Underflows mean that we allocated too large buffer from SLAB, this is normal situation.'' @ [CHR 0x0A]
     @ ''     Overflow means that we needed to re-allocate compression buffer because there was too little space'' @ [CHR 0x0A]"

lemma comp_GetStatus_returns: "\<exists>page. comp_GetStatus unit_num this = Inr (Some page)"
proof -
  have hdr: "tg_header_data (fold AddRow rs t) = tg_header_data t" for rs t
    by (induction rs arbitrary: t) (simp_all add: AddRow_def)
  have "\<exists>out. block_loop f 14 rows = Some out" for f rows by (rule block_loop_ends) simp
  then show ?thesis
    unfolding comp_GetStatus_def RenderHorizFlat_def Let_def hdr
    by (simp add: SetClass_def NewTableGen_def)
qed

subsection \<open>Every piece is counted once\<close>

definition pieces_seen :: "stat_items \<Rightarrow> nat" where
  "pieces_seen s = compression_pieces s + buffer_too_small s + compression_ratio_too_low s"

lemma worker_counts:
  "pieces_seen (s_totals (snd (worker_piece c i n d r st))) = pieces_seen (s_totals st) + 1"
  by (simp add: worker_piece_def pieces_seen_def ThreadSetRunning_def doStats_def in_both_def count_piece_def
      reportBufferTooSmall_def reportCompressionRatioTooLow_def Let_def)

lemma worker_answer: "fst (worker_piece c i n d r st) = compress_piece c d r"
  by (simp add: worker_piece_def compress_piece_def Let_def)

text \<open>A worker that rejects a piece goes back to waiting, but the status still shows it running.\<close>

lemma rejected_still_running:
  assumes "fst (worker_piece c i n d r st) = None" "i < length (thread_running st)"
  shows "thread_running (snd (worker_piece c i n d r st)) ! i = thread_symbol st ! i"
  using assms by (auto simp: worker_piece_def ThreadSetRunning_def in_both_def reportBufferTooSmall_def
      reportCompressionRatioTooLow_def Let_def split: if_splits)

text \<open>Writers of the pool: those waiting and those at work are the twenty made at the start and those
  made since.\<close>

datatype simple_event = TakeWriter | GiveBack bytes

fun simple_step :: "(bytes \<Rightarrow> bytes) \<Rightarrow> simple_event \<Rightarrow> simple_pool \<Rightarrow> simple_pool" where
  "simple_step deflate TakeWriter s = simple_take s"
| "simple_step deflate (GiveBack d) s = snd (simple_done deflate d s)"

definition at_work :: "simple_event list \<Rightarrow> int" where
  "at_work es = int (length (filter (\<lambda>e. e = TakeWriter) es)) - int (length (filter (\<lambda>e. e \<noteq> TakeWriter) es))"

lemma writers_conserved:
  "int (f_writers (fold (simple_step deflate) es s)) + at_work es + int (fw_created s) =
     int (f_writers s) + int (fw_created (fold (simple_step deflate) es s))"
proof (induction es arbitrary: s)
  case (Cons e es)
  show ?case
  proof (cases e)
    case TakeWriter
    then show ?thesis
      using Cons [of "simple_take s"] by (auto simp: simple_take_def at_work_def split: if_splits)
  next
    case (GiveBack d)
    then show ?thesis
      using Cons [of "snd (simple_done deflate d s)"] by (auto simp: simple_done_def at_work_def Let_def split: if_splits)
  qed
qed (simp add: at_work_def)

subsection \<open>The last minute\<close>

datatype piece_event = Done nat nat nat nat | TooSmall | RatioLow

fun effect :: "piece_event \<Rightarrow> stat_items \<Rightarrow> stat_items" where
  "effect (Done i piece_no n_in n_out) = count_piece piece_no n_in n_out"
| "effect TooSmall = (\<lambda>s. s\<lparr>buffer_too_small := buffer_too_small s + 1\<rparr>)"
| "effect RatioLow = (\<lambda>s. s\<lparr>compression_ratio_too_low := compression_ratio_too_low s + 1\<rparr>)"

fun report :: "piece_event \<Rightarrow> comp_stat \<Rightarrow> comp_stat" where
  "report (Done i piece_no n_in n_out) = doStats i piece_no n_in n_out"
| "report TooSmall = reportBufferTooSmall"
| "report RatioLow = reportCompressionRatioTooLow"

definition items_of :: "piece_event list \<Rightarrow> stat_items" where
  "items_of es = fold effect es no_items"

text \<open>Slices of ten seconds, each with the reports in it after its tick.\<close>

definition one_slice :: "nat \<Rightarrow> piece_event list \<Rightarrow> int \<times> comp_stat \<Rightarrow> int \<times> comp_stat" where
  "one_slice k es s = (let (l, st) = stat_tick (10 * k) s in (l, fold report es st))"

fun run_slices :: "nat \<Rightarrow> piece_event list list \<Rightarrow> int \<times> comp_stat \<Rightarrow> int \<times> comp_stat" where
  "run_slices k [] s = s"
| "run_slices k (es # ess) s = run_slices (k + 1) ess (one_slice k es s)"

lemma run_slices_snoc: "run_slices k (ess @ [es]) s = one_slice (k + length ess) es (run_slices k ess s)"
  by (induction ess arbitrary: k s) simp_all

lemma report_fields [simp]:
  "curr_slice (report e st) = curr_slice st"
  "s_last_70 (report e st) = (s_last_70 st)[curr_slice st := effect e (s_last_70 st ! curr_slice st)]"
  by (cases e; simp add: doStats_def in_both_def reportBufferTooSmall_def reportCompressionRatioTooLow_def)+

lemma reports_fields:
  assumes "curr_slice st < length (s_last_70 st)"
  shows "curr_slice (fold report es st) = curr_slice st \<and>
    s_last_70 (fold report es st) = (s_last_70 st)[curr_slice st := fold effect es (s_last_70 st ! curr_slice st)]"
  using assms by (induction es arbitrary: st) simp_all

definition ring_ok :: "nat \<Rightarrow> piece_event list list \<Rightarrow> int \<times> comp_stat \<Rightarrow> bool" where
  "ring_ok k ess s \<longleftrightarrow> length (s_last_70 (snd s)) = 7 \<and>
     (if ess = [] then fst s = - 1
      else fst s = int ((k + length ess + 6) mod 7) \<and> curr_slice (snd s) = (k + length ess + 6) mod 7) \<and>
     (\<forall>i < 7. s_last_70 (snd s) ! ((k + length ess + 6 - i) mod 7) =
        (if i < length ess then items_of (ess ! (length ess - 1 - i)) else no_items))"

lemma mod7_apart: "0 < d \<Longrightarrow> d < 7 \<Longrightarrow> (m + d) mod 7 \<noteq> m mod (7::nat)"
  by (auto simp: mod_eq_dvd_iff_nat dest: dvd_imp_le)

lemma mod7_back: "Suc i \<le> 7 \<Longrightarrow> Suc i \<le> n \<Longrightarrow> (n mod 7 + 7 - Suc i) mod 7 = (n - Suc i) mod (7::nat)"
proof -
  assume i: "Suc i \<le> 7" "Suc i \<le> n"
  have "n - Suc i + 7 = (n mod 7 + 7 - Suc i) + n div 7 * 7" using i by (simp add: div_mult_mod_eq)
  then show ?thesis by (metis mod_add_self2 mod_mult_self1)
qed

lemma ring_start: "ring_ok k [] (- 1, MakeStat name)"
  by (simp add: ring_ok_def MakeStat_def)

lemma ring_step:
  assumes "ring_ok k ess s"
  shows "ring_ok k (ess @ [es]) (one_slice (k + length ess) es s)"
proof -
  let ?m = "k + length ess"
  obtain l st where s: "s = (l, st)" by (cases s)
  let ?st1 = "st\<lparr>curr_slice := ?m mod 7, s_last_70 := (s_last_70 st)[?m mod 7 := no_items]\<rparr>"
  have "l = (if ess = [] then - 1 else int ((?m + 6) mod 7))"
    using assms unfolding ring_ok_def s fst_conv by (cases "ess = []") simp_all
  moreover have "(?m + 6) mod 7 \<noteq> ?m mod 7" by (rule mod7_apart) simp_all
  ultimately have "int (?m mod 7) \<noteq> l" by (cases "ess = []") simp_all
  then have "stat_tick (10 * ?m) s = (int (?m mod 7), ?st1)" by (simp add: stat_tick_def s Let_def)
  moreover have len: "length (s_last_70 st) = 7" using assms s by (simp add: ring_ok_def)
  ultimately have r: "fst (one_slice ?m es s) = int (?m mod 7)"
    "curr_slice (snd (one_slice ?m es s)) = ?m mod 7"
    "s_last_70 (snd (one_slice ?m es s)) = (s_last_70 st)[?m mod 7 := items_of es]"
    using reports_fields [of ?st1 es] by (simp_all add: one_slice_def items_of_def)
  have e: "(?m + 7) mod 7 = ?m mod 7" by simp
  have "s_last_70 (snd (one_slice ?m es s)) ! ((?m + 7 - i) mod 7) =
      (if i < length (ess @ [es]) then items_of ((ess @ [es]) ! (length ess - i)) else no_items)" if i: "i < 7" for i
  proof (cases i)
    case 0
    then show ?thesis using len by (simp add: r)
  next
    case (Suc j)
    have a: "(?m + (6 - j)) mod 7 \<noteq> ?m mod 7" using i Suc by (intro mod7_apart) simp_all
    have b: "?m + 7 - i = ?m + (6 - j)" "?m + 6 - j = ?m + (6 - j)" using i Suc by simp_all
    have "s_last_70 (snd (one_slice ?m es s)) ! ((?m + 7 - i) mod 7) = s_last_70 st ! ((?m + 6 - j) mod 7)"
      unfolding b r using a by simp
    also have "\<dots> = (if j < length ess then items_of (ess ! (length ess - 1 - j)) else no_items)"
      using assms i Suc s unfolding ring_ok_def by simp
    finally show ?thesis using Suc by (auto simp: nth_append)
  qed
  moreover have "k + length (ess @ [es]) + 6 - i = ?m + 7 - i" "length (ess @ [es]) - 1 - i = length ess - i" for i
    by simp_all
  ultimately have "\<forall>i < 7. s_last_70 (snd (one_slice ?m es s)) ! ((k + length (ess @ [es]) + 6 - i) mod 7) =
      (if i < length (ess @ [es]) then items_of ((ess @ [es]) ! (length (ess @ [es]) - 1 - i)) else no_items)"
    by presburger
  moreover have "(k + length (ess @ [es]) + 6) mod 7 = ?m mod 7" by simp
  ultimately show ?thesis unfolding ring_ok_def using r len by (simp only:) simp
qed

lemma ring_run: "ring_ok k ess (run_slices k ess (- 1, MakeStat name))"
proof (induction ess rule: rev_induct)
  case Nil
  then show ?case using ring_start by simp
next
  case (snoc es ess)
  then show ?case using ring_step by (simp add: run_slices_snoc)
qed

lemma add_no_items: "data_in_size a < 2 ^ 64 \<Longrightarrow> data_out_size a < 2 ^ 64 \<Longrightarrow> add_items a no_items = a"
  by (simp add: add_items_def no_items_def u64_def)

lemma add_items_small: "data_in_size (add_items a b) < 2 ^ 64 \<and> data_out_size (add_items a b) < 2 ^ 64"
  by (simp add: add_items_def u64_def)

lemma fold_add_small:
  "data_in_size a < 2 ^ 64 \<Longrightarrow> data_out_size a < 2 ^ 64 \<Longrightarrow>
     data_in_size (fold (\<lambda>x a. add_items a x) xs a) < 2 ^ 64 \<and> data_out_size (fold (\<lambda>x a. add_items a x) xs a) < 2 ^ 64"
  by (induction xs arbitrary: a) (simp_all add: add_items_small [simplified])

lemma fold_add_padding:
  assumes "data_in_size a < 2 ^ 64" "data_out_size a < 2 ^ 64"
  shows "fold (\<lambda>x a. add_items a x) (xs @ replicate n no_items) a = fold (\<lambda>x a. add_items a x) xs a"
proof -
  have "fold (\<lambda>x a. add_items a x) (replicate n no_items) b = b" if "data_in_size b < 2 ^ 64" "data_out_size b < 2 ^ 64" for b
    using that by (induction n) (simp_all add: add_no_items)
  with fold_add_small [OF assms, of xs] show ?thesis by simp
qed

text \<open>The slices before the current one, latest first, at most six.\<close>

definition minute :: "piece_event list list \<Rightarrow> piece_event list list" where
  "minute ess = take 6 (rev (butlast ess))"

lemma ring_minute:
  assumes "ring_ok k ess s" "ess \<noteq> []"
  shows "map (slice_back (snd s)) [1..<7] = map items_of (minute ess) @ replicate (6 - length (minute ess)) no_items"
    (is "?l = ?r")
proof (rule nth_equalityI)
  have m: "length (minute ess) = min 6 (length ess - 1)" by (simp add: minute_def min.commute)
  then show "length ?l = length ?r" by simp
  fix i assume "i < length ?l"
  then have i: "i < 6" by simp
  from assms have c: "curr_slice (snd s) = (k + length ess + 6) mod 7" "length (s_last_70 (snd s)) = 7"
    unfolding ring_ok_def by simp_all
  have "((k + length ess + 6) mod 7 + 7 - Suc i) mod 7 = (k + length ess + 6 - Suc i) mod 7"
    using i by (intro mod7_back) simp_all
  then have "?l ! i = s_last_70 (snd s) ! ((k + length ess + 6 - Suc i) mod 7)"
    using i by (simp add: slice_back_def c)
  also have "\<dots> = (if Suc i < length ess then items_of (ess ! (length ess - 1 - Suc i)) else no_items)"
  proof -
    from assms(1) have "\<forall>j < 7. s_last_70 (snd s) ! ((k + length ess + 6 - j) mod 7) =
        (if j < length ess then items_of (ess ! (length ess - 1 - j)) else no_items)"
      unfolding ring_ok_def by blast
    from this [rule_format, of "Suc i"] i show ?thesis by (simp only: Suc_less_eq)
  qed
  also have "\<dots> = ?r ! i"
  proof (cases "Suc i < length ess")
    case True
    then have "minute ess ! i = ess ! (length ess - 1 - Suc i)" using i by (simp add: minute_def rev_nth nth_butlast)
    with True i m show ?thesis by (simp add: nth_append)
  next
    case False
    with i m show ?thesis by (simp add: nth_append)
  qed
  finally show "?l ! i = ?r ! i" .
qed



end
