(* ===== verification/ServerStatus.thy ===== *)
theory ServerStatus
  imports Stats Engine CompressStats
begin

text \<open>
  The server status page: \<open>stats/status.go\<close>, the lists of requests of the HTTP and UDP services
  (\<open>GetStatusHTTP\<close> in \<open>hs_http.go\<close>, \<open>GetStatusUDP\<close> in \<open>hs_udp.go\<close>), and \<open>GetStatus\<close> and \<open>handlerServerStatus\<close> of
  \<open>handler_socket.go\<close>, which fill the template. Go visits maps in no fixed order: a list stands for a map in
  the order it is visited. The template file and the pages of the plugins are parameters.
\<close>

subsection \<open>Numbers\<close>

definition wdiv :: "64 word \<Rightarrow> 64 word \<Rightarrow> 64 word go" where
  "wdiv a b = (if b = 0 then Inl DivideByZero else Inr (a div b))"

text \<open>\<open>%.kf\<close> with a sign; a quotient of floats is infinite or no number when the divisor is 0.\<close>

definition fixed_sgn :: "nat \<Rightarrow> f64 \<Rightarrow> string" where
  "fixed_sgn k x = (if x < 0 then ''-'' @ fixed_dec k (- x) else fixed_dec k x)"

definition w_float :: "64 word \<Rightarrow> f64" where
  "w_float w = f_of_int (uint w)"

definition per_second :: "64 word \<Rightarrow> int \<Rightarrow> string" where
  "per_second w uptime =
     (if uptime = 0 then (if w = 0 then ''NaN'' else ''+Inf'')
      else fixed_sgn 2 (fdiv (w_float w) (f_of_int uptime)))"

definition millis :: "64 word \<Rightarrow> string" where
  "millis w = fixed_dec 3 (fdiv (w_float w) 1000) @ ''ms''"

definition percent :: "64 word \<Rightarrow> string" where
  "percent w = fixed_dec 1 (fdiv (w_float w) 10) @ ''%''"

definition w_bytes :: "(nat \<Rightarrow> int) \<Rightarrow> 64 word \<Rightarrow> string" where
  "w_bytes unit_num w = FormatBytes unit_num (unat w)"

definition w_digits :: "64 word \<Rightarrow> string" where
  "w_digits w = nat_digits (unat w)"

text \<open>\<open>((a + 1) * 1000) / (b + 1)\<close>\<close>

definition compression :: "64 word \<Rightarrow> 64 word \<Rightarrow> 64 word go" where
  "compression a b = wdiv ((a + 1) * 1000) (b + 1)"

subsection \<open>The table of actions\<close>

definition action_row :: "(nat \<Rightarrow> int) \<Rightarrow> string \<times> action_stats \<Rightarrow> string list go" where
  "action_row unit_num = (\<lambda>(action_type, sa).
     go_bind (compression (b_request_size sa) (b_request_compressed sa)) (\<lambda>r_compr.
     go_bind (compression (b_resp_size sa) (b_resp_compressed sa)) (\<lambda>s_compr.
     go_bind (wdiv (req_time sa) (requests sa)) (\<lambda>rt.
     go_bind (wdiv (req_time_full sa) (requests sa)) (\<lambda>rtf.
       Inr [action_type, itoa (sint (requests sa)), millis rt, millis rtf,
            w_bytes unit_num (b_resp_compressed sa), percent s_compr,
            w_bytes unit_num (b_request_compressed sa), percent r_compr,
            w_digits (resp_skipped sa), w_bytes unit_num (resp_b_skipped sa)])))))"

fun action_rows :: "(nat \<Rightarrow> int) \<Rightarrow> (string \<times> action_stats) list \<Rightarrow> string list list go" where
  "action_rows unit_num [] = Inr []"
| "action_rows unit_num (x # xs) =
     go_bind (action_row unit_num x) (\<lambda>r. go_bind (action_rows unit_num xs) (\<lambda>rs. Inr (r # rs)))"

definition idle_row :: "string \<Rightarrow> string list" where
  "idle_row v = v # replicate 9 ''-''"

definition handlers_header :: "string list" where
  "handlers_header = [''Handler'', ''Calls'', ''AVG Req Time'', ''AVG Roundtrip'', ''Send'', ''S-Compression'', ''Received'',
     ''R-Compression'', ''S-Skipped'', ''S-Skipped Bytes'']"

definition handlers_table :: "item_sort \<Rightarrow> (nat \<Rightarrow> int) \<Rightarrow> (string \<times> action_stats) list \<Rightarrow> string list \<Rightarrow> string go" where
  "handlers_table srt unit_num acts available =
     (let added = map fst acts
      in go_bind (action_rows unit_num acts) (\<lambda>rows.
           Inr (fst (RenderSorted srt [0]
             (fold AddRow (rows @ map idle_row (filter (\<lambda>v. v \<notin> set added) available)
                @ (if ''server-status'' \<in> set added then [] else [idle_row ''server-status'']))
              (SetClass ''tab'' (NewTableGen handlers_header)))))))"

subsection \<open>The connections\<close>

definition took_text :: "int \<Rightarrow> int \<Rightarrow> int \<Rightarrow> string" where
  "took_text now start_time end_time =
     (if start_time = 0 then ''??''
      else fixed_sgn 3 (fdiv (f_of_int ((if end_time = 0 then now else end_time) - start_time)) 1000000) @ ''ms'')"

definition conn_data_html :: "string \<Rightarrow> string" where
  "conn_data_html d =
     (if length d > 60 then
        ''<span class='' @ quoted ''tooltip'' @ ''>[...] '' @ take 60 d @ ''<div>'' @ wbr_chunks d @ ''</div></span>''
      else ''<span>'' @ d @ ''</span>'')"

definition thread_div :: "string \<Rightarrow> string" where
  "thread_div s = ''<div class='' @ quoted ''thread_list'' @ ''>'' @ s @ ''</div>''"

definition conn_line :: "int \<Rightarrow> connection \<Rightarrow> string" where
  "conn_line now c =
     thread_div (''<span>#'' @ w_digits (c_id c) @ ''</span> - <span>['' @ c_status c @ '']</span> <span>''
       @ took_text now (c_start_time c) (c_end_time c) @ ''</span> - <span>'' @ c_action c @ ''</span> ''
       @ conn_data_html (c_data c) @ '' <span>'' @ c_comment c @ ''</span>'')"

text \<open>\<open>status[0:1]\<close> of an empty status panics.\<close>

fun thread_states :: "connection list \<Rightarrow> string go" where
  "thread_states [] = Inr []"
| "thread_states (c # cs) =
     go_bind (go_slice (c_status c) 0 1) (\<lambda>x. go_bind (thread_states cs) (\<lambda>r. Inr (x @ '' '' @ r)))"

text \<open>\<open>sort.Sort\<close> by the number of the connection, as a signed integer.\<close>

definition threadlist :: "int \<Rightarrow> connection list \<Rightarrow> string" where
  "threadlist now cs = concat (map (conn_line now) (sort_key (\<lambda>c. sint (c_id c)) cs))"

subsection \<open>GetStatus of the statistics\<close>

definition total_of :: "('a \<Rightarrow> 64 word) \<Rightarrow> ('k \<times> 'a) list \<Rightarrow> 64 word" where
  "total_of f acts = sum_list (map (f \<circ> snd) acts)"

definition average :: "64 word \<Rightarrow> 64 word \<Rightarrow> string" where
  "average t n = (if n > 0 then millis (t div n) else ''-'')"

definition last5_vars :: "(nat \<Rightarrow> int) \<Rightarrow> uh_struct \<Rightarrow> (string \<times> string) list go" where
  "last5_vars unit_num l =
     go_bind (wdiv (uh_req_time l) (uh_requests l + 1)) (\<lambda>rt.
     go_bind (wdiv (uh_req_time_full l) (uh_requests l + 1)) (\<lambda>rtf.
     go_bind (compression (uh_b_resp_size l) (uh_b_resp_compressed l)) (\<lambda>s_compr.
     go_bind (compression (uh_b_request_size l) (uh_b_request_compressed l)) (\<lambda>r_compr.
       Inr [(''_requests_5s'', fixed_dec 2 (fdiv (w_float (uh_requests l)) 5)),
            (''_connections_5s'', fixed_dec 2 (fdiv (w_float (uh_connections l)) 5)),
            (''_errors_5s'', fixed_dec 2 (fdiv (w_float (uh_errors l)) 5)),
            (''_req_time_5s'', millis rt), (''_req_time_full_5s'', millis rtf),
            (''_bytes_sent_5s'', w_bytes unit_num (uh_b_resp_compressed l div 5)),
            (''_bytes_received_5s'', w_bytes unit_num (uh_b_request_compressed l div 5)),
            (''_compression_5s'', percent s_compr), (''_receive_compression_5s'', percent r_compr),
            (''_resp_b_skipped_5s'', w_bytes unit_num (uh_resp_b_skipped l)),
            (''_resp_skipped_5s'', w_digits (uh_resp_skipped l)),
            (''_resp_count_5s'', w_digits (uh_requests l - uh_resp_skipped l))]))))"

record status_env =
  se_now :: int
  se_ts :: int
  se_sort :: item_sort
  se_unit :: "nat \<Rightarrow> int"

definition stats_GetStatus ::
  "status_env \<Rightarrow> string list \<Rightarrow> int \<Rightarrow> stats_state \<Rightarrow> ((string \<times> string) list \<times> stats_state) go" where
  "stats_GetStatus w available uptime st =
     (let acts = map (\<lambda>(k, v). (k, getAdjStats v)) (stats_actions st); n = global_stats_requests st;
          sent = total_of b_resp_compressed acts; received = total_of b_request_compressed acts;
          skipped = total_of resp_skipped acts; b_skipped = total_of resp_b_skipped acts;
          conns = map (get_conn st) (status_connections st);
          (last5, ring) = uh_get (se_ts w) (uptime_history st)
      in go_bind (handlers_table (se_sort w) (se_unit w) acts available) (\<lambda>table.
         go_bind (compression (total_of b_request_size acts) received) (\<lambda>r_compr.
         go_bind (compression (total_of b_resp_size acts) sent) (\<lambda>s_compr.
         go_bind (thread_states conns) (\<lambda>states.
         go_bind (wdiv sent (word_of_int uptime)) (\<lambda>sent_s.
         go_bind (wdiv received (word_of_int uptime)) (\<lambda>received_s.
         go_bind (last5_vars (se_unit w) last5) (\<lambda>vars5.
           Inr ([(''_connections'', w_digits (global_stats_connections st)), (''_requests'', w_digits n),
                 (''_errors'', w_digits (global_stats_errors st)),
                 (''_req_time'', average (global_stats_req_time st) n),
                 (''_req_time_full'', average (global_stats_req_time_full st) n),
                 (''handlers_table'', table), (''_bytes_sent'', w_bytes (se_unit w) sent),
                 (''_bytes_received'', w_bytes (se_unit w) received), (''_compression'', percent s_compr),
                 (''_receive_compression'', percent r_compr), (''_resp_b_skipped'', w_bytes (se_unit w) b_skipped),
                 (''_resp_skipped'', w_digits skipped), (''_resp_count'', w_digits (n - skipped)),
                 (''_threads_states'', states), (''threadlist'', threadlist (se_now w) conns),
                 (''_requests_s'', per_second n uptime),
                 (''_connections_s'', per_second (global_stats_connections st) uptime),
                 (''_errors_s'', per_second (global_stats_errors st) uptime),
                 (''_bytes_sent_s'', w_bytes (se_unit w) sent_s),
                 (''_bytes_received_s'', w_bytes (se_unit w) received_s)] @ vars5,
                st\<lparr>uptime_history := ring\<rparr>)))))))))"

subsection \<open>Requests over HTTP and UDP\<close>

definition http_line :: "int \<Rightarrow> nat \<times> http_request \<Rightarrow> string" where
  "http_line now = (\<lambda>(k, rs).
     thread_div (''<span>Num. '' @ nat_digits k @ ''</span> - <span>['' @ [hr_status rs] @ '']</span> <span>''
       @ took_text now (hr_start_time rs) (hr_end_time rs) @ ''</span> <span>'' @ hr_req rs @ ''</span>''))"

definition GetStatusHTTP :: "int \<Rightarrow> http_state \<Rightarrow> string" where
  "GetStatusHTTP now st = concat (map (http_line now) (sort_key fst (httpRequestStatus st)))"

definition udp_key :: "udp_request \<Rightarrow> string" where
  "udp_key v = ''<b>['' @ [ur_status v] @ '']</b> '' @ ur_action v"

definition udp_line :: "int \<Rightarrow> string \<times> udp_request \<Rightarrow> string" where
  "udp_line now = (\<lambda>(k, v).
     (let status = (if ur_status v = CHR ''P'' then ''P/'' @ itoa (ur_pending v) else [ur_status v]);
          took = (if status = ''F'' then ur_end v else now) - ur_start v
      in ''<div class='' @ quoted ''thread_list'' @ ''><span>Num. '' @ itoa (ur_no v) @ '' - '' @ k @ ''</span> - <b>['' @ status
         @ '']</b> '' @ fixed_sgn 3 (fdiv (f_of_int took) 1000000) @ ''ms - '' @ ur_req v @ [CHR 0x0A] @ ''</div>'' @ [CHR 0x0A]))"

text \<open>The first loop of \<open>GetStatusUDP\<close>: the lines, and how often each kind of request was met.\<close>

fun udp_lines :: "int \<Rightarrow> (string \<times> udp_request) list \<Rightarrow> (string, int) gomap \<Rightarrow> (string \<times> udp_request) list \<times> (string, int) gomap" where
  "udp_lines now [] counts = ([], counts)"
| "udp_lines now (x # xs) counts =
     (let counts1 = gm_add counts (udp_key (snd x)) 1; (shown, counts2) = udp_lines now xs counts1
      in (if gm_get 0 counts1 (udp_key (snd x)) \<ge> 5 then shown else x # shown, counts2))"

definition udp_aggregate :: "(string, int) gomap \<Rightarrow> (string \<times> int) list" where
  "udp_aggregate counts = filter (\<lambda>(_, n). n > 0) (map (\<lambda>(action, n). (action, n - 5)) counts)"

definition GetStatusUDP :: "int \<Rightarrow> udp_stats \<Rightarrow> string" where
  "GetStatusUDP now stats =
     (let (shown, counts) = udp_lines now stats []
      in concat (map (udp_line now) shown)
         @ concat (map (\<lambda>(action, n). thread_div (''<span> Aggr x'' @ itoa n @ '':</span> '' @ action)) (udp_aggregate counts)))"

subsection \<open>The page\<close>

function replace_all :: "string \<Rightarrow> string \<Rightarrow> string \<Rightarrow> string" where
  "replace_all old new s =
     (if old = [] then s
      else case s of [] \<Rightarrow> []
         | c # cs \<Rightarrow> if has_prefix s old then new @ replace_all old new (drop (length old) s) else c # replace_all old new cs)"
  by pat_completeness auto
termination by (relation "measure (\<lambda>(old, new, s). length s)") auto

declare replace_all.simps [simp del]

definition hs_version :: string where
  "hs_version = ''HSServer v4''"

definition hs_GetStatus ::
  "status_env \<Rightarrow> service list \<Rightarrow> string list \<Rightarrow> int \<Rightarrow> http_state \<Rightarrow> udp_stats \<Rightarrow> stats_state
   \<Rightarrow> ((string \<times> string) list \<times> stats_state) go" where
  "hs_GetStatus w handlers boundTo uptime_started http udp st =
     (let uptime = se_now w sdiv 1000000000 - uptime_started
      in go_bind (stats_GetStatus w (concat (map get_actions handlers)) uptime st) (\<lambda>(ret, st1).
           Inr (ret @ [(''http_threadlist'', GetStatusHTTP (se_now w) http), (''udp_threadlist'', GetStatusUDP (se_now w) udp),
                       (''_version'', hs_version), (''_bound_to'', go_join '', '' boundTo), (''uptime'', FormatTime uptime)], st1)))"

definition status_section :: "string \<times> string \<Rightarrow> string" where
  "status_section = (\<lambda>(header, content).
     ''<div class='' @ quoted ''container'' @ ''><h1>'' @ header @ ''</h1>'' @ content @ ''</div>'')"

definition fill_template :: "(string \<times> string) list \<Rightarrow> string \<Rightarrow> string" where
  "fill_template vars template = fold (\<lambda>(attr, val) t. replace_all (''##'' @ attr @ ''##'') val t) vars template"

text \<open>\<open>template\<close> is the content of the template file, or the message that it cannot be read; \<open>order\<close> is the order
  in which the map of variables is visited.\<close>

definition handlerServerStatus ::
  "(string \<times> string) list \<Rightarrow> string + string \<Rightarrow> ((string \<times> string) list \<Rightarrow> (string \<times> string) list)
   \<Rightarrow> (stats_state \<Rightarrow> ((string \<times> string) list \<times> stats_state) go) \<Rightarrow> hsparams \<Rightarrow> stats_state \<Rightarrow> (string \<times> stats_state) go" where
  "handlerServerStatus sections template order get_status data st =
     (let additional = concat (map status_section sections)
      in if GetParam data ''plugin_only'' [] \<noteq> [] then Inr (additional, st)
         else
           (case template of
              Inl msg \<Rightarrow> Inr (msg, st)
            | Inr t \<Rightarrow>
                go_bind (get_status st) (\<lambda>(vars, st1).
                  Inr (fill_template (order (vars @ [(''status_additional'', additional)])) t, st1))))"

end
