(* ===== verification/ServerStatusCorrect.thy ===== *)
theory ServerStatusCorrect
  imports ServerStatus
begin

text \<open>
  What the server status page gets right and wrong: when it is produced at all, which requests the UDP list
  leaves out, and what the data of requests can do to the page.
\<close>

subsection \<open>When the statistics can be shown\<close>

lemma wdiv_iff: "(\<exists>x. wdiv a b = Inr x) \<longleftrightarrow> b \<noteq> 0"
  by (simp add: wdiv_def)

lemma go_bind_iff: "(\<exists>y. go_bind m f = Inr y) \<longleftrightarrow> (\<exists>x y. m = Inr x \<and> f x = Inr y)"
  by (cases m) simp_all

lemma go_bind_ok: "(\<exists>y. go_bind m f = Inr y) \<longleftrightarrow> (\<exists>x. m = Inr x \<and> (\<exists>y. f x = Inr y))"
  by (cases m) simp_all

lemma compression_iff: "(\<exists>x. compression a b = Inr x) \<longleftrightarrow> b + 1 \<noteq> 0"
  by (simp add: compression_def wdiv_iff)

definition row_ok :: "action_stats \<Rightarrow> bool" where
  "row_ok sa \<longleftrightarrow> requests sa \<noteq> 0 \<and> b_request_compressed sa + 1 \<noteq> 0 \<and> b_resp_compressed sa + 1 \<noteq> 0"

lemma action_row_iff: "(\<exists>r. action_row u (k, sa) = Inr r) \<longleftrightarrow> row_ok sa"
  by (auto simp: action_row_def row_ok_def compression_def wdiv_def)

lemma action_rows_iff: "(\<exists>rs. action_rows u acts = Inr rs) \<longleftrightarrow> (\<forall>(k, sa) \<in> set acts. row_ok sa)"
proof (induction acts)
  case (Cons x xs)
  then show ?case using action_row_iff [of u "fst x" "snd x"] by (auto simp: go_bind_iff)
qed simp

lemma thread_states_iff: "(\<exists>r. thread_states cs = Inr r) \<longleftrightarrow> (\<forall>c \<in> set cs. c_status c \<noteq> [])"
proof (induction cs)
  case (Cons c cs)
  have "(\<exists>x. go_slice (c_status c) 0 1 = Inr x) \<longleftrightarrow> c_status c \<noteq> []" by (cases "c_status c") (simp_all add: go_slice_def)
  with Cons show ?case by (auto simp: go_bind_iff)
qed simp

definition last5_ok :: "uh_struct \<Rightarrow> bool" where
  "last5_ok l \<longleftrightarrow> uh_requests l + 1 \<noteq> 0 \<and> uh_b_resp_compressed l + 1 \<noteq> 0 \<and> uh_b_request_compressed l + 1 \<noteq> 0"

lemma last5_iff: "(\<exists>r. last5_vars u l = Inr r) \<longleftrightarrow> last5_ok l"
  by (auto simp: last5_vars_def last5_ok_def compression_def wdiv_def)

definition statuses_ok :: "status_env \<Rightarrow> int \<Rightarrow> stats_state \<Rightarrow> bool" where
  "statuses_ok w uptime st \<longleftrightarrow>
     (let acts = map (\<lambda>(k, v). (k, getAdjStats v)) (stats_actions st)
      in (\<forall>(k, sa) \<in> set acts. row_ok sa) \<and> total_of b_request_compressed acts + 1 \<noteq> 0 \<and>
         total_of b_resp_compressed acts + 1 \<noteq> 0 \<and> (\<forall>i \<in> set (status_connections st). c_status (get_conn st i) \<noteq> []) \<and>
         (word_of_int uptime :: 64 word) \<noteq> 0 \<and> last5_ok (fst (uh_get (se_ts w) (uptime_history st))))"

text \<open>The statistics are shown exactly when no divisor is 0 and no connection has an empty status. The uptime
  is one of the divisors: when the clock is set back to the second the server started in, the page panics.\<close>

lemma status_returns_iff:
  "(\<exists>out. stats_GetStatus w available uptime st = Inr out) \<longleftrightarrow> statuses_ok w uptime st"
proof -
  let ?acts = "map (\<lambda>(k, v). (k, getAdjStats v)) (stats_actions st)"
  obtain l5 ring where u: "uh_get (se_ts w) (uptime_history st) = (l5, ring)" by (cases "uh_get (se_ts w) (uptime_history st)")
  have t: "(\<exists>x. handlers_table (se_sort w) (se_unit w) ?acts available = Inr x) \<longleftrightarrow> (\<forall>(k, sa) \<in> set ?acts. row_ok sa)"
    unfolding handlers_table_def Let_def go_bind_iff using action_rows_iff [of "se_unit w" ?acts] by auto
  show ?thesis
    unfolding stats_GetStatus_def Let_def u prod.case statuses_ok_def fst_conv
    by (simp only: go_bind_ok sum.inject ex_simps simp_thms t compression_iff thread_states_iff wdiv_iff last5_iff
        set_map ball_simps)
qed

lemma uptime_zero_panics: "\<nexists>out. stats_GetStatus w available 0 st = Inr out"
  unfolding status_returns_iff by (simp add: statuses_ok_def Let_def)

subsection \<open>The list of UDP requests\<close>

definition of_kind :: "string \<Rightarrow> (string \<times> udp_request) list \<Rightarrow> nat" where
  "of_kind k xs = length (filter (\<lambda>x. udp_key (snd x) = k) xs)"

definition aggregated :: "string \<Rightarrow> (string, int) gomap \<Rightarrow> int" where
  "aggregated k counts = sum_list (map snd (filter (\<lambda>x. fst x = k) (udp_aggregate counts)))"

lemma udp_lines_spec:
  assumes "udp_lines now xs counts = (shown, counts')" "gm_wf counts" "\<forall>k. 0 \<le> gm_get 0 counts k"
  shows "int (of_kind k shown) = min (int (of_kind k xs)) (max 0 (4 - gm_get 0 counts k)) \<and>
    gm_get 0 counts' k = gm_get 0 counts k + int (of_kind k xs) \<and> gm_wf counts'"
  using assms
proof (induction xs arbitrary: counts counts' shown)
  case (Cons x xs)
  let ?c = "gm_add counts (udp_key (snd x)) 1"
  obtain sh cs where r: "udp_lines now xs ?c = (sh, cs)" by (cases "udp_lines now xs ?c")
  with Cons(2) have e: "counts' = cs" "shown = (if gm_get 0 ?c (udp_key (snd x)) \<ge> 5 then sh else x # sh)"
    by (simp_all add: Let_def)
  have "\<forall>k. 0 \<le> gm_get 0 ?c k" using Cons(4) by (simp add: add_nonneg_nonneg)
  from Cons(1) [OF r _ this] Cons(3) have IH: "int (of_kind k sh) = min (int (of_kind k xs)) (max 0 (4 - gm_get 0 ?c k))"
    "gm_get 0 cs k = gm_get 0 ?c k + int (of_kind k xs)" "gm_wf cs" by simp_all
  show ?case
  proof (cases "udp_key (snd x) = k")
    case True
    with IH e Cons(4) show ?thesis by (auto simp: of_kind_def min_def max_def)
  next
    case False
    with IH e show ?thesis by (auto simp: of_kind_def)
  qed
qed (simp add: of_kind_def)

lemma aggregated_count:
  assumes "gm_wf counts"
  shows "aggregated k counts = max 0 (gm_get 0 counts k - 5)"
  using assms
proof (induction counts)
  case (Cons x counts)
  have none: "aggregated k counts = 0 \<and> gm_get 0 counts k = 0" if "k \<notin> fst ` set counts"
  proof -
    have "filter (\<lambda>y. fst y = k) (udp_aggregate counts) = []"
      using that by (force simp: udp_aggregate_def filter_empty_conv)
    moreover have "map_of counts k = None" using that by (simp add: map_of_eq_None_iff)
    ultimately show ?thesis by (simp add: aggregated_def gm_get_def)
  qed
  obtain a n where x: "x = (a, n)" by (cases x)
  show ?case
  proof (cases "a = k")
    case True
    with Cons(2) x none show ?thesis by (auto simp: aggregated_def udp_aggregate_def gm_get_def)
  next
    case False
    with Cons x show ?thesis by (auto simp: aggregated_def udp_aggregate_def gm_get_def)
  qed
qed (simp add: aggregated_def udp_aggregate_def)

text \<open>The list of UDP requests shows at most four of a kind and counts the others in one line, but the
  fifth of a kind is neither shown nor counted.\<close>

theorem udp_status_hides_one:
  "let (shown, counts) = udp_lines now stats []
   in int (of_kind k shown) + aggregated k counts = (if of_kind k stats \<ge> 5 then int (of_kind k stats) - 1 else int (of_kind k stats))"
proof -
  obtain shown counts where r: "udp_lines now stats [] = (shown, counts)" by (cases "udp_lines now stats []")
  from udp_lines_spec [OF r, of k] have "int (of_kind k shown) = min (int (of_kind k stats)) 4"
    "gm_get 0 counts k = int (of_kind k stats)" "gm_wf counts" by simp_all
  with aggregated_count [of counts k] r show ?thesis by (auto simp: min_def max_def)
qed

subsection \<open>The template\<close>

text \<open>The data of a request goes to the page as it is, markup included.\<close>

lemma conn_data_raw:
  assumes "length (c_data c) \<le> 60"
  shows "sublist (c_data c) (conn_line now c)"
proof -
  have h: "sublist (c_data c) (conn_data_html (c_data c) @ x)" for x
    using assms by (simp add: conn_data_html_def del: append.simps)
  show ?thesis unfolding conn_line_def thread_div_def append_assoc by (rule h | rule sublist_behind)+
qed

text \<open>A value that names another variable is filled in or not, depending on the order of the map.\<close>

lemma fill_order:
  "fill_template [(''threadlist'', ''##_version##''), (''_version'', hs_version)] ''##threadlist##'' = hs_version"
  "fill_template [(''_version'', hs_version), (''threadlist'', ''##_version##'')] ''##threadlist##'' = ''##_version##''"
  by (simp_all add: fill_template_def replace_all.simps hs_version_def)

end
