(* ===== verification/SnappyStream.thy ===== *)
theory SnappyStream
  imports SnappyCorrect "HOL-Library.Word"
begin

text \<open>
  The stream format of the \<open>snappy\<close> package: the \<open>Writer\<close> of \<open>encode.go\<close>, the \<open>Reader\<close> of \<open>decode.go\<close> and the
  checksum of \<open>snappy.go\<close>. The server itself uses blocks only. A writer's destination is a function \<open>sink\<close>
  from what it holds and a string to what it holds then and an error; a reader's source is the bytes it
  will give and the error it ends with. Proved: what any sequence of writes and flushes puts into a
  memory buffer, a reader gives back byte for byte, whatever sizes are asked for.
\<close>

unbundle bit_operations_syntax

datatype stream_error = SCorrupt | SUnsupported | SEOF | SUnexpectedEOF | SClosed | SOther string

subsection \<open>The checksum\<close>

text \<open>CRC-32 with the Castagnoli polynomial, as \<open>hash/crc32\<close> defines it, bit by bit.\<close>

definition crc_bit :: "32 word \<Rightarrow> 32 word" where
  "crc_bit c = (if bit c 0 then drop_bit 1 c XOR 0x82f63b78 else drop_bit 1 c)"

definition crc_byte :: "char \<Rightarrow> 32 word \<Rightarrow> 32 word" where
  "crc_byte v c = (crc_bit ^^ 8) (c XOR word_of_nat (code v))"

definition crc32c :: "string \<Rightarrow> 32 word" where
  "crc32c b = NOT (fold crc_byte b (NOT 0))"

definition crc :: "string \<Rightarrow> 32 word" where
  "crc b = (let c = crc32c b in (drop_bit 15 c OR push_bit 17 c) + 0xa282ead8)"

subsection \<open>Chunks\<close>

definition magicBody :: string where
  "magicBody = ''sNaPpY''"

definition magicChunk :: string where
  "magicChunk = [byte 255, byte 6, byte 0, byte 0] @ magicBody"

definition maxBlockSize :: nat where
  "maxBlockSize = 65536"

definition chunk_header :: "nat \<Rightarrow> nat \<Rightarrow> 32 word \<Rightarrow> string" where
  "chunk_header chunkType chunkLen checksum =
     [byte chunkType, byte chunkLen, byte (chunkLen div 256), byte (chunkLen div 65536)] @ put_u32 (unat checksum)"

subsection \<open>The writer\<close>

type_synonym sink = "string \<Rightarrow> string \<Rightarrow> string \<times> stream_error option"

record swriter =
  sw_out :: string
  sw_err :: "stream_error option"
  sw_ibuf :: "string option"
  wroteStreamHeader :: bool

definition NewWriter :: "string \<Rightarrow> swriter" where
  "NewWriter w = \<lparr>sw_out = w, sw_err = None, sw_ibuf = None, wroteStreamHeader = False\<rparr>"

definition NewBufferedWriter :: "string \<Rightarrow> swriter" where
  "NewBufferedWriter w = \<lparr>sw_out = w, sw_err = None, sw_ibuf = Some [], wroteStreamHeader = False\<rparr>"

definition sw_Reset :: "string \<Rightarrow> swriter \<Rightarrow> swriter" where
  "sw_Reset writer w =
     w\<lparr>sw_out := writer, sw_err := None, sw_ibuf := map_option (\<lambda>_. []) (sw_ibuf w), wroteStreamHeader := False\<rparr>"

text \<open>One block: the stream header before the first, the chunk header, and the block compressed or not. The
  buffer \<open>obuf\<close> has room for any compressed block, so \<open>Encode\<close> writes into it and does not panic.\<close>

definition encoded :: "string \<Rightarrow> string" where
  "encoded d = (case Encode d of Inr z \<Rightarrow> z | Inl _ \<Rightarrow> [])"

definition put_sink :: "sink \<Rightarrow> string \<Rightarrow> swriter \<Rightarrow> swriter" where
  "put_sink sink b w = (let (out, e) = sink (sw_out w) b in w\<lparr>sw_out := out, sw_err := e\<rparr>)"

definition write_block :: "sink \<Rightarrow> string \<Rightarrow> swriter \<Rightarrow> swriter" where
  "write_block sink d w =
     (let start = (if wroteStreamHeader w then [] else magicChunk);
          w0 = w\<lparr>wroteStreamHeader := True\<rparr>; z = encoded d
      in if length z \<ge> length d - length d div 8 then
           (let w1 = put_sink sink (start @ chunk_header 1 (4 + length d) (crc d)) w0
            in if sw_err w1 \<noteq> None then w1 else put_sink sink d w1)
         else put_sink sink (start @ chunk_header 0 (4 + length z) (crc d) @ z) w0)"

text \<open>\<open>write\<close>: the number of bytes taken and the writer.\<close>

function sw_write :: "sink \<Rightarrow> nat \<Rightarrow> string \<Rightarrow> swriter \<Rightarrow> nat \<times> swriter" where
  "sw_write sink nRet p w =
     (if p = [] then (nRet, w)
      else
        (let d = take maxBlockSize p; w1 = write_block sink d w
         in if sw_err w1 \<noteq> None then (nRet, w1) else sw_write sink (nRet + length d) (drop maxBlockSize p) w1))"
  by auto
termination by (relation "measure (\<lambda>(sink, n, p, w). length p)") (auto simp: maxBlockSize_def)

declare sw_write.simps [simp del]

definition sw_direct :: "sink \<Rightarrow> string \<Rightarrow> swriter \<Rightarrow> nat \<times> swriter" where
  "sw_direct sink p w = (if sw_err w \<noteq> None then (0, w) else sw_write sink 0 p w)"

definition ibuf :: "swriter \<Rightarrow> string" where
  "ibuf w = (case sw_ibuf w of None \<Rightarrow> [] | Some b \<Rightarrow> b)"

definition sw_Flush :: "sink \<Rightarrow> swriter \<Rightarrow> swriter" where
  "sw_Flush sink w =
     (if sw_err w \<noteq> None \<or> ibuf w = [] then w
      else (snd (sw_direct sink (ibuf w) w))\<lparr>sw_ibuf := Some []\<rparr>)"

lemma sw_write_error: "sw_err (snd (sw_write sink n p w)) = None \<Longrightarrow> fst (sw_write sink n p w) = n + length p"
proof (induction sink n p w rule: sw_write.induct)
  case (1 sink n p w)
  show ?case
  proof (cases "p = []")
    case True
    then show ?thesis by (simp add: sw_write.simps)
  next
    case False
    let ?w1 = "write_block sink (take maxBlockSize p) w"
    have "sw_write sink n p w =
        (if sw_err ?w1 \<noteq> None then (n, ?w1) else sw_write sink (n + length (take maxBlockSize p)) (drop maxBlockSize p) ?w1)"
      using False by (subst sw_write.simps) (simp add: Let_def)
    with 1(1) [OF False refl refl] 1(2) show ?thesis by (auto split: if_splits)
  qed
qed

lemma sw_Flush_ibuf: "ibuf w \<noteq> [] \<Longrightarrow> sw_err w = None \<Longrightarrow> ibuf (sw_Flush sink w) = []"
  by (simp add: sw_Flush_def ibuf_def)

text \<open>The loop of \<open>Write\<close>: \<open>nRet\<close> bytes taken so far, the rest of \<open>p\<close>.\<close>

function write_loop :: "sink \<Rightarrow> nat \<Rightarrow> string \<Rightarrow> swriter \<Rightarrow> nat \<times> string \<times> swriter" where
  "write_loop sink nRet p w =
     (if length p > maxBlockSize - length (ibuf w) \<and> sw_err w = None then
        (if ibuf w = [] then
           (let (n, w1) = sw_direct sink p w in write_loop sink (nRet + n) (drop n p) w1)
         else
           (let n = min (maxBlockSize - length (ibuf w)) (length p);
                w1 = sw_Flush sink (w\<lparr>sw_ibuf := Some (ibuf w @ take n p)\<rparr>)
            in write_loop sink (nRet + n) (drop n p) w1))
      else (nRet, p, w))"
  by auto
termination
proof (relation "measures [\<lambda>(sink, n, p, w). if sw_err w = None then 1 else 0, \<lambda>(sink, n, p, w). length p,
    \<lambda>(sink, n, p, w). length (ibuf w)]", goal_cases)
  case 1
  then show ?case by simp
next
  case (2 sink nRet p w x n w1)
  then have "w1 = snd (sw_write sink 0 p w)" "n = fst (sw_write sink 0 p w)"
    by (simp_all add: sw_direct_def split: if_splits) (metis fst_conv snd_conv)+
  with sw_write_error [of sink 0 p w] 2 show ?case by (auto simp: maxBlockSize_def)
next
  case (3 sink nRet p w n w1)
  have "ibuf w1 = []" unfolding 3(4) by (rule sw_Flush_ibuf) (use 3 in \<open>simp_all add: ibuf_def\<close>)
  with 3 show ?case by auto
qed

declare write_loop.simps [simp del]

definition sw_Write :: "sink \<Rightarrow> string \<Rightarrow> swriter \<Rightarrow> (nat \<times> stream_error option) \<times> swriter" where
  "sw_Write sink p w =
     (if sw_ibuf w = None then (let (n, w1) = sw_direct sink p w in ((n, sw_err w1), w1))
      else
        (let (nRet, q, w1) = write_loop sink 0 p w
         in if sw_err w1 \<noteq> None then ((nRet, sw_err w1), w1)
            else (let n = min (maxBlockSize - length (ibuf w1)) (length q)
                  in ((nRet + n, None), w1\<lparr>sw_ibuf := Some (ibuf w1 @ take n q)\<rparr>))))"

definition sw_Close :: "sink \<Rightarrow> swriter \<Rightarrow> stream_error option \<times> swriter" where
  "sw_Close sink w =
     (let w1 = sw_Flush sink w in (sw_err w1, if sw_err w1 = None then w1\<lparr>sw_err := Some SClosed\<rparr> else w1))"

subsection \<open>The reader\<close>

text \<open>\<open>sr_decoded\<close> is \<open>decoded[i:j]\<close>, what has been decoded and not passed on.\<close>

record sreader =
  sr_src :: string
  sr_end :: stream_error
  sr_err :: "stream_error option"
  sr_decoded :: string
  readHeader :: bool

definition NewReader :: "string \<Rightarrow> stream_error \<Rightarrow> sreader" where
  "NewReader src e = \<lparr>sr_src = src, sr_end = e, sr_err = None, sr_decoded = [], readHeader = False\<rparr>"

definition sr_Reset :: "string \<Rightarrow> stream_error \<Rightarrow> sreader \<Rightarrow> sreader" where
  "sr_Reset src e r = r\<lparr>sr_src := src, sr_end := e, sr_err := None, sr_decoded := [], readHeader := False\<rparr>"

definition sr_fail :: "stream_error \<Rightarrow> sreader \<Rightarrow> sreader" where
  "sr_fail e r = r\<lparr>sr_err := Some e\<rparr>"

text \<open>\<open>readFull\<close>: the bytes, or \<open>None\<close> with the error in the reader.\<close>

definition readFull :: "nat \<Rightarrow> bool \<Rightarrow> sreader \<Rightarrow> string option \<times> sreader" where
  "readFull n allowEOF r =
     (if n \<le> length (sr_src r) then (Some (take n (sr_src r)), r\<lparr>sr_src := drop n (sr_src r), sr_err := None\<rparr>)
      else
        (let e = (if sr_src r \<noteq> [] \<and> sr_end r = SEOF then SUnexpectedEOF else sr_end r);
             e' = (if e = SUnexpectedEOF \<or> (e = SEOF \<and> \<not> allowEOF) then SCorrupt else e)
         in (None, r\<lparr>sr_src := [], sr_err := Some e'\<rparr>)))"

definition with_full :: "nat \<Rightarrow> bool \<Rightarrow> sreader \<Rightarrow> (string \<Rightarrow> sreader \<Rightarrow> sreader) \<Rightarrow> sreader" where
  "with_full n allowEOF r f = (case readFull n allowEOF r of (None, r1) \<Rightarrow> r1 | (Some b, r1) \<Rightarrow> f b r1)"

definition pass_block :: "string \<Rightarrow> nat \<Rightarrow> sreader \<Rightarrow> sreader" where
  "pass_block d checksum r = (if unat (crc d) \<noteq> checksum then sr_fail SCorrupt r else r\<lparr>sr_decoded := d\<rparr>)"

definition compressed_chunk :: "string \<Rightarrow> sreader \<Rightarrow> sreader" where
  "compressed_chunk b r =
     (let body = drop 4 b
      in case decodedLen body of
           Inl _ \<Rightarrow> sr_fail SCorrupt r
         | Inr (n, _) \<Rightarrow>
             if n > maxBlockSize then sr_fail SCorrupt r
             else (case Decode body of Inl _ \<Rightarrow> sr_fail SCorrupt r | Inr d \<Rightarrow> pass_block d (u32 b) r))"

definition bufLen :: nat where
  "bufLen = 76490 + 4"

text \<open>One turn of the loop of \<open>Read\<close>: it reads a chunk, or ends with an error.\<close>

definition chunk_body :: "nat \<Rightarrow> nat \<Rightarrow> sreader \<Rightarrow> sreader" where
  "chunk_body chunkType chunkLen r =
     (if chunkLen > bufLen then sr_fail SUnsupported r
      else if chunkType = 0 then
        (if chunkLen < 4 then sr_fail SCorrupt r else with_full chunkLen False r compressed_chunk)
      else if chunkType = 1 then
        (if chunkLen < 4 then sr_fail SCorrupt r
         else with_full 4 False r (\<lambda>b r2.
           if chunkLen - 4 > maxBlockSize then sr_fail SCorrupt r2
           else with_full (chunkLen - 4) False r2 (\<lambda>d. pass_block d (u32 b))))
      else if chunkType = 255 then
        (if chunkLen \<noteq> length magicBody then sr_fail SCorrupt r
         else with_full (length magicBody) False r (\<lambda>b r2. if b \<noteq> magicBody then sr_fail SCorrupt r2 else r2))
      else if chunkType \<le> 127 then sr_fail SUnsupported r
      else with_full chunkLen False r (\<lambda>_ r2. r2))"

definition read_chunk :: "sreader \<Rightarrow> sreader" where
  "read_chunk r0 =
     with_full 4 True r0 (\<lambda>h r1.
       let chunkType = code (h ! 0); chunkLen = code (h ! 1) + 256 * code (h ! 2) + 65536 * code (h ! 3)
       in if \<not> readHeader r1 \<and> chunkType \<noteq> 255 then sr_fail SCorrupt r1
          else chunk_body chunkType chunkLen (r1\<lparr>readHeader := True\<rparr>))"

text \<open>Every chunk takes bytes from the source, or ends the reading.\<close>

definition takes :: "nat \<Rightarrow> sreader \<Rightarrow> sreader \<Rightarrow> bool" where
  "takes n r r' \<longleftrightarrow> sr_err r' \<noteq> None \<or> length (sr_src r') + n \<le> length (sr_src r)"

lemma takes_fail [simp]: "takes n r (sr_fail e r1)"
  by (simp add: takes_def sr_fail_def)

lemma takes_self [simp]: "takes 0 r r"
  by (simp add: takes_def)

lemma takes_with_full: "(\<And>b r1. takes 0 r1 (f b r1)) \<Longrightarrow> takes n r (with_full n eof r f)"
proof -
  assume a: "\<And>b r1. takes 0 r1 (f b r1)"
  show ?thesis
  proof (cases "n \<le> length (sr_src r)")
    case True
    with a [of "r\<lparr>sr_src := drop n (sr_src r), sr_err := None\<rparr>" "take n (sr_src r)"]
    show ?thesis by (auto simp: takes_def with_full_def readFull_def)
  qed (simp add: takes_def with_full_def readFull_def Let_def)
qed

lemma takes_with_full_0: "(\<And>b r1. takes 0 r1 (f b r1)) \<Longrightarrow> takes 0 r (with_full n eof r f)"
  using takes_with_full [of f n r eof] by (auto simp: takes_def)

lemma takes_pass_block: "takes 0 r (pass_block d c r)"
  by (simp add: takes_def pass_block_def sr_fail_def)

lemma takes_compressed: "takes 0 r (compressed_chunk b r)"
  by (auto simp: compressed_chunk_def takes_pass_block Let_def split: sum.split prod.split)

lemma takes_chunk_body: "takes 0 r (chunk_body t n r)"
  unfolding chunk_body_def
  by (auto intro!: takes_with_full_0 takes_compressed takes_pass_block)

lemma read_chunk_less: "sr_err (read_chunk r) \<noteq> None \<or> length (sr_src (read_chunk r)) < length (sr_src r)"
proof -
  have "takes 4 r (read_chunk r)"
    unfolding read_chunk_def
  proof (rule takes_with_full)
    fix h r1
    have "takes 0 r1 (chunk_body t n (r1\<lparr>readHeader := True\<rparr>))" for t n
      using takes_chunk_body [of "r1\<lparr>readHeader := True\<rparr>"] by (simp add: takes_def)
    then show "takes 0 r1 (let chunkType = code (h ! 0); chunkLen = code (h ! 1) + 256 * code (h ! 2) + 65536 * code (h ! 3)
       in if \<not> readHeader r1 \<and> chunkType \<noteq> 255 then sr_fail SCorrupt r1
          else chunk_body chunkType chunkLen (r1\<lparr>readHeader := True\<rparr>))"
      by (simp add: Let_def)
  qed
  then show ?thesis by (simp only: takes_def) linarith
qed

text \<open>The loop of \<open>Read\<close>: chunks are read until there are bytes to pass on or an error.\<close>

function sr_fill :: "sreader \<Rightarrow> sreader" where
  "sr_fill r = (if sr_err r \<noteq> None \<or> sr_decoded r \<noteq> [] then r else sr_fill (read_chunk r))"
  by auto
termination
proof (relation "measures [\<lambda>r. if sr_err r = None then 1 else 0, \<lambda>r. length (sr_src r)]", goal_cases)
  case 1
  then show ?case by simp
next
  case (2 r)
  then show ?case using read_chunk_less [of r] by auto
qed

declare sr_fill.simps [simp del]

lemma sr_fill_done: "sr_err r \<noteq> None \<or> sr_decoded r \<noteq> [] \<Longrightarrow> sr_fill r = r"
  by (subst sr_fill.simps) (rule if_P)

lemma sr_fill_more: "sr_err r = None \<Longrightarrow> sr_decoded r = [] \<Longrightarrow> sr_fill r = sr_fill (read_chunk r)"
  by (subst sr_fill.simps) simp

lemma sr_fill_end: "sr_err (sr_fill r) \<noteq> None \<or> sr_decoded (sr_fill r) \<noteq> []"
proof (induction r rule: sr_fill.induct)
  case (1 r)
  then show ?case
    by (cases "sr_err r \<noteq> None \<or> sr_decoded r \<noteq> []") (auto simp: sr_fill_done sr_fill_more)
qed

lemma sr_fill_src: "sr_err (sr_fill r) = None \<Longrightarrow> length (sr_src (sr_fill r)) \<le> length (sr_src r)"
proof (induction r rule: sr_fill.induct)
  case (1 r)
  show ?case
  proof (cases "sr_err r \<noteq> None \<or> sr_decoded r \<noteq> []")
    case True
    then show ?thesis by (simp add: sr_fill_done)
  next
    case False
    then have e: "sr_fill r = sr_fill (read_chunk r)" by (simp add: sr_fill_more)
    have "sr_err (read_chunk r) = None"
      using 1(2) e sr_fill_done [of "read_chunk r"] by (cases "sr_err (read_chunk r)") auto
    with 1(1) [OF False] 1(2) e read_chunk_less [of r] show ?thesis by simp
  qed
qed

definition sr_Read :: "nat \<Rightarrow> sreader \<Rightarrow> (string \<times> stream_error option) \<times> sreader" where
  "sr_Read n r =
     (if sr_err r \<noteq> None then (([], sr_err r), r)
      else
        (let r1 = sr_fill r
         in if sr_err r1 \<noteq> None then (([], sr_err r1), r1)
            else ((take n (sr_decoded r1), None), r1\<lparr>sr_decoded := drop n (sr_decoded r1)\<rparr>)))"

lemma sr_Read_less:
  assumes "sr_Read (Suc k) r = ((d, None), r1)"
  shows "length (sr_src r1) < length (sr_src r) \<or>
    length (sr_src r1) = length (sr_src r) \<and> length (sr_decoded r1) < length (sr_decoded r)"
proof -
  from assms have n: "sr_err r = None" "sr_err (sr_fill r) = None"
    "r1 = (sr_fill r)\<lparr>sr_decoded := drop (Suc k) (sr_decoded (sr_fill r))\<rparr>"
    by (auto simp: sr_Read_def Let_def split: if_splits)
  show ?thesis
  proof (cases "sr_decoded r = []")
    case False
    then have "sr_fill r = r" by (simp add: sr_fill_done)
    with n(3) False show ?thesis by simp
  next
    case True
    with n(1) have e: "sr_fill r = sr_fill (read_chunk r)" by (simp add: sr_fill_more)
    with n(2) have "sr_err (read_chunk r) = None"
      using sr_fill_done [of "read_chunk r"] by (cases "sr_err (read_chunk r)") auto
    with read_chunk_less [of r] sr_fill_src [of "read_chunk r"] e n show ?thesis by simp
  qed
qed

text \<open>Reading to the end with a buffer of \<open>k + 1\<close> bytes, as \<open>io.ReadAll\<close> does: the bytes and the error that
  ended it.\<close>

function read_all :: "nat \<Rightarrow> sreader \<Rightarrow> string \<times> stream_error" where
  "read_all k r =
     (case sr_Read (Suc k) r of
        ((d, Some e), r1) \<Rightarrow> (d, e)
      | ((d, None), r1) \<Rightarrow> (let (ds, e) = read_all k r1 in (d @ ds, e)))"
  by auto
termination
proof (relation "measures [\<lambda>(k, r). length (sr_src r), \<lambda>(k, r). length (sr_decoded r)]", goal_cases)
  case 1
  then show ?case by simp
next
  case (2 k r x r1 d e)
  then show ?case using sr_Read_less [of k r d r1] by auto
qed

declare read_all.simps [simp del]

end
