(* ===== verification/SnappyStreamCorrect.thy ===== *)
theory SnappyStreamCorrect
  imports SnappyStream
begin

text \<open>
  The stream format loses nothing. A writer's output is the stream header and one frame for each block, the
  blocks together are what was written, and the reader takes the frames apart again.
\<close>

subsection \<open>The form of a stream\<close>

definition mem_sink :: sink where
  "mem_sink out b = (out @ b, None)"

definition frame :: "string \<Rightarrow> string" where
  "frame d =
     (let z = encoded d
      in if length z \<ge> length d - length d div 8 then chunk_header 1 (4 + length d) (crc d) @ d
         else chunk_header 0 (4 + length z) (crc d) @ z)"

definition stream :: "string list \<Rightarrow> string" where
  "stream bs = (if bs = [] then [] else magicChunk @ concat (map frame bs))"

definition written :: "swriter \<Rightarrow> string list \<Rightarrow> bool" where
  "written w bs \<longleftrightarrow> sw_err w = None \<and> sw_out w = stream bs \<and> (wroteStreamHeader w \<longleftrightarrow> bs \<noteq> []) \<and>
     (\<forall>b \<in> set bs. b \<noteq> [] \<and> length b \<le> maxBlockSize)"

lemma stream_snoc: "stream (bs @ [d]) = stream bs @ (if bs = [] then magicChunk else []) @ frame d"
  by (simp add: stream_def)

lemma write_block_written:
  assumes "written w bs" "d \<noteq> []" "length d \<le> maxBlockSize"
  shows "written (write_block mem_sink d w) (bs @ [d])" "sw_ibuf (write_block mem_sink d w) = sw_ibuf w"
  using assms unfolding written_def stream_snoc
  by (auto simp: write_block_def put_sink_def mem_sink_def frame_def Let_def)

lemma sw_write_written:
  "written w bs \<Longrightarrow> \<exists>bs' w'. sw_write mem_sink n p w = (n + length p, w') \<and> written w' bs' \<and>
     concat bs' = concat bs @ p \<and> sw_ibuf w' = sw_ibuf w"
proof (induction mem_sink n p w arbitrary: bs rule: sw_write.induct)
  case (1 n p w)
  show ?case
  proof (cases "p = []")
    case True
    with 1(2) show ?thesis by (subst sw_write.simps) auto
  next
    case False
    let ?d = "take maxBlockSize p"
    have d: "?d \<noteq> []" "length ?d \<le> maxBlockSize" using False by (simp_all add: maxBlockSize_def)
    note w1 = write_block_written [OF 1(2) d]
    then have e: "sw_err (write_block mem_sink ?d w) = None" by (simp add: written_def)
    from 1(1) [OF False refl refl _ w1(1)] e obtain bs' w' where
      "sw_write mem_sink (n + length ?d) (drop maxBlockSize p) (write_block mem_sink ?d w)
         = (n + length ?d + length (drop maxBlockSize p), w')" "written w' bs'"
      "concat bs' = concat (bs @ [?d]) @ drop maxBlockSize p" "sw_ibuf w' = sw_ibuf w"
      using w1(2) by auto
    moreover have "n + length ?d + length (drop maxBlockSize p) = n + length p" by simp
    moreover have "sw_write mem_sink n p w =
        sw_write mem_sink (n + length ?d) (drop maxBlockSize p) (write_block mem_sink ?d w)"
      using False e by (subst sw_write.simps) (simp add: Let_def)
    ultimately show ?thesis by (metis append.assoc append_take_drop_id concat_append concat.simps append_Nil2)
  qed
qed

text \<open>The data so far: the blocks written and what waits in the buffer.\<close>

definition holds :: "bool \<Rightarrow> swriter \<Rightarrow> string \<Rightarrow> bool" where
  "holds buffered w data \<longleftrightarrow> (\<exists>bs. written w bs \<and> concat bs @ ibuf w = data) \<and> (sw_ibuf w \<noteq> None \<longleftrightarrow> buffered) \<and>
     length (ibuf w) \<le> maxBlockSize"

declare holds_def [stream_simps] written_def [stream_simps]

lemma holds_direct:
  assumes "holds b w data" "ibuf w = []"
  shows "\<exists>w'. sw_direct mem_sink p w = (length p, w') \<and> holds b w' (data @ p) \<and> sw_ibuf w' = sw_ibuf w"
proof -
  from assms obtain bs where bs: "written w bs" "concat bs = data" by (auto simp: holds_def)
  from sw_write_written [OF bs(1), of 0 p] obtain bs' w' where
    w: "sw_write mem_sink 0 p w = (length p, w')" "written w' bs'" "concat bs' = data @ p" "sw_ibuf w' = sw_ibuf w"
    using bs(2) by auto
  have i: "ibuf w' = []" using w(4) assms(2) by (simp add: ibuf_def)
  have "sw_direct mem_sink p w = (length p, w')" using w(1) bs(1) by (simp add: sw_direct_def written_def)
  moreover have "holds b w' (data @ p)"
    unfolding holds_def i w(4) using w(2,3) assms(1) by (auto simp: holds_def)
  ultimately show ?thesis using w(4) by blast
qed

lemma holds_buffer:
  assumes "holds True w data" "length (ibuf w) + length x \<le> maxBlockSize"
  shows "holds True (w\<lparr>sw_ibuf := Some (ibuf w @ x)\<rparr>) (data @ x)"
  using assms by (auto simp: holds_def ibuf_def written_def)

lemma holds_Flush:
  assumes "holds b w data"
  shows "holds b (sw_Flush mem_sink w) data" "ibuf (sw_Flush mem_sink w) = []" "sw_err (sw_Flush mem_sink w) = None"
proof -
  have ok: "sw_err w = None" using assms by (auto simp: stream_simps)
  have "holds b (sw_Flush mem_sink w) data \<and> ibuf (sw_Flush mem_sink w) = []"
  proof (cases "ibuf w = []")
    case True
    with assms show ?thesis by (simp add: sw_Flush_def)
  next
    case False
    then have b: b using assms by (auto simp: holds_def ibuf_def split: option.splits)
    obtain bs where bs: "written w bs" "concat bs @ ibuf w = data" using assms by (auto simp: holds_def)
    from sw_write_written [OF bs(1), of 0 "ibuf w"] obtain bs' w' where
      w: "sw_write mem_sink 0 (ibuf w) w = (length (ibuf w), w')" "written w' bs'" "concat bs' = data"
      using bs(2) by auto
    then have "sw_Flush mem_sink w = w'\<lparr>sw_ibuf := Some []\<rparr>" using False ok by (simp add: sw_Flush_def sw_direct_def)
    with w(2,3) b show ?thesis by (auto simp: holds_def ibuf_def written_def)
  qed
  then show "holds b (sw_Flush mem_sink w) data" "ibuf (sw_Flush mem_sink w) = []" by simp_all
  then show "sw_err (sw_Flush mem_sink w) = None" by (auto simp: stream_simps)
qed

lemma holds_loop:
  "holds True w data \<Longrightarrow> \<exists>n q w' x. write_loop mem_sink k p w = (n, q, w') \<and> p = x @ q \<and> holds True w' (data @ x) \<and>
     length q \<le> maxBlockSize - length (ibuf w') \<and> n = k + length x"
proof (induction mem_sink k p w arbitrary: data rule: write_loop.induct)
  case (1 k p w)
  have ok: "sw_err w = None" using 1(3) by (auto simp: stream_simps)
  show ?case
  proof (cases "length p > maxBlockSize - length (ibuf w)")
    case False
    with 1(3) show ?thesis by (subst write_loop.simps) auto
  next
    case long: True
    then have c: "length p > maxBlockSize - length (ibuf w) \<and> sw_err w = None" using ok by simp
    show ?thesis
    proof (cases "ibuf w = []")
      case True
      from holds_direct [OF 1(3) True, of p] obtain w' where
        w: "sw_direct mem_sink p w = (length p, w')" "holds True w' (data @ p)" "sw_ibuf w' = sw_ibuf w" by blast
      have "write_loop mem_sink k p w = write_loop mem_sink (k + length p) (drop (length p) p) w'"
        using c True w(1) by (subst write_loop.simps) simp
      with 1(1) [OF c True refl _ w(2)] w(1) obtain n q w2 x where
        "write_loop mem_sink k p w = (n, q, w2)" "drop (length p) p = x @ q" "holds True w2 (data @ p @ x)"
        "length q \<le> maxBlockSize - length (ibuf w2)" "n = k + length p + length x" by auto
      then show ?thesis by (intro exI [of _ n] exI [of _ q] exI [of _ w2] exI [of _ p]) auto
    next
      case False
      let ?n = "min (maxBlockSize - length (ibuf w)) (length p)"
      let ?w1 = "sw_Flush mem_sink (w\<lparr>sw_ibuf := Some (ibuf w @ take ?n p)\<rparr>)"
      have "length (ibuf w) \<le> maxBlockSize" using 1(3) by (simp add: holds_def)
      then have "holds True (w\<lparr>sw_ibuf := Some (ibuf w @ take ?n p)\<rparr>) (data @ take ?n p)"
        using holds_buffer [OF 1(3), of "take ?n p"] by simp
      from holds_Flush(1) [OF this] have h: "holds True ?w1 (data @ take ?n p)" .
      have "write_loop mem_sink k p w = write_loop mem_sink (k + ?n) (drop ?n p) ?w1"
        using c False by (subst write_loop.simps) (simp add: Let_def)
      with 1(2) [OF c False refl refl h] obtain n q w2 x where
        r: "write_loop mem_sink k p w = (n, q, w2)" "drop ?n p = x @ q" "holds True w2 (data @ take ?n p @ x)"
        "length q \<le> maxBlockSize - length (ibuf w2)" "n = k + ?n + length x" by auto
      have "p = (take ?n p @ x) @ q" using r(2) by (metis append.assoc append_take_drop_id)
      moreover have "n = k + length (take ?n p @ x)" using r(5) by simp
      ultimately show ?thesis using r by blast
    qed
  qed
qed

datatype stream_op = WriteOp string | FlushOp

fun op_data :: "stream_op \<Rightarrow> string" where
  "op_data (WriteOp p) = p"
| "op_data FlushOp = []"

fun do_op :: "sink \<Rightarrow> stream_op \<Rightarrow> swriter \<Rightarrow> swriter" where
  "do_op sink (WriteOp p) w = snd (sw_Write sink p w)"
| "do_op sink FlushOp w = sw_Flush sink w"

lemma Write_holds:
  assumes "holds b w data"
  shows "fst (sw_Write mem_sink p w) = (length p, None) \<and> holds b (snd (sw_Write mem_sink p w)) (data @ p)"
proof (cases b)
  case False
  then have n: "sw_ibuf w = None" using assms by (simp add: holds_def)
  with holds_direct [OF assms, of p] obtain w' where w: "sw_direct mem_sink p w = (length p, w')" "holds b w' (data @ p)"
    by (auto simp: ibuf_def)
  from w(2) have "sw_err w' = None" by (auto simp: stream_simps)
  with w n show ?thesis by (simp add: sw_Write_def)
next
  case True
  with holds_loop [of w data 0 p] assms obtain n q w' x where
    l: "write_loop mem_sink 0 p w = (n, q, w')" "p = x @ q" "holds True w' (data @ x)"
      "length q \<le> maxBlockSize - length (ibuf w')" "n = length x" by auto
  have "length (ibuf w') \<le> maxBlockSize" "sw_err w' = None" using l(3) by (auto simp: stream_simps)
  moreover from this holds_buffer [OF l(3), of q] l(4) have "holds True (w'\<lparr>sw_ibuf := Some (ibuf w' @ q)\<rparr>) (data @ p)"
    by (simp add: l(2))
  moreover obtain y where "sw_ibuf w = Some y" using assms True by (auto simp: holds_def)
  ultimately show ?thesis using l True by (simp add: sw_Write_def min_absorb2)
qed

lemma ops_hold: "holds b w data \<Longrightarrow> holds b (fold (do_op mem_sink) ops w) (data @ concat (map op_data ops))"
proof (induction ops arbitrary: w data)
  case (Cons x ops)
  show ?case
  proof (cases x)
    case (WriteOp p)
    with Cons(1) [of "do_op mem_sink x w" "data @ p"] Write_holds [OF Cons(2), of p] show ?thesis by simp
  next
    case FlushOp
    with Cons(1) [of "do_op mem_sink x w" data] holds_Flush(1) [OF Cons(2)] show ?thesis by simp
  qed
qed simp

definition new_writer :: "bool \<Rightarrow> swriter" where
  "new_writer buffered = (if buffered then NewBufferedWriter [] else NewWriter [])"

lemma stream_written:
  "\<exists>bs. sw_out (snd (sw_Close mem_sink (fold (do_op mem_sink) ops (new_writer b)))) = stream bs \<and>
     concat bs = concat (map op_data ops) \<and> (\<forall>d \<in> set bs. d \<noteq> [] \<and> length d \<le> maxBlockSize)"
proof -
  have "holds b (new_writer b) []"
    by (auto simp: holds_def new_writer_def NewBufferedWriter_def NewWriter_def written_def stream_def ibuf_def
        intro: exI [of _ "[]"])
  from ops_hold [OF this, of ops] have h: "holds b (fold (do_op mem_sink) ops (new_writer b)) (concat (map op_data ops))"
    by simp
  from holds_Flush(1,2) [OF h] show ?thesis by (auto simp: sw_Close_def Let_def stream_simps)
qed

subsection \<open>Reading\<close>

lemma encoded_props:
  assumes "length d \<le> maxBlockSize"
  shows "Decode (encoded d) = Inr d" "length (encoded d) \<le> 76490" "\<exists>r. decodedLen (encoded d) = Inr (length d, r)"
proof -
  have n: "length d \<le> 65536" using assms by (simp add: maxBlockSize_def)
  then have m: "MaxEncodedLen (length d) = Some (32 + length d + length d div 6)"
    by (simp add: MaxEncodedLen_def Let_def)
  then have E: "Encode d = Inr (put_uvarint (length d) @ encode_blocks d)" by (simp add: Encode_def)
  then have e: "encoded d = put_uvarint (length d) @ encode_blocks d" by (simp add: encoded_def)
  from Encode_cases [of d] E e show "Decode (encoded d) = Inr d" by simp
  have "length (put_uvarint (length d)) \<le> 3" using length_put_uvarint [of "length d" 2] n by simp
  moreover have "64 * length (encode_blocks d) \<le> 66 * 65536 + 67" using length_encode_blocks [of d] n by linarith
  ultimately show "length (encoded d) \<le> 76490" unfolding e by simp
  have "uvarint 0 (put_uvarint (length d) @ encode_blocks d) = Some (length d, encode_blocks d)"
    by (rule uvarint_put) (use n in simp_all)
  then show "\<exists>r. decodedLen (encoded d) = Inr (length d, r)" using n by (simp add: decodedLen_def e)
qed

lemma three_bytes:
  "n mod 256 + 256 * (n div 256 mod 256) + 65536 * (n div 65536) = (n::nat)"
proof -
  have "n div 256 = 256 * (n div 65536) + n div 256 mod 256"
    using div_mult_mod_eq [of "n div 256" 256] by (simp add: div_mult2_eq [symmetric] mult.commute)
  moreover have "n = 256 * (n div 256) + n mod 256" by simp
  ultimately show ?thesis by linarith
qed

lemma unat_32: "unat (c :: 32 word) < 2 ^ 32"
  using unsigned_less [of c] by simp

lemma chunk_header_parts:
  assumes "n < 16777216"
  shows "length (chunk_header t n c) = 8" "take 4 (chunk_header t n c @ x) = [byte t, byte n, byte (n div 256), byte (n div 65536)]"
    "drop 4 (chunk_header t n c @ x) = put_u32 (unat c) @ x"
  by (simp_all add: chunk_header_def)

lemma u32_crc: "u32 (put_u32 (unat (c :: 32 word))) = unat c"
  by (rule u32_put) (use unat_32 [of c] in simp)

lemma u32_append: "u32 (put_u32 n @ z) = u32 (put_u32 n)"
  by (simp add: u32_def put_u32_def)

lemma read_chunk_header:
  assumes "sr_src r = chunk_header t n c @ x" "n < 16777216" "t < 256" "readHeader r \<or> t = 255"
  shows "read_chunk r = chunk_body t n (r\<lparr>sr_src := put_u32 (unat c) @ x, sr_err := None, readHeader := True\<rparr>)"
proof -
  have "length (sr_src r) \<ge> 4" using assms(1,2) by (simp add: chunk_header_parts)
  moreover have "take 4 (sr_src r) = [byte t, byte n, byte (n div 256), byte (n div 65536)]"
    "drop 4 (sr_src r) = put_u32 (unat c) @ x"
    using assms(1) chunk_header_parts(2,3) [OF assms(2), of t c x] by simp_all
  ultimately show ?thesis
    using assms(2-4) three_bytes [of n] by (auto simp: read_chunk_def with_full_def readFull_def)
qed

lemma with_full_ok:
  "sr_src r = b @ x \<Longrightarrow> with_full (length b) eof r f = f b (r\<lparr>sr_src := x, sr_err := None\<rparr>)"
  by (simp add: with_full_def readFull_def)

lemma read_frame:
  assumes "sr_src r = frame d @ x" "readHeader r" "length d \<le> maxBlockSize"
  shows "read_chunk r = r\<lparr>sr_src := x, sr_err := None, sr_decoded := d\<rparr>"
proof (cases "length (encoded d) \<ge> length d - length d div 8")
  case True
  let ?r = "r\<lparr>sr_src := put_u32 (unat (crc d)) @ d @ x, sr_err := None, readHeader := True\<rparr>"
  have n: "4 + length d < 16777216" "\<not> bufLen < 4 + length d" using assms(3) by (simp_all add: maxBlockSize_def bufLen_def)
  have "sr_src r = chunk_header 1 (4 + length d) (crc d) @ d @ x" using assms(1) True by (simp add: frame_def Let_def)
  from read_chunk_header [OF this n(1)] assms(2) have "read_chunk r = chunk_body 1 (4 + length d) ?r" by simp
  also have "\<dots> = r\<lparr>sr_src := x, sr_err := None, sr_decoded := d\<rparr>"
    using with_full_ok [of ?r "put_u32 (unat (crc d))" "d @ x" False]
      with_full_ok [of "r\<lparr>readHeader := True, sr_src := d @ x, sr_err := None\<rparr>" d x False] n(2) assms(2,3)
    by (simp add: chunk_body_def pass_block_def u32_crc)
  finally show ?thesis .
next
  case False
  let ?z = "encoded d"
  let ?r = "r\<lparr>sr_src := put_u32 (unat (crc d)) @ ?z @ x, sr_err := None, readHeader := True\<rparr>"
  note z = encoded_props [OF assms(3)]
  have n: "4 + length ?z < 16777216" "\<not> bufLen < 4 + length ?z" using z(2) by (simp_all add: bufLen_def)
  have "sr_src r = chunk_header 0 (4 + length ?z) (crc d) @ ?z @ x" using assms(1) False by (simp add: frame_def Let_def)
  from read_chunk_header [OF this n(1)] assms(2) have "read_chunk r = chunk_body 0 (4 + length ?z) ?r" by simp
  also have "\<dots> = compressed_chunk (put_u32 (unat (crc d)) @ ?z) (r\<lparr>readHeader := True, sr_src := x, sr_err := None\<rparr>)"
    using with_full_ok [of ?r "put_u32 (unat (crc d)) @ ?z" x False] n(2) by (simp add: chunk_body_def)
  also have "\<dots> = r\<lparr>sr_src := x, sr_err := None, sr_decoded := d\<rparr>"
  proof -
    have "u32 (put_u32 (unat (crc d)) @ ?z) = unat (crc d)" by (simp only: u32_append u32_crc)
    with z assms(2,3) show ?thesis by (auto simp: compressed_chunk_def pass_block_def)
  qed
  finally show ?thesis .
qed

lemma read_magic:
  assumes "sr_src r = magicChunk @ x"
  shows "read_chunk r = r\<lparr>sr_src := x, sr_err := None, readHeader := True\<rparr>"
proof -
  let ?r = "r\<lparr>sr_src := magicBody @ x, sr_err := None, readHeader := True\<rparr>"
  have "take 4 (magicChunk @ x) = [byte 255, byte 6, byte 0, byte 0]" "drop 4 (magicChunk @ x) = magicBody @ x"
    "4 \<le> length (magicChunk @ x)"
    by (simp_all add: magicChunk_def)
  then have "read_chunk r = chunk_body 255 6 ?r"
    using assms by (simp add: read_chunk_def with_full_def readFull_def)
  also have "\<dots> = r\<lparr>sr_src := x, sr_err := None, readHeader := True\<rparr>"
    using with_full_ok [of ?r magicBody x False] by (simp add: chunk_body_def bufLen_def magicBody_def)
  finally show ?thesis .
qed

lemma read_end: "sr_src r = [] \<Longrightarrow> sr_end r = SEOF \<Longrightarrow> read_chunk r = r\<lparr>sr_src := [], sr_err := Some SEOF\<rparr>"
  by (simp add: read_chunk_def with_full_def readFull_def)

lemma read_all_error: "sr_err r = None \<Longrightarrow> sr_decoded r = [] \<Longrightarrow> sr_err (read_chunk r) = Some e \<Longrightarrow> read_all k r = ([], e)"
  by (subst read_all.simps) (simp add: sr_Read_def sr_fill_more sr_fill_done)

lemma read_all_decoded:
  "sr_err r = None \<Longrightarrow> sr_decoded r \<noteq> [] \<Longrightarrow>
     read_all k r = (let (ds, e) = read_all k (r\<lparr>sr_decoded := drop (Suc k) (sr_decoded r)\<rparr>) in (take (Suc k) (sr_decoded r) @ ds, e))"
  by (subst read_all.simps) (simp add: sr_Read_def sr_fill_done)

lemma read_all_chunk:
  "sr_err r = None \<Longrightarrow> sr_decoded r = [] \<Longrightarrow> sr_err (read_chunk r) = None \<Longrightarrow> read_all k r = read_all k (read_chunk r)"
  by (subst (1 2) read_all.simps) (simp add: sr_Read_def sr_fill_more)

lemma read_all_pending:
  "sr_err r = None \<Longrightarrow> read_all k (r\<lparr>sr_decoded := []\<rparr>) = (ds, e) \<Longrightarrow> read_all k r = (sr_decoded r @ ds, e)"
proof (induction "length (sr_decoded r)" arbitrary: r rule: less_induct)
  case less
  show ?case
  proof (cases "sr_decoded r = []")
    case True
    then have "r\<lparr>sr_decoded := []\<rparr> = r" by simp
    with less(3) True show ?thesis by simp
  next
    case False
    then have "length (drop (Suc k) (sr_decoded r)) < length (sr_decoded r)" by simp
    with less(1) [of "r\<lparr>sr_decoded := drop (Suc k) (sr_decoded r)\<rparr>"] less(2,3)
    have "read_all k (r\<lparr>sr_decoded := drop (Suc k) (sr_decoded r)\<rparr>) = (drop (Suc k) (sr_decoded r) @ ds, e)" by simp
    with read_all_decoded [OF less(2) False, of k] show ?thesis by (simp flip: append_assoc)
  qed
qed

lemma read_frames:
  "sr_err r = None \<Longrightarrow> sr_decoded r = [] \<Longrightarrow> readHeader r \<Longrightarrow> sr_end r = SEOF \<Longrightarrow> sr_src r = concat (map frame bs) \<Longrightarrow>
   \<forall>d \<in> set bs. d \<noteq> [] \<and> length d \<le> maxBlockSize \<Longrightarrow> read_all k r = (concat bs, SEOF)"
proof (induction bs arbitrary: r)
  case Nil
  then show ?case using read_end [of r] read_all_error [of r SEOF k] by simp
next
  case (Cons d bs)
  let ?r = "r\<lparr>sr_src := concat (map frame bs), sr_err := None, sr_decoded := d\<rparr>"
  have c: "read_chunk r = ?r" by (rule read_frame) (use Cons in simp_all)
  have "read_all k (?r\<lparr>sr_decoded := []\<rparr>) = (concat bs, SEOF)" by (rule Cons(1)) (use Cons in simp_all)
  from read_all_pending [OF _ this] have "read_all k ?r = (d @ concat bs, SEOF)" by simp
  with read_all_chunk [of r k] Cons(2,3) c show ?case by simp
qed

text \<open>C39. What is written is read. Any sequence of writes and flushes to a new writer, buffered or not, that is
  then closed, makes a stream that a reader gives back byte for byte, ending with the end of the file, whatever
  the size of the reads.\<close>

theorem stream_round_trip:
  "read_all k (NewReader (sw_out (snd (sw_Close mem_sink (fold (do_op mem_sink) ops (new_writer buffered))))) SEOF) =
     (concat (map op_data ops), SEOF)"
proof -
  obtain bs where bs: "sw_out (snd (sw_Close mem_sink (fold (do_op mem_sink) ops (new_writer buffered)))) = stream bs"
    "concat bs = concat (map op_data ops)" "\<forall>d \<in> set bs. d \<noteq> [] \<and> length d \<le> maxBlockSize"
    using stream_written by blast
  let ?r = "NewReader (stream bs) SEOF"
  have "read_all k ?r = (concat bs, SEOF)"
  proof (cases "bs = []")
    case True
    then have "sr_err (read_chunk ?r) = Some SEOF" by (simp add: read_end NewReader_def stream_def)
    from read_all_error [OF _ _ this] True show ?thesis by (simp add: NewReader_def)
  next
    case False
    then have "read_chunk ?r = ?r\<lparr>sr_src := concat (map frame bs), sr_err := None, readHeader := True\<rparr>"
      by (intro read_magic) (simp add: NewReader_def stream_def)
    moreover from this have "read_all k ?r = read_all k (read_chunk ?r)"
      by (intro read_all_chunk) (simp_all add: NewReader_def)
    ultimately show ?thesis using bs(3) by (simp add: read_frames NewReader_def)
  qed
  with bs show ?thesis by simp
qed

end
