(* ===== verification/ConnStats.thy ===== *)
theory ConnStats
  imports Socket ServerStatus
begin

text \<open>
  The server loop together with its statistics. \<open>serveSocket\<close> (\<open>handler_socket.go\<close>) reports each stage of a
  connection to \<open>stats.go\<close>; here the loop is written once more as the sequence of these calls, and a
  server is any number of connections whose calls interleave, with the goroutines that \<open>Close\<close> leaves
  behind. The time stamps are arbitrary.
\<close>

subsection \<open>The calls of a connection\<close>

datatype stat_call =
    CReading
  | CServing string string
  | CWriting "64 word" "64 word" "64 word"
  | CKeepalive "64 word" bool
  | CClose string bool

text \<open>The request part of the loop: what it reports for a message, next to what \<open>serve_message\<close> says it
  does.\<close>

definition served_calls ::
  "comp_config \<Rightarrow> (bytes \<Rightarrow> bytes) \<Rightarrow> (bytes \<Rightarrow> bytes option) \<Rightarrow> (bytes \<Rightarrow> bytes option) \<Rightarrow> nat
     \<Rightarrow> action_handler \<Rightarrow> int \<Rightarrow> conninfo \<Rightarrow> bool \<Rightarrow> bytes \<Rightarrow> stat_call list" where
  "served_calls cfg gz flate inflate cap handle took conn compressed m0 =
     (let message_len = length m0 + 5
      in case (if compressed then inflate m0 else Some m0) of
           None \<Rightarrow> []
         | Some m \<Rightarrow>
             (case ReadHSParams m CreateHSParams of
                Inr (Some guid, p) \<Rightarrow>
                  (let action = GetParam p ''action'' ''?'';
                       bytes_rec_uncompressed = (if compressed then length m else message_len);
                       conn1 = (if action = ''conn-ex'' then handle_conn_ex cfg p conn else conn);
                       (tmp, p1) = (if action = ''conn-ex'' then ([], p) else handle p);
                       response_len = word_of_nat (length (response_bytes tmp p1));
                       skip = GetParamBUnsafe p1 ''__skipsendback'' None \<noteq> None
                   in [CServing action (getParamInfo p),
                       CWriting (word_of_nat bytes_rec_uncompressed) (word_of_nat message_len) response_len]
                      @ (if skip then [CKeepalive response_len True]
                         else (case sendBack cfg gz flate cap conn1 p1 (response_bytes tmp p1) took guid of
                                 Inl _ \<Rightarrow> []
                               | Inr (_, _, sent) \<Rightarrow> [CKeepalive (word_of_int sent) False])))
              | _ \<Rightarrow> []))"

text \<open>How the loop is left. A panic ends the process before the last call.\<close>

definition break_calls :: "string \<Rightarrow> ending \<Rightarrow> stat_call list" where
  "break_calls err e =
     (let closed = CClose ''Connection Closed OK'' False
      in case e of
           EndOfStream \<Rightarrow> [closed]
         | ReadFailed \<Rightarrow> [CClose (''Read2 error: '' @ err) True, closed]
         | BadHeaderType \<Rightarrow> [CClose ''Header type is incorrect'' True, closed]
         | CannotDecompress \<Rightarrow> [CClose ''Cannot decompres'' True, closed]
         | CannotDecode \<Rightarrow> [CClose ''Cannot decode header'' True, closed]
         | Crashed _ \<Rightarrow> [])"

text \<open>The loop. \<open>fresh\<close> says that \<open>t_start\<close> is 0, that is that no byte of the current frame has been read.\<close>

function serve_calls ::
  "string \<Rightarrow> ('c \<Rightarrow> bool \<Rightarrow> bytes \<Rightarrow> stat_call list) \<Rightarrow> 'c handler \<Rightarrow> 'c \<Rightarrow> bool \<Rightarrow> sock \<Rightarrow> net_read list \<Rightarrow> stat_call list" where
  "serve_calls err f h conn fresh s rs =
     (let rd = (if fresh then [CReading] else [])
      in if length (content s) < 5 then
           (case rs of
              [] \<Rightarrow> break_calls err EndOfStream
            | ReadError # _ \<Rightarrow> [CClose (''Read error: '' @ err) True, CClose ''Connection Closed OK'' False]
            | Data c # rs' \<Rightarrow>
                rd @ (if header_known s c then
                        (case read_frame s c rs' of
                           Inl e \<Rightarrow> break_calls err e
                         | Inr (b, m, s', rs'') \<Rightarrow>
                             f conn b m @ (case h conn b m of
                               Inl e \<Rightarrow> break_calls err e
                             | Inr (out, conn') \<Rightarrow> serve_calls err f h conn' True (send_back out s') rs''))
                      else serve_calls err f h conn False (sock_append s c) rs'))
         else
           rd @ (case read_frame s [] rs of
                   Inl e \<Rightarrow> break_calls err e
                 | Inr (b, m, s', rs'') \<Rightarrow>
                     f conn b m @ (case h conn b m of
                       Inl e \<Rightarrow> break_calls err e
                     | Inr (out, conn') \<Rightarrow> serve_calls err f h conn' True (send_back out s') rs'')))"
  by auto
termination
proof (relation "measures [\<lambda>(err, f, h, c, fresh, s, rs). length rs, \<lambda>(err, f, h, c, fresh, s, rs). length (content s)]", goal_cases)
  case 1
  then show ?case by simp
next
  case 2
  then show ?case by (auto dest!: read_frame_progress)
next
  case 3
  then show ?case by simp
next
  case 4
  then show ?case by (auto dest!: read_frame_progress)
qed

declare serve_calls.simps [simp del]

definition new_sock :: sock where
  "new_sock = \<lparr>shared = replicate (1024 * 32) (CHR 0x00), ds = Private []\<rparr>"

text \<open>A connection of the server: its calls, and the messages it serves with the reason it ends.\<close>

definition tcp_calls ::
  "string \<Rightarrow> comp_config \<Rightarrow> (bytes \<Rightarrow> bytes) \<Rightarrow> (bytes \<Rightarrow> bytes option) \<Rightarrow> (bytes \<Rightarrow> bytes option) \<Rightarrow> nat
     \<Rightarrow> action_handler \<Rightarrow> int \<Rightarrow> conninfo \<Rightarrow> net_read list \<Rightarrow> stat_call list" where
  "tcp_calls err cfg gz flate inflate cap handle took conn rs =
     serve_calls err (served_calls cfg gz flate inflate cap handle took)
       (serve_message cfg gz flate inflate cap handle took) conn True new_sock rs"

definition tcp_served ::
  "comp_config \<Rightarrow> (bytes \<Rightarrow> bytes) \<Rightarrow> (bytes \<Rightarrow> bytes option) \<Rightarrow> (bytes \<Rightarrow> bytes option) \<Rightarrow> nat
     \<Rightarrow> action_handler \<Rightarrow> int \<Rightarrow> conninfo \<Rightarrow> net_read list \<Rightarrow> bytes list \<times> ending" where
  "tcp_served cfg gz flate inflate cap handle took conn rs =
     serve (serve_message cfg gz flate inflate cap handle took) conn new_sock rs"

subsection \<open>The server\<close>

text \<open>One call of connection \<open>i\<close> at time \<open>now\<close>; \<open>took\<close> is the variable of the loop.\<close>

fun do_call :: "int \<Rightarrow> stat_call \<Rightarrow> 64 word \<Rightarrow> 64 word \<Rightarrow> stats_state \<Rightarrow> 64 word \<times> stats_state" where
  "do_call now CReading i took st = (took, StateReading now i st)"
| "do_call now (CServing action pinfo) i took st = (took, StateServing action pinfo i st)"
| "do_call now (CWriting n n_compressed response) i took st = StateWriting now n n_compressed response i st"
| "do_call now (CKeepalive sent skip) i took st = (took, StateKeepalive now sent took skip i st)"
| "do_call now (CClose comment is_error) i took st = (took, Close now is_error st)"

text \<open>A connection with the settings and the reads it started with and the calls still to come.\<close>

record 'c server_conn =
  sc_id :: "64 word"
  sc_todo :: "stat_call list"
  sc_took :: "64 word"
  sc_settings :: 'c
  sc_reads :: "net_read list"

record 'c server =
  sv_stats :: stats_state
  sv_conns :: "'c server_conn list"
  sv_closing :: "(64 word \<times> string \<times> bool) list"
  sv_leaving :: "64 word list"

definition server_init :: "'c server" where
  "server_init = \<lparr>sv_stats = stats_init, sv_conns = [], sv_closing = [], sv_leaving = []\<rparr>"

definition begin_close :: "stat_call \<Rightarrow> 64 word \<Rightarrow> (64 word \<times> string \<times> bool) list" where
  "begin_close c i = (case c of CClose comment is_error \<Rightarrow> [(i, comment, is_error)] | _ \<Rightarrow> [])"

inductive server_step :: "('c \<Rightarrow> net_read list \<Rightarrow> stat_call list) \<Rightarrow> 'c server \<Rightarrow> 'c server \<Rightarrow> bool" for calls where
  accept:
    "MakeConnection now ip (sv_stats s) = (i, st) \<Longrightarrow> i \<notin> fst ` set (objects (sv_stats s)) \<Longrightarrow>
     server_step calls s (s\<lparr>sv_stats := st, sv_conns := sv_conns s @
       [\<lparr>sc_id = i, sc_todo = calls conn rs, sc_took = 0, sc_settings = conn, sc_reads = rs\<rparr>]\<rparr>)"
| call:
    "sv_conns s = xs @ sc # ys \<Longrightarrow> sc_todo sc = c # cs \<Longrightarrow>
     do_call now c (sc_id sc) (sc_took sc) (sv_stats s) = (took, st) \<Longrightarrow>
     server_step calls s (s\<lparr>sv_stats := st, sv_conns := xs @ sc\<lparr>sc_todo := cs, sc_took := took\<rparr> # ys,
       sv_closing := sv_closing s @ begin_close c (sc_id sc)\<rparr>)"
| mark:
    "sv_closing s = xs @ (i, comment, is_error) # ys \<Longrightarrow> close_mark i comment is_error (sv_stats s) = Inr st \<Longrightarrow>
     server_step calls s (s\<lparr>sv_stats := st, sv_closing := xs @ ys, sv_leaving := sv_leaving s @ [i]\<rparr>)"
| drop:
    "sv_leaving s = xs @ i # ys \<Longrightarrow>
     server_step calls s (s\<lparr>sv_stats := close_drop i (sv_stats s), sv_leaving := xs @ ys\<rparr>)"

end
