(* ===== verification/ConnStatsCorrect.thy ===== *)
theory ConnStatsCorrect
  imports ConnStats SocketCorrect StatsCorrect
begin

text \<open>
  What the statistics say about the connections: the calls of \<open>serveSocket\<close> keep to the protocol of
  \<open>StatsCorrect\<close>, and when all connections are done the totals are those of the messages that the framing
  of \<open>Socket\<close> gives, whatever the interleaving. Each total is an observer of the state that moves with
  one kind of call, an instance of one locale.
\<close>

subsection \<open>Totals\<close>

definition tally :: "(stat_call \<Rightarrow> 64 word) \<Rightarrow> stat_call list \<Rightarrow> 64 word" where
  "tally w cs = sum_list (map w cs)"

lemma tally_simps [simp]: "tally w [] = 0" "tally w (c # cs) = w c + tally w cs" "tally w (cs @ cs2) = tally w cs + tally w cs2"
  by (simp_all add: tally_def)

locale call_tally =
  fixes T :: "stats_state \<Rightarrow> 64 word" and w :: "stat_call \<Rightarrow> 64 word"
  assumes T_init: "T stats_init = 0"
    and T_make: "T (snd (MakeConnection now ip st)) = T st"
    and T_call: "T (snd (do_call now c i took st)) = T st + w c"
    and T_mark: "close_mark i comment err st = Inr st' \<Longrightarrow> T st' = T st"
    and T_drop: "T (close_drop i st) = T st"
begin

lemma balance_step:
  assumes "server_step calls s s'"
    "T (sv_stats s) + (\<Sum>c\<leftarrow>sv_conns s. tally w (sc_todo c)) = (\<Sum>c\<leftarrow>sv_conns s. tally w (calls (sc_settings c) (sc_reads c)))"
  shows "T (sv_stats s') + (\<Sum>c\<leftarrow>sv_conns s'. tally w (sc_todo c)) =
    (\<Sum>c\<leftarrow>sv_conns s'. tally w (calls (sc_settings c) (sc_reads c)))"
  using assms(1)
proof (cases rule: server_step.cases)
  case (accept now ip i st conn rs)
  then have "T st = T (sv_stats s)" using T_make [of now ip "sv_stats s"] by simp
  with accept assms(2) show ?thesis by (simp add: algebra_simps)
next
  case (call xs sc ys c cs now took st)
  then have "T st = T (sv_stats s) + w c" using T_call by (metis snd_conv)
  with call assms(2) show ?thesis by (simp add: algebra_simps)
next
  case (mark xs i comment is_error ys st)
  with assms(2) T_mark show ?thesis by simp
next
  case (drop xs i ys)
  with assms(2) T_drop show ?thesis by simp
qed

lemma balance:
  assumes "(server_step calls)\<^sup>*\<^sup>* server_init s"
  shows "T (sv_stats s) + (\<Sum>c\<leftarrow>sv_conns s. tally w (sc_todo c)) =
    (\<Sum>c\<leftarrow>sv_conns s. tally w (calls (sc_settings c) (sc_reads c)))"
  using assms by (induction rule: rtranclp_induct) (auto simp: server_init_def T_init intro: balance_step)

lemma finished:
  assumes "(server_step calls)\<^sup>*\<^sup>* server_init s" "\<forall>c \<in> set (sv_conns s). sc_todo c = []"
  shows "T (sv_stats s) = (\<Sum>c\<leftarrow>sv_conns s. tally w (calls (sc_settings c) (sc_reads c)))"
proof -
  have "(\<Sum>c\<leftarrow>sv_conns s. tally w (sc_todo c)) = (\<Sum>c\<leftarrow>sv_conns s. 0)"
    by (rule arg_cong [where f = sum_list], rule map_cong) (use assms(2) in simp_all)
  with balance [OF assms(1)] show ?thesis by simp
qed

end

lemma total_of_set:
  "f d = 0 \<Longrightarrow> total_of f (gm_set m k v) = total_of f m - f (gm_get d m k) + f v"
  by (induction m) (auto simp: gm_set_def total_of_def gm_get_def)

lemma total_of_state [simp]:
  "total_of f (stats_actions (st\<lparr>stats_actions := m\<rparr>)) = total_of f m"
  by simp

definition w_write :: "(64 word \<Rightarrow> 64 word) \<Rightarrow> stat_call \<Rightarrow> 64 word" where
  "w_write g c = (case c of CWriting _ n _ \<Rightarrow> g n | _ \<Rightarrow> 0)"

definition w_keep :: "stat_call \<Rightarrow> 64 word" where
  "w_keep c = (case c of CKeepalive _ _ \<Rightarrow> 1 | _ \<Rightarrow> 0)"

definition w_error :: "stat_call \<Rightarrow> 64 word" where
  "w_error c = (case c of CClose _ True \<Rightarrow> 1 | _ \<Rightarrow> 0)"

lemma actions_kept [simp]:
  "stats_actions (snd (MakeConnection now ip st)) = stats_actions st"
  "stats_actions (close_drop i st) = stats_actions st"
  "stats_actions (StateReading now i st) = stats_actions st"
  "stats_actions (StateServing a p i st) = stats_actions st"
  "stats_actions (Close now err st) = stats_actions st"
  by (simp_all add: MakeConnection_def close_drop_def StateReading_def StateServing_def Close_def Let_def)

lemma mark_kept:
  "close_mark i comment err st = Inr st' \<Longrightarrow> stats_actions st' = stats_actions st \<and>
     global_stats_requests st' = global_stats_requests st \<and> global_stats_errors st' = global_stats_errors st"
  using close_mark_ok [of i comment err st st'] by (auto simp: set_conn_def)

interpretation requests_tally: call_tally "\<lambda>st. total_of requests (stats_actions st)" "w_write (\<lambda>_. 1)"
proof
  show "total_of requests (stats_actions (snd (do_call now c i took st))) = total_of requests (stats_actions st) + w_write (\<lambda>_. 1) c"
    for now c i took st
    by (cases c) (simp_all add: w_write_def StateWriting_def StateKeepalive_def Let_def total_of_set [where d = empty_stats] empty_stats_def)
qed (simp_all add: stats_init_def total_of_def mark_kept)

interpretation received_tally: call_tally "\<lambda>st. total_of b_request_compressed (stats_actions st)" "w_write (\<lambda>n. n)"
proof
  show "total_of b_request_compressed (stats_actions (snd (do_call now c i took st))) =
      total_of b_request_compressed (stats_actions st) + w_write (\<lambda>n. n) c" for now c i took st
    by (cases c) (simp_all add: w_write_def StateWriting_def StateKeepalive_def Let_def total_of_set [where d = empty_stats] empty_stats_def)
qed (simp_all add: stats_init_def total_of_def mark_kept)

interpretation done_tally: call_tally global_stats_requests w_keep
proof
  show "global_stats_requests (snd (do_call now c i took st)) = global_stats_requests st + w_keep c" for now c i took st
    by (cases c) (simp_all add: w_keep_def StateReading_def StateServing_def StateWriting_def StateKeepalive_def Close_def Let_def)
qed (simp_all add: stats_init_def MakeConnection_def close_drop_def mark_kept Let_def)

interpretation error_tally: call_tally global_stats_errors w_error
proof
  show "global_stats_errors (snd (do_call now c i took st)) = global_stats_errors st + w_error c" for now c i took st
    by (cases c) (simp_all add: w_error_def StateReading_def StateServing_def StateWriting_def StateKeepalive_def Close_def set_conn_def Let_def)
qed (simp_all add: stats_init_def MakeConnection_def close_drop_def mark_kept Let_def)

subsection \<open>What a connection reports\<close>

definition crashed :: "ending \<Rightarrow> bool" where
  "crashed e \<longleftrightarrow> (\<exists>p. e = Crashed p)"

text \<open>A request that is served reports its three stages, one that breaks off before it reports nothing.\<close>

lemma served_request:
  assumes "serve_message cfg gz flate inflate cap handle took conn b m = Inr (out, conn')"
  shows "\<exists>a info n resp sent skip. served_calls cfg gz flate inflate cap handle took conn b m =
      [CServing a info, CWriting n (word_of_nat (length m + 5)) resp, CKeepalive sent skip] \<and> (skip \<longrightarrow> sent = resp)"
proof -
  from assms obtain m1 guid p where m: "(if b then inflate m else Some m) = Some m1"
    "ReadHSParams m1 CreateHSParams = Inr (Some guid, p)"
    by (auto simp: serve_message_def split: option.splits sum.splits)
  let ?ex = "GetParam p ''action'' ''?'' = ''conn-ex''"
  obtain tmp p1 where h: "(if ?ex then ([], p) else handle p) = (tmp, p1)" by (meson surj_pair)
  show ?thesis
  proof (cases "GetParamBUnsafe p1 ''__skipsendback'' None = None")
    case True
    with assms m h obtain x where
      "sendBack cfg gz flate cap (if ?ex then handle_conn_ex cfg p conn else conn) p1 (response_bytes tmp p1) took guid = Inr x"
      by (auto simp: serve_message_def Let_def split: sum.splits)
    with m h True show ?thesis by (cases x) (auto simp: served_calls_def Let_def intro: exI [of _ False])
  next
    case False
    with m h show ?thesis by (auto simp: served_calls_def Let_def intro: exI [of _ True])
  qed
qed

lemma broken_request:
  assumes "serve_message cfg gz flate inflate cap handle took conn b m = Inl e" "\<not> crashed e"
  shows "served_calls cfg gz flate inflate cap handle took conn b m = []"
proof (cases "if b then inflate m else Some m")
  case None
  then show ?thesis by (simp add: served_calls_def)
next
  case (Some m1)
  note m = this
  show ?thesis
  proof (cases "ReadHSParams m1 CreateHSParams")
    case (Inl p)
    with assms m show ?thesis by (auto simp: serve_message_def crashed_def)
  next
    case (Inr x)
    obtain g p where x: "x = (g, p)" by force
    show ?thesis
    proof (cases g)
      case None
      with Inr x m show ?thesis by (simp add: served_calls_def Let_def)
    next
      case (Some guid)
      with assms Inr x m show ?thesis
        by (auto simp: serve_message_def crashed_def Let_def split: prod.splits if_split_asm sum.splits)
    qed
  qed
qed

lemma break_tally:
  assumes "\<And>c e. w (CClose c e) = (if e then we else 0)" "\<not> crashed e"
  shows "tally w (break_calls err e) = (if e = EndOfStream then 0 else we)"
  using assms by (cases e) (simp_all add: break_calls_def crashed_def)

definition reports :: "'c handler \<Rightarrow> ('c \<Rightarrow> bool \<Rightarrow> bytes \<Rightarrow> stat_call list) \<Rightarrow> (stat_call \<Rightarrow> 64 word) \<Rightarrow> (bytes \<Rightarrow> 64 word) \<Rightarrow> bool" where
  "reports h f w wr \<longleftrightarrow> (\<forall>a b m.
     case h a b m of Inr (out, c) \<Rightarrow> tally w (f a b m) = wr m | Inl e \<Rightarrow> \<not> crashed e \<longrightarrow> f a b m = [])"

lemma frame_tally:
  assumes res: "(case read_frame s c rs1 of
        Inl e \<Rightarrow> ([], e)
      | Inr (b, m, s', rs'') \<Rightarrow>
          (case h conn b m of
             Inl e \<Rightarrow> ([], e)
           | Inr (out, conn') \<Rightarrow> (let (ms, e) = serve h conn' (send_back out s') rs'' in (m # ms, e)))) = (ms, e)"
    and IH: "\<And>b m s' rs'' out conn' ms. read_frame s c rs1 = Inr (b, m, s', rs'') \<Longrightarrow> h conn b m = Inr (out, conn') \<Longrightarrow>
        serve h conn' (send_back out s') rs'' = (ms, e) \<Longrightarrow>
        tally w (serve_calls err f h conn' True (send_back out s') rs'') = (\<Sum>m\<leftarrow>ms. wr m) + (if e = EndOfStream then 0 else we)"
    and h: "reports h f w wr" and w: "\<And>c e. w (CClose c e) = (if e then we else 0)" and e: "\<not> crashed e"
  shows "tally w (case read_frame s c rs1 of
        Inl e \<Rightarrow> break_calls err e
      | Inr (b, m, s', rs'') \<Rightarrow>
          f conn b m @ (case h conn b m of
             Inl e \<Rightarrow> break_calls err e
           | Inr (out, conn') \<Rightarrow> serve_calls err f h conn' True (send_back out s') rs'')) =
      (\<Sum>m\<leftarrow>ms. wr m) + (if e = EndOfStream then 0 else we)"
proof (cases "read_frame s c rs1")
  case (Inl e')
  with res e show ?thesis using break_tally [OF w] by simp
next
  case (Inr x)
  obtain b m s' rs'' where x: "x = (b, m, s', rs'')" by (metis prod_cases4)
  show ?thesis
  proof (cases "h conn b m")
    case (Inl e')
    then have e': "e' = e" "ms = []" using Inr x res by simp_all
    from h have "case h conn b m of Inr (out, c) \<Rightarrow> tally w (f conn b m) = wr m | Inl e \<Rightarrow> \<not> crashed e \<longrightarrow> f conn b m = []"
      unfolding reports_def by blast
    with Inl e e'(1) have "f conn b m = []" by simp
    moreover from break_tally [OF w e, of err] have "tally w (break_calls err e) = (if e = EndOfStream then 0 else we)" .
    ultimately show ?thesis by (simp add: Inr x Inl e')
  next
    case h': (Inr y)
    obtain out conn' where y: "y = (out, conn')" by force
    obtain ms1 where ms: "serve h conn' (send_back out s') rs'' = (ms1, e)" "ms = m # ms1"
      using res Inr x h' y by (auto split: prod.splits)
    from h have "case h conn b m of Inr (out, c) \<Rightarrow> tally w (f conn b m) = wr m | Inl e \<Rightarrow> \<not> crashed e \<longrightarrow> f conn b m = []"
      unfolding reports_def by blast
    with h' y have "tally w (f conn b m) = wr m" by simp
    moreover have "read_frame s c rs1 = Inr (b, m, s', rs'')" "h conn b m = Inr (out, conn')" by (simp_all add: Inr x h' y)
    note IH [OF this ms(1)]
    ultimately show ?thesis by (simp add: Inr x h' y ms(2))
  qed
qed

lemma serve_known:
  "length (content s) < 5 \<Longrightarrow> header_known s c \<Longrightarrow> serve h conn s (Data c # rs) =
     (case read_frame s c rs of
        Inl e \<Rightarrow> ([], e)
      | Inr (b, m, s', rs'') \<Rightarrow>
          (case h conn b m of
             Inl e \<Rightarrow> ([], e)
           | Inr (out, conn') \<Rightarrow> (let (ms, e) = serve h conn' (send_back out s') rs'' in (m # ms, e))))"
  "length (content s) < 5 \<Longrightarrow> \<not> header_known s c \<Longrightarrow> serve h conn s (Data c # rs) = serve h conn (sock_append s c) rs"
  "\<not> length (content s) < 5 \<Longrightarrow> serve h conn s rs =
     (case read_frame s [] rs of
        Inl e \<Rightarrow> ([], e)
      | Inr (b, m, s', rs'') \<Rightarrow>
          (case h conn b m of
             Inl e \<Rightarrow> ([], e)
           | Inr (out, conn') \<Rightarrow> (let (ms, e) = serve h conn' (send_back out s') rs'' in (m # ms, e))))"
  by (subst serve.simps, simp)+

lemma serve_calls_known:
  "length (content s) < 5 \<Longrightarrow> header_known s c \<Longrightarrow> serve_calls err f h conn fresh s (Data c # rs) =
     (if fresh then [CReading] else []) @
     (case read_frame s c rs of
        Inl e \<Rightarrow> break_calls err e
      | Inr (b, m, s', rs'') \<Rightarrow>
          f conn b m @ (case h conn b m of
             Inl e \<Rightarrow> break_calls err e
           | Inr (out, conn') \<Rightarrow> serve_calls err f h conn' True (send_back out s') rs''))"
  "length (content s) < 5 \<Longrightarrow> \<not> header_known s c \<Longrightarrow> serve_calls err f h conn fresh s (Data c # rs) =
     (if fresh then [CReading] else []) @ serve_calls err f h conn False (sock_append s c) rs"
  "\<not> length (content s) < 5 \<Longrightarrow> serve_calls err f h conn fresh s rs =
     (if fresh then [CReading] else []) @
     (case read_frame s [] rs of
        Inl e \<Rightarrow> break_calls err e
      | Inr (b, m, s', rs'') \<Rightarrow>
          f conn b m @ (case h conn b m of
             Inl e \<Rightarrow> break_calls err e
           | Inr (out, conn') \<Rightarrow> serve_calls err f h conn' True (send_back out s') rs''))"
  by (subst serve_calls.simps, simp)+

lemma serve_tally:
  assumes w: "w CReading = 0" "\<And>c e. w (CClose c e) = (if e then we else 0)"
  shows "serve h conn s rs = (ms, e) \<Longrightarrow> \<not> crashed e \<Longrightarrow> reports h f w wr \<Longrightarrow>
    tally w (serve_calls err f h conn fresh s rs) = (\<Sum>m\<leftarrow>ms. wr m) + (if e = EndOfStream then 0 else we)"
proof (induction h conn s rs arbitrary: fresh ms e rule: serve.induct)
  case (1 h conn s rs)
  have rd: "tally w (if fresh then [CReading] else []) = 0" using w(1) by simp
  note frame = frame_tally [OF _ _ 1(6) w(2) 1(5)]
  show ?case
  proof (cases "length (content s) < 5")
    case short: True
    show ?thesis
    proof (cases rs)
      case Nil
      then have "ms = [] \<and> e = EndOfStream" using 1(4) short by (subst (asm) serve.simps) simp
      then show ?thesis using short Nil w(2) by (subst serve_calls.simps) (simp add: break_calls_def)
    next
      case (Cons r rs1)
      show ?thesis
      proof (cases r)
        case ReadError
        then have "ms = [] \<and> e = ReadFailed" using 1(4) short Cons by (subst (asm) serve.simps) simp
        then show ?thesis using short Cons ReadError w(2) by (subst serve_calls.simps) simp
      next
        case (Data c)
        show ?thesis
        proof (cases "header_known s c")
          case True
          note res = 1(4) [unfolded Cons Data serve_known(1) [OF short True]]
          have IH: "tally w (serve_calls err f h conn' True (send_back out s') rs'') = (\<Sum>m\<leftarrow>ms'. wr m) + (if e = EndOfStream then 0 else we)"
            if "read_frame s c rs1 = Inr (b, m, s', rs'')" "h conn b m = Inr (out, conn')" "serve h conn' (send_back out s') rs'' = (ms', e)"
            for b m s' rs'' out conn' ms'
            by (rule 1(1) [OF short Cons Data True that(1) refl refl refl that(2) refl that(3) 1(5,6)])
          show ?thesis
            unfolding Cons Data serve_calls_known(1) [OF short True] tally_simps(3) rd add_0
            by (rule frame [OF res], rule IH)
        next
          case False
          note res = 1(4) [unfolded Cons Data serve_known(2) [OF short False]]
          show ?thesis
            unfolding Cons Data serve_calls_known(2) [OF short False] tally_simps(3) rd add_0
            by (rule 1(2) [OF short Cons Data False res 1(5,6)])
        qed
      qed
    qed
  next
    case False
    note res = 1(4) [unfolded serve_known(3) [OF False]]
    have IH: "tally w (serve_calls err f h conn' True (send_back out s') rs'') = (\<Sum>m\<leftarrow>ms'. wr m) + (if e = EndOfStream then 0 else we)"
      if "read_frame s [] rs = Inr (b, m, s', rs'')" "h conn b m = Inr (out, conn')" "serve h conn' (send_back out s') rs'' = (ms', e)"
      for b m s' rs'' out conn' ms'
      by (rule 1(3) [OF False that(1) refl refl refl that(2) refl that(3) 1(5,6)])
    show ?thesis
      unfolding serve_calls_known(3) [OF False] tally_simps(3) rd add_0
      by (rule frame [OF res], rule IH)
  qed
qed

lemma served_reports:
  assumes "\<And>a info n resp sent skip m. w (CServing a info) + (w (CWriting n (word_of_nat (length m + 5)) resp) +
      w (CKeepalive sent skip)) = wr m"
  shows "reports (serve_message cfg gz flate inflate cap handle took) (served_calls cfg gz flate inflate cap handle took) w wr"
  unfolding reports_def
proof (intro allI)
  fix a b m
  show "case serve_message cfg gz flate inflate cap handle took a b m of
      Inl e \<Rightarrow> \<not> crashed e \<longrightarrow> served_calls cfg gz flate inflate cap handle took a b m = []
    | Inr (out, c) \<Rightarrow> tally w (served_calls cfg gz flate inflate cap handle took a b m) = wr m"
  proof (cases "serve_message cfg gz flate inflate cap handle took a b m")
    case (Inl e)
    then show ?thesis using broken_request by fastforce
  next
    case (Inr x)
    then obtain out c where x: "serve_message cfg gz flate inflate cap handle took a b m = Inr (out, c)" by (cases x) simp
    from served_request [OF x] show ?thesis using assms x by auto
  qed
qed

lemma tcp_tally:
  assumes "\<And>a info n resp sent skip m. w (CServing a info) + (w (CWriting n (word_of_nat (length m + 5)) resp) +
      w (CKeepalive sent skip)) = wr m"
    "w CReading = 0" "\<And>c e. w (CClose c e) = (if e then we else 0)"
    "\<not> crashed (snd (tcp_served cfg gz flate inflate cap handle took conn rs))"
  shows "tally w (tcp_calls err cfg gz flate inflate cap handle took conn rs) =
    (\<Sum>m\<leftarrow>fst (tcp_served cfg gz flate inflate cap handle took conn rs). wr m) +
    (if snd (tcp_served cfg gz flate inflate cap handle took conn rs) = EndOfStream then 0 else we)"
  using serve_tally [OF assms(2,3) surjective_pairing assms(4) [unfolded tcp_served_def] served_reports [OF assms(1)]]
  unfolding tcp_calls_def tcp_served_def .

lemma sum_of_nat: "(\<Sum>x\<leftarrow>xs. of_nat (f x)) = of_nat (\<Sum>x\<leftarrow>xs. f x)"
  by (induction xs) simp_all

text \<open>C16. When all connections of the server are done, its statistics agree with the messages that its loops have served:
  the number of requests, both in total and over all actions, the bytes received, and one error for
  every connection that did not end with its stream. Connections may interleave in any way.\<close>

theorem connections_counted:
  assumes "(server_step (tcp_calls err cfg gz flate inflate cap handle took))\<^sup>*\<^sup>* server_init s"
    "\<forall>c \<in> set (sv_conns s). sc_todo c = []"
    "\<forall>c \<in> set (sv_conns s). \<not> crashed (snd (tcp_served cfg gz flate inflate cap handle took (sc_settings c) (sc_reads c)))"
  shows "let served = (\<lambda>c. tcp_served cfg gz flate inflate cap handle took (sc_settings c) (sc_reads c)); st = sv_stats s in
    global_stats_requests st = word_of_nat (\<Sum>c\<leftarrow>sv_conns s. length (fst (served c))) \<and>
    total_of requests (stats_actions st) = word_of_nat (\<Sum>c\<leftarrow>sv_conns s. length (fst (served c))) \<and>
    total_of b_request_compressed (stats_actions st) = word_of_nat (\<Sum>c\<leftarrow>sv_conns s. \<Sum>m\<leftarrow>fst (served c). length m + 5) \<and>
    global_stats_errors st = word_of_nat (length (filter (\<lambda>c. snd (served c) \<noteq> EndOfStream) (sv_conns s)))"
proof -
  let ?sv = "\<lambda>c. tcp_served cfg gz flate inflate cap handle took (sc_settings c) (sc_reads c)"
  let ?calls = "\<lambda>c. tcp_calls err cfg gz flate inflate cap handle took (sc_settings c) (sc_reads c)"
  note fin = assms(1,2)
  have t: "(\<Sum>c\<leftarrow>sv_conns s. tally w (?calls c)) = (\<Sum>c\<leftarrow>sv_conns s. (\<Sum>m\<leftarrow>fst (?sv c). wr m) + (if snd (?sv c) = EndOfStream then 0 else we))"
    if "\<And>a info n resp sent skip m. w (CServing a info) + (w (CWriting n (word_of_nat (length m + 5)) resp) + w (CKeepalive sent skip)) = wr m"
      "w CReading = 0" "\<And>c e. w (CClose c e) = (if e then we else 0)" for w :: "stat_call \<Rightarrow> 64 word" and wr we
    by (rule arg_cong [where f = sum_list], rule map_cong, rule refl, rule tcp_tally [OF that]) (use assms(3) in blast)
  have n: "(\<Sum>c\<leftarrow>sv_conns s. \<Sum>m\<leftarrow>fst (?sv c). (1 :: 64 word)) = word_of_nat (\<Sum>c\<leftarrow>sv_conns s. length (fst (?sv c)))"
    by (simp add: sum_list_triv sum_of_nat)
  have "global_stats_requests (sv_stats s) = word_of_nat (\<Sum>c\<leftarrow>sv_conns s. length (fst (?sv c)))"
    unfolding done_tally.finished [OF fin] by (subst t [of w_keep "\<lambda>_. 1" 0]) (simp_all add: w_keep_def n split: bool.split)
  moreover have "total_of requests (stats_actions (sv_stats s)) = word_of_nat (\<Sum>c\<leftarrow>sv_conns s. length (fst (?sv c)))"
    unfolding requests_tally.finished [OF fin] by (subst t [of "w_write (\<lambda>_. 1)" "\<lambda>_. 1" 0]) (simp_all add: w_write_def n split: bool.split)
  moreover have "total_of b_request_compressed (stats_actions (sv_stats s)) = word_of_nat (\<Sum>c\<leftarrow>sv_conns s. \<Sum>m\<leftarrow>fst (?sv c). length m + 5)"
    unfolding received_tally.finished [OF fin] by (subst t [of "w_write (\<lambda>n. n)" "\<lambda>m. word_of_nat (length m + 5)" 0])
      (simp_all only: w_write_def stat_call.case sum_of_nat if_cancel add_0_right add_0)
  moreover have "(\<Sum>c\<leftarrow>cs. if P c then 0 else (1 :: 64 word)) = word_of_nat (length (filter (\<lambda>c. \<not> P c) cs))" for P and cs :: "conninfo server_conn list"
    by (induction cs) simp_all
  then have "global_stats_errors (sv_stats s) = word_of_nat (length (filter (\<lambda>c. snd (?sv c) \<noteq> EndOfStream) (sv_conns s)))"
    unfolding error_tally.finished [OF fin] by (subst t [of w_error "\<lambda>_. 0" 1]) (simp_all add: w_error_def split: bool.split)
  ultimately show ?thesis by (simp add: Let_def)
qed

subsection \<open>The protocol of the statistics\<close>

text \<open>The calls keep to the protocol: a response is reported as sent once, after it has been reported as being written,
  and a skipped one with its own length. The argument is the length of the response being written.\<close>

fun calls_ok :: "64 word option \<Rightarrow> stat_call list \<Rightarrow> bool" where
  "calls_ok p [] = True"
| "calls_ok p (CReading # cs) = (p = None \<and> calls_ok None cs)"
| "calls_ok p (CServing a info # cs) = (p = None \<and> calls_ok None cs)"
| "calls_ok p (CWriting n m resp # cs) = (p = None \<and> calls_ok (Some resp) cs)"
| "calls_ok p (CKeepalive sent skip # cs) = (\<exists>resp. p = Some resp \<and> (skip \<longrightarrow> sent = resp) \<and> calls_ok None cs)"
| "calls_ok p (CClose comment err # cs) = (p = None \<and> calls_ok None cs)"

lemma break_calls_ok: "calls_ok None (break_calls err e)"
  by (cases e) (simp_all add: break_calls_def)

definition request_ok :: "'c handler \<Rightarrow> ('c \<Rightarrow> bool \<Rightarrow> bytes \<Rightarrow> stat_call list) \<Rightarrow> bool" where
  "request_ok h f \<longleftrightarrow> (\<forall>conn b m. case h conn b m of
     Inl e \<Rightarrow> (\<forall>err. calls_ok None (f conn b m @ break_calls err e))
   | Inr _ \<Rightarrow> (\<forall>cs. calls_ok None cs \<longrightarrow> calls_ok None (f conn b m @ cs)))"

lemma frame_calls_ok:
  assumes "\<And>b m s' rs'' out conn'. read_frame s c rs1 = Inr (b, m, s', rs'') \<Longrightarrow> h conn b m = Inr (out, conn') \<Longrightarrow>
      calls_ok None (serve_calls err f h conn' True (send_back out s') rs'')"
    and "request_ok h f"
  shows "calls_ok None (case read_frame s c rs1 of
        Inl e \<Rightarrow> break_calls err e
      | Inr (b, m, s', rs'') \<Rightarrow>
          f conn b m @ (case h conn b m of
             Inl e \<Rightarrow> break_calls err e
           | Inr (out, conn') \<Rightarrow> serve_calls err f h conn' True (send_back out s') rs''))"
proof (cases "read_frame s c rs1")
  case (Inl e)
  then show ?thesis by (simp add: break_calls_ok)
next
  case (Inr x)
  obtain b m s' rs'' where x: "x = (b, m, s', rs'')" by (metis prod_cases4)
  from assms(2) have r: "case h conn b m of
     Inl e \<Rightarrow> (\<forall>err. calls_ok None (f conn b m @ break_calls err e))
   | Inr _ \<Rightarrow> (\<forall>cs. calls_ok None cs \<longrightarrow> calls_ok None (f conn b m @ cs))"
    unfolding request_ok_def by blast
  show ?thesis
  proof (cases "h conn b m")
    case h: (Inl e)
    with r show ?thesis by (simp add: Inr x)
  next
    case h: (Inr y)
    obtain out conn' where y: "y = (out, conn')" by force
    have "calls_ok None (serve_calls err f h conn' True (send_back out s') rs'')"
      by (rule assms(1)) (use Inr x h y in simp_all)
    with r h show ?thesis by (simp add: Inr x y)
  qed
qed

lemma fresh_calls_ok: "calls_ok None ((if fresh then [CReading] else []) @ cs) = calls_ok None cs"
  by simp

lemma serve_calls_ok: "request_ok h f \<Longrightarrow> calls_ok None (serve_calls err f h conn fresh s rs)"
proof (induction err f h conn fresh s rs rule: serve_calls.induct)
  case (1 err f h conn fresh s rs)
  show ?case
  proof (cases "length (content s) < 5")
    case short: True
    show ?thesis
    proof (cases rs)
      case Nil
      then show ?thesis using short by (subst serve_calls.simps) (simp add: break_calls_ok)
    next
      case (Cons r rs1)
      show ?thesis
      proof (cases r)
        case ReadError
        then show ?thesis using short Cons by (subst serve_calls.simps) simp
      next
        case (Data c)
        show ?thesis
        proof (cases "header_known s c")
          case True
          show ?thesis
            unfolding Cons Data serve_calls_known(1) [OF short True] fresh_calls_ok
            by (rule frame_calls_ok) (use 1(1) [OF refl short Cons Data True] 1(4) in auto)
        next
          case False
          show ?thesis
            unfolding Cons Data serve_calls_known(2) [OF short False] fresh_calls_ok
            by (rule 1(2) [OF refl short Cons Data False 1(4)])
        qed
      qed
    qed
  next
    case False
    show ?thesis
      unfolding serve_calls_known(3) [OF False] fresh_calls_ok
      by (rule frame_calls_ok) (use 1(3) [OF refl False] 1(4) in auto)
  qed
qed

lemma served_calls_ok: "calls_ok None (served_calls cfg gz flate inflate cap handle took conn b m)"
  by (simp add: served_calls_def Let_def split: option.split sum.split prod.split)

lemma served_request_ok:
  "request_ok (serve_message cfg gz flate inflate cap handle took) (served_calls cfg gz flate inflate cap handle took)"
  unfolding request_ok_def
proof (intro allI)
  fix conn b m
  let ?h = "serve_message cfg gz flate inflate cap handle took conn b m"
  let ?f = "served_calls cfg gz flate inflate cap handle took conn b m"
  show "case ?h of Inl e \<Rightarrow> (\<forall>err. calls_ok None (?f @ break_calls err e))
    | Inr _ \<Rightarrow> (\<forall>cs. calls_ok None cs \<longrightarrow> calls_ok None (?f @ cs))"
  proof (cases ?h)
    case (Inl e)
    show ?thesis
    proof (cases "crashed e")
      case True
      then show ?thesis using served_calls_ok Inl by (auto simp: crashed_def break_calls_def)
    next
      case False
      then show ?thesis using broken_request [OF Inl] Inl by (simp add: break_calls_ok)
    qed
  next
    case (Inr x)
    then obtain out c where "?h = Inr (out, c)" by (cases x) simp
    from served_request [OF this] show ?thesis using Inr by auto
  qed
qed

lemma tcp_calls_ok: "calls_ok None (tcp_calls err cfg gz flate inflate cap handle took conn rs)"
  unfolding tcp_calls_def by (rule serve_calls_ok [OF served_request_ok])

text \<open>Where each connection stands: its number is known to the statistics, and a response being written is in \<open>pd\<close>.\<close>

definition conn_stands :: "(64 word \<times> req) list \<Rightarrow> stats_state \<Rightarrow> 'c server_conn \<Rightarrow> bool" where
  "conn_stands pd st c \<longleftrightarrow> sc_id c \<in> fst ` set (objects st) \<and>
     (case map_of pd (sc_id c) of
        None \<Rightarrow> calls_ok None (sc_todo c)
      | Some r \<Rightarrow> calls_ok (Some (rq_response r)) (sc_todo c) \<and> sc_took c = rq_took r)"

definition follows :: "(64 word \<times> req) list \<Rightarrow> stats_state \<Rightarrow> 'c server_conn list \<Rightarrow> bool" where
  "follows pd st cs \<longleftrightarrow> distinct (map sc_id cs) \<and> distinct (map fst pd) \<and> fst ` set pd \<subseteq> sc_id ` set cs \<and>
     (\<forall>c \<in> set cs. conn_stands pd st c)"

lemma objects_call [simp]:
  "i \<in> fst ` set (objects st) \<Longrightarrow> fst ` set (objects (snd (do_call now c i took st))) = fst ` set (objects st)"
  by (cases c) (auto simp: StateReading_def StateServing_def StateWriting_def StateKeepalive_def Close_def Let_def)

lemma conn_stands_other:
  "conn_stands pd st c \<Longrightarrow> fst ` set (objects st) \<subseteq> fst ` set (objects st') \<Longrightarrow> map_of pd' (sc_id c) = map_of pd (sc_id c) \<Longrightarrow>
     conn_stands pd' st' c"
  by (auto simp: conn_stands_def)

lemma follows_call:
  assumes "follows pd st (xs @ sc # ys)" "fst ` set (objects st) \<subseteq> fst ` set (objects st')" "distinct (map fst pd')"
    "fst ` set pd' \<subseteq> insert (sc_id sc) (fst ` set pd)" "\<And>i. i \<noteq> sc_id sc \<Longrightarrow> map_of pd' i = map_of pd i"
    "sc_id sc' = sc_id sc" "conn_stands pd' st' sc'"
  shows "follows pd' st' (xs @ sc' # ys)"
proof -
  have "conn_stands pd' st' c" if "c \<in> set (xs @ ys)" for c
  proof (rule conn_stands_other)
    show "conn_stands pd st c" using assms(1) that by (auto simp: follows_def)
    have "sc_id sc \<notin> sc_id ` set (xs @ ys)" using assms(1) by (simp add: follows_def image_Un)
    with imageI [OF that, of sc_id] have "sc_id c \<noteq> sc_id sc" by metis
    then show "map_of pd' (sc_id c) = map_of pd (sc_id c)" by (rule assms(5))
  qed (rule assms(2))
  with assms(7) have st: "\<forall>c \<in> set (xs @ sc' # ys). conn_stands pd' st' c" by simp
  from assms(1) have "fst ` set pd \<subseteq> insert (sc_id sc) (sc_id ` (set xs \<union> set ys))" by (simp add: follows_def)
  then have sub: "fst ` set pd' \<subseteq> insert (sc_id sc) (sc_id ` (set xs \<union> set ys))"
    using assms(4) by (meson insert_subset insertI1 subset_trans)
  show ?thesis using assms(1,3,6) st sub by (simp add: follows_def)
qed

lemma call_follows:
  assumes "serving st pd dn" "follows pd st (xs @ sc # ys)" "sc_todo sc = c # cs"
    "do_call now c (sc_id sc) (sc_took sc) st = (took, st')"
  shows "\<exists>pd' dn'. serving st' pd' dn' \<and> follows pd' st' (xs @ sc\<lparr>sc_todo := cs, sc_took := took\<rparr> # ys)"
proof -
  let ?i = "sc_id sc" and ?sc = "sc\<lparr>sc_todo := cs, sc_took := took\<rparr>"
  from assms(2) have cs: "conn_stands pd st sc" "distinct (map fst pd)" by (auto simp: follows_def)
  then have ob: "?i \<in> fst ` set (objects st)" by (simp add: conn_stands_def)
  have st': "st' = snd (do_call now c ?i (sc_took sc) st)" "took = fst (do_call now c ?i (sc_took sc) st)"
    using assms(4) by simp_all
  have sub: "fst ` set (objects st) \<subseteq> fst ` set (objects st')" "?i \<in> fst ` set (objects st')"
    using ob by (simp_all add: st')
  note keep = follows_call [OF assms(2) sub(1)]
  have same: "\<exists>pd' dn'. serving st' pd' dn' \<and> follows pd' st' (xs @ ?sc # ys)"
    if "serving st' pd dn" "map_of pd ?i = None" "calls_ok None cs"
  proof -
    have "follows pd st' (xs @ ?sc # ys)"
      by (rule keep) (use that sub(2) cs(2) in \<open>auto simp: conn_stands_def\<close>)
    with that(1) show ?thesis by blast
  qed
  have none: "map_of pd ?i = None \<and> calls_ok None (c # cs) \<and> ?i \<notin> fst ` set pd" if "\<And>r. \<not> calls_ok (Some r) (c # cs)"
    using cs(1) assms(3) that by (auto simp: conn_stands_def map_of_eq_None_iff split: option.splits)
  show ?thesis
  proof (cases c)
    case CReading
    with none have n: "map_of pd ?i = None" "calls_ok None cs" "?i \<notin> fst ` set pd" by auto
    have "serving st' pd dn" unfolding st' CReading by (simp add: serving.intros(3) [OF assms(1) ob n(3)])
    from same [OF this n(1,2)] show ?thesis .
  next
    case (CServing action info)
    with none have n: "map_of pd ?i = None" "calls_ok None cs" "?i \<notin> fst ` set pd" by auto
    have "serving st' pd dn" unfolding st' CServing by (simp add: serving.intros(4) [OF assms(1) ob n(3)])
    from same [OF this n(1,2)] show ?thesis .
  next
    case (CClose comment err)
    with none have n: "map_of pd ?i = None" "calls_ok None cs" by auto
    have "serving st' pd dn" unfolding st' CClose by (simp add: serving.intros(7) [OF assms(1)])
    from same [OF this n] show ?thesis .
  next
    case (CWriting n m resp)
    with none have n: "map_of pd ?i = None" "calls_ok (Some resp) cs" "?i \<notin> fst ` set pd" by auto
    let ?r = "\<lparr>rq_action = c_action (get_conn st ?i), rq_took = took, rq_size = n, rq_size_compressed = m, rq_response = resp\<rparr>"
    have "serving st' ((?i, ?r) # pd) dn"
      using assms(4) CWriting by (intro serving.intros(5) [OF assms(1) ob n(3)]) simp
    moreover have "follows ((?i, ?r) # pd) st' (xs @ ?sc # ys)"
      using n sub(2) cs(2) by (intro keep) (auto simp: conn_stands_def)
    ultimately show ?thesis by blast
  next
    case (CKeepalive sent skip)
    with cs(1) assms(3) obtain r where r: "map_of pd ?i = Some r" "sc_took sc = rq_took r" "skip \<Longrightarrow> sent = rq_response r" "calls_ok None cs"
      by (auto simp: conn_stands_def split: option.splits)
    from map_of_SomeD [OF r(1)] obtain pd1 pd2 where pd: "pd = pd1 @ (?i, r) # pd2" by (auto dest: split_list)
    with cs(2) have m: "map_of (pd1 @ pd2) ?i = None" "\<And>j. j \<noteq> ?i \<Longrightarrow> map_of (pd1 @ pd2) j = map_of pd j"
      by (auto simp: map_add_def map_of_eq_None_iff [THEN iffD2] split: option.split)
    have "st' = StateKeepalive now sent (rq_took r) skip ?i st" by (simp add: st' CKeepalive r(2))
    with serving.intros(6) [OF assms(1) [unfolded pd] r(3)] have "\<exists>dn'. serving st' (pd1 @ pd2) dn'" by blast
    moreover have "follows (pd1 @ pd2) st' (xs @ ?sc # ys)"
    proof (rule keep)
      show "conn_stands (pd1 @ pd2) st' ?sc" using m(1) sub(2) r(4) by (simp add: conn_stands_def del: map_of_append)
    qed (use m(2) cs(2) in \<open>auto simp: pd\<close>)
    ultimately show ?thesis by blast
  qed
qed

text \<open>So every state of the server is one the statistics are prepared for, and what \<open>StatsCorrect\<close> shows of them
  holds for it.\<close>

lemma server_serving:
  assumes "(server_step (tcp_calls err cfg gz flate inflate cap handle took))\<^sup>*\<^sup>* server_init s"
  shows "\<exists>pd dn. serving (sv_stats s) pd dn \<and> follows pd (sv_stats s) (sv_conns s)"
  using assms
proof (induction rule: rtranclp_induct)
  case base
  show ?case
    by (rule exI [of _ "[]"], rule exI [of _ "[]"]) (simp add: follows_def server_init_def serving.intros(1))
next
  case (step s s')
  then obtain pd dn where sv: "serving (sv_stats s) pd dn" and f: "follows pd (sv_stats s) (sv_conns s)" by blast
  from step(2) show ?case
  proof (cases rule: server_step.cases)
    case (accept now ip i st conn rs)
    from accept(2) obtain c where "objects st = gm_set (objects (sv_stats s)) i c" by (auto simp: MakeConnection_def Let_def)
    then have ob: "fst ` set (objects st) = insert i (fst ` set (objects (sv_stats s)))" by simp
    have new: "i \<notin> sc_id ` set (sv_conns s)" using f accept(3) by (auto simp: follows_def conn_stands_def)
    then have "i \<notin> fst ` set pd" using f by (auto simp: follows_def)
    then have n: "map_of pd i = None" by (simp add: map_of_eq_None_iff)
    have "serving st pd dn" by (rule serving.intros(2) [OF sv accept(2,3)])
    moreover have "conn_stands pd st c" if "c \<in> set (sv_conns s)" for c
      using conn_stands_other [OF _ _ refl, of pd "sv_stats s" c st] f that ob by (auto simp: follows_def)
    ultimately show ?thesis
      using f new n ob unfolding accept(1)
      by (intro exI [of _ pd] exI [of _ dn]) (auto simp: follows_def conn_stands_def tcp_calls_ok)
  next
    case (call xs sc ys c cs now took' st)
    from call_follows [OF sv f [unfolded call(2)] call(3,4)] show ?thesis unfolding call(1) by simp
  next
    case (mark xs i comment is_error ys st)
    have "fst ` set (objects (sv_stats s)) \<subseteq> fst ` set (objects st)"
    proof -
      obtain c where "st = set_conn i c (sv_stats s)" using close_mark_ok [OF mark(3)] by blast
      then show ?thesis by (simp add: subset_insertI)
    qed
    then have "follows pd st (sv_conns s)" using f by (auto simp: follows_def intro: conn_stands_other)
    with serving.intros(8) [OF sv mark(3)] show ?thesis unfolding mark(1) by auto
  next
    case (drop xs i ys)
    have "follows pd (close_drop i (sv_stats s)) (sv_conns s)"
      using f by (auto simp: follows_def conn_stands_def close_drop_def)
    with serving.intros(9) [OF sv, of i] show ?thesis unfolding drop(1) by auto
  qed
qed

subsection \<open>A run\<close>

definition sample_message :: bytes where
  "sample_message = put_message ''g'' [(''__skipsendback'', ''1'')]"

lemma sample_length: "length sample_message < 1000"
  by (simp add: sample_message_def put_message_def put_pair_def)

lemma one_frame: "\<exists>s'. read_frame new_sock (put_frame sample_message) [] = Inr (False, sample_message, s', []) \<and> content s' = []"
proof -
  let ?d = "put_frame sample_message" and ?n = "length sample_message + 5"
  have a: "all_data []" by (simp add: all_data_def)
  have d: "content new_sock @ ?d @ data_of [] = ?d" by (simp add: new_sock_def content_def data_of_def)
  have k: "header_known new_sock ?d" by (simp add: header_known_iff put_frame_def)
  have f: "frame_size ?d = ?n" "length ?d = ?n" "head_ok ?d" "?d ! 0 \<noteq> CHR ''B''" "drop 5 ?d = sample_message"
    using frame_size_put [of sample_message "[]"] sample_length by (simp_all add: put_frame_def head_ok_def)
  from read_frame_spec [OF a k, unfolded d] f obtain s' rs' where
    r: "read_frame new_sock ?d [] = Inr (?d ! 0 = CHR ''B'', take (?n - 5) (drop 5 ?d), s', rs')"
      "content s' @ data_of rs' = drop ?n ?d" by auto
  have "rs' = []" using read_frame_progress [OF r(1)] by auto
  with r f show ?thesis by (intro exI [of _ s']) (simp add: data_of_def)
qed

definition sample_conn :: conninfo where
  "sample_conn = \<lparr>remote_distance = 0, comp = None, compression_threshold = 0\<rparr>"

definition sample_config :: comp_config where
  "sample_config = \<lparr>has_flate = False, has_snappy = False, cfg_threshold_key = 0, cfg_threshold = 0\<rparr>"

lemma sample_served:
  "tcp_served sample_config id (\<lambda>_. None) Some 32768 (\<lambda>p. (''ok'', p)) 7 sample_conn [Data (put_frame sample_message)] =
     ([sample_message], EndOfStream)"
proof -
  let ?h = "serve_message sample_config id (\<lambda>_. None) Some 32768 (\<lambda>p. (''ok'', p)) 7"
  have "ReadHSParams sample_message CreateHSParams = Inr (Some ''g'', \<lparr>param = [(''__skipsendback'', ''1'')],
     porder = [''__skipsendback''], fastreturn = None, additional_resp_headers = []\<rparr>)"
    using params_round_trip_core [of "''g''" "[(''__skipsendback'', ''1'')]"]
    by (simp add: sample_message_def pair_ok_def gm_set_def)
  then have h: "?h sample_conn False sample_message = Inr (None, sample_conn)"
    by (simp add: serve_message_def GetParam_def GetParamBUnsafe_def)
  obtain s' where r: "read_frame new_sock (put_frame sample_message) [] = Inr (False, sample_message, s', [])" "content s' = []"
    using one_frame by blast
  have "serve ?h sample_conn s' [] = ([], EndOfStream)" by (subst serve.simps) (simp add: r(2))
  moreover have "length (content new_sock) < 5" "header_known new_sock (put_frame sample_message)"
    by (simp_all add: header_known_iff new_sock_def content_def put_frame_def)
  ultimately show ?thesis
    by (simp add: tcp_served_def serve_known r h send_back_def)
qed

lemma run_calls:
  "sv_conns s = [sc] \<Longrightarrow> \<exists>s'. (server_step calls)\<^sup>*\<^sup>* s s' \<and>
     (\<exists>sc'. sv_conns s' = [sc'] \<and> sc_todo sc' = [] \<and> sc_settings sc' = sc_settings sc \<and> sc_reads sc' = sc_reads sc)"
proof (induction "sc_todo sc" arbitrary: s sc)
  case Nil
  then show ?case by (intro exI [of _ s] conjI rtranclp.rtrancl_refl exI [of _ sc]) simp_all
next
  case (Cons c cs)
  obtain took st where d: "do_call 0 c (sc_id sc) (sc_took sc) (sv_stats s) = (took, st)" by force
  let ?sc = "sc\<lparr>sc_todo := cs, sc_took := took\<rparr>"
  let ?s = "s\<lparr>sv_stats := st, sv_conns := [] @ ?sc # [], sv_closing := sv_closing s @ begin_close c (sc_id sc)\<rparr>"
  have "server_step calls s ?s"
    by (rule server_step.call [OF _ Cons(2) [symmetric] d]) (simp add: Cons(3))
  moreover have "cs = sc_todo ?sc" "sv_conns ?s = [?sc]" by simp_all
  from Cons(1) [OF this] obtain s' sc' where "(server_step calls)\<^sup>*\<^sup>* ?s s'" "sv_conns s' = [sc']" "sc_todo sc' = []"
    "sc_settings sc' = sc_settings sc" "sc_reads sc' = sc_reads sc" by auto
  ultimately show ?case by (meson converse_rtranclp_into_rtranclp)
qed

lemma connections_counted_witness:
  "\<exists>s. (server_step (tcp_calls ''reset'' sample_config id (\<lambda>_. None) Some 32768 (\<lambda>p. (''ok'', p)) 7))\<^sup>*\<^sup>* server_init s \<and>
     global_stats_requests (sv_stats s) = 1 \<and> total_of requests (stats_actions (sv_stats s)) = 1 \<and>
     total_of b_request_compressed (stats_actions (sv_stats s)) = word_of_nat (length sample_message + 5) \<and>
     global_stats_errors (sv_stats s) = 0"
proof -
  let ?calls = "tcp_calls ''reset'' sample_config id (\<lambda>_. None) Some 32768 (\<lambda>p. (''ok'', p)) 7"
  let ?rs = "[Data (put_frame sample_message)]"
  obtain i st where m: "MakeConnection 1 ''10.0.0.1:5'' stats_init = (i, st)" by force
  let ?c = "\<lparr>sc_id = i, sc_todo = ?calls sample_conn ?rs, sc_took = 0, sc_settings = sample_conn, sc_reads = ?rs\<rparr>"
  let ?s = "(server_init :: conninfo server)\<lparr>sv_stats := st, sv_conns := sv_conns server_init @ [?c]\<rparr>"
  have "server_step ?calls server_init ?s"
    by (rule server_step.accept) (use m in \<open>simp_all add: server_init_def stats_init_def\<close>)
  moreover have "sv_conns ?s = [?c]" by (simp add: server_init_def)
  from run_calls [OF this, of ?calls] obtain s c where "(server_step ?calls)\<^sup>*\<^sup>* ?s s" and c: "sv_conns s = [c]" "sc_todo c = []"
    "sc_settings c = sample_conn" "sc_reads c = ?rs" by auto
  ultimately have r: "(server_step ?calls)\<^sup>*\<^sup>* server_init s" by (meson converse_rtranclp_into_rtranclp)
  show ?thesis
    using connections_counted [OF r] c r by (simp add: sample_served crashed_def Let_def) blast
qed

end
