(* ===== verification/StatusPages.thy ===== *)
theory StatusPages
  imports KVStore HealthChecker CompressStats Plugins
begin

text \<open>
  The smaller status sections and the timers beside them: the key value store (\<open>kvstore.go\<close>), the custom health
  checker (\<open>custom_health_checker.go\<close>), the compressors (\<open>compression_ex.go\<close>, \<open>handler_socket.go\<close>), the memory
  profile (\<open>handle_profiler/profiler.go\<close>) and the registration of plugins (\<open>plugin_manager.go\<close>). What the runtime
  reports of its memory is a parameter. Proved: the checker's runs are spaced as configured, the
  timer knows every plugin whose first run has ended, and the sections never panic.
\<close>

subsection \<open>The key value store\<close>

definition kv_status :: "pools \<Rightarrow> string \<times> string" where
  "kv_status pools =
     (''KV Storage'',
      ''<pre>'' @ ''KV Storage Plugin is Enabled'' @ [CHR 0x0A]
      @ concat (map (\<lambda>(i, p). ''Pool #'' @ itoa (int i) @ '', keys: '' @ itoa (int (length p)) @ [CHR 0x0A]) (enumerate 0 pools))
      @ ''</pre>'')"

text \<open>The pool of a key is the only one that holds it, so the counts add up to the number of keys.\<close>

lemma length_gm_set: "length (gm_set m k v) = (if map_of m k = None then length m + 1 else length m)"
  unfolding gm_set_def by (induction m) auto

lemma sum_lengths_update:
  "i < length ps \<Longrightarrow> sum_list (map length (ps[i := p])) + length (ps ! i) = sum_list (map length ps) + length p"
  by (induction ps arbitrary: i) (auto split: nat.splits)

lemma keys_counted:
  assumes "length pools = unat pool_count"
  shows "sum_list (map length (KeySet now k v ttl sensitive pools)) =
    sum_list (map length pools) + (if pool_lookup pools k = None then 1 else 0)"
proof -
  obtain n where n: "KeySet now k v ttl sensitive pools = pools[getpool k := gm_set (pools ! getpool k) k n]"
    by (simp add: KeySet_def Let_def)
  have "getpool k < length pools" using getpool_bound [of k] assms by simp
  from sum_lengths_update [OF this, of "gm_set (pools ! getpool k) k n"] show ?thesis
    unfolding n pool_lookup_def length_gm_set by (simp split: if_splits)
qed

subsection \<open>The custom health checker\<close>

definition checker_status :: "health_config \<Rightarrow> string \<Rightarrow> string \<times> string" where
  "checker_status cc log_text =
     (''Solana Proxy - Custom Health Plugin'',
      ''<pre>'' @ ''Custom health plugin will pause nodes when they start lagging'' @ [CHR 0x0A]
      @ ''run_every: '' @ itoa (run_every cc) @ '' - run the check every X seconds'' @ [CHR 0x0A]
      @ ''max_block_lag: '' @ itoa (max_block_lag cc)
      @ '' - maximum number of blocks which a node can lag behind, before being paused'' @ [CHR 0x0A]
      @ ''max_data_age_ms: '' @ itoa (max_data_age_ms cc)
      @ '' - maximum age of highest block data (in milliseconds), if max block data is older, it'' @ [CHR 0x27]
      @ ''ll be re-fetched'' @ [CHR 0x0A]
      @ ''--------'' @ [CHR 0x0A]
      @ (if log_text = [] then log_text @ ''Waiting for data'' else log_text)
      @ ''</pre>'')"

text \<open>The goroutine that wakes every 750 milliseconds: at second \<open>t\<close>, does it check? \<open>checks\<close> are the seconds of
  the checks of a run that starts at \<open>last\<close>.\<close>

definition checker_wakes :: "health_config \<Rightarrow> int \<Rightarrow> int \<Rightarrow> bool \<times> int" where
  "checker_wakes cc t last_check = (if t - last_check < run_every cc then (False, last_check) else (True, t))"

fun checks :: "health_config \<Rightarrow> int \<Rightarrow> int list \<Rightarrow> int list" where
  "checks cc last_check [] = []"
| "checks cc last_check (t # ts) =
     (let (due, l) = checker_wakes cc t last_check in (if due then t # checks cc l ts else checks cc l ts))"

lemma checks_spaced:
  "sorted_wrt (\<lambda>a b. run_every cc \<le> b - a) (checks cc last_check ts) \<and> (\<forall>t \<in> set (checks cc last_check ts). run_every cc \<le> t - last_check)"
  if "0 \<le> run_every cc"
proof (induction ts arbitrary: last_check)
  case (Cons t ts)
  show ?case
  proof (cases "t - last_check < run_every cc")
    case True
    with Cons [of last_check] show ?thesis by (simp add: checker_wakes_def)
  next
    case False
    have "run_every cc \<le> x - last_check" if "run_every cc \<le> x - t" for x
      using False that \<open>0 \<le> run_every cc\<close> by linarith
    with False Cons [of t] show ?thesis by (auto simp: checker_wakes_def)
  qed
qed simp

subsection \<open>The compressors\<close>

text \<open>\<open>compression_ex_read_config\<close>: the kinds that the configuration names.\<close>

definition compressor_kinds :: "cfg \<Rightarrow> bool \<times> bool" where
  "compressor_kinds c =
     (let compression_support = Get c ''COMPRESSION'' ''mp-flate''
      in (go_contains compression_support ''mp-flate'', go_contains compression_support ''mp-snappy''))"

definition kind_status :: "(nat \<Rightarrow> int) \<Rightarrow> comp_stat option \<Rightarrow> string option go" where
  "kind_status unit_num k = (case k of None \<Rightarrow> Inr (Some []) | Some s \<Rightarrow> comp_GetStatus unit_num s)"

definition compression_ex_status :: "(nat \<Rightarrow> int) \<Rightarrow> comp_stat option \<Rightarrow> comp_stat option \<Rightarrow> string option go" where
  "compression_ex_status unit_num flate snappy =
     (if flate = None \<and> snappy = None then Inr (Some [])
      else
        go_bind (kind_status unit_num flate) (\<lambda>f. go_bind (kind_status unit_num snappy) (\<lambda>s.
          Inr (Option.bind f (\<lambda>f. map_option (\<lambda>s.
            ''<br><pre>-- Multipart Compress (multi threaded)'' @ [CHR 0x0A]
            @ ''Multipart compression is used to quickly set compressed data using internal framing format'' @ [CHR 0x0A]
            @ ''It is not compatible with standard compression schemas.'' @ [CHR 0x0A, CHR 0x0A]
            @ ''E-RLow - error, compression ratio too low'' @ [CHR 0x09] @ ''E-Buffer - error, compression buffer too small'' @ [CHR 0x0A]
            @ f @ s) s)))))"

definition comp_status :: "(nat \<Rightarrow> int) \<Rightarrow> simple_pool \<Rightarrow> comp_stat option \<Rightarrow> comp_stat option \<Rightarrow> (string \<times> string) option go" where
  "comp_status unit_num pool flate snappy =
     go_bind (compression_ex_status unit_num flate snappy) (\<lambda>ex.
       Inr (map_option (\<lambda>ex. (''Compression Plugins'',
         ''<pre>-- Simple Compress'' @ [CHR 0x0A] @ CompressSimpleStatus pool @ ''</pre>'' @ ex)) ex))"

lemma kind_status_returns: "\<exists>page. kind_status unit_num k = Inr (Some page)"
  using comp_GetStatus_returns by (auto simp: kind_status_def split: option.split)

text \<open>The section of the compressors returns, whatever has been counted.\<close>

lemma comp_status_returns: "\<exists>page. comp_status unit_num pool flate snappy = Inr (Some (''Compression Plugins'', page))"
proof -
  obtain f s where "kind_status unit_num flate = Inr (Some f)" "kind_status unit_num snappy = Inr (Some s)"
    using kind_status_returns by blast
  then show ?thesis by (simp add: comp_status_def compression_ex_status_def)
qed

subsection \<open>Sizes with one decimal\<close>

definition FormatBytesI :: "(nat \<Rightarrow> int) \<Rightarrow> nat \<Rightarrow> string" where
  "FormatBytesI unit_num b =
     (let ret = go_split (CHR ''.'') (FormatBytes unit_num b)
      in if length ret < 2 \<or> length (ret ! 1) < 2 then go_join ''.'' ret
         else ret ! 0 @ ''.'' @ [ret ! 1 ! 0] @ go_trim ''0123456789)'' (ret ! 1))"

subsection \<open>The memory profile\<close>

record mem_stats =
  ms_Alloc :: nat
  ms_TotalAlloc :: nat
  ms_Sys :: nat
  ms_Lookups :: nat
  ms_Mallocs :: nat
  ms_Frees :: nat
  ms_HeapAlloc :: nat
  ms_HeapSys :: nat
  ms_HeapIdle :: nat
  ms_HeapInuse :: nat
  ms_HeapReleased :: nat
  ms_HeapObjects :: nat
  ms_StackInuse :: nat
  ms_StackSys :: nat
  ms_MSpanInuse :: nat
  ms_MSpanSys :: nat
  ms_MCacheInuse :: nat
  ms_MCacheSys :: nat
  ms_BuckHashSys :: nat
  ms_OtherSys :: nat
  ms_NumGC :: nat
  ms_PauseTotalNs :: nat
  ms_NextGC :: nat
  ms_LastGC :: nat

definition at_least_sign :: string where
  "at_least_sign = [CHR 0xE2, CHR 0x89, CHR 0xA5]"

definition profile_rows :: "(nat \<Rightarrow> int) \<Rightarrow> mem_stats \<Rightarrow> nat \<Rightarrow> string list list" where
  "profile_rows unit_num m goroutines =
     (let row = (\<lambda>name v help. [''memStats.'' @ name, v, help]); fb = FormatBytes unit_num; d = nat_digits
      in [[''General statistics ==== ''],
          row ''Alloc'' (fb (ms_Alloc m)) ''Bytes allocated and still in use'',
          row ''TotalAlloc'' (fb (ms_TotalAlloc m)) ''Bytes allocated in total (even if freed)'',
          row ''Sys'' (fb (ms_Sys m)) ''Bytes obtained from system'',
          row ''Lookups'' (d (ms_Lookups m)) ''Number of pointer lookups'',
          row ''Mallocs'' (d (ms_Mallocs m)) ''Number of mallocs'',
          row ''Frees'' (d (ms_Frees m)) ''Number of frees'',
          [''Heap statistics ==== ''],
          row ''HeapAlloc'' (fb (ms_HeapAlloc m)) ''Bytes allocated and still in use'',
          row ''HeapSys'' (fb (ms_HeapSys m)) ''Bytes obtained from system'',
          row ''HeapIdle'' (fb (ms_HeapIdle m)) ''Bytes in idle spans'',
          row ''HeapInuse'' (fb (ms_HeapInuse m)) ''Bytes in non-idle span'',
          row ''HeapReleased'' (fb (ms_HeapReleased m)) ''Bytes released to the OS'',
          row ''HeapObjects'' (d (ms_HeapObjects m)) ''Total number of allocated objects'',
          [''Stack & System allocation ==== ''],
          row ''StackInuse'' (fb (ms_StackInuse m)) ''Bytes used by stack allocator'',
          row ''StackSys'' (fb (ms_StackSys m)) ''Bytes obtained from OS by stack allocator'',
          row ''MSpanInuse'' (d (ms_MSpanInuse m)) ''MSpan structures in use'',
          row ''MSpanSys'' (d (ms_MSpanSys m)) ''MSpan structures obtained from OS'',
          row ''MCacheInuse'' (d (ms_MCacheInuse m)) ''MCache structures in use'',
          row ''MCacheSys'' (d (ms_MCacheSys m)) ''MCache structures obtained from OS'',
          row ''BuckHashSys'' (d (ms_BuckHashSys m)) ''Profiling bucket hash table'',
          row ''OtherSys'' (d (ms_OtherSys m)) ''Other system allocations'',
          [''Garbage Collection ==== ''],
          row ''NumGC'' (d (ms_NumGC m)) ''Number of garbage colledtions'',
          row ''PauseTotalNs'' (d (ms_PauseTotalNs m)) ''Total time waited in GC'',
          row ''NextGC'' (d (ms_NextGC m)) (''Next collection will happen when HeapAlloc '' @ at_least_sign @ '' this amount''),
          row ''LastGC'' (d (ms_LastGC m)) ''End time of last collection (nanoseconds since 1970)'',
          [''Server statistics ==== ''],
          [''runtime.NumGoroutine'', d goroutines, ''Number of goroutines that currently exist'']])"

definition handle_profiler :: "(nat \<Rightarrow> int) \<Rightarrow> mem_stats \<Rightarrow> nat \<Rightarrow> hsparams \<Rightarrow> string \<times> hsparams" where
  "handle_profiler unit_num m goroutines data =
     (if GetParam data ''simple'' [] = ''1'' then
        (''memStats.TotalAlloc: '' @ FormatBytes unit_num (ms_TotalAlloc m) @ [CHR 0x0A]
         @ ''memStats.Mallocs: '' @ nat_digits (ms_Mallocs m) @ [CHR 0x0A]
         @ ''memStats.NumGC: '' @ nat_digits (ms_NumGC m) @ [CHR 0x0A], data)
      else
        (Render (fold AddRow (profile_rows unit_num m goroutines)
           (SetClass ''tab'' (NewTableGen [''Parameter'', ''Value'', ''Help'']))), data))"

definition profiler_status :: "(nat \<Rightarrow> int) \<Rightarrow> mem_stats \<Rightarrow> nat \<Rightarrow> string \<times> string" where
  "profiler_status unit_num m goroutines =
     (''Memory profile'', fst (handle_profiler unit_num m goroutines CreateHSParams))"

subsection \<open>The plugin manager\<close>

text \<open>The plugins registered and those whose first run has not ended; the timer is started with the first
  registration. A plugin is a number.\<close>

record plugin_manager =
  pm_initialized :: bool
  pm_plugins :: "nat list"
  pm_starting :: "nat list"

definition manager_init :: plugin_manager where
  "manager_init = \<lparr>pm_initialized = False, pm_plugins = [], pm_starting = []\<rparr>"

definition register :: "nat \<Rightarrow> plugin_manager \<Rightarrow> plugin_manager" where
  "register p m = m\<lparr>pm_initialized := True, pm_starting := pm_starting m @ [p]\<rparr>"

definition first_run_ended :: "nat \<Rightarrow> plugin_manager \<Rightarrow> plugin_manager" where
  "first_run_ended p m = m\<lparr>pm_starting := remove1 p (pm_starting m), pm_plugins := pm_plugins m @ [p]\<rparr>"

text \<open>A tick of the timer: the runs it starts.\<close>

definition manager_process :: "plugin_manager \<Rightarrow> nat list" where
  "manager_process m = pm_plugins m"

datatype manager_event = Registered nat | FirstRunEnded nat

fun manager_step :: "manager_event \<Rightarrow> plugin_manager \<Rightarrow> plugin_manager" where
  "manager_step (Registered p) m = register p m"
| "manager_step (FirstRunEnded p) m = (if p \<in> set (pm_starting m) then first_run_ended p m else m)"

text \<open>However registrations and first runs interleave, every plugin registered is either starting or known to the
  timer, so none is lost and none is run twice by a tick.\<close>

lemma plugins_conserved:
  "mset (manager_process (fold manager_step es manager_init)) + mset (pm_starting (fold manager_step es manager_init)) =
     mset (concat (map (\<lambda>e. case e of Registered p \<Rightarrow> [p] | FirstRunEnded _ \<Rightarrow> []) es))"
proof (induction es rule: rev_induct)
  case Nil
  show ?case by (simp add: manager_init_def manager_process_def)
next
  case (snoc e es)
  show ?case
  proof (cases e)
    case (Registered p)
    with snoc show ?thesis by (simp add: manager_process_def register_def)
  next
    case (FirstRunEnded p)
    let ?R = "mset (concat (map (\<lambda>e. case e of Registered p \<Rightarrow> [p] | FirstRunEnded _ \<Rightarrow> []) es))"
    have "p \<in># ?R" if "p \<in> set (pm_starting (fold manager_step es manager_init))"
      using snoc that by (metis in_multiset_in_set union_iff)
    with snoc FirstRunEnded show ?thesis by (auto simp: manager_process_def first_run_ended_def dest: insert_DiffM)
  qed
qed

end
