(* ===== verification/Proxy.thy ===== *)
theory Proxy
  imports HandlersCorrect InfoHandler NodeAdminCorrect EngineCorrect StatusPages
begin

text \<open>
  The whole proxy: \<open>main\<close> (\<open>gosol/main/main.go\<close>) with its start from the configuration, and the requests of a
  running process, dispatched by their action to the eight handlers over the state they share, the nodes
  and the pools of the key value store. A request is one step; beside requests there are the posts that the
  HTTP plugin forwards and the timers of the clients and of the health checker. The clock, the network and
  the library calls are parameters of each step.
\<close>

subsection \<open>The handlers of the program\<close>

datatype main_handler =
    HandleEcho | HandleProfiler | Handle_solana_raw | Handle_solana_01 | Handle_solana_info
  | Handle_passthrough | Handle_solana_admin | Handle_kvstore

definition echo_actions :: "string list" where
  "echo_actions = [''echo'']"

definition profiler_actions :: "string list" where
  "profiler_actions = [''profiler'']"

definition raw_actions :: "string list" where
  "raw_actions = [''solanaRaw'']"

definition solana_01_actions :: "string list" where
  "solana_01_actions = [''getBlock'', ''getTransaction'', ''getBalance'', ''getTokenSupply'']"

definition info_actions :: "string list" where
  "info_actions = [''getFirstAvailableBlock'', ''getSolanaInfo'']"

definition passthrough_actions :: "string list" where
  "passthrough_actions = [''adv'']"

definition admin_actions :: "string list" where
  "admin_actions = [''solana_admin'', ''solana_admin_remove'', ''solana_admin_add'']"

definition kvstore_actions :: "string list" where
  "kvstore_actions = [''keyGet'', ''keySet'']"

fun GetActions :: "main_handler \<Rightarrow> string list" where
  "GetActions HandleEcho = echo_actions"
| "GetActions HandleProfiler = profiler_actions"
| "GetActions Handle_solana_raw = raw_actions"
| "GetActions Handle_solana_01 = solana_01_actions"
| "GetActions Handle_solana_info = info_actions"
| "GetActions Handle_passthrough = passthrough_actions"
| "GetActions Handle_solana_admin = admin_actions"
| "GetActions Handle_kvstore = kvstore_actions"

lemmas actions_defs = echo_actions_def profiler_actions_def raw_actions_def solana_01_actions_def info_actions_def
  passthrough_actions_def admin_actions_def kvstore_actions_def

definition main_handlers :: "main_handler list" where
  "main_handlers = [HandleEcho, HandleProfiler, Handle_solana_raw, Handle_solana_01, Handle_solana_info,
     Handle_passthrough, Handle_solana_admin, Handle_kvstore]"

text \<open>The state the handlers share, and what a step sees of the world.\<close>

record proxy =
  px_nodes :: nodes
  px_pools :: pools

record outside =
  o_net :: net
  o_now :: int
  o_decode_error :: "string \<Rightarrow> string"
  o_http_get :: "string \<Rightarrow> (string, string) gomap \<Rightarrow> string + string"
  o_unit_num :: "nat \<Rightarrow> int"
  o_mem :: mem_stats
  o_goroutines :: nat

abbreviation px_store :: "proxy \<Rightarrow> store" where
  "px_store px \<equiv> node_store (px_nodes px)"

abbreviation px_registry :: "proxy \<Rightarrow> ref list" where
  "px_registry px \<equiv> registry (px_nodes px)"

definition set_store :: "store \<Rightarrow> proxy \<Rightarrow> proxy" where
  "set_store st px = px\<lparr>px_nodes := (px_nodes px)\<lparr>node_store := st\<rparr>\<rparr>"

definition HandleAction ::
  "cfg \<Rightarrow> outside \<Rightarrow> main_handler \<Rightarrow> string \<Rightarrow> hsparams \<Rightarrow> proxy \<Rightarrow> (string \<times> hsparams \<times> proxy) go" where
  "HandleAction c out h action data px =
     (let pure = (\<lambda>(s, p). Inr (s, p, px));
          on_store = (\<lambda>r. go_bind r (\<lambda>(s, p, st). Inr (s, p, set_store st px)))
      in case h of
           HandleEcho \<Rightarrow> pure (handle_echo data)
         | HandleProfiler \<Rightarrow> pure (handle_profiler (o_unit_num out) (o_mem out) (o_goroutines out) data)
         | Handle_solana_raw \<Rightarrow> on_store (handle_solana_raw (o_net out) (px_registry px) data (px_store px))
         | Handle_solana_01 \<Rightarrow> on_store (handle_solana_01 (o_net out) (px_registry px) action data (px_store px))
         | Handle_solana_info \<Rightarrow> go_bind (handle_solana_info (px_store px) (px_registry px) action data) pure
         | Handle_passthrough \<Rightarrow> pure (handle_passthrough (o_http_get out) (Get c ''PASSTHROUGH_URL'' []) data)
         | Handle_solana_admin \<Rightarrow>
             go_bind (handle_solana_admin (o_net out) (o_now out) (o_decode_error out) action data (px_nodes px))
               (\<lambda>(s, p, ns). Inr (s, p, px\<lparr>px_nodes := ns\<rparr>))
         | Handle_kvstore \<Rightarrow>
             (let (s, p, pools) = handle_kvstore (o_now out) action data (px_pools px) in Inr (s, p, px\<lparr>px_pools := pools\<rparr>)))"

subsection \<open>Dispatch\<close>

text \<open>\<open>main\<close> keeps the handlers with an action that \<open>RUN_SERVICES\<close> names; \<open>RegisterHandler\<close> numbers the
  actions.\<close>

definition run_services :: "cfg \<Rightarrow> main_handler list" where
  "run_services c =
     (let v = Get c ''RUN_SERVICES'' []
      in if v \<noteq> [] \<and> v \<noteq> ''*''
         then (let supported = map (go_trim blanks) (go_split (CHR '','') v)
               in filter (\<lambda>h. \<exists>action \<in> set (GetActions h). action \<in> set supported) main_handlers)
         else main_handlers)"

definition action_numbers :: "main_handler list \<Rightarrow> (string, nat) gomap" where
  "action_numbers hs = fold (\<lambda>(hindex, h) m. fold (\<lambda>action m. gm_set m action hindex) (GetActions h) m) (enumerate 0 hs) []"

definition proxy_request ::
  "cfg \<Rightarrow> outside \<Rightarrow> (hsparams \<Rightarrow> string) \<Rightarrow> hsparams \<Rightarrow> proxy \<Rightarrow> (string \<times> hsparams \<times> proxy) go" where
  "proxy_request c out status_page data px =
     (let action = GetParam data ''action'' []
      in if action = ''server-status'' then Inr (status_page data, data, px)
         else if action = [] then Inr (''Please specify action (0x1), or ?action=server-status for help'', data, px)
         else case map_of (action_numbers (run_services c)) action of
             Some hindex \<Rightarrow> HandleAction c out (run_services c ! hindex) action data px
           | None \<Rightarrow> Inr (''Please specify action (0x2)'', data, px))"

text \<open>The actions are the program's own: no two handlers share one, so the number of an action is that of its
  only handler.\<close>

definition handler_of :: "string \<Rightarrow> main_handler option" where
  "handler_of a = find (\<lambda>h. a \<in> set (GetActions h)) main_handlers"

lemma one_handler: "a \<in> set (GetActions h) \<Longrightarrow> a \<in> set (GetActions h') \<Longrightarrow> h = h'"
  by (cases h; cases h') (auto simp: actions_defs)

lemma main_handlers_all: "h \<in> set main_handlers"
  by (cases h) (simp_all add: main_handlers_def)

lemma handler_of_iff: "handler_of a = Some h \<longleftrightarrow> a \<in> set (GetActions h)"
proof
  assume "handler_of a = Some h"
  then show "a \<in> set (GetActions h)" by (auto simp: handler_of_def find_Some_iff)
next
  assume h: "a \<in> set (GetActions h)"
  with main_handlers_all [of h] obtain h' where "handler_of a = Some h'"
    by (cases "handler_of a") (auto simp: handler_of_def find_None_iff)
  then show "handler_of a = Some h" using h one_handler by (auto simp: handler_of_def find_Some_iff)
qed

lemma action_numbers_snoc:
  "map_of (action_numbers (hs @ [h])) a = (if a \<in> set (GetActions h) then Some (length hs) else map_of (action_numbers hs) a)"
  by (simp add: action_numbers_def enumerate_append_eq map_of_fold_actions)

lemma action_numbers_spec:
  "case map_of (action_numbers hs) a of
     None \<Rightarrow> \<forall>h \<in> set hs. a \<notin> set (GetActions h)
   | Some i \<Rightarrow> i < length hs \<and> a \<in> set (GetActions (hs ! i))"
proof (induction hs rule: rev_induct)
  case Nil
  show ?case by (simp add: action_numbers_def)
next
  case (snoc h hs)
  then show ?case by (auto simp: action_numbers_snoc nth_append split: option.splits)
qed

lemma proxy_request_handler:
  "proxy_request c out status_page data px =
     (let action = GetParam data ''action'' []
      in if action = ''server-status'' then Inr (status_page data, data, px)
         else if action = [] then Inr (''Please specify action (0x1), or ?action=server-status for help'', data, px)
         else case handler_of action of
             Some h \<Rightarrow> if h \<in> set (run_services c) then HandleAction c out h action data px
                       else Inr (''Please specify action (0x2)'', data, px)
           | None \<Rightarrow> Inr (''Please specify action (0x2)'', data, px))"
proof -
  let ?a = "GetParam data ''action'' []" and ?hs = "run_services c"
  show ?thesis
  proof (cases "map_of (action_numbers ?hs) ?a")
    case None
    with action_numbers_spec [of ?hs ?a] show ?thesis
      by (auto simp: proxy_request_def Let_def handler_of_iff split: option.split)
  next
    case (Some i)
    with action_numbers_spec [of ?hs ?a] have "i < length ?hs" "handler_of ?a = Some (?hs ! i)"
      by (simp_all add: handler_of_iff)
    with Some show ?thesis by (simp add: proxy_request_def Let_def)
  qed
qed

text \<open>It is the engine of \<open>hs_engine.go\<close> with the program's handlers: when the handler does not panic, the answer
  is the engine's over the services at the present state.\<close>

definition as_service :: "cfg \<Rightarrow> outside \<Rightarrow> proxy \<Rightarrow> main_handler \<Rightarrow> service" where
  "as_service c out px h =
     \<lparr>get_actions = GetActions h,
      handle_action = (\<lambda>action data. case HandleAction c out h action data px of Inr (s, p, _) \<Rightarrow> (s, p) | Inl _ \<Rightarrow> ([], data))\<rparr>"

lemma run_services_runs: "run_services c = filter (\<lambda>h. runs c (as_service c out px h)) main_handlers"
proof -
  have "(\<exists>action \<in> set as. action \<in> set (map (go_trim blanks) vs)) \<longleftrightarrow> (\<exists>s \<in> set vs. go_trim blanks s \<in> set as)" for as vs
    by auto
  then show ?thesis
    by (auto simp: run_services_def runs_def as_service_def Let_def simp del: set_map intro!: filter_cong filter_True [symmetric])
qed

lemma engine_of_proxy:
  "start_engine c (map (as_service c out px) main_handlers) =
     \<lparr>action_handlers = map (as_service c out px) (run_services c), actionToHandlerNum = action_numbers (run_services c)\<rparr>"
proof -
  have "filter (runs c) (map (as_service c out px) main_handlers) = map (as_service c out px) (run_services c)"
    by (simp add: run_services_runs [of c out px] filter_map o_def)
  moreover have "fold (\<lambda>(i, h) m. fold (\<lambda>action m. gm_set m action i) (get_actions h) m) (enumerate n (map (as_service c out px) hs)) m =
      fold (\<lambda>(i, h) m. fold (\<lambda>action m. gm_set m action i) (GetActions h) m) (enumerate n hs) m" for n hs m
    by (induction hs arbitrary: n m) (simp_all add: as_service_def)
  ultimately show ?thesis
    by (simp add: start_engine_def RegisterHandler_def engine_init_def select_services_runs action_numbers_def Let_def)
qed

lemma proxy_refines_engine:
  assumes "proxy_request c out status_page data px = Inr (s, p, px')"
  shows "handleRequest (start_engine c (map (as_service c out px) main_handlers)) status_page data = (s, p)"
  using assms action_numbers_spec [of "run_services c" "GetParam data ''action'' []"]
  by (auto simp: proxy_request_def handleRequest_def engine_of_proxy as_service_def Let_def split: option.splits if_splits)

subsection \<open>The start\<close>

text \<open>\<open>_read_node_config\<close>: the nodes are registered in turn; \<open>env\<close> gives the network and the clock of each. No value
  is the exit with status 10.\<close>

fun register_nodes :: "(nat \<Rightarrow> net \<times> int) \<Rightarrow> nat \<Rightarrow> json list \<Rightarrow> nodes \<Rightarrow> nodes go" where
  "register_nodes env k [] ns = Inr ns"
| "register_nodes env k (v # vs) ns =
     (case v of
        JObj node \<Rightarrow>
          go_bind (NodeRegisterFromConfig (fst (env k)) (snd (env k)) node ns) (\<lambda>(_, ns1). register_nodes env (k + 1) vs ns1)
      | _ \<Rightarrow> Inl TypeAssertion)"

definition read_node_config :: "(nat \<Rightarrow> net \<times> int) \<Rightarrow> cfg \<Rightarrow> nodes \<Rightarrow> nodes option go" where
  "read_node_config env c ns =
     (case GetRawData c ''SOL_NODES'' [] of
        JArr nodes \<Rightarrow>
          if length nodes \<le> 0 then Inr None
          else go_bind (register_nodes env 0 nodes ns) (\<lambda>ns1. Inr (Some ns1))
      | _ \<Rightarrow> Inl TypeAssertion)"

text \<open>\<open>main\<close>: the state of the process, the handlers that run and the listeners it starts.\<close>

definition main_start :: "(nat \<Rightarrow> net \<times> int) \<Rightarrow> cfg \<Rightarrow> (proxy \<times> main_handler list \<times> bound_service list) option go" where
  "main_start env c =
     go_bind (read_node_config env c nodes_init) (\<lambda>r. Inr (map_option (\<lambda>ns.
       (\<lparr>px_nodes = ns, px_pools = empty_pools\<rparr>, run_services c, StartServer c)) r))"

subsection \<open>The limit of open files\<close>

text \<open>\<open>SetOpenFilesLimit\<close>, called before \<open>main\<close> with 262144: the three system calls are parameters. The result and
  what it writes to the error output. A limit that the system does not grant is reported but counts as set;
  on the other systems nothing is done.\<close>

record rlimit =
  rl_cur :: "64 word"
  rl_max :: "64 word"

definition SetOpenFilesLimit ::
  "string \<Rightarrow> int \<Rightarrow> string + rlimit \<Rightarrow> (rlimit \<Rightarrow> string option) \<Rightarrow> string + rlimit \<Rightarrow> bool \<times> string" where
  "SetOpenFilesLimit goos num get_before set_limit get_after =
     (if \<not> go_contains (to_lower goos) ''linux'' then (False, [])
      else
        (case get_before of
           Inl e \<Rightarrow> (False, ''Error Getting Rlimit '' @ e)
         | Inr r \<Rightarrow>
             (let want = r\<lparr>rl_max := word_of_int num, rl_cur := word_of_int num\<rparr>
              in case set_limit want of
                   Some e \<Rightarrow> (False, ''Error Setting Rlimit '' @ e)
                 | None \<Rightarrow>
                     (case get_after of
                        Inl e \<Rightarrow> (False, ''Error Getting Rlimit '' @ e)
                      | Inr got \<Rightarrow>
                          if rl_max got \<noteq> word_of_int num \<or> rl_cur got \<noteq> word_of_int num then
                            (True, ''Error Setting Rlimit, requested '' @ itoa num @ '', got '' @ itoa (uint (rl_cur got)) @ ''/''
                               @ itoa (uint (rl_max got)) @ '' '')
                          else (True, [])))))"

lemma limit_set_silently:
  "SetOpenFilesLimit goos num b s a = (True, []) \<Longrightarrow>
     \<exists>got. a = Inr got \<and> rl_cur got = word_of_int num \<and> rl_max got = word_of_int num"
  by (auto simp: SetOpenFilesLimit_def Let_def split: if_split_asm sum.split_asm option.split_asm)

end
