(* ===== verification/ProxyCorrect.thy ===== *)
theory ProxyCorrect
  imports Proxy
begin

text \<open>
  Properties of the running proxy: for any sequence of requests, forwarded posts and timer steps the
  registered clients are the configured ones, each under its own number, and the key value store keeps what
  was written whatever else goes on; and what a start from a configuration gives.
\<close>

subsection \<open>Steps\<close>

datatype event =
    Request outside "hsparams \<Rightarrow> string" hsparams
  | Forward outside string string
  | ProbeTimer outside ref
  | StatTimer outside ref
  | HealthCheck outside health_config

text \<open>A step that panics ends the process: it has no successor.\<close>

definition proxy_step :: "cfg \<Rightarrow> event \<Rightarrow> proxy \<Rightarrow> proxy go" where
  "proxy_step c e px =
     (case e of
        Request out status data \<Rightarrow> go_bind (proxy_request c out status data px) (\<lambda>(_, _, px'). Inr px')
      | Forward out content_type post \<Rightarrow>
          go_bind (passthrough_plugin (o_net out) (px_registry px) content_type post (px_store px))
            (\<lambda>r. Inr (case r of None \<Rightarrow> px | Some (_, st) \<Rightarrow> set_store st px))
      | ProbeTimer out r \<Rightarrow>
          go_bind (probe_tick (o_net out) (o_now out) (px_store px r)) (\<lambda>cl. Inr (set_store ((px_store px)(r := cl)) px))
      | StatTimer out r \<Rightarrow>
          (let (_, cl) = maint_stat (o_now out) (px_store px r) in Inr (set_store ((px_store px)(r := cl)) px))
      | HealthCheck out cc \<Rightarrow>
          go_bind (run_custom_check (o_net out) (o_now out) cc (px_store px) (px_registry px)) (\<lambda>(_, st). Inr (set_store st px)))"

fun proxy_run :: "cfg \<Rightarrow> event list \<Rightarrow> proxy \<Rightarrow> proxy go" where
  "proxy_run c [] px = Inr px"
| "proxy_run c (e # es) px = go_bind (proxy_step c e px) (proxy_run c es)"

subsection \<open>Requests leave the identity of the clients alone\<close>

definition same_store :: "store \<Rightarrow> store \<Rightarrow> bool" where
  "same_store st st' \<longleftrightarrow> (\<forall>r. same_node (st r) (st' r))"

lemma same_store_refl [simp]: "same_store st st"
  by (simp add: same_store_def)

lemma same_store_trans: "same_store a b \<Longrightarrow> same_store b c \<Longrightarrow> same_store a c"
  unfolding same_store_def using same_node_trans by blast

lemma same_store_upd: "same_node (st r) c \<Longrightarrow> same_store st (st(r := c))"
  by (simp add: same_store_def)

definition keeps_node :: "(solclient \<Rightarrow> ('a \<times> 'b \<times> solclient) go) \<Rightarrow> bool" where
  "keeps_node f \<longleftrightarrow> (\<forall>c a b c'. f c = Inr (a, b, c') \<longrightarrow> same_node c c')"

lemma keeps_RequestBasic: "keeps_node (RequestBasic w mp)"
  using RequestBasic_same by (auto simp: keeps_node_def)

lemma keeps_GetBlock: "keeps_node (GetBlock w block v)"
  unfolding keeps_node_def GetBlock_def
  by (auto simp: go_bind_Inr split: option.splits dest!: RequestBasic_same)

lemma keeps_GetTransaction: "keeps_node (GetTransaction w hash v)"
proof -
  have "same_node c c'" if "(case ret of None \<Rightarrow> Inr (None, ty, c)
      | Some b \<Rightarrow> if retry_genesys b (endpoint c)
          then go_bind (RequestBasic w mp c) (\<lambda>(ret2, ty2, c2). case ret2 of None \<Rightarrow> Inr (None, ty2, c2)
                 | Some b2 \<Rightarrow> Inr (Some b2, result_or_error b2, c2))
          else Inr (Some b, result_or_error b, c)) = Inr (a, b', c')" for ret ty c mp a b' c'
    using that by (auto simp: go_bind_Inr split: option.splits if_splits dest!: RequestBasic_same)
  then show ?thesis
    unfolding keeps_node_def GetTransaction_def Let_def go_bind_Inr by (fastforce intro: same_node_trans dest: RequestBasic_same)
qed

lemma keeps_SimpleCall: "keeps_node (SimpleCall w m pk cm)"
  using RequestBasic_same by (auto simp: keeps_node_def SimpleCall_def)

lemma call_client_same:
  assumes "keeps_node f" "call_client f r st = Inr (ret, ty, st')"
  shows "same_store st st'"
  using assms by (auto simp: call_client_def go_bind_Inr keeps_node_def intro!: same_store_upd)

lemma retry_loop_same:
  assumes "retry_loop (\<lambda>w. w) (call_client f) sch st ret res = Inr (reply, sch', st')" "keeps_node f"
  shows "same_store st st'"
  using assms(1)
proof (induction "\<lambda>w :: store. w" "call_client f" sch st ret res rule: retry_loop.induct)
  case (1 sch st ret res)
  show ?case
  proof (cases "res = R_OK")
    case True
    with 1(2) show ?thesis by (simp add: retry_loop.simps)
  next
    case False
    obtain cl s where n: "next_client st sch = (cl, s)" by force
    show ?thesis
    proof (cases cl)
      case None
      with 1(2) False n show ?thesis by (subst (asm) retry_loop.simps) simp
    next
      case (Some r)
      with 1(2) False n obtain a b st1 where call: "call_client f r st = Inr (a, b, st1)"
        and rest: "retry_loop (\<lambda>w. w) (call_client f) s st1 a b = Inr (reply, sch', st')"
        by (subst (asm) retry_loop.simps) (auto split: sum.splits)
      from 1(1) [OF False n [symmetric] Some call refl refl rest] call_client_same [OF assms(2) call]
      show ?thesis by (rule same_store_trans [rotated])
    qed
  qed
qed

lemma throttled_loop_same:
  assumes "throttled_loop (\<lambda>w. w) (call_client f) sch st ret res = Inr (a, b, st')" "keeps_node f"
  shows "same_store st st'"
  using assms(1)
proof (induction "\<lambda>w :: store. w" "call_client f" sch st ret res rule: throttled_loop.induct)
  case (1 sch st ret res)
  show ?case
  proof (cases "res = R_THROTTLED")
    case False
    with 1(2) show ?thesis by (simp add: throttled_loop.simps)
  next
    case True
    obtain cl s where n: "GetAnyClient st sch = (cl, s)" by force
    show ?thesis
    proof (cases cl)
      case None
      with 1(2) True n show ?thesis by (subst (asm) throttled_loop.simps) simp
    next
      case (Some r)
      with 1(2) True n obtain x y st1 where call: "call_client f r st = Inr (x, y, st1)"
        and rest: "throttled_loop (\<lambda>w. w) (call_client f) s st1 x y = Inr (a, b, st')"
        by (subst (asm) throttled_loop.simps) (auto split: sum.splits)
      have "\<not> res \<noteq> R_THROTTLED" using True by simp
      from 1(1) [OF this n [symmetric] Some call refl refl rest] call_client_same [OF assms(2) call]
      show ?thesis by (rule same_store_trans [rotated])
    qed
  qed
qed

lemma go_bind_triple:
  assumes "go_bind m f = Inr y"
  obtains a b c where "m = Inr (a, b, c)" "f (a, b, c) = Inr y"
  using assms by (cases m) auto

lemma first_and_retry_same:
  assumes "first_and_retry f cl sch data st = Inr (s, p, st')" "keeps_node f"
  shows "same_store st st'"
proof -
  from assms(1) [unfolded first_and_retry_def] obtain ret res st1 where c: "call_client f cl st = Inr (ret, res, st1)"
    and m: "go_bind (retry_loop (\<lambda>w. w) (call_client f) sch st1 ret res) (\<lambda>(reply, _, st2).
      case reply of Inl e \<Rightarrow> Inr (e, data, st2) | Inr r \<Rightarrow> Inr ([], data\<lparr>fastreturn := r\<rparr>, st2)) = Inr (s, p, st')"
    by (rule go_bind_triple) simp
  from m obtain reply sch' st2 where r: "retry_loop (\<lambda>w. w) (call_client f) sch st1 ret res = Inr (reply, sch', st2)"
    and e: "(case reply of Inl e \<Rightarrow> Inr (e, data, st2) | Inr r \<Rightarrow> Inr ([], data\<lparr>fastreturn := r\<rparr>, st2)) = (Inr (s, p, st') :: (string \<times> hsparams \<times> store) go)"
    by (rule go_bind_triple) simp
  from e have "st2 = st'" by (cases reply) simp_all
  with call_client_same [OF assms(2) c] retry_loop_same [OF r assms(2)] show ?thesis using same_store_trans by blast
qed

lemmas call_same = first_and_retry_same [OF _ keeps_GetBlock] first_and_retry_same [OF _ keeps_GetTransaction]
  first_and_retry_same [OF _ keeps_SimpleCall]

lemma solana_01_same:
  assumes "handle_solana_01 w clients action data st = Inr (s, p, st')"
  shows "same_store st st'"
proof (cases "GetAnyClient st (forced_scheduler clients data)")
  case (Pair cl0 sch)
  show ?thesis
  proof (cases cl0)
    case None
    with assms Pair show ?thesis by (simp add: handle_solana_01_def)
  next
    case (Some cl)
    note h = assms [unfolded handle_solana_01_def Pair Some prod.case option.case Let_def]
    from h show ?thesis by (simp split: if_split_asm) (erule call_same)+
  qed
qed

lemma solana_raw_same:
  assumes "handle_solana_raw w clients data st = Inr (s, p, st')"
  shows "same_store st st'"
proof (cases "GetAnyClient st (forced_scheduler clients data)")
  case (Pair cl0 sch)
  let ?call = "call_client (RequestBasic w [GetParam data ''method'' [], GetParam data ''params'' []])"
  show ?thesis
  proof (cases "cl0 = None \<or> GetParam data ''method'' [] = []")
    case True
    with assms Pair show ?thesis by (auto simp: handle_solana_raw_def Let_def split: option.splits)
  next
    case False
    then obtain cl where cl: "cl0 = Some cl" by (cases cl0) simp_all
    from assms Pair cl False obtain ret res st1 where c: "?call cl st = Inr (ret, res, st1)"
      and rest: "(if good_answer ret res then Inr ([], data\<lparr>fastreturn := ret\<rparr>, st1)
        else (let (cl2, sch2) = GetPublicClient st1 sch
              in go_bind (case cl2 of None \<Rightarrow> Inr (ret, res, st1) | Some r \<Rightarrow> ?call r st1) (\<lambda>(ret2, result2, st2).
                if good_answer ret2 result2 then Inr ([], data\<lparr>fastreturn := ret2\<rparr>, st2)
                else go_bind (throttled_loop (\<lambda>w. w) ?call sch2 st2 ret2 result2) (\<lambda>(ret3, result3, st3).
                  if ret3 \<noteq> None then Inr ([], data\<lparr>fastreturn := ret3\<rparr>, st3)
                  else Inr (json_error ''unknown issue'', data, st3))))) = Inr (s, p, st')"
      unfolding handle_solana_raw_def Let_def by (auto simp: go_bind_Inr)
    have one: "same_store st st1" by (rule call_client_same [OF keeps_RequestBasic c])
    obtain cl2 sch2 where g: "GetPublicClient st1 sch = (cl2, sch2)" by force
    have "same_store st1 st'"
    proof (cases "good_answer ret res")
      case True
      with rest show ?thesis by simp
    next
      case False
      with rest g obtain r2 t2 st2 where two: "(case cl2 of None \<Rightarrow> Inr (ret, res, st1) | Some r \<Rightarrow> ?call r st1) = Inr (r2, t2, st2)"
        and three: "st' = st2 \<or> (\<exists>a b. throttled_loop (\<lambda>w. w) ?call sch2 st2 r2 t2 = Inr (a, b, st'))"
        by (auto simp: go_bind_Inr split: if_splits)
      from two have "same_store st1 st2"
        using call_client_same [OF keeps_RequestBasic] by (auto split: option.splits)
      with three throttled_loop_same [OF _ keeps_RequestBasic] show ?thesis using same_store_trans by blast
    qed
    with one show ?thesis by (rule same_store_trans)
  qed
qed

lemma RequestForward_same: "RequestForward w post c = Inr (ty, d, c') \<Longrightarrow> same_node c c'"
  unfolding RequestForward_def Let_def
  by (auto simp: go_bind_Inr split: if_splits prod.splits option.splits dest!: begin_request_same docall_same
      intro: same_node_trans)

lemma forward_loop_same:
  "forward_loop (forward_client w post) rs n st = Inr (a, st') \<Longrightarrow> same_store st st'"
proof (induction rs arbitrary: n st)
  case (Cons r rs)
  from Cons.prems obtain ty d c where r: "RequestForward w post (st r) = Inr (ty, d, c)"
    and rest: "st' = st(r := c) \<or> (\<exists>m. forward_loop (forward_client w post) rs m (st(r := c)) = Inr (a, st'))"
  proof (cases "RequestForward w post (st r)")
    case (Inl e)
    with Cons.prems show thesis by (simp add: forward_client_def)
  next
    case (Inr x)
    obtain ty d c where x: "x = (ty, d, c)" by (metis prod_cases3)
    then have "forward_client w post r st = Inr (ty, d, st(r := c))" by (simp add: forward_client_def Inr)
    with Cons.prems Inr x that show thesis by (auto split: if_splits)
  qed
  have "same_store st (st(r := c))" by (rule same_store_upd) (rule RequestForward_same [OF r])
  with rest Cons.IH show ?case using same_store_trans by blast
qed simp

lemma passthrough_same:
  assumes "passthrough_plugin w clients ct post st = Inr (Some (a, st'))"
  shows "same_store st st'"
  using assms unfolding passthrough_plugin_def Let_def
  by (auto simp: go_bind_Inr split: if_splits dest!: forward_loop_same)

lemma SetPaused_same: "same_node c (SetPaused c b cmt)"
  by (simp add: SetPaused_def Let_def same_node_def)

lemma pause_endpoint_same: "same_store st (pause_endpoint mx cc clients info st)"
proof -
  have "same_store st (fold (\<lambda>r s. if P s r then s(r := SetPaused (s r) b cmt) else s) clients st)" for P b cmt
    by (induction clients rule: rev_induct) (auto intro: same_store_trans same_store_upd SetPaused_same)
  then show ?thesis by (simp add: pause_endpoint_def)
qed

lemma pause_all_same: "same_store st (fold (pause_endpoint mx cc clients) infos st)"
  by (induction infos rule: rev_induct) (auto intro: same_store_trans pause_endpoint_same)

lemma refresh_same: "refresh_infos w now cc st rs = Inr (st', infos) \<Longrightarrow> same_store st st'"
proof (induction w now cc st rs arbitrary: infos rule: refresh_infos.induct)
  case (2 w now cc st r info rest)
  show ?case
  proof (cases "now - Available_block_last_ts info < max_data_age_ms cc")
    case True
    with 2 show ?thesis by (auto simp: Let_def go_bind_Inr)
  next
    case False
    with 2(3) obtain a b c infos' where g: "GetLastAvailableBlock w (st r) = Inr (a, b, c)"
      "refresh_infos w now cc (st(r := c)) rest = Inr (st', infos')"
      by (auto simp: Let_def go_bind_Inr)
    have "same_node (st r) c"
      using update_blocks_same(2) [of w "st r" c] g(1) by (simp add: update_last_block_def)
    then have "same_store st (st(r := c))" by (rule same_store_upd)
    then show ?thesis using 2(2) [OF refl False g(2)] by (rule same_store_trans)
  qed
qed simp

lemma check_same:
  assumes "run_custom_check w now cc st clients = Inr (s, st')"
  shows "same_store st st'"
  using assms unfolding run_custom_check_def Let_def go_bind_Inr
  by (auto dest!: refresh_same intro: same_store_trans pause_all_same)

lemma probe_same: "probe_tick w now c = Inr c' \<Longrightarrow> same_node c c'"
  unfolding probe_tick_def Let_def
  by (auto simp: go_bind_Inr split: if_splits dest!: update_version_same update_blocks_same intro: same_node_trans)

subsection \<open>Who is registered\<close>

lemma configured_same: "same_node c c' \<Longrightarrow> configured node i c \<Longrightarrow> configured node i c'"
  by (simp add: same_node_def configured_def)

text \<open>The configuration an admin request asks to add.\<close>

definition admin_node :: "hsparams \<Rightarrow> (string \<times> json) list option" where
  "admin_node data =
     (case decode_first (GetParam data ''node'' []) of Some (JObj kvs) \<Rightarrow> Some kvs | Some JNull \<Rightarrow> Some [] | _ \<Rightarrow> None)"

definition asked_node :: "event \<Rightarrow> (string \<times> json) list list" where
  "asked_node e =
     (case e of
        Request out status data \<Rightarrow>
          if GetParam data ''action'' [] = ''solana_admin_add''
          then (case admin_node data of Some node \<Rightarrow> [node] | None \<Rightarrow> []) else []
      | _ \<Rightarrow> [])"

definition nodes_from :: "(string \<times> json) list set \<Rightarrow> nodes \<Rightarrow> bool" where
  "nodes_from asked ns \<longleftrightarrow> nodes_ok ns \<and>
     (\<forall>r \<in> set (registry ns). \<exists>node \<in> asked. configured node (cl_id (node_store ns r)) (node_store ns r))"

lemma nodes_from_mono: "nodes_from A ns \<Longrightarrow> A \<subseteq> B \<Longrightarrow> nodes_from B ns"
  by (fastforce simp: nodes_from_def)

lemma nodes_from_store:
  assumes "nodes_from A ns" "same_store (node_store ns) st"
  shows "nodes_from A (ns\<lparr>node_store := st\<rparr>)"
proof -
  have i: "cl_id (st r) = cl_id (node_store ns r)" for r using assms(2) by (simp add: same_store_def same_node_def)
  have c: "configured node i (st r)" if "configured node i (node_store ns r)" for node i r
    using assms(2) configured_same that unfolding same_store_def by blast
  show ?thesis using assms(1) i c by (fastforce simp: nodes_from_def nodes_ok_def)
qed

lemma nodes_from_filter: "nodes_from A ns \<Longrightarrow> nodes_from A (ns\<lparr>registry := filter P (registry ns)\<rparr>)"
  by (auto simp: nodes_from_def nodes_ok_filter)

lemma nodes_from_added:
  assumes "nodes_from A ns" "configured node (next_id ns + 1) c" "node \<in> A"
  shows "nodes_from A (added ns c)"
proof -
  have i: "cl_id c = next_id ns + 1" using assms(2) by (auto simp: configured_def)
  have "r \<noteq> next_ref ns" if "r \<in> set (registry ns)" for r using assms(1) that by (auto simp: nodes_from_def nodes_ok_def)
  with assms i nodes_ok_added [of ns c] show ?thesis by (auto simp: nodes_from_def added_def)
qed

lemma nodes_from_config:
  assumes "nodes_from A ns" "NodeRegisterFromConfig w now node ns = Inr (res, ns')" "node \<in> A"
  shows "nodes_from A ns'"
  using register_cases [OF assms(2)] assms(1,3) nodes_from_added by auto

lemma nodes_from_admin_add:
  assumes "nodes_from A ns" "admin_add w now de data ns = Inr (s, ns')" "set_option (admin_node data) \<subseteq> A"
  shows "nodes_from A ns'"
proof (cases "ns' = ns")
  case False
  with assms(2) obtain node res ns1 where n: "admin_node data = Some node"
    and r: "NodeRegisterFromConfig w now node ns = Inr (res, ns1)"
    and f: "ns' = ns1 \<or> (\<exists>P. ns' = ns1\<lparr>registry := filter P (registry ns1)\<rparr>)"
    unfolding admin_add_def Let_def
    by (auto simp: go_bind_Inr ClientRemove_filter admin_node_def split: if_split_asm option.split_asm json.split_asm)
  from nodes_from_config [OF assms(1) r] n f assms(3) nodes_from_filter show ?thesis by auto
qed (use assms in simp)

lemma nodes_from_admin:
  assumes "nodes_from A ns" "handle_solana_admin w now de action data ns = Inr (s, p, ns')"
    "action = ''solana_admin_add'' \<Longrightarrow> set_option (admin_node data) \<subseteq> A"
  shows "nodes_from A ns'"
proof -
  consider "ns' = ns" | "ns' = snd (admin_remove data ns)"
    | "action = ''solana_admin_add''" "admin_add w now de data ns = Inr (s, ns')"
    using assms(2) unfolding handle_solana_admin_def by (auto simp: go_bind_Inr split: if_split_asm prod.split_asm)
  then show ?thesis
  proof cases
    case 2
    have "ns' = ns \<or> (\<exists>P. ns' = ns\<lparr>registry := filter P (registry ns)\<rparr>)"
      unfolding 2 admin_remove_def Let_def
      by (auto simp: ClientRemove_filter [symmetric] split: prod.split) (metis ClientRemove_filter snd_conv)+
    with assms(1) nodes_from_filter show ?thesis by auto
  next
    case 3
    with nodes_from_admin_add [OF assms(1)] assms(3) show ?thesis by blast
  qed (use assms(1) in simp)
qed

text \<open>What a request may change: with its handler fixed, the clients keep their identity, or it is the admin
  handler; and the pools change by the key value handler only.\<close>

lemma handler_effect:
  assumes "HandleAction c out h action data px = Inr (s, p, px')"
  shows "(h \<noteq> Handle_kvstore \<longrightarrow> px_pools px' = px_pools px) \<and>
    (if h = Handle_solana_admin
     then handle_solana_admin (o_net out) (o_now out) (o_decode_error out) action data (px_nodes px) = Inr (s, p, px_nodes px')
     else \<exists>st. same_store (px_store px) st \<and> px_nodes px' = (px_nodes px)\<lparr>node_store := st\<rparr>)"
proof (cases h)
  case Handle_solana_raw
  with assms show ?thesis
    by (auto simp: HandleAction_def Let_def go_bind_Inr set_store_def dest!: solana_raw_same)
next
  case Handle_solana_01
  with assms show ?thesis
    by (auto simp: HandleAction_def Let_def go_bind_Inr set_store_def dest!: solana_01_same)
next
  case Handle_solana_info
  with assms show ?thesis
    by (auto simp: HandleAction_def Let_def go_bind_Inr intro!: exI [of _ "px_store px"])
next
  case Handle_solana_admin
  with assms show ?thesis by (auto simp: HandleAction_def Let_def go_bind_Inr)
next
  case Handle_kvstore
  with assms show ?thesis
    by (auto simp: HandleAction_def Let_def split: prod.splits intro!: exI [of _ "px_store px"])
qed (use assms in \<open>auto simp: HandleAction_def Let_def split: prod.splits intro!: exI [of _ "px_store px"]\<close>)

lemma request_effect:
  assumes "proxy_request c out status data px = Inr (s, p, px')"
  shows "(px' = px) \<or> (\<exists>h. handler_of (GetParam data ''action'' []) = Some h \<and> h \<in> set (run_services c) \<and>
    HandleAction c out h (GetParam data ''action'' []) data px = Inr (s, p, px'))"
  using assms unfolding proxy_request_handler Let_def by (auto split: if_split_asm option.split_asm)

lemma handler_of_admin: "handler_of ''solana_admin_add'' = Some Handle_solana_admin"
  by (simp add: handler_of_iff actions_defs)

lemma request_nodes:
  assumes "nodes_from A (px_nodes px)" "proxy_request c out status data px = Inr (s, p, px')"
    "set (asked_node (Request out status data)) \<subseteq> A"
  shows "nodes_from A (px_nodes px')"
  using request_effect [OF assms(2)]
proof (elim disjE exE conjE)
  fix h
  let ?a = "GetParam data ''action'' []"
  assume h: "HandleAction c out h ?a data px = Inr (s, p, px')"
  note eff = handler_effect [OF h]
  show ?thesis
  proof (cases "h = Handle_solana_admin")
    case True
    with eff have "handle_solana_admin (o_net out) (o_now out) (o_decode_error out) ?a data (px_nodes px) = Inr (s, p, px_nodes px')"
      by simp
    then show ?thesis
      by (rule nodes_from_admin [OF assms(1)]) (use assms(3) in \<open>auto simp: asked_node_def split: option.splits\<close>)
  next
    case False
    with eff nodes_from_store [OF assms(1)] show ?thesis by auto
  qed
qed (use assms(1) in simp)

lemma step_nodes:
  assumes "nodes_from A (px_nodes px)" "proxy_step c e px = Inr px'" "set (asked_node e) \<subseteq> A"
  shows "nodes_from A (px_nodes px')"
proof -
  have other: ?thesis if "\<exists>st. same_store (px_store px) st \<and> px' = set_store st px"
    using that nodes_from_store [OF assms(1)] by (auto simp: set_store_def)
  show ?thesis
  proof (cases e)
    case (Request out status data)
    with assms(2) obtain s p where "proxy_request c out status data px = Inr (s, p, px')"
      by (auto simp: proxy_step_def go_bind_Inr)
    from request_nodes [OF assms(1) this] assms(3) Request show ?thesis by simp
  next
    case (Forward out ct post)
    with assms(2) obtain r where r: "passthrough_plugin (o_net out) (px_registry px) ct post (px_store px) = Inr r"
      and px': "px' = (case r of None \<Rightarrow> px | Some (_, st) \<Rightarrow> set_store st px)"
      by (auto simp: proxy_step_def go_bind_Inr)
    show ?thesis
    proof (cases r)
      case None
      with px' assms(1) show ?thesis by simp
    next
      case (Some x)
      obtain a st where x: "x = (a, st)" by (cases x)
      with r Some passthrough_same have "same_store (px_store px) st" by blast
      with px' Some x show ?thesis by (intro other) auto
    qed
  next
    case (ProbeTimer out r)
    with assms(2) show ?thesis
      by (intro other) (auto simp: proxy_step_def go_bind_Inr intro!: same_store_upd probe_same)
  next
    case (StatTimer out r)
    with assms(2) show ?thesis
      by (intro other) (auto simp: proxy_step_def intro!: same_store_upd maint_stat_same split: prod.splits)
  next
    case (HealthCheck out cc)
    with assms(2) show ?thesis
      by (intro other) (auto simp: proxy_step_def go_bind_Inr dest!: check_same)
  qed
qed

lemma run_nodes:
  assumes "nodes_from A (px_nodes px)" "proxy_run c es px = Inr px'" "set (concat (map asked_node es)) \<subseteq> A"
  shows "nodes_from A (px_nodes px')"
  using assms
proof (induction es arbitrary: px)
  case (Cons e es)
  then obtain px1 where one: "proxy_step c e px = Inr px1" and rest: "proxy_run c es px1 = Inr px'"
    by (auto simp: go_bind_Inr)
  have "nodes_from A (px_nodes px1)" by (rule step_nodes [OF Cons.prems(1) one]) (use Cons.prems(3) in simp)
  with Cons.IH [OF _ rest] Cons.prems(3) show ?case by simp
qed simp

subsection \<open>The start\<close>

text \<open>The nodes of a list that get a client.\<close>

definition with_url :: "(string \<times> json) list list \<Rightarrow> (string \<times> json) list list" where
  "with_url = filter (\<lambda>node. get_cfg_data as_string node ''url'' [] \<noteq> Inr [])"

definition registered :: "(string \<times> json) list list \<Rightarrow> nodes \<Rightarrow> bool" where
  "registered bs ns \<longleftrightarrow> next_id ns = int (length bs) \<and> (\<forall>r \<in> set (registry ns). r < next_ref ns) \<and>
     list_all2 (\<lambda>(i, node) r. configured node (int i) (node_store ns r)) (enumerate 1 bs) (registry ns)"

lemma registered_init: "registered [] nodes_init"
  by (simp add: registered_def nodes_init_def)

lemma registered_added:
  assumes "registered bs ns" "configured node (next_id ns + 1) c"
  shows "registered (bs @ [node]) (added ns c)"
proof -
  let ?Q = "\<lambda>(i, node) r. configured node (int i) (((node_store ns)(next_ref ns := c)) r)"
  have "list_all2 ?Q (enumerate 1 bs) (registry ns)"
    by (rule list.rel_mono_strong [of "\<lambda>(i, node) r. configured node (int i) (node_store ns r)"])
      (use assms(1) in \<open>auto simp: registered_def\<close>)
  moreover have "next_id ns = int (length bs)" "\<forall>r \<in> set (registry ns). r < next_ref ns"
    using assms(1) by (simp_all add: registered_def)
  moreover from this assms(2) have "list_all2 ?Q [(1 + length bs, node)] [next_ref ns]" by (simp add: add.commute)
  ultimately have "list_all2 ?Q (enumerate 1 bs @ [(1 + length bs, node)]) (registry ns @ [next_ref ns])"
    by (intro list_all2_appendI)
  moreover have "enumerate 1 (bs @ [node]) = enumerate 1 bs @ [(1 + length bs, node)]" by (simp add: enumerate_append_eq)
  ultimately have "list_all2 ?Q (enumerate 1 (bs @ [node])) (registry (added ns c))" by (simp only: added_def nodes.simps)
  with \<open>next_id ns = int (length bs)\<close> \<open>\<forall>r \<in> set (registry ns). r < next_ref ns\<close> show ?thesis
    unfolding registered_def by (auto simp: added_def less_SucI)
qed

lemma registered_step:
  assumes "registered bs ns" "NodeRegisterFromConfig w now node ns = Inr (res, ns')"
  shows "registered (bs @ with_url [node]) ns'"
proof -
  have u: "get_cfg_data as_string node ''url'' [] \<noteq> Inr []" if "configured node i c" for i c
    using that by (auto simp: configured_def)
  from register_cases [OF assms(2)] show ?thesis
    using assms(1) registered_added [OF assms(1)] u by (auto simp: with_url_def)
qed

lemma register_nodes_spec:
  assumes "register_nodes env k vs ns = Inr ns'" "registered bs ns"
  shows "\<exists>objs. vs = map JObj objs \<and> registered (bs @ with_url objs) ns'"
  using assms
proof (induction vs arbitrary: k ns bs)
  case Nil
  then show ?case by (auto simp: with_url_def intro!: exI [of _ "[]"])
next
  case (Cons v vs)
  from Cons.prems(1) obtain node res ns1 where v: "v = JObj node"
    and r: "NodeRegisterFromConfig (fst (env k)) (snd (env k)) node ns = Inr (res, ns1)"
    and rest: "register_nodes env (k + 1) vs ns1 = Inr ns'"
    by (auto simp: go_bind_Inr split: json.split_asm)
  from Cons.IH [OF rest registered_step [OF Cons.prems(2) r]] obtain objs where
    "vs = map JObj objs" "registered ((bs @ with_url [node]) @ with_url objs) ns'" by blast
  then show ?case by (intro exI [of _ "node # objs"]) (auto simp: v with_url_def)
qed


lemma missing_nodes_panic:
  "map_of (raw_data c) ''SOL_NODES'' = None \<Longrightarrow> main_start env c = Inl TypeAssertion"
  by (simp add: main_start_def read_node_config_def GetRawData_def gm_get_def)

lemma register_nodes_from:
  assumes "register_nodes env k vs ns = Inr ns'" "nodes_from A ns" "\<forall>node. JObj node \<in> set vs \<longrightarrow> node \<in> A"
  shows "nodes_from A ns'"
  using assms
proof (induction vs arbitrary: k ns)
  case (Cons v vs)
  from Cons.prems(1) obtain node res ns1 where v: "v = JObj node"
    and r: "NodeRegisterFromConfig (fst (env k)) (snd (env k)) node ns = Inr (res, ns1)"
    and rest: "register_nodes env (k + 1) vs ns1 = Inr ns'"
    by (auto simp: go_bind_Inr split: json.split_asm)
  have "nodes_from A ns1" by (rule nodes_from_config [OF Cons.prems(2) r]) (use Cons.prems(3) v in simp)
  with Cons.IH [OF rest] Cons.prems(3) show ?case by simp
qed simp

definition config_nodes :: "cfg \<Rightarrow> (string \<times> json) list set" where
  "config_nodes c = {node. \<exists>vs. map_of (raw_data c) ''SOL_NODES'' = Some (JArr vs) \<and> JObj node \<in> set vs}"

lemma start_nodes:
  assumes "main_start env c = Inr (Some (px, hs, services))"
  shows "nodes_from (config_nodes c) (px_nodes px) \<and> px_pools px = empty_pools"
proof -
  from assms obtain ns where ns: "read_node_config env c nodes_init = Inr (Some ns)"
    and px: "px = \<lparr>px_nodes = ns, px_pools = empty_pools\<rparr>"
    by (auto simp: main_start_def go_bind_Inr)
  from ns obtain vs where v: "map_of (raw_data c) ''SOL_NODES'' = Some (JArr vs)"
    and r: "register_nodes env 0 vs nodes_init = Inr ns"
    by (auto simp: read_node_config_def GetRawData_def gm_get_def go_bind_Inr split: json.split_asm option.split_asm if_split_asm)
  have "nodes_from (config_nodes c) nodes_init" by (simp add: nodes_from_def nodes_ok_def nodes_init_def)
  from register_nodes_from [OF r this] v px show ?thesis by (auto simp: config_nodes_def)
qed

text \<open>C10. The registered clients, whatever happens. From the start on, through any requests to any handlers, forwarded
  posts, probes, statistics and health checks: the numbers of the registered clients are distinct, and each
  has the endpoint, the headers, the kind and the probing time of an entry of the configuration or of an
  admin request. No retry, failure or pause ever changes whom a client talks to or with which credentials.\<close>

theorem clients_stay_configured:
  assumes "main_start env c = Inr (Some (px, hs, services))" "proxy_run c es px = Inr px'"
  shows "distinct (map (\<lambda>r. cl_id (px_store px' r)) (px_registry px')) \<and>
    (\<forall>r \<in> set (px_registry px'). \<exists>node \<in> config_nodes c \<union> set (concat (map asked_node es)).
       configured node (cl_id (px_store px' r)) (px_store px' r))"
proof -
  let ?A = "config_nodes c \<union> set (concat (map asked_node es))"
  have "nodes_from ?A (px_nodes px)" using nodes_from_mono start_nodes [OF assms(1)] by blast
  from run_nodes [OF this assms(2)] show ?thesis by (auto simp: nodes_from_def nodes_ok_def distinct_map)
qed

subsection \<open>The key value store\<close>

definition sets_key :: "string \<Rightarrow> event \<Rightarrow> bool" where
  "sets_key k e =
     (case e of Request out status data \<Rightarrow> GetParam data ''action'' [] = ''keySet'' \<and> GetParam data ''k'' [] = k | _ \<Rightarrow> False)"

lemma KeySet_put:
  "KeySet now k v ttl b p = pool_put p k \<lparr>item_data = v, item_expires = (if ttl > 0 then now + ttl else 0), item_sensitive = b\<rparr>"
  by (simp add: KeySet_def pool_put_def Let_def)

lemma kvstore_effect:
  assumes "handle_kvstore now action data p = (s, q, p')" "pools_ok p" "action = ''keySet'' \<Longrightarrow> GetParam data ''k'' [] \<noteq> k"
  shows "pools_ok p' \<and> pool_lookup p' k = pool_lookup p k"
  using assms kv.lookup_put [OF assms(2)] kv.put_inv [OF assms(2)]
  by (auto simp: handle_kvstore_def KeySet_put Let_def split: if_splits)

lemma step_pools:
  assumes "proxy_step c e px = Inr px'" "pools_ok (px_pools px)" "\<not> sets_key k e"
  shows "pools_ok (px_pools px') \<and> pool_lookup (px_pools px') k = pool_lookup (px_pools px) k"
proof -
  have other: ?thesis if "px_pools px' = px_pools px" using that assms(2) by simp
  show ?thesis
  proof (cases e)
    case (Request out status data)
    let ?a = "GetParam data ''action'' []"
    from assms(1) Request obtain s p where r: "proxy_request c out status data px = Inr (s, p, px')"
      by (auto simp: proxy_step_def go_bind_Inr)
    show ?thesis
    proof (cases "px' = px")
      case False
      with request_effect [OF r] obtain h where h: "HandleAction c out h ?a data px = Inr (s, p, px')" by blast
      show ?thesis
      proof (cases "h = Handle_kvstore")
        case True
        with h have "handle_kvstore (o_now out) ?a data (px_pools px) = (s, p, px_pools px')"
          by (auto simp: HandleAction_def Let_def split: prod.splits)
        from kvstore_effect [OF this assms(2)] assms(3) Request show ?thesis by (auto simp: sets_key_def)
      next
        case False
        with handler_effect [OF h] show ?thesis by (intro other) simp
      qed
    qed (use assms(2) in simp)
  qed (use assms(1,2) in \<open>auto intro!: other simp: proxy_step_def go_bind_Inr set_store_def split: option.splits prod.splits\<close>)
qed

lemma run_pools:
  assumes "proxy_run c es px = Inr px'" "pools_ok (px_pools px)" "\<forall>e \<in> set es. \<not> sets_key k e"
  shows "pools_ok (px_pools px') \<and> pool_lookup (px_pools px') k = pool_lookup (px_pools px) k"
  using assms
proof (induction es arbitrary: px)
  case (Cons e es)
  then obtain px1 where one: "proxy_step c e px = Inr px1" and rest: "proxy_run c es px1 = Inr px'"
    by (auto simp: go_bind_Inr)
  note s = step_pools [OF one Cons.prems(2), of k]
  have "pools_ok (px_pools px1)" using s Cons.prems(3) by simp
  from Cons.IH [OF rest this] s Cons.prems(3) show ?case by simp
qed simp

lemma kv_actions: "handler_of ''keySet'' = Some Handle_kvstore" "handler_of ''keyGet'' = Some Handle_kvstore"
  by (simp_all add: handler_of_iff actions_defs)

lemma request_keySet:
  assumes "Handle_kvstore \<in> set (run_services c)" "GetParam data ''action'' [] = ''keySet''"
  shows "\<exists>s. proxy_request c out status data px = Inr (s, data,
    px\<lparr>px_pools := KeySet (o_now out) (GetParam data ''k'' []) (Some (GetParam data ''v'' [])) (GetParamI data ''ttl'' 3600) False (px_pools px)\<rparr>)"
  using assms by (simp add: proxy_request_handler kv_actions HandleAction_def handle_kvstore_def Let_def)

lemma request_keyGet:
  assumes "Handle_kvstore \<in> set (run_services c)" "GetParam data ''action'' [] = ''keyGet''"
    "pool_lookup (px_pools px) (GetParam data ''k'' []) = Some i" "item_expires i = 0 \<or> o_now out \<le> item_expires i"
    "\<not> item_sensitive i"
  shows "proxy_request c out status data px = Inr ([], data\<lparr>fastreturn := item_data i\<rparr>, px)"
  using assms by (auto simp: proxy_request_handler kv_actions HandleAction_def handle_kvstore_def keyGet_def
      pool_lookup_def gm_get_def Let_def)


subsection \<open>A run\<close>

definition no_mem :: mem_stats where
  "no_mem = \<lparr>ms_Alloc = 0, ms_TotalAlloc = 0, ms_Sys = 0, ms_Lookups = 0, ms_Mallocs = 0, ms_Frees = 0, ms_HeapAlloc = 0,
     ms_HeapSys = 0, ms_HeapIdle = 0, ms_HeapInuse = 0, ms_HeapReleased = 0, ms_HeapObjects = 0, ms_StackInuse = 0,
     ms_StackSys = 0, ms_MSpanInuse = 0, ms_MSpanSys = 0, ms_MCacheInuse = 0, ms_MCacheSys = 0, ms_BuckHashSys = 0,
     ms_OtherSys = 0, ms_NumGC = 0, ms_PauseTotalNs = 0, ms_NextGC = 0, ms_LastGC = 0\<rparr>"

definition outside_at :: "int \<Rightarrow> outside" where
  "outside_at now = \<lparr>o_net = sample_net False [], o_now = now, o_decode_error = id, o_http_get = (\<lambda>_ _. Inl []),
     o_unit_num = (\<lambda>_. 0), o_mem = no_mem, o_goroutines = 1\<rparr>"

definition run_cfg :: cfg where
  "run_cfg = \<lparr>config = [(''BIND_TO'', ''h:1'')], local_interfaces = [], compression_threshold = 4096,
     raw_data = [(''SOL_NODES'', JArr [JObj sample_cfg])]\<rparr>"

definition ask :: "int \<Rightarrow> (string \<times> string) list \<Rightarrow> event" where
  "ask now kvs = Request (outside_at now) (\<lambda>_. []) (fold (\<lambda>(k, v) p. SetParam p k v) kvs CreateHSParams)"

definition run_events :: "event list" where
  "run_events = [StatTimer (outside_at 6) 0, ask 7 [(''action'', ''echo''), (''data'', ''x'')]]"

definition one_client :: "proxy \<Rightarrow> bool" where
  "one_client px \<longleftrightarrow>
     (case proxy_run run_cfg run_events px of
        Inr px' \<Rightarrow> map (\<lambda>r. (cl_id (px_store px' r), endpoint (px_store px' r))) (px_registry px') = [(1, ''http://n'')]
      | Inl _ \<Rightarrow> False)"

lemma run_result:
  "case main_start (\<lambda>_. (sample_net False [], 0)) run_cfg of Inr (Some (px, _)) \<Rightarrow> one_client px | _ \<Rightarrow> False"
  by code_simp

lemma run_started:
  obtains px hs sv where "main_start (\<lambda>_. (sample_net False [], 0)) run_cfg = Inr (Some (px, hs, sv))" "one_client px"
proof (cases "main_start (\<lambda>_. (sample_net False [], 0)) run_cfg")
  case (Inr r)
  with run_result that show thesis by (cases r) auto
qed (use run_result in simp)

lemma clients_stay_configured_witness:
  "\<exists>px hs sv px'. main_start (\<lambda>_. (sample_net False [], 0)) run_cfg = Inr (Some (px, hs, sv)) \<and>
     proxy_run run_cfg run_events px = Inr px' \<and> length (px_registry px') = 1 \<and>
     distinct (map (\<lambda>r. cl_id (px_store px' r)) (px_registry px'))"
proof -
  obtain px hs sv where m: "main_start (\<lambda>_. (sample_net False [], 0)) run_cfg = Inr (Some (px, hs, sv))" and t: "one_client px"
    by (rule run_started)
  show ?thesis
  proof (cases "proxy_run run_cfg run_events px")
    case (Inl e)
    with t show ?thesis by (simp only: one_client_def sum.case)
  next
    case (Inr px')
    with t have "map (\<lambda>r. (cl_id (px_store px' r), endpoint (px_store px' r))) (px_registry px') = [(1, ''http://n'')]"
      by (simp only: one_client_def sum.case)
    from arg_cong [OF this, of length] have "length (px_registry px') = 1" by (simp only: length_map list.size)
    moreover note conjunct1 [OF clients_stay_configured [OF m Inr]]
    ultimately show ?thesis using m Inr by blast
  qed
qed


end
