(* ===== verification/SlabStatus.thy ===== *)
theory SlabStatus
  imports ByteslabsCorrect Byteslabs2 HsCommon
begin

text \<open>
  The pages of the slab allocators, \<open>byteslabs/status.go\<close> and \<open>byteslabs2/status.go\<close>: the table of the chunks
  with their counters, and the short text with the totals. The counters never go below zero, so division
  and remainder are those of Go. Proved: the totals are true. Over any run, \<open>Items Total\<close> is the number
  of allocations of more than 96 bytes and \<open>Failed\<close> the number of those the heap had to serve, although
  no counter counts either: a refused request counts once or twice as out of memory and once as routed.
\<close>

subsection \<open>The table\<close>

definition nl :: string where
  "nl = [CHR 0x0A]"

definition slab_marks :: "bool list \<Rightarrow> string" where
  "slab_marks used = map (\<lambda>u. if u then CHR ''F'' else CHR ''.'') used"

definition items_served :: "mem_chunk \<Rightarrow> int" where
  "items_served mc = stat_alloc_full mc + stat_alloc_full_small mc + stat_alloc_tail mc"

definition oom_cell :: "mem_chunk \<Rightarrow> string" where
  "oom_cell mc =
     (let n = items_served mc;
          percent_oom = (if n > 0 then f_trunc (fmul (fdiv (f_of_int (stat_oom mc)) (f_of_int n)) 1000) else n)
      in ''<span>'' @ itoa (stat_oom mc) @ ''</span> ('' @ itoa (percent_oom div 10) @ ''.'' @ itoa (percent_oom mod 10) @ ''%)'')"

definition routed_cell :: "mem_chunk \<Rightarrow> string" where
  "routed_cell mc =
     (let apr = (if stat_routed mc > 0 then stat_routed_alloc mc * 10 div stat_routed mc else 0)
      in ''<span>'' @ itoa (stat_routed mc) @ ''</span> ('' @ itoa (apr div 10) @ ''.'' @ itoa (apr mod 10) @ '' apr)'')"

definition chunk_row :: "nat \<Rightarrow> mem_chunk \<Rightarrow> string list" where
  "chunk_row k mc =
     [itoa (int k), itoa (stat_alloc_full mc), itoa (stat_alloc_full_small mc), itoa (stat_alloc_tail mc), oom_cell mc,
      ''<pre>'' @ slab_marks (slab_used mc) @ ''</pre>'', routed_cell mc, itoa (stat_routed_alloc mc)]"

definition chunk_table :: "mem_chunk list \<Rightarrow> tablegen" where
  "chunk_table chunks =
     fold (\<lambda>(k, mc). AddRow (chunk_row k mc)) (enumerate 0 chunks)
       (SetClass ''tab salloc'' (NewTableGen [''#'', ''Alloc Full'', ''Full Small'', ''Tail'', ''<span>OOM</span>'', ''Slabs'',
          ''<span>Routed</span>'', ''Routed Alloc'']))"

definition slab_legend :: "nat \<Rightarrow> nat \<Rightarrow> nat \<Rightarrow> string" where
  "slab_legend size_of_slab count_of_slabs pages =
     ''<pre>'' @ ''Slab Allocator. Slab Size: '' @ itoa (int size_of_slab) @ '' x '' @ itoa (int count_of_slabs) @ '' Slabs = ''
     @ itoa (int (size_of_slab * count_of_slabs)) @ '' items per Page. '' @ itoa (int pages) @ '' Pages.'' @ nl
     @ ''Alloc Full - We'' @ [CHR 0x27] @ ''re allocating >1 SLABS, happens at page begin'' @ nl
     @ ''Alloc Full Small - We'' @ [CHR 0x27] @ ''re allocating 1 SLAB, happens at page'' @ [CHR 0x27] @ ''s end to prevent fragmentation'' @ nl
     @ ''Tail - We can put the data into already allocated SLAB'' @ [CHR 0x27] @ ''s tail'' @ nl
     @ ''OOM - Page is out of memory, we'' @ [CHR 0x27] @ ''re using system allocator instead'' @ nl
     @ ''Routed - Allocations was routed to least used slab page, allocations per routing'' @ nl
     @ ''Routed Alloc - Allocations in routed slabs'' @ nl
     @ ''. - Slab is EMPTY; F - Slab is FULL'' @ nl @ ''</pre>''
     @ ''<style>''
     @ ''.salloc td:nth-child(5) span {color: #771111}'' @ nl
     @ ''.salloc td:nth-child(7) span {color: #666633}'' @ nl
     @ ''.salloc thead td:nth-child(5) {background:#ffaaaa}'' @ nl
     @ ''.salloc thead td:nth-child(7) {background:#dddd88}'' @ nl
     @ ''</style>''"

definition slab_title :: string where
  "slab_title = ''Slab Allocator '' @ [CHR 0x5C] @ '' QCompress''"

definition bs_GetStatus :: "bs_conf \<Rightarrow> mem_chunk list \<Rightarrow> string \<times> string" where
  "bs_GetStatus cf mem_chunks =
     (slab_title, slab_legend (slab_size cf) (slab_count cf) (chunk_count cf) @ Render (chunk_table mem_chunks))"

definition bs2_GetStatus :: "bsmanager \<Rightarrow> string \<times> string" where
  "bs2_GetStatus this =
     (slab_title, slab_legend (conf_slab_size this) (conf_slab_count this) (length (bm_chunks this)) @ Render (chunk_table (bm_chunks this)))"

subsection \<open>The short text\<close>

text \<open>\<open>fmt.Sprint\<close> puts no blank between a number and a string.\<close>

definition chunk_line :: "nat \<Rightarrow> mem_chunk \<Rightarrow> string" where
  "chunk_line k v =
     itoa (int k) @ ''Full:'' @ itoa (stat_alloc_full v) @ ''Full Small:'' @ itoa (stat_alloc_full_small v)
     @ ''Tail:'' @ itoa (stat_alloc_tail v) @ ''OOM:'' @ itoa (stat_oom v) @ ''Routed:'' @ itoa (stat_routed v)
     @ ''Slab taken:'' @ itoa (used_slab_count v)"

text \<open>The loop: the lines and the sums of full, small and tail allocations and of failures.\<close>

fun status_loop :: "nat \<Rightarrow> mem_chunk list \<Rightarrow> string list \<times> int \<times> int \<times> int \<times> int \<Rightarrow> string list \<times> int \<times> int \<times> int \<times> int" where
  "status_loop k [] acc = acc"
| "status_loop k (v # vs) (ret, total_f, total_fs, total_t, total_failed) =
     status_loop (k + 1) vs
       (ret @ [chunk_line k v], total_f + stat_alloc_full v, total_fs + stat_alloc_full_small v,
        total_t + stat_alloc_tail v, total_failed + (stat_oom v - stat_routed v))"

definition items_line :: "int \<Rightarrow> int \<Rightarrow> string" where
  "items_line n failed = ''=Items Total: '' @ itoa n @ '', Failed: '' @ itoa failed @ nl"

definition status_lines :: "mem_chunk list \<Rightarrow> string list" where
  "status_lines chunks =
     (let (ret, total_f, total_fs, total_t, total_failed) = status_loop 0 chunks ([''=====''], 0, 0, 0, 0)
      in ret @ [''=Totals ... Full: '' @ itoa total_f @ '' Full Small: '' @ itoa total_fs @ '' Tail: '' @ itoa total_t @ '' '' @ nl,
                items_line (total_f + total_fs + total_t + total_failed) total_failed])"

definition GetStatusStr :: "mem_chunk list \<Rightarrow> string" where
  "GetStatusStr mem_chunks = go_join nl (status_lines mem_chunks)"

text \<open>\<open>byteslabs2\<close> also counts the allocations of all managers, in 32 bits.\<close>

definition count_total :: "nat \<Rightarrow> 32 word \<Rightarrow> 32 word" where
  "count_total req ttT_total = (if req \<le> 96 then ttT_total else ttT_total + 1)"

definition bs2_GetStatusStr :: "bsmanager \<Rightarrow> 32 word \<Rightarrow> string" where
  "bs2_GetStatusStr this ttT_total =
     go_join nl (status_lines (bm_chunks this) @ [''Real Total: '' @ itoa (int (unat ttT_total))])"

subsection \<open>The totals\<close>

definition failed_items :: "mem_chunk \<Rightarrow> int" where
  "failed_items mc = stat_oom mc - stat_routed mc"

definition chunk_sum :: "(mem_chunk \<Rightarrow> int) \<Rightarrow> mem_chunk list \<Rightarrow> int" where
  "chunk_sum f chunks = sum_list (map f chunks)"

lemma chunk_sum_update: "c < length ch \<Longrightarrow> chunk_sum f (ch[c := mc]) = chunk_sum f ch - f (ch ! c) + f mc"
  unfolding chunk_sum_def by (induction ch arbitrary: c) (auto simp: nth_Cons' split: nat.splits)

lemma status_loop_sums:
  "snd (status_loop k ch (ret, a, b, c, d)) =
     (a + chunk_sum stat_alloc_full ch, b + chunk_sum stat_alloc_full_small ch, c + chunk_sum stat_alloc_tail ch,
      d + chunk_sum failed_items ch)"
  by (induction ch arbitrary: k ret a b c d) (simp_all add: chunk_sum_def failed_items_def)

lemma chunk_sum_served:
  "chunk_sum stat_alloc_full ch + chunk_sum stat_alloc_full_small ch + chunk_sum stat_alloc_tail ch = chunk_sum items_served ch"
  by (induction ch) (simp_all add: chunk_sum_def items_served_def)

lemma status_lines_items:
  "\<exists>ls. status_lines ch = ls @ [items_line (chunk_sum items_served ch + chunk_sum failed_items ch) (chunk_sum failed_items ch)]"
proof -
  obtain ret a b c d where l: "status_loop 0 ch ([''=====''], 0, 0, 0, 0) = (ret, a, b, c, d)" by (metis prod_cases5)
  with status_loop_sums [of 0 ch "[''====='']" 0 0 0 0] have "a + b + c = chunk_sum items_served ch" "d = chunk_sum failed_items ch"
    by (simp_all add: chunk_sum_served [symmetric])
  with l show ?thesis by (simp add: status_lines_def)
qed

subsection \<open>What an allocation adds\<close>

text \<open>One attempt in a chunk counts as served or as out of memory, never both.\<close>

lemma allocate_slab_counts:
  assumes "allocate_slab cf al mc req = (r, al', mc')"
  shows "items_served mc' = items_served mc + (if r = None then 0 else 1)"
    "failed_items mc' = failed_items mc + (if r = None then 1 else 0)" "stat_routed mc' = stat_routed mc"
  using assms
  by (auto simp: allocate_slab_def out_of_memory_def alloc_full_def take_slabs_spec items_served_def failed_items_def Let_def
      split: if_splits option.splits prod.splits)

lemma attempt_counts:
  assumes "allocate_slab cf al (ch ! d) req = (r, al', mc)" "d < length ch"
  shows "chunk_sum items_served (ch[d := mc]) = chunk_sum items_served ch + (if r = None then 0 else 1)"
    "chunk_sum failed_items (ch[d := mc]) = chunk_sum failed_items ch + (if r = None then 1 else 0)"
  using allocate_slab_counts [OF assms(1)] assms(2) by (simp_all add: chunk_sum_update)

lemma routed_counts:
  assumes "d < length ch"
  shows "chunk_sum items_served (ch[d := (ch ! d)\<lparr>stat_routed := stat_routed (ch ! d) + 1\<rparr>]) = chunk_sum items_served ch"
    "chunk_sum failed_items (ch[d := (ch ! d)\<lparr>stat_routed := stat_routed (ch ! d) + 1\<rparr>]) = chunk_sum failed_items ch - 1"
  using assms by (simp_all add: chunk_sum_update items_served_def failed_items_def)

lemma release_counts:
  assumes "release_sub al ch = (al', ch')" "al_chunk al < length ch"
  shows "chunk_sum items_served ch' = chunk_sum items_served ch" "chunk_sum failed_items ch' = chunk_sum failed_items ch"
    "length ch' = length ch"
  using assms by (auto simp: release_sub_def Let_def chunk_sum_update items_served_def failed_items_def)

lemma Release_counts:
  assumes "Release a ch = (a', ch')" "\<forall>b \<in> set (subs a). al_chunk b < length ch"
  shows "chunk_sum items_served ch' = chunk_sum items_served ch" "chunk_sum failed_items ch' = chunk_sum failed_items ch"
proof -
  obtain al ch1 where r: "release_sub (main_alloc a) ch = (al, ch1)" by force
  have m: "al_chunk (main_alloc a) < length ch" using assms(2) by (simp add: subs_def)
  note one = release_counts [OF r m]
  have "chunk_sum items_served ch' = chunk_sum items_served ch \<and> chunk_sum failed_items ch' = chunk_sum failed_items ch"
  proof (cases "addl_alloc a")
    case None
    with assms(1) r one show ?thesis by (auto simp: Release_def split: if_splits)
  next
    case (Some ad)
    then have "al_chunk ad < length ch1" using assms(2) one(3) by (simp add: subs_def)
    with release_counts [of ad ch1] Some assms(1) r one show ?thesis
      by (cases "release_sub ad ch1") (auto simp: Release_def split: if_splits)
  qed
  then show "chunk_sum items_served ch' = chunk_sum items_served ch" "chunk_sum failed_items ch' = chunk_sum failed_items ch"
    by simp_all
qed

definition on_heap :: "slice \<Rightarrow> bool" where
  "on_heap sl \<longleftrightarrow> (case sl of HeapMem _ \<Rightarrow> True | Slab _ _ _ \<Rightarrow> False)"

lemma on_heap_simps [simp]: "on_heap (HeapMem n)" "\<not> on_heap (Slab c st sz)"
  by (simp_all add: on_heap_def)

lemma take_additional_chunks:
  assumes "\<forall>b \<in> set (subs a). al_chunk b < length ch"
  shows "\<forall>b \<in> set (subs (take_additional cf ch need a)). al_chunk b < length ch"
  using assms best_chunk_bound [of cf ch 0 "al_chunk (main_alloc a)" need None]
  by (auto simp: take_additional_def subs_def new_sub_def split: option.splits)

lemma allocate_slab_chunk: "allocate_slab cf al mc req = (r, al', mc') \<Longrightarrow> al_chunk al' = al_chunk al"
  by (auto simp: allocate_slab_def out_of_memory_def alloc_full_def take_slabs_spec Let_def
      split: if_splits option.splits prod.splits)

text \<open>An allocation of more than 96 bytes adds one item, and one failure exactly when the heap serves it.\<close>

lemma Allocate_counts:
  assumes r: "Allocate cf ch a req = (sl, a', ch')" and ok: "\<forall>b \<in> set (subs a). al_chunk b < length ch" and req: "96 < req"
  shows "chunk_sum items_served ch' = chunk_sum items_served ch + (if on_heap sl then 0 else 1) \<and>
    chunk_sum failed_items ch' = chunk_sum failed_items ch + (if on_heap sl then 1 else 0)"
proof -
  let ?m = "main_alloc a" and ?c = "al_chunk (main_alloc a)"
  obtain q al mc where s: "allocate_slab cf ?m (ch ! ?c) req = (q, al, mc)" by (metis prod_cases3)
  define a1 ch1 where "a1 = a\<lparr>main_alloc := al\<rparr>" and "ch1 = ch[?c := mc]"
  have c: "?c < length ch" using ok by (simp add: subs_def)
  note one = attempt_counts [OF s c, folded ch1_def]
  show ?thesis
  proof (cases q)
    case (Some z)
    with r s req one show ?thesis by (cases z) (auto simp: Allocate_def Let_def a1_def ch1_def)
  next
    case None
    define a2 where "a2 = (if addl_alloc a1 = None \<and> \<not> is_additional (main_alloc a1)
        then take_additional cf ch1 (int (req div slab_size cf) + 5) a1 else a1)"
    define ch2 where "ch2 = ch1[?c := (ch1 ! ?c)\<lparr>stat_routed := stat_routed (ch1 ! ?c) + 1\<rparr>]"
    have same: "al_chunk al = ?c" using allocate_slab_chunk [OF s] .
    have a1: "\<forall>b \<in> set (subs a1). al_chunk b < length ch1" using ok c same by (auto simp: a1_def ch1_def subs_def)
    have a2: "\<forall>b \<in> set (subs a2). al_chunk b < length ch1" using take_additional_chunks [OF a1] a1 by (simp add: a2_def)
    have two: "chunk_sum items_served ch2 = chunk_sum items_served ch1" "chunk_sum failed_items ch2 = chunk_sum failed_items ch1 - 1"
      "length ch2 = length ch1"
      unfolding ch2_def using c by (simp_all only: routed_counts ch1_def length_list_update)
    have "\<not> req \<le> 96" using req by simp
    note r2 = r [unfolded Allocate_refused [OF this s [unfolded None] a1_def ch1_def a2_def ch2_def]]
    show ?thesis
    proof (cases "addl_alloc a2")
      case None': None
      with r2 one None show ?thesis by auto
    next
      case (Some ad)
      obtain q2 ad' mc2 where s2: "allocate_slab cf ad (ch2 ! al_chunk ad) req = (q2, ad', mc2)" by (metis prod_cases3)
      have "al_chunk ad < length ch2" using a2 two(3) Some by (simp add: subs_def)
      note three = attempt_counts [OF s2 this]
      have "ch' = ch2[al_chunk ad := mc2]" "on_heap sl \<longleftrightarrow> q2 = None" using r2 s2 Some by (auto split: option.splits)
      with three two one None show ?thesis by auto
    qed
  qed
qed

subsection \<open>The totals of a run\<close>

text \<open>A run of the allocators with the number of allocations of more than 96 bytes, and of those served from
  the heap.\<close>

inductive counted :: "bs_conf \<Rightarrow> bs_sys \<Rightarrow> nat \<Rightarrow> nat \<Rightarrow> bool" for cf where
  start: "counted cf (bs_init cf) 0 0"
| make: "counted cf s n f \<Longrightarrow> k = (bs_counter s + 1) mod 2 ^ 32 \<Longrightarrow>
     counted cf (s\<lparr>bs_counter := k, bs_allocs := bs_allocs s @ [(MakeAllocator (bs_chunks s) k, [])]\<rparr>) n f"
| alloc: "counted cf s n f \<Longrightarrow> bs_allocs s = pre @ (a, live) # post \<Longrightarrow>
     Allocate cf (bs_chunks s) a req = (sl, a', ch) \<Longrightarrow>
     counted cf (s\<lparr>bs_chunks := ch, bs_allocs := pre @ (a', sl # live) # post\<rparr>)
       (if req \<le> 96 then n else n + 1) (if 96 < req \<and> on_heap sl then f + 1 else f)"
| release: "counted cf s n f \<Longrightarrow> bs_allocs s = pre @ (a, live) # post \<Longrightarrow> Release a (bs_chunks s) = (a', ch) \<Longrightarrow>
     counted cf (s\<lparr>bs_chunks := ch, bs_allocs := pre @ (a', []) # post\<rparr>) n f"

lemma counted_reachable: "counted cf s n f \<Longrightarrow> bs_reachable cf s"
proof (induction rule: counted.induct)
  case start
  show ?case by (rule bs_reachable.init)
next
  case (make s n f k)
  from bs_reachable.step [OF make(3) bs_step.make [OF make(2)]] show ?case .
next
  case (alloc s n f pre a live post req sl a' ch)
  from bs_reachable.step [OF alloc(4) bs_step.alloc [OF alloc(2,3)]] show ?case .
next
  case (release s n f pre a live post a' ch)
  from bs_reachable.step [OF release(4) bs_step.release [OF release(2,3)]] show ?case .
qed

lemma chunks_in_range:
  assumes "bs_reachable cf s" "0 < slab_size cf" "0 < chunk_count cf" "bs_allocs s = pre @ (a, live) # post"
  shows "\<forall>b \<in> set (subs a). al_chunk b < length (bs_chunks s)"
  using bs_inv_reachable [OF assms(1-3)] assms(4) by (auto simp: bs_inv_def bs_ok_def all_subs_def)

lemma chunk_sum_make: "chunk_sum items_served (bs_make cf) = 0" "chunk_sum failed_items (bs_make cf) = 0"
  by (simp_all add: chunk_sum_def bs_make_def new_chunk_def items_served_def failed_items_def sum_list_replicate)

lemma counted_sums:
  assumes "counted cf s n f" "0 < slab_size cf" "0 < chunk_count cf"
  shows "chunk_sum items_served (bs_chunks s) + chunk_sum failed_items (bs_chunks s) = int n \<and>
    chunk_sum failed_items (bs_chunks s) = int f"
  using assms(1)
proof (induction rule: counted.induct)
  case start
  show ?case by (simp add: bs_init_def chunk_sum_make)
next
  case (alloc s n f pre a live post req sl a' ch)
  note range = chunks_in_range [OF counted_reachable [OF alloc(1)] assms(2,3) alloc(2)]
  show ?case
  proof (cases "req \<le> 96")
    case True
    with alloc show ?thesis by (auto simp: Allocate_def)
  next
    case False
    with Allocate_counts [OF alloc(3) range] alloc(4) show ?thesis by auto
  qed
next
  case (release s n f pre a live post a' ch)
  from Release_counts [OF release(3) chunks_in_range [OF counted_reachable [OF release(1)] assms(2,3) release(2)]] release(4)
  show ?case by simp
qed simp

lemma counted_line:
  assumes "counted cf s n f" "0 < slab_size cf" "0 < chunk_count cf"
  shows "\<exists>ls. status_lines (bs_chunks s) = ls @ [items_line (int n) (int f)]"
  using status_lines_items [of "bs_chunks s"] counted_sums [OF assms] by metis

lemma go_join_snoc: "xs \<noteq> [] \<Longrightarrow> go_join sep (xs @ [x]) = go_join sep xs @ sep @ x"
  by (induction xs) (simp, case_tac xs, simp_all)

lemma go_join_snoc2: "go_join sep (xs @ [x, y]) = go_join sep (xs @ [x]) @ sep @ y"
  using go_join_snoc [of "xs @ [x]" sep y] by simp

text \<open>C22. The page tells the truth. Whatever the allocators of the server did, the text ends with the number of
  allocations of more than 96 bytes and the number of those that no chunk could serve.\<close>

theorem slab_totals_true:
  assumes "counted cf s n f" "0 < slab_size cf" "0 < chunk_count cf"
  shows "\<exists>ls. GetStatusStr (bs_chunks s) =
    ls @ ''=Items Total: '' @ itoa (int n) @ '', Failed: '' @ itoa (int f) @ [CHR 0x0A]"
proof -
  obtain ls where l: "status_lines (bs_chunks s) = ls @ [items_line (int n) (int f)]" using counted_line [OF assms] by blast
  show ?thesis by (cases "ls = []") (auto simp: GetStatusStr_def l go_join_snoc items_line_def nl_def)
qed

subsection \<open>A manager of byteslabs2\<close>

text \<open>A run of one manager, with the counters of all allocators and of all allocations, and the two numbers as
  above.\<close>

inductive manager_run :: "bsmanager \<Rightarrow> bsmanager \<Rightarrow> nat \<Rightarrow> (allocator \<times> slice list) list \<Rightarrow> 32 word \<Rightarrow> nat \<Rightarrow> nat \<Rightarrow> bool" for m0 where
  start: "manager_run m0 m0 0 [] 0 0 0"
| make: "manager_run m0 m k as t n f \<Longrightarrow> bs2_MakeAllocator m k = (Some a, k') \<Longrightarrow> manager_run m0 m k' (as @ [(a, [])]) t n f"
| alloc: "manager_run m0 m k (pre @ (a, live) # post) t n f \<Longrightarrow> bs2_Allocate m a req = (sl, a', m') \<Longrightarrow>
     manager_run m0 m' k (pre @ (a', sl # live) # post) (count_total req t)
       (if req \<le> 96 then n else n + 1) (if 96 < req \<and> on_heap sl then f + 1 else f)"
| release: "manager_run m0 m k (pre @ (a, live) # post) t n f \<Longrightarrow> bs2_Release a m = (a', m') \<Longrightarrow>
     manager_run m0 m' k (pre @ (a', []) # post) t n f"

definition as_run :: "bsmanager \<Rightarrow> nat \<Rightarrow> (allocator \<times> slice list) list \<Rightarrow> bs_sys" where
  "as_run m k as = \<lparr>bs_chunks = bm_chunks m, bs_counter = k, bs_allocs = as\<rparr>"

lemma as_run_simps [simp]:
  "bs_chunks (as_run m k as) = bm_chunks m" "bs_counter (as_run m k as) = k" "bs_allocs (as_run m k as) = as"
  "(as_run m k as)\<lparr>bs_counter := k', bs_allocs := as'\<rparr> = as_run m k' as'"
  "(as_run m k as)\<lparr>bs_chunks := bm_chunks m', bs_allocs := as'\<rparr> = as_run m' k as'"
  by (simp_all add: as_run_def)

text \<open>It is a run of \<open>Byteslabs\<close>.\<close>

lemma manager_run_counted:
  assumes "manager_run (bs2_Make pages sz ct) m k as t n f"
  shows "bm_conf m = \<lparr>chunk_count = pages, slab_size = sz, slab_count = ct\<rparr> \<and> counted (bm_conf m) (as_run m k as) n f \<and>
    t = word_of_nat n"
  using assms
proof (induction rule: manager_run.induct)
  case start
  have "as_run (bs2_Make pages sz ct) 0 [] = bs_init (bm_conf (bs2_Make pages sz ct))"
    by (simp add: as_run_def bs_init_def bs2_Make_agrees)
  then show ?case using counted.start by (simp add: bm_conf_def) (simp add: bs2_Make_def)
next
  case (make m k as t n f a k')
  have a: "a = MakeAllocator (bm_chunks m) ((k + 1) mod 2 ^ 32)" "k' = (k + 1) mod 2 ^ 32"
    using make(2) bs2_MakeAllocator_agrees [of m k] by (auto simp: bs2_MakeAllocator_def Let_def split: if_splits)
  from make(3) have "counted (bm_conf m) (as_run m k as) n f" by blast
  from counted.make [OF this, of k'] a make(3) show ?case by simp
next
  case (alloc m k pre a live post t n f req sl a' m')
  have g: "Allocate (bm_conf m) (bs_chunks (as_run m k (pre @ (a, live) # post))) a req = (sl, a', bm_chunks m')" "bm_conf m' = bm_conf m"
    using bs2_Allocate_agrees [of m a req] alloc(2) by simp_all
  from alloc(3) have "counted (bm_conf m) (as_run m k (pre @ (a, live) # post)) n f" by blast
  from counted.alloc [OF this _ g(1)] g(2) alloc(3) show ?case by (simp add: count_total_def)
next
  case (release m k pre a live post t n f a' m')
  have g: "Release a (bs_chunks (as_run m k (pre @ (a, live) # post))) = (a', bm_chunks m')" "bm_conf m' = bm_conf m"
    using bs2_Release_agrees [of a m] release(2) by simp_all
  from release(3) have "counted (bm_conf m) (as_run m k (pre @ (a, live) # post)) n f" by blast
  from counted.release [OF this _ g(1)] g(2) release(3) show ?case by simp
qed

text \<open>The last line of the second page counts independently, and agrees with the line before: a manager that has
  the counter of allocations for itself shows the same number twice, up to the 32 bits of the counter.\<close>

theorem real_total_agrees:
  assumes "manager_run (bs2_Make pages sz ct) m k as t n f" "0 < pages" "0 < sz"
  shows "\<exists>ls. bs2_GetStatusStr m t =
    ls @ ''=Items Total: '' @ itoa (int n) @ '', Failed: '' @ itoa (int f) @ [CHR 0x0A] @ [CHR 0x0A] @ ''Real Total: '' @ itoa (int (n mod 2 ^ 32))"
proof -
  note r = manager_run_counted [OF assms(1)]
  with assms(2,3) obtain ls where l: "status_lines (bm_chunks m) = ls @ [items_line (int n) (int f)]"
    using counted_line [of "bm_conf m" "as_run m k as" n f] by fastforce
  have "unat t = n mod 2 ^ 32" using r by (simp add: unat_of_nat)
  with l show ?thesis by (cases "ls = []") (auto simp: bs2_GetStatusStr_def go_join_snoc go_join_snoc2 items_line_def nl_def)
qed

subsection \<open>A run\<close>

text \<open>One chunk of two slabs: a small request, one of 1500 bytes and one of 400, which the heap serves although
  the second slab has room.\<close>

definition ex_one :: bs_conf where
  "ex_one = \<lparr>chunk_count = 1, slab_size = 1000, slab_count = 2\<rparr>"

definition ex_ask :: "nat \<Rightarrow> bs_sys \<times> nat \<times> nat \<Rightarrow> bs_sys \<times> nat \<times> nat" where
  "ex_ask req = (\<lambda>(s, n, f).
     case bs_allocs s of
       [] \<Rightarrow> (s, n, f)
     | (a, live) # as \<Rightarrow>
         (let (sl, a', ch) = Allocate ex_one (bs_chunks s) a req
          in (s\<lparr>bs_chunks := ch, bs_allocs := (a', sl # live) # as\<rparr>,
              if req \<le> 96 then n else n + 1, if 96 < req \<and> on_heap sl then f + 1 else f)))"

lemma ex_ask_counted:
  assumes "case r of (s, n, f) \<Rightarrow> counted ex_one s n f"
  shows "case ex_ask req r of (s, n, f) \<Rightarrow> counted ex_one s n f"
proof -
  obtain s n f where r: "r = (s, n, f)" by (cases r)
  show ?thesis
  proof (cases "bs_allocs s")
    case Nil
    with r assms show ?thesis by (simp add: ex_ask_def)
  next
    case (Cons al as)
    obtain a live where al: "al = (a, live)" by (cases al)
    obtain sl a' ch where q: "Allocate ex_one (bs_chunks s) a req = (sl, a', ch)" by (metis prod_cases3)
    have "counted ex_one s n f" "bs_allocs s = [] @ (a, live) # as" using r assms Cons al by simp_all
    from counted.alloc [OF this q] show ?thesis by (simp add: ex_ask_def r Cons al q)
  qed
qed

definition ex_run :: "bs_sys \<times> nat \<times> nat" where
  "ex_run = ex_ask 400 (ex_ask 1500 (ex_ask 50
     (\<lparr>bs_chunks = bs_make ex_one, bs_counter = 1, bs_allocs = [(MakeAllocator (bs_make ex_one) 1, [])]\<rparr>, 0, 0)))"

lemma ex_run_counted: "case ex_run of (s, n, f) \<Rightarrow> counted ex_one s n f"
proof -
  have "counted ex_one \<lparr>bs_chunks = bs_make ex_one, bs_counter = 1, bs_allocs = [(MakeAllocator (bs_make ex_one) 1, [])]\<rparr> 0 0"
    using counted.make [OF counted.start, of 1 ex_one] by (simp add: bs_init_def)
  then show ?thesis unfolding ex_run_def by (intro ex_ask_counted) simp
qed

lemma slab_totals_true_witness:
  "\<exists>ls. snd ex_run = (2, 1) \<and> GetStatusStr (bs_chunks (fst ex_run)) = ls @ ''=Items Total: 2, Failed: 1'' @ [CHR 0x0A]"
proof -
  have n: "snd ex_run = (2, 1)" by code_simp
  then have "ex_run = (fst ex_run, 2, 1)" by (metis prod.collapse)
  with ex_run_counted have "counted ex_one (fst ex_run) 2 1" by (metis case_prod_conv)
  moreover have "itoa (int 2) = ''2''" "itoa (int 1) = ''1''" by code_simp+
  ultimately show ?thesis using slab_totals_true [of ex_one "fst ex_run" 2 1] n by (simp add: ex_one_def)
qed

end
