(* ===== verification/ConfigWatch.thy ===== *)
theory ConfigWatch
  imports ConfigFile
begin

text \<open>
  How the configuration stays current: \<open>attachOnChange\<close>, \<open>ReadConfig\<close>, \<open>Config\<close> and the goroutine of
  \<open>config.go\<close> that looks at the file every five seconds, with the reading of the file of \<open>config_loader.go\<close>.
  What the file system answers at each call is a parameter, as are the interfaces and the order of the map.
  Proved: the configuration in force is always one that a file had as a whole, and it follows the file as
  long as a change of the content changes its size or its second of modification; and the ways in which a
  change is missed.
\<close>

subsection \<open>Reading the file\<close>

text \<open>The size and the time of modification in seconds, from \<open>os.Stat\<close>.\<close>

type_synonym stamp = "int \<times> int"

record loaded =
  ld_cfg :: cfg
  cfg_file_path :: string
  cfg_file_stamp :: stamp

record 'cb watcher =
  wt_config :: "loaded option"
  cfg_initialized :: bool
  cfg_onchange :: "'cb list"
  cfg_debug :: bool
  cfg_verbose :: bool

definition watcher_init :: "'cb watcher" where
  "watcher_init = \<lparr>wt_config = None, cfg_initialized = False, cfg_onchange = [], cfg_debug = False, cfg_verbose = False\<rparr>"

text \<open>The path: the first argument or \<open>conf.json\<close>, and without a slash in the directory of the program when
  that is known.\<close>

definition conf_path :: "string list \<Rightarrow> string option \<Rightarrow> string" where
  "conf_path args exe_dir =
     (let p = (if length args \<ge> 2 then args ! 1 else ''conf.json'')
      in if CHR ''/'' \<in> set p then p
         else (case exe_dir of Some dir \<Rightarrow> dir @ ''/'' @ p | None \<Rightarrow> p))"

text \<open>What the calls of one reading find: the content, the result of \<open>os.Stat\<close> after it, the addresses of the
  interfaces and the order of the map.\<close>

record reading =
  rd_data :: "string option"
  rd_stat :: "stamp option"
  rd_addrs :: "net_addr list"
  rd_order :: "string list"

text \<open>The reading and the two adjustments that follow it in both callers. No value is the error of
  \<open>os.ReadFile\<close>; a missing result of \<open>os.Stat\<close> is dereferenced. The debug flags are those of the file.\<close>

definition read_file :: "string \<Rightarrow> reading \<Rightarrow> 'cb watcher \<Rightarrow> (loaded \<times> 'cb watcher) option go" where
  "read_file path r w =
     (case rd_data r of
        None \<Rightarrow> Inr None
      | Some data \<Rightarrow>
          (case rd_stat r of
             None \<Rightarrow> Inl NilDereference
           | Some st \<Rightarrow>
               (let conf = config (cfg_load_config data)
                in Inr (Some (\<lparr>ld_cfg = ReadConfig data (rd_addrs r) (rd_order r), cfg_file_path = path, cfg_file_stamp = st\<rparr>,
                     w\<lparr>cfg_debug := (map_of conf ''DEBUG'' = Some ''1''), cfg_verbose := (map_of conf ''VERBOSE'' = Some ''1'')\<rparr>)))))"

text \<open>\<open>ReadConfig\<close>: once; no value is the exit of the process with status 1.\<close>

definition read_config :: "string \<Rightarrow> reading \<Rightarrow> 'cb watcher \<Rightarrow> 'cb watcher option go" where
  "read_config path r w =
     (if cfg_initialized w then Inr (Some w)
      else
        go_bind (read_file path r (w\<lparr>cfg_initialized := True\<rparr>)) (\<lambda>q. case q of
          None \<Rightarrow> Inr None
        | Some (ld, w1) \<Rightarrow> Inr (Some (w1\<lparr>wt_config := Some ld\<rparr>))))"

text \<open>\<open>Config\<close>; without a configuration after \<open>ReadConfig\<close> the type assertion panics.\<close>

definition get_config :: "string \<Rightarrow> reading \<Rightarrow> 'cb watcher \<Rightarrow> (cfg \<times> 'cb watcher) option go" where
  "get_config path r w =
     (case wt_config w of
        Some ld \<Rightarrow> Inr (Some (ld_cfg ld, w))
      | None \<Rightarrow>
          go_bind (read_config path r w) (\<lambda>q. case q of
            None \<Rightarrow> Inr None
          | Some w1 \<Rightarrow> (case wt_config w1 of Some ld \<Rightarrow> Inr (Some (ld_cfg ld, w1)) | None \<Rightarrow> Inl TypeAssertion)))"

subsection \<open>Changes\<close>

text \<open>\<open>attachOnChange\<close>: the callbacks it calls itself.\<close>

definition attachOnChange :: "'cb \<Rightarrow> 'cb watcher \<Rightarrow> 'cb list \<times> 'cb watcher" where
  "attachOnChange callback w =
     (if cfg_initialized w then [callback] else [], w\<lparr>cfg_onchange := cfg_onchange w @ [callback]\<rparr>)"

text \<open>The goroutines that call the callbacks share the variable of the loop that starts them: the \<open>i\<close>-th calls
  what the variable holds when it runs, the entry \<open>pos i\<close>, its own or a later one.\<close>

definition call_order :: "(nat \<Rightarrow> nat) \<Rightarrow> nat \<Rightarrow> bool" where
  "call_order pos n \<longleftrightarrow> (\<forall>i < n. i \<le> pos i \<and> pos i < n)"

definition run_callbacks :: "(nat \<Rightarrow> nat) \<Rightarrow> 'cb list \<Rightarrow> 'cb list" where
  "run_callbacks pos cbs = map (\<lambda>i. cbs ! pos i) [0..<length cbs]"

text \<open>One look of the goroutine: \<open>st\<close> is its own \<open>os.Stat\<close>.\<close>

definition watch_tick :: "stamp option \<Rightarrow> reading \<Rightarrow> (nat \<Rightarrow> nat) \<Rightarrow> 'cb watcher \<Rightarrow> ('cb list \<times> 'cb watcher) go" where
  "watch_tick st r pos w =
     (case wt_config w of
        None \<Rightarrow> Inl TypeAssertion
      | Some ld \<Rightarrow>
          (case st of
             None \<Rightarrow> Inr ([], w)
           | Some (sz, modified) \<Rightarrow>
               if \<not> cfg_initialized w then Inr ([], w)
               else if \<not> (fst (cfg_file_stamp ld) \<noteq> sz \<or> snd (cfg_file_stamp ld) \<noteq> modified) then Inr ([], w)
               else
                 go_bind (read_file (cfg_file_path ld) r w) (\<lambda>q. case q of
                   None \<Rightarrow> Inr ([], w)
                 | Some (tmp, w1) \<Rightarrow>
                     Inr (run_callbacks pos (cfg_onchange w1), w1\<lparr>wt_config := Some tmp\<rparr>))))"

subsection \<open>The configuration follows the file\<close>

record conf_file =
  cf_content :: string
  cf_stamp :: stamp

text \<open>A look during which the file does not change.\<close>

definition reads :: "conf_file option \<Rightarrow> reading \<Rightarrow> bool" where
  "reads f r \<longleftrightarrow> rd_data r = map_option cf_content f \<and> rd_stat r = map_option cf_stamp f"

inductive watched :: "conf_file list \<Rightarrow> 'cb watcher \<Rightarrow> bool" where
  start: "reads (Some f) r \<Longrightarrow> read_config path r watcher_init = Inr (Some w) \<Longrightarrow> watched [f] w"
| attach: "watched fs w \<Longrightarrow> attachOnChange cb w = (called, w') \<Longrightarrow> watched fs w'"
| absent: "watched fs w \<Longrightarrow> reads None r \<Longrightarrow> watch_tick None r pos w = Inr (called, w') \<Longrightarrow> watched fs w'"
| look: "watched fs w \<Longrightarrow> reads (Some f) r \<Longrightarrow> watch_tick (Some (cf_stamp f)) r pos w = Inr (called, w') \<Longrightarrow>
     watched (fs @ [f]) w'"

text \<open>The configuration is that of one of the files seen, which has the stamp of the last one.\<close>

definition holds_file :: "conf_file \<Rightarrow> 'cb watcher \<Rightarrow> bool" where
  "holds_file f w \<longleftrightarrow> cfg_initialized w \<and>
     (\<exists>addrs ks path. wt_config w = Some \<lparr>ld_cfg = ReadConfig (cf_content f) addrs ks, cfg_file_path = path, cfg_file_stamp = cf_stamp f\<rparr>)"

lemma read_file_holds:
  assumes "reads (Some f) r"
  shows "\<exists>d v. read_file path r w =
    Inr (Some (\<lparr>ld_cfg = ReadConfig (cf_content f) (rd_addrs r) (rd_order r), cfg_file_path = path, cfg_file_stamp = cf_stamp f\<rparr>,
      w\<lparr>cfg_debug := d, cfg_verbose := v\<rparr>))"
  using assms by (auto simp: reads_def read_file_def Let_def)

lemma look_holds:
  assumes "holds_file g w" "reads (Some f) r" "watch_tick (Some (cf_stamp f)) r pos w = Inr (called, w')"
  shows "holds_file f w' \<or> (w' = w \<and> cf_stamp g = cf_stamp f)"
proof -
  obtain addrs ks path where w: "cfg_initialized w"
    "wt_config w = Some \<lparr>ld_cfg = ReadConfig (cf_content g) addrs ks, cfg_file_path = path, cfg_file_stamp = cf_stamp g\<rparr>"
    using assms(1) by (auto simp: holds_file_def)
  obtain d v where rf: "read_file path r w =
    Inr (Some (\<lparr>ld_cfg = ReadConfig (cf_content f) (rd_addrs r) (rd_order r), cfg_file_path = path, cfg_file_stamp = cf_stamp f\<rparr>,
      w\<lparr>cfg_debug := d, cfg_verbose := v\<rparr>))"
    using read_file_holds [OF assms(2)] by blast
  show ?thesis
  proof (cases "cf_stamp g = cf_stamp f")
    case True
    with assms(3) w show ?thesis by (cases "cf_stamp f") (simp add: watch_tick_def)
  next
    case False
    with assms(3) w rf have "w' = w\<lparr>cfg_debug := d, cfg_verbose := v, wt_config := Some \<lparr>ld_cfg = ReadConfig (cf_content f) (rd_addrs r) (rd_order r),
        cfg_file_path = path, cfg_file_stamp = cf_stamp f\<rparr>\<rparr>"
      by (cases "cf_stamp f"; cases "cf_stamp g") (auto simp: watch_tick_def)
    with w(1) show ?thesis by (auto simp: holds_file_def)
  qed
qed

lemma watched_holds: "watched fs w \<Longrightarrow> \<exists>g \<in> set fs. holds_file g w \<and> cf_stamp g = cf_stamp (last fs)"
proof (induction rule: watched.induct)
  case (start f r path w)
  then have "cfg_initialized w \<and> wt_config w =
      Some \<lparr>ld_cfg = ReadConfig (cf_content f) (rd_addrs r) (rd_order r), cfg_file_path = path, cfg_file_stamp = cf_stamp f\<rparr>"
    by (auto simp: read_config_def read_file_def reads_def watcher_init_def Let_def)
  then have "holds_file f w" unfolding holds_file_def by blast
  then show ?case by simp
next
  case (attach fs w cb called w')
  then obtain g where "g \<in> set fs" "holds_file g w" "cf_stamp g = cf_stamp (last fs)" by blast
  moreover from attach(2) have "cfg_initialized w' = cfg_initialized w" "wt_config w' = wt_config w"
    by (auto simp: attachOnChange_def)
  moreover from calculation have "holds_file g w'" by (simp only: holds_file_def)
  ultimately show ?case by blast
next
  case (absent fs w r pos called w')
  then show ?case by (auto simp: watch_tick_def split: option.splits)
next
  case (look fs w f r pos called w')
  from look(4) obtain g where g: "g \<in> set fs" "holds_file g w" "cf_stamp g = cf_stamp (last fs)" by blast
  from look_holds [OF g(2) look(2,3)] g show ?case by auto
qed


text \<open>Two ways to miss a change. A file with the same size, written in the same second, is never read. And a
  file that is replaced between the reading and the \<open>os.Stat\<close> after it leaves the old content with the stamp
  of the new one: however often the goroutine looks, the old configuration stays.\<close>

theorem stale_config_kept:
  assumes "rd_data r = Some old" "rd_stat r = Some (cf_stamp new)" "read_config path r watcher_init = Inr (Some w)"
  shows "map_option ld_cfg (wt_config w) = Some (ReadConfig old (rd_addrs r) (rd_order r)) \<and>
    watch_tick (Some (cf_stamp new)) r' pos w = Inr ([], w)"
proof -
  from assms have "wt_config w = Some \<lparr>ld_cfg = ReadConfig old (rd_addrs r) (rd_order r), cfg_file_path = path, cfg_file_stamp = cf_stamp new\<rparr>"
    by (auto simp: read_config_def read_file_def watcher_init_def Let_def)
  then show ?thesis by (cases "cf_stamp new") (simp add: watch_tick_def)
qed

text \<open>The callbacks: when the goroutines run after the loop has ended, each calls the last callback. Only the last
  one is sure to be called.\<close>

lemma last_callback_called:
  assumes "call_order pos (length cbs)" "cbs \<noteq> []"
  shows "last cbs \<in> set (run_callbacks pos cbs)"
proof -
  let ?i = "length cbs - 1"
  have "?i < length cbs" using assms(2) by simp
  with assms(1) have "pos ?i = ?i" unfolding call_order_def by (metis Suc_diff_1 le_antisym less_Suc_eq_le length_greater_0_conv assms(2))
  with \<open>?i < length cbs\<close> have "run_callbacks pos cbs ! ?i = last cbs" "?i < length (run_callbacks pos cbs)"
    using assms(2) by (simp_all add: run_callbacks_def last_conv_nth)
  then show ?thesis by (metis nth_mem)
qed

theorem callbacks_share_variable:
  "call_order (\<lambda>_. length cbs - 1) (length cbs) \<and> run_callbacks (\<lambda>_. length cbs - 1) cbs = replicate (length cbs) (last cbs)"
  by (cases "cbs = []") (auto simp: call_order_def run_callbacks_def last_conv_nth map_replicate_const)

subsection \<open>A change of the file\<close>

definition debug_file :: "string \<Rightarrow> int \<Rightarrow> conf_file" where
  "debug_file v time =
     \<lparr>cf_content = ''{'' @ [CHR 0x22] @ ''DEBUG'' @ [CHR 0x22] @ '':'' @ [CHR 0x22] @ v @ [CHR 0x22] @ ''}'', cf_stamp = (13, time)\<rparr>"

definition reading_of :: "conf_file \<Rightarrow> reading" where
  "reading_of f = \<lparr>rd_data = Some (cf_content f), rd_stat = Some (cf_stamp f), rd_addrs = [], rd_order = []\<rparr>"

lemma reading_of [simp]: "reads (Some f) (reading_of f)"
  by (simp add: reads_def reading_of_def)


lemma stale_config_kept_witness:
  "\<exists>w :: nat watcher. map_option ld_cfg (wt_config w) = Some (ReadConfig (cf_content (debug_file ''0'' 100)) [] []) \<and>
     watch_tick (Some (cf_stamp (debug_file ''1'' 200))) (reading_of (debug_file ''1'' 200)) id w = Inr ([], w)"
proof -
  let ?f = "debug_file ''0'' 100" and ?g = "debug_file ''1'' 200"
  let ?r = "(reading_of ?f)\<lparr>rd_stat := Some (cf_stamp ?g)\<rparr>"
  obtain w :: "nat watcher" where w: "read_config [] ?r watcher_init = Inr (Some w)"
    by (simp add: read_config_def read_file_def reading_of_def watcher_init_def Let_def)
  have "rd_data ?r = Some (cf_content ?f)" "rd_stat ?r = Some (cf_stamp ?g)" by (simp_all add: reading_of_def)
  from stale_config_kept [OF this w, of "reading_of ?g" id] have
    "map_option ld_cfg (wt_config w) = Some (ReadConfig (cf_content ?f) [] [])"
    "watch_tick (Some (cf_stamp ?g)) (reading_of ?g) id w = Inr ([], w)"
    by (simp_all add: reading_of_def del: map_option_eq_Some)
  then show ?thesis by blast
qed

end
