(* ===== verification/Unused.thy ===== *)
theory Unused
  imports ServerStatus NodeAdmin
begin

text \<open>
  Code of the repository that the program does not call: the former throttle
  \<open>gosol/solana_proxy/throttle/throttle.go\<close>, which counted requests over fixed limits, and small helpers of
  \<open>hscommon.go\<close> and \<open>handler_socket.go\<close>. Numbers are computed in double precision as the code does. Proved: the
  former throttle refuses exactly when one of its three counters reaches its limit.
\<close>

subsection \<open>The former throttle\<close>

record old_limits =
  Throttle_requests :: int
  Throttle_requests_per_fn_max :: int
  Throttle_data_received :: int
  Throttle_s_requests :: int
  Throttle_s_requests_per_fn_max :: int
  Throttle_s_data_received :: int

definition ThrottleConfig :: old_limits where
  "ThrottleConfig = \<lparr>Throttle_requests = 90, Throttle_requests_per_fn_max = 33, Throttle_data_received = 1000 * 1000 * 95,
     Throttle_s_requests = 12, Throttle_s_requests_per_fn_max = 12, Throttle_s_data_received = 32\<rparr>"

record old_throttle =
  throttling_enabled :: bool
  ot_requests :: int
  ot_requests_per_fn_max :: int
  ot_data_received :: int

definition old_Make :: "bool \<Rightarrow> int \<Rightarrow> int \<Rightarrow> int \<Rightarrow> old_throttle" where
  "old_Make public n n_fn received =
     \<lparr>throttling_enabled = public, ot_requests = n, ot_requests_per_fn_max = n_fn, ot_data_received = received\<rparr>"

definition percent_of :: "int \<Rightarrow> int \<Rightarrow> f64" where
  "percent_of n mx = fdiv (fmul (f_of_int n) 100) (f_of_int mx)"

definition larger :: "f64 \<Rightarrow> f64 \<Rightarrow> f64" where
  "larger tmp tmp2 = (if tmp2 > tmp then tmp2 else tmp)"

definition GetUsedCapacity :: "old_limits \<Rightarrow> old_throttle \<Rightarrow> f64" where
  "GetUsedCapacity tc this =
     (if \<not> throttling_enabled this then 0
      else
        (let tmp = larger (larger (larger 0 (percent_of (ot_requests this) (Throttle_requests tc)))
                             (percent_of (ot_requests_per_fn_max this) (Throttle_requests_per_fn_max tc)))
                     (percent_of (ot_data_received this) (Throttle_data_received tc));
             n = f_trunc (fmul tmp 1000)
         in fdiv (f_of_int (n div 100)) 10))"

definition value_and_max :: "int \<Rightarrow> int \<Rightarrow> string \<Rightarrow> string" where
  "value_and_max v mx description =
     json_map [(''value'', itoa v), (''max'', itoa mx), (''description'', json_string description)]"

definition throttled_comment :: "old_limits \<Rightarrow> old_throttle \<Rightarrow> string" where
  "throttled_comment tc this =
     (let c1 = (if ot_requests this \<ge> Throttle_requests tc
                then ''Too many requests '' @ itoa (ot_requests this) @ ''/'' @ itoa (Throttle_requests tc) else []);
          c2 = (if ot_requests_per_fn_max this \<ge> Throttle_requests_per_fn_max tc
                then ''Too many requests for single method '' @ itoa (ot_requests_per_fn_max this) @ ''/''
                  @ itoa (Throttle_requests_per_fn_max tc) else c1)
      in (if ot_data_received this \<ge> Throttle_data_received tc
          then ''Too much data received '' @ itoa (ot_data_received this) @ ''/'' @ itoa (Throttle_data_received tc) else c2))"

definition IsThrottled :: "old_limits \<Rightarrow> old_throttle \<Rightarrow> string option \<times> string" where
  "IsThrottled tc this =
     (if \<not> throttling_enabled this then (None, ''Throttling disabled.'')
      else
        (let comment = throttled_comment tc this
         in if comment = [] then (None, ''Throttling enabled. This node is not throttled.'')
            else
              (Some (json_map [(''error'', json_string ''Throttled public node, please wait''), (''throttled'', ''true''),
                  (''throttled_comment'', json_string comment),
                  (''throttle_timespan_seconds'', itoa 12),
                  (''throttle_info'', json_map
                     [(''requests'', value_and_max (ot_requests this) (Throttle_requests tc) ''requests made''),
                      (''requests_fn'', value_and_max (ot_requests_per_fn_max this) (Throttle_requests_per_fn_max tc)
                         ''requests made calling single function''),
                      (''received'', value_and_max (ot_data_received this) (Throttle_data_received tc) ''bytes received'')])]),
               comment)))"

datatype status_value = StatusStr string | StatusBool bool | StatusFloat f64

definition old_megabytes :: "int \<Rightarrow> string" where
  "old_megabytes n = fixed2 itoa (fdiv (fdiv (f_of_int n) 1000) 1000) @ ''MB''"

definition GetThrottledStatus :: "old_limits \<Rightarrow> old_throttle \<Rightarrow> (string, status_value) gomap" where
  "GetThrottledStatus tc this =
     (let (throttled_data, comment) = IsThrottled tc this
      in if \<not> throttling_enabled this then
           [(''throttled_comment'', StatusStr comment), (''is_throttled'', StatusBool False), (''p_capacity_used'', StatusFloat 0)]
         else
           [(''throttled_comment'', StatusStr comment), (''is_throttled'', StatusBool (throttled_data \<noteq> None)),
            (''p_capacity_used'', StatusFloat (GetUsedCapacity tc this)),
            (''throttle_0'', StatusStr (''Throttle requests (last '' @ itoa (Throttle_s_requests tc) @ '' seconds): ''
               @ itoa (ot_requests this) @ ''/'' @ itoa (Throttle_requests tc))),
            (''throttle_1'', StatusStr (''Throttle requests for single method (last '' @ itoa (Throttle_s_requests_per_fn_max tc)
               @ '' seconds): '' @ itoa (ot_requests_per_fn_max this) @ ''/'' @ itoa (Throttle_requests_per_fn_max tc))),
            (''throttle_2'', StatusStr (''Throttle data received (last '' @ itoa (Throttle_s_data_received tc) @ '' seconds): ''
               @ old_megabytes (ot_data_received this) @ '' / '' @ old_megabytes (Throttle_data_received tc)))])"

text \<open>It refuses exactly when a counter has reached its limit.\<close>

lemma old_throttled_iff:
  "fst (IsThrottled tc this) \<noteq> None \<longleftrightarrow> throttling_enabled this \<and>
     (ot_requests this \<ge> Throttle_requests tc \<or> ot_requests_per_fn_max this \<ge> Throttle_requests_per_fn_max tc \<or>
      ot_data_received this \<ge> Throttle_data_received tc)"
  by (auto simp: IsThrottled_def throttled_comment_def Let_def)

lemma status_agrees:
  "map_of (GetThrottledStatus tc this) ''is_throttled'' = Some (StatusBool (fst (IsThrottled tc this) \<noteq> None))"
  by (auto simp: GetThrottledStatus_def IsThrottled_def Let_def split: prod.split)

subsection \<open>Helpers\<close>

text \<open>\<open>TimeSpan\<close>: the time since \<open>started\<close>, in nanoseconds.\<close>

definition TimeSpan_GetRaw :: "int \<Rightarrow> int \<Rightarrow> f64" where
  "TimeSpan_GetRaw started now = fdiv (f_of_int (now - started)) (f_of_int 1000000)"

definition TimeSpan_GetRawUS :: "int \<Rightarrow> int \<Rightarrow> f64" where
  "TimeSpan_GetRawUS started now = fdiv (f_of_int (now - started)) (f_of_int 1000)"

definition TimeSpan_Get :: "int \<Rightarrow> int \<Rightarrow> string" where
  "TimeSpan_Get started now = fixed_sgn 3 (fdiv (f_of_int (now - started)) (f_of_int 1000000)) @ ''ms''"

definition TimeSpan_GetUS :: "int \<Rightarrow> int \<Rightarrow> string" where
  "TimeSpan_GetUS started now = fixed_sgn 3 (fdiv (f_of_int (now - started)) (f_of_int 1000)) @ ''us''"

definition implode :: "string \<Rightarrow> string list \<Rightarrow> string" where
  "implode glue str = go_join glue str"

definition trim :: "string \<Rightarrow> string" where
  "trim str = go_trim [CHR 0x0D, CHR 0x0A, CHR 0x09, CHR '' ''] str"

fun in_array :: "string list \<Rightarrow> string \<Rightarrow> bool" where
  "in_array [] needle = False"
| "in_array (v # vs) needle = (if v = needle then True else in_array vs needle)"

lemma in_array_mem: "in_array arr needle \<longleftrightarrow> needle \<in> set arr"
  by (induction arr) auto

end
