(* ===== verification/MaintTimer.thy ===== *)
theory MaintTimer
  imports ClientCorrect
begin

text \<open>
  The two timers that \<open>_maintenance\<close> leaves running, with everything that happens to the client
  between their wake-ups, and what follows for the health verdict. A timer reads the clock,
  sleeps for a part of a second and works only if the second has changed meanwhile. As long as no
  second is missed the statistics ring of the client is exact: what it holds for the last seconds is
  what the counters for all time have gained in them. A missed second brings the requests of a
  minute ago back.
\<close>

subsection \<open>The timers\<close>

text \<open>One round of the statistics loop: \<open>a\<close> and \<open>b\<close> are the seconds read before and after the sleep.\<close>

definition maint_pass :: "int \<Rightarrow> int \<Rightarrow> solclient \<Rightarrow> bool \<times> solclient" where
  "maint_pass a b this = (if a \<ge> b then (False, this) else maint_stat b this)"

definition probe_pass :: "net \<Rightarrow> int \<Rightarrow> int \<Rightarrow> solclient \<Rightarrow> solclient go" where
  "probe_pass w a b this = (if a \<ge> b then Inr this else probe_tick w b this)"

text \<open>
  What can happen to a client, one critical section each: a round of the timer, the two halves of a
  request, an answer with a foreign serial number, an administrator's pause, and the fields that
  the probing calls fill in.
\<close>

datatype client_event =
    Pass int int
  | Send string
  | Call net string
  | Mismatch
  | Pause bool string
  | FirstBlock int int
  | LastBlock int int
  | Core string int
  | Version int int string

fun client_step :: "client_event \<Rightarrow> solclient \<Rightarrow> solclient go" where
  "client_step (Pass a b) c = Inr (snd (maint_pass a b c))"
| "client_step (Send m) c = Inr (snd (begin_request m c))"
| "client_step (Call w post) c = go_bind (docall w post c) (\<lambda>(_, c'). Inr c')"
| "client_step Mismatch c = Inr (bump (\<lambda>s. s\<lparr>st_error_resp := st_error_resp s + 1\<rparr>) c)"
| "client_step (Pause b cmt) c = Inr (SetPaused c b cmt)"
| "client_step (FirstBlock v ts) c = Inr (c\<lparr>available_block_first := v, available_block_first_ts := ts\<rparr>)"
| "client_step (LastBlock v ts) c = Inr (c\<lparr>available_block_last := v, available_block_last_ts := ts\<rparr>)"
| "client_step (Core v ts) c = Inr (c\<lparr>version := v, version_ts := ts\<rparr>)"
| "client_step (Version a b v) c = Inr (c\<lparr>version_major := a, version_minor := b, version := v\<rparr>)"

fun client_run :: "client_event list \<Rightarrow> solclient \<Rightarrow> solclient go" where
  "client_run [] c = Inr c"
| "client_run (e # es) c = go_bind (client_step e c) (client_run es)"

fun is_tick :: "client_event \<Rightarrow> bool" where
  "is_tick (Pass a b) = (a < b)"
| "is_tick _ = False"

definition ticks :: "client_event list \<Rightarrow> nat" where
  "ticks es = length (filter is_tick es)"

text \<open>
  A history in which the timer keeps up: every round reads the second at which the round before it
  ended, and no sleep ends more than a second later.
\<close>

fun paced :: "int \<Rightarrow> client_event list \<Rightarrow> bool" where
  "paced t [] = True"
| "paced t (Pass a b # es) = (a = t \<and> (b = t \<or> b = t + 1) \<and> paced b es)"
| "paced t (_ # es) = paced t es"

lemma ticks_simps [simp]:
  "ticks [] = 0" "ticks (e # es) = (if is_tick e then Suc (ticks es) else ticks es)"
  "ticks (es @ es') = ticks es + ticks es'"
  by (simp_all add: ticks_def)

lemma client_run_append: "client_run (es @ es') c = go_bind (client_run es c) (client_run es')"
  by (induction es arbitrary: c) (simp_all add: go_bind_def split: sum.splits)

subsection \<open>The ring and the counters for all time\<close>

definition adds :: "(cstat \<Rightarrow> int) \<Rightarrow> (cstat \<Rightarrow> cstat) \<Rightarrow> bool" where
  "adds f g \<longleftrightarrow> (\<exists>d. \<forall>s. f (g s) = f s + d)"

text \<open>How much more the ring holds for \<open>n\<close> seconds than the counter for all time.\<close>

definition surplus :: "(cstat \<Rightarrow> int) \<Rightarrow> nat \<Rightarrow> solclient \<Rightarrow> int" where
  "surplus f n c = window_sum f c n - f (stat_total c)"

lemma surplus_cong:
  "stat_last_60 c' = stat_last_60 c \<Longrightarrow> stat_last_60_pos c' = stat_last_60_pos c \<Longrightarrow>
    stat_total c' = stat_total c \<Longrightarrow> surplus f n c' = surplus f n c"
  by (simp add: surplus_def window_sum_def)

lemma slot_apart:
  assumes "0 \<le> p" "p < (60::int)" "i < 59"
  shows "nat ((p - int (Suc i)) mod 60) \<noteq> nat p"
proof
  assume "nat ((p - int (Suc i)) mod 60) = nat p"
  then have "(p - int (Suc i)) mod 60 = p mod 60" using assms(1,2) by simp
  then have "60 dvd (p - int (Suc i)) - p" by (simp only: mod_eq_dvd_iff)
  then have "60 dvd int (Suc i)" by presburger
  then show False using assms(3) zdvd_imp_le [of 60 "int (Suc i)"] by simp
qed

lemma surplus_bump:
  assumes "adds f g" "cl_ok c" "1 \<le> n" "n \<le> 60"
  shows "surplus f n (bump g c) = surplus f n c"
proof -
  let ?p = "stat_last_60_pos c"
  obtain d where d: "\<And>s. f (g s) = f s + d" using assms(1) unfolding adds_def by blast
  obtain m where m: "n = Suc m" using assms(3) by (cases n) auto
  have p: "0 \<le> ?p" "?p < 60" "length (stat_last_60 c) = 60" using assms(2) by (simp_all add: cl_ok_def)
  have ring: "stat_last_60 (bump g c) = (stat_last_60 c)[nat ?p := g (stat_last_60 c ! nat ?p)]"
    by (simp add: bump_def Let_def)
  have rest: "f (stat_last_60 (bump g c) ! nat ((?p - int (Suc i)) mod 60)) =
      f (stat_last_60 c ! nat ((?p - int (Suc i)) mod 60))" if "i < m" for i
    using slot_apart [OF p(1,2), of i] that m assms(4) by (simp add: ring)
  have "f (stat_last_60 (bump g c) ! nat (?p mod 60)) = f (stat_last_60 c ! nat (?p mod 60)) + d"
    using p by (simp add: ring d)
  with rest have "window_sum f (bump g c) n = window_sum f c n + d"
    unfolding window_sum_def m
    by (simp add: sum.lessThan_Suc_shift del: sum.lessThan_Suc of_nat_Suc)
  then show ?thesis by (simp add: surplus_def d)
qed

lemma maint_stat_ring:
  assumes "0 \<le> now"
  shows "stat_last_60 (snd (maint_stat now c)) = (stat_last_60 c)[nat (now mod 60) := empty_cstat]"
    "stat_last_60_pos (snd (maint_stat now c)) = now mod 60"
    "probe_time (snd (maint_stat now c)) = probe_time c"
  using assms by (simp_all add: maint_stat_def Let_def split: prod.split)

lemma surplus_tick:
  assumes "f empty_cstat = 0" "cl_ok c" "0 \<le> t" "stat_last_60_pos c = t mod 60 \<or> n = 0" "n < 60"
  shows "surplus f (Suc n) (snd (maint_stat (t + 1) c)) = surplus f n c"
proof -
  let ?c = "snd (maint_stat (t + 1) c)" and ?p = "(t + 1) mod 60"
  have l: "length (stat_last_60 c) = 60" using assms(2) by (simp add: cl_ok_def)
  have b: "0 \<le> ?p" "?p < 60" by simp_all
  then have np: "nat ?p < 60" by (simp add: nat_less_iff)
  have pos: "stat_last_60_pos ?c = ?p"
    and ring: "stat_last_60 ?c = (stat_last_60 c)[nat ?p := empty_cstat]"
    using assms(3) by (simp_all add: maint_stat_ring)
  have first: "f (stat_last_60 ?c ! nat (?p mod 60)) = 0" using l np assms(1) by (simp add: ring)
  have rest: "f (stat_last_60 ?c ! nat ((?p - int (Suc i)) mod 60)) =
      f (stat_last_60 c ! nat ((stat_last_60_pos c - int i) mod 60))" if "i < n" for i
  proof -
    have "stat_last_60_pos c = t mod 60" using assms(4) that by simp
    moreover have "(?p - int (Suc i)) mod 60 = (t mod 60 - int i) mod 60"
      by (simp add: mod_diff_left_eq)
    moreover have "nat ((?p - int (Suc i)) mod 60) \<noteq> nat ?p"
      using slot_apart [OF b] that assms(5) by simp
    ultimately show ?thesis by (simp add: ring)
  qed
  have "window_sum f ?c (Suc n) = window_sum f c n"
    unfolding window_sum_def pos sum.lessThan_Suc_shift using first rest by simp
  then show ?thesis by (simp add: surplus_def)
qed

text \<open>What the ring needs to know of a counter: every change the requests make adds to it.\<close>

locale ring_counter =
  fixes f :: "cstat \<Rightarrow> int"
  assumes f_empty: "f empty_cstat = 0"
    and f_count: "adds f (count_call m)"
    and f_req: "adds f (\<lambda>s. s\<lparr>st_error_req := st_error_req s + 1\<rparr>)"
    and f_resp: "adds f (\<lambda>s. s\<lparr>st_error_resp := st_error_resp s + 1\<rparr>)"
    and f_read: "adds f (\<lambda>s. s\<lparr>st_error_resp_read := st_error_resp_read s + 1\<rparr>)"
    and f_traffic: "adds f (add_traffic took received sent)"
begin

lemma surplus_begin:
  assumes "cl_ok c" "1 \<le> n" "n \<le> 60"
  shows "surplus f n (snd (begin_request m c)) = surplus f n c"
proof -
  let ?g = "c\<lparr>throttle_grp := snd (group_OnRequest (throttle_grp c) m)\<rparr>"
  have "surplus f n (bump (count_call m) ?g) = surplus f n ?g"
    using assms f_count by (intro surplus_bump) (simp_all add: cl_ok_def)
  moreover have "surplus f n ?g = surplus f n c" by (rule surplus_cong) simp_all
  ultimately show ?thesis
    by (auto simp: begin_request_def Let_def surplus_def window_sum_def)
qed

lemma surplus_charge:
  assumes "cl_ok c" "1 \<le> n" "n \<le> 60" "adds f g"
  shows "surplus f n (stop_running (bump g c)) = surplus f n c"
    "surplus f n (stop_running (bump g (set_last_error e c))) = surplus f n c"
proof -
  have "surplus f n (stop_running (bump g d)) = surplus f n d" if "cl_ok d" for d
    using surplus_bump [OF assms(4) that assms(2,3)] by (subst surplus_cong [of _ "bump g d"]) simp_all
  moreover have "cl_ok (set_last_error e c)" using assms(1) by (simp add: cl_ok_def)
  moreover have "surplus f n (set_last_error e c) = surplus f n c" by (rule surplus_cong) simp_all
  ultimately show "surplus f n (stop_running (bump g c)) = surplus f n c"
    "surplus f n (stop_running (bump g (set_last_error e c))) = surplus f n c"
    using assms(1) by simp_all
qed

lemma surplus_docall:
  assumes "docall w post c = Inr (r, c')" "cl_ok c" "1 \<le> n" "n \<le> 60"
  shows "surplus f n c' = surplus f n c"
proof -
  note charge = surplus_charge [OF assms(2-4)]
  have t: "surplus f n ((stop_running (bump (add_traffic a b d) c))\<lparr>throttle_grp := g\<rparr>) = surplus f n c" for a b d g
    using charge(1) [OF f_traffic] by (subst surplus_cong [of _ "stop_running (bump (add_traffic a b d) c)"]) simp_all
  show ?thesis
    using assms(1) charge(1) [OF f_req] charge(2) [OF f_resp] charge(2) [OF f_read] t
    by (auto simp: docall_def Let_def split: if_splits option.splits)
qed

lemma surplus_step:
  assumes "client_step e c = Inr c'" "cl_ok c" "1 \<le> n" "n + ticks [e] \<le> 60" "0 \<le> t"
    "stat_last_60_pos c = t mod 60" "paced t [e]"
  shows "surplus f (n + ticks [e]) c' = surplus f n c"
proof (cases e)
  case (Pass a b)
  then show ?thesis
    using assms surplus_tick [of f c t n] f_empty by (auto simp: maint_pass_def split: if_splits)
next
  case (Call w post)
  with assms show ?thesis by (cases "docall w post c") (auto intro: surplus_docall)
next
  case (Send m)
  with assms show ?thesis by (auto simp: surplus_begin)
next
  case (Pause b cmt)
  with assms show ?thesis
    by (auto simp: SetPaused_def Let_def intro!: surplus_cong)
next
  case Mismatch
  with assms show ?thesis by (auto intro!: surplus_bump f_resp)
qed (use assms in \<open>auto intro!: surplus_cong\<close>)

end

interpretation done_ring: ring_counter st_done
  by unfold_locales (auto simp: adds_def empty_cstat_def count_call_def add_traffic_def)

interpretation error_ring: ring_counter error_of
  by unfold_locales
    (auto simp: adds_def empty_cstat_def count_call_def add_traffic_def error_of_def
      intro: exI [of _ 0] exI [of _ 1])

interpretation sent_ring: ring_counter st_bytes_sent
  by unfold_locales (auto simp: adds_def empty_cstat_def count_call_def add_traffic_def)

subsection \<open>Any history that keeps up\<close>

text \<open>The second in which a history ends.\<close>

fun end_second :: "int \<Rightarrow> client_event list \<Rightarrow> int" where
  "end_second t [] = t"
| "end_second t (Pass a b # es) = end_second b es"
| "end_second t (_ # es) = end_second t es"

lemma paced_Cons: "paced t (e # es) \<longleftrightarrow> paced t [e] \<and> paced (end_second t [e]) es"
  by (cases e) auto

lemma end_second_ge: "paced t [e] \<Longrightarrow> t \<le> end_second t [e]"
  by (cases e) auto

lemma step_keeps:
  assumes "client_step e c = Inr c'" "cl_ok c" "0 \<le> t" "stat_last_60_pos c = t mod 60" "paced t [e]"
  shows "cl_ok c'" "stat_last_60_pos c' = end_second t [e] mod 60"
proof -
  have "cl_ok c' \<and> stat_last_60_pos c' = end_second t [e] mod 60"
  proof (cases e)
    case (Pass a b)
    with assms show ?thesis
      by (auto simp: maint_pass_def maint_stat_ring cl_ok_maint split: if_splits)
  next
    case (Call w post)
    with assms obtain r where d: "docall w post c = Inr (r, c')" by (cases "docall w post c") auto
    have "stat_last_60_pos c' = stat_last_60_pos c"
      using d by (auto simp: docall_def Let_def split: if_splits option.splits)
    with docall_effect(4) [OF d assms(2)] Call assms(4) show ?thesis by simp
  qed (use assms in \<open>auto simp: cl_ok_def begin_request_def SetPaused_def Let_def split: if_splits\<close>)
  then show "cl_ok c'" "stat_last_60_pos c' = end_second t [e] mod 60" by simp_all
qed

lemma step_probe_time: "client_step e c = Inr c' \<Longrightarrow> probe_time c' = probe_time c"
proof (cases e)
  case (Pass a b)
  then show "client_step e c = Inr c' \<Longrightarrow> probe_time c' = probe_time c"
    by (auto simp: maint_pass_def maint_stat_def Let_def split: prod.splits)
next
  case (Call w post)
  then show "client_step e c = Inr c' \<Longrightarrow> probe_time c' = probe_time c"
    by (auto simp: docall_def stop_running_def set_last_error_def Let_def go_bind_def
        split: if_splits option.splits sum.splits)
qed (auto simp: begin_request_def SetPaused_def Let_def)

lemma run_probe_time: "client_run es c = Inr c' \<Longrightarrow> probe_time c' = probe_time c"
  by (induction es arbitrary: c) (auto simp: go_bind_def step_probe_time split: sum.splits)

context ring_counter
begin

lemma surplus_run:
  assumes "client_run es c = Inr c'" "cl_ok c" "1 \<le> n" "n + ticks es \<le> 60" "0 \<le> t"
    "stat_last_60_pos c = t mod 60" "paced t es"
  shows "surplus f (n + ticks es) c' = surplus f n c"
  using assms
proof (induction es arbitrary: c n t)
  case (Cons e es)
  from Cons.prems(1) obtain d where d: "client_step e c = Inr d" "client_run es d = Inr c'"
    by (cases "client_step e c") auto
  let ?t = "end_second t [e]"
  have p: "paced t [e]" "paced ?t es" using Cons.prems(7) paced_Cons by blast+
  note keep = step_keeps [OF d(1) Cons.prems(2,5,6) p(1)]
  have n: "n + ticks [e] + ticks es = n + ticks (e # es)" by simp
  have "surplus f (n + ticks [e] + ticks es) c' = surplus f (n + ticks [e]) d"
    using Cons.prems(3-5) end_second_ge [OF p(1)]
    by (intro Cons.IH [OF d(2) keep(1) _ _ _ keep(2) p(2)]) auto
  also have "\<dots> = surplus f n c"
    using Cons.prems(4)
    by (intro surplus_step [OF d(1) Cons.prems(2,3) _ Cons.prems(5,6) p(1)]) (simp split: if_splits)
  finally show ?case by (simp only: n)
qed simp

text \<open>From its first tick on, the ring holds what the counter for all time has gained.\<close>

lemma window_exact:
  assumes "client_run (Pass t (t + 1) # es) c = Inr c'" "cl_ok c" "0 \<le> t"
    "paced t (Pass t (t + 1) # es)" "ticks (Pass t (t + 1) # es) = n" "n \<le> 60"
  shows "window_sum f c' n = f (stat_total c') - f (stat_total c)"
proof -
  let ?d = "snd (maint_stat (t + 1) c)"
  have r: "client_run es ?d = Inr c'" using assms(1) by (simp add: maint_pass_def)
  have "surplus f (1 + ticks es) c' = surplus f 1 ?d"
    using assms by (intro surplus_run [OF r, of 1 "t + 1"]) (simp_all add: cl_ok_maint maint_stat_ring)
  also have "\<dots> = surplus f 0 c"
    using surplus_tick [of f c t 0] f_empty assms(2,3) by simp
  finally have "surplus f n c' = surplus f 0 c" using assms(5) by simp
  then show ?thesis by (simp add: surplus_def window_sum_def)
qed

end

lemma run_ok:
  assumes "client_run es c = Inr c'" "cl_ok c" "0 \<le> t" "stat_last_60_pos c = t mod 60" "paced t es"
  shows "cl_ok c'"
  using assms
proof (induction es arbitrary: c t)
  case (Cons e es)
  from Cons.prems(1) obtain d where d: "client_step e c = Inr d" "client_run es d = Inr c'"
    by (cases "client_step e c") auto
  have p: "paced t [e]" "paced (end_second t [e]) es" using Cons.prems(5) paced_Cons by blast+
  note keep = step_keeps [OF d(1) Cons.prems(2-4) p(1)]
  show ?case
    using Cons.prems(3) end_second_ge [OF p(1)]
    by (intro Cons.IH [OF d(2) keep(1) _ keep(2) p(2)]) simp
qed simp

lemma last_tick_verdict:
  assumes "client_run es c = Inr c'" "es \<noteq> []" "is_tick (last es)"
  shows "is_disabled c' = fst (statsIsDead c')"
proof -
  from assms(2) have e: "es = butlast es @ [last es]" by simp
  obtain a b where l: "last es = Pass a b" "a < b" using assms(3) by (cases "last es") auto
  from assms(1) obtain d where "client_run (butlast es) c = Inr d" "client_step (last es) d = Inr c'"
    by (subst (asm) e, unfold client_run_append, cases "client_run (butlast es) c") (auto simp: go_bind_def split: sum.splits)
  with l show ?thesis by (auto simp: maint_pass_def maint_stat_verdict)
qed

text \<open>
  C8. The verdict on a node, over any history of its client in which the statistics timer misses no
  second. Take the last 30 to 60 ticks (twice the probe time): the requests and the errors that
  \<open>_statsIsDead\<close> adds up from its ring are exactly what the counters for all time have gained since
  the first of these ticks, whatever the order of the requests and rounds between them. The node is dead
  when at least a fifth of these requests failed; without probing it takes more than a fifth, so
  that a node nobody asked is alive, while a probed node that answered nothing is dead. After a
  tick \<open>is_disabled\<close> is this verdict.
\<close>

theorem health_counts_recent:
  assumes "cl_ok c0" "0 \<le> t" "paced t (Pass t (t + 1) # es)"
    "client_run (Pass t (t + 1) # es) c0 = Inr c"
    "ticks (Pass t (t + 1) # es) = nat (isalive_seconds (probe_time c))"
    "statsIsDead c = (dead, reqs, errs, lg)"
  shows "reqs = st_done (stat_total c) - st_done (stat_total c0) \<and>
    errs = error_of (stat_total c) - error_of (stat_total c0) \<and>
    (probe_time c > 0 \<longrightarrow> (dead \<longleftrightarrow> reqs \<le> 5 * errs)) \<and>
    (probe_time c = 0 \<longrightarrow> (dead \<longleftrightarrow> reqs < 5 * errs)) \<and>
    (probe_time c < 0 \<longrightarrow> \<not> dead) \<and>
    (is_tick (last (Pass t (t + 1) # es)) \<longrightarrow> is_disabled c = dead)"
proof -
  let ?d = "snd (maint_stat (t + 1) c0)" and ?n = "nat (isalive_seconds (probe_time c))"
  have n: "?n \<le> 60" using isalive_range [of "probe_time c"] by simp
  have r: "client_run es ?d = Inr c" using assms(4) by (simp add: maint_pass_def)
  have "cl_ok c"
    using assms(1-3) by (intro run_ok [OF r, of "t + 1"]) (simp_all add: cl_ok_maint maint_stat_ring)
  note v = health_verdict [OF this assms(6)]
  have "is_tick (last (Pass t (t + 1) # es)) \<longrightarrow> is_disabled c = dead"
    using last_tick_verdict [OF assms(4)] assms(6) by simp
  with v done_ring.window_exact [OF assms(4,1,2,3,5) n] error_ring.window_exact [OF assms(4,1,2,3,5) n]
  show ?thesis by simp
qed

text \<open>A single request sent in thirty seconds that has not failed keeps a probed node in service.\<close>

lemma passes_run:
  "\<exists>c'. client_run (map (\<lambda>i. Pass (int i) (int i + 1)) is) c = Inr c' \<and> stat_total c' = stat_total c"
proof (induction "is" arbitrary: c)
  case (Cons i "is")
  have "stat_total (snd (maint_pass (int i) (int i + 1) c)) = stat_total c"
    by (simp add: maint_pass_def)
  with Cons [of "snd (maint_pass (int i) (int i + 1) c)"] show ?case by simp
qed simp

lemma passes_paced: "paced (int k) (map (\<lambda>i. Pass (int i) (int i + 1)) [k..<k + n])"
proof (induction n arbitrary: k)
  case (Suc n)
  have "[k..<k + Suc n] = k # [Suc k..<Suc k + n]" by (simp add: upt_conv_Cons del: upt_Suc)
  with Suc [of "Suc k"] show ?case by (simp add: add.commute)
qed simp

lemma passes_ticks: "ticks (map (\<lambda>i. Pass (int i) (int i + 1)) is) = length is"
  by (induction "is") simp_all

lemma health_counts_recent_witness:
  "\<exists>c. client_run (Pass 0 1 # Send ''getSlot'' # map (\<lambda>i. Pass (int i) (int i + 1)) [1..<30]) sample_client = Inr c \<and>
     fst (snd (statsIsDead c)) = 1 \<and> \<not> is_disabled c"
proof -
  let ?es = "Send ''getSlot'' # map (\<lambda>i. Pass (int i) (int i + 1)) [1..<30]"
  let ?c1 = "snd (maint_stat 1 sample_client)"
  let ?c2 = "snd (begin_request ''getSlot'' ?c1)"
  from passes_run [of "[1..<30]" ?c2] obtain c where
    c: "client_run (map (\<lambda>i. Pass (int i) (int i + 1)) [1..<30]) ?c2 = Inr c" "stat_total c = stat_total ?c2"
    by blast
  have run: "client_run (Pass 0 (0 + 1) # ?es) sample_client = Inr c" using c(1) by (simp add: maint_pass_def)
  have "throttle_grp ?c1 = []"
    by (simp add: maint_stat_def sample_client_def fresh_client_def group_OnMaintenance_def Let_def split: prod.split)
  then have "fst (begin_request ''getSlot'' ?c1)"
    by (simp add: begin_request_def group_GetThrottleScore_def Let_def)
  then have "stat_total ?c2 = count_call ''getSlot'' (stat_total sample_client)"
    using begin_accepted(3) [of "''getSlot''" ?c1 ?c2] by (metis maint_stat_simps(2) prod.collapse)
  then have tot: "st_done (stat_total c) = st_done (stat_total sample_client) + 1"
    "error_of (stat_total c) = error_of (stat_total sample_client)"
    by (simp_all add: c(2) count_call_def error_of_def)
  have pt: "probe_time c = 5"
    using run_probe_time [OF run] by (simp add: sample_client_def fresh_client_def)
  have paced: "paced 0 (Pass 0 (0 + 1) # ?es)" using passes_paced [of 1 29] by simp
  have n: "ticks (Pass 0 (0 + 1) # ?es) = nat (isalive_seconds (probe_time c))"
    by (simp add: passes_ticks pt isalive_seconds_def)
  obtain d r e lg where v: "statsIsDead c = (d, r, e, lg)" by (metis prod_cases4)
  have "is_tick (last (Pass 0 (0 + 1) # ?es))" by (simp add: last_map)
  with health_counts_recent [OF sample_cl_ok _ paced run n v] tot pt v run show ?thesis by auto
qed

subsection \<open>A missed second\<close>

text \<open>
  A round is missed when the second changes between two readings of the clock that no sleep
  separates: the work of a round, or the wait for the lock, ends in the next second and the loop
  reads that second as its new start. The slot of the missed second is then not cleared, and the window
  of the last two seconds holds the requests of the second 59 before the last good one.
\<close>

theorem missed_second_recounted:
  assumes "cl_ok c" "0 \<le> t" "stat_last_60_pos c = t mod 60" "f empty_cstat = 0"
  shows "window_sum f (snd (maint_pass (t + 1) (t + 2) c)) 2 =
    f (stat_last_60 c ! nat ((stat_last_60_pos c - 59) mod 60))"
proof -
  let ?c = "snd (maint_pass (t + 1) (t + 2) c)" and ?p = "(t + 2) mod 60"
  have b: "0 \<le> ?p" "?p < 60" by simp_all
  then have l: "nat ?p < length (stat_last_60 c)" using assms(1) by (simp add: cl_ok_def nat_less_iff)
  have ring: "stat_last_60 ?c = (stat_last_60 c)[nat ?p := empty_cstat]" "stat_last_60_pos ?c = ?p"
    using assms(2) by (simp_all add: maint_pass_def maint_stat_ring)
  have minute_ago: "(?p - int (Suc 0)) mod 60 = (t mod 60 - 59) mod 60"
  proof -
    have "(t + 2 - 1) mod 60 = (t - 59) mod 60"
      by (intro mod_eq_dvd_iff [THEN iffD2]) simp
    then have "(?p - 1) mod 60 = (t mod 60 - 59) mod 60" by (simp only: mod_diff_left_eq)
    then show ?thesis by (simp only: of_nat_1 flip: One_nat_def)
  qed
  have "window_sum f ?c 2 = f (stat_last_60 ?c ! nat (?p mod 60)) + f (stat_last_60 ?c ! nat ((?p - int (Suc 0)) mod 60))"
    by (simp add: window_sum_def numeral_2_eq_2 ring(2))
  also have "f (stat_last_60 ?c ! nat (?p mod 60)) = 0" using l assms(4) by (simp add: ring(1))
  also have "stat_last_60 ?c ! nat ((?p - int (Suc 0)) mod 60) = stat_last_60 c ! nat ((?p - int (Suc 0)) mod 60)"
    using slot_apart [OF b, of 0] by (simp add: ring(1))
  finally show ?thesis unfolding minute_ago assms(3) by simp
qed

subsection \<open>The probing loop\<close>

text \<open>In three probe times each of the three calls has one second, and none of them shares it.\<close>

theorem probe_one_call:
  assumes "probe_time c = pt" "0 < pt" "0 \<le> a" "a < b"
  shows "probe_pass w a b c =
    (if b mod (3 * pt) = 0 then update_version w c
     else if b mod (3 * pt) = pt then update_first_block w c
     else if b mod (3 * pt) = 2 * pt then update_last_block w c
     else Inr c)"
  using assms by (auto simp: probe_pass_def probe_tick_def Let_def mult.commute go_bind_def split: sum.split)

end
